(* ===== verification/Prelude.thy ===== *)
theory Prelude
  imports Main "HOL-Library.Word" "HOL-Library.State_Monad"
begin

text \<open>
  Shared vocabulary of the development.

  \<^item> Strings are Rust \<open>String\<close>s as their UTF-8 bytes, one \<open>char\<close> per byte, so \<open>length\<close> is
    \<open>str::len\<close>; raw byte vectors are lists of 8-bit words.
  \<^item> A stateful operation is a \<open>('s, 'a) state\<close> of HOL-Library.State_Monad. A fallible one returns
    \<open>'e + 'a\<close>, and \<open>try_bind\<close> is Rust's \<open>?\<close>: it returns the error at once.
  \<^item> \<open>preserves I m\<close> says that the operation keeps the invariant \<open>I\<close>, with one rule per program
    construct, so an invariant of a handler is proved by following its code.
  \<^item> A SQL table is the list of its rows. \<open>select_first\<close>, \<open>delete_where\<close>, \<open>update_where\<close> and
    \<open>insert_unique\<close> are the row operations the statements of the source are made of.
  \<^item> The locale \<open>machine\<close> is the contract of a step relation with an inductive invariant.
\<close>

named_theorems exec_simps
  \<open>equations that run an operation of the model on a state\<close>

named_theorems preserves_intros
  \<open>rules that carry an invariant through the program constructs\<close>

type_synonym bytes = "8 word list"

section \<open>Early returns\<close>

definition try_bind ::
  "('s, 'e + 'a) state \<Rightarrow> ('a \<Rightarrow> ('s, 'e + 'b) state) \<Rightarrow> ('s, 'e + 'b) state" where
  "try_bind m f = do { r \<leftarrow> m; case r of Inl e \<Rightarrow> State_Monad.return (Inl e) | Inr a \<Rightarrow> f a }"

definition gets :: "('s \<Rightarrow> 'a) \<Rightarrow> ('s, 'a) state" where
  "gets f = State (\<lambda>s. (f s, s))"

definition modify :: "('s \<Rightarrow> 's) \<Rightarrow> ('s, unit) state" where
  "modify f = State (\<lambda>s. ((), f s))"

lemma run_try_bind [exec_simps]:
  "run_state (try_bind m f) s =
     (case run_state m s of (Inl e, s') \<Rightarrow> (Inl e, s') | (Inr a, s') \<Rightarrow> run_state (f a) s')"
  by (simp add: try_bind_def split: prod.splits sum.splits)

lemma run_gets [exec_simps]: "run_state (gets f) s = (f s, s)"
  by (simp add: gets_def)

lemma run_modify [exec_simps]: "run_state (modify f) s = ((), f s)"
  by (simp add: modify_def)

lemma run_if [exec_simps]:
  "run_state (if b then m else n) s = (if b then run_state m s else run_state n s)"
  by simp

lemma run_case_option [exec_simps]:
  "run_state (case x of None \<Rightarrow> m | Some y \<Rightarrow> f y) s =
     (case x of None \<Rightarrow> run_state m s | Some y \<Rightarrow> run_state (f y) s)"
  by (simp split: option.splits)

lemma run_case_sum [exec_simps]:
  "run_state (case x of Inl a \<Rightarrow> f a | Inr b \<Rightarrow> g b) s =
     (case x of Inl a \<Rightarrow> run_state (f a) s | Inr b \<Rightarrow> run_state (g b) s)"
  by (simp split: sum.splits)

lemma run_case_prod [exec_simps]:
  "run_state (case x of (a, b) \<Rightarrow> f a b) s = (case x of (a, b) \<Rightarrow> run_state (f a b) s)"
  by (simp split: prod.splits)

lemma run_let [exec_simps]: "run_state (Let x f) s = (let y = x in run_state (f y) s)"
  by (simp add: Let_def)

section \<open>Operations that keep an invariant\<close>

definition preserves :: "('s \<Rightarrow> bool) \<Rightarrow> ('s, 'a) state \<Rightarrow> bool" where
  "preserves I m \<longleftrightarrow> (\<forall>s. I s \<longrightarrow> I (snd (run_state m s)))"

lemma preservesI: "(\<And>s. I s \<Longrightarrow> I (snd (run_state m s))) \<Longrightarrow> preserves I m"
  by (simp add: preserves_def)

lemma preservesD: "preserves I m \<Longrightarrow> I s \<Longrightarrow> I (snd (run_state m s))"
  by (simp add: preserves_def)

lemma preservesD_run: "preserves I m \<Longrightarrow> run_state m s = (a, s') \<Longrightarrow> I s \<Longrightarrow> I s'"
  by (drule (1) preservesD) simp

lemma preserves_return [preserves_intros]: "preserves I (State_Monad.return a)"
  by (simp add: preserves_def)

lemma preserves_gets [preserves_intros]: "preserves I (gets f)"
  by (simp add: preserves_def exec_simps)

lemma preserves_modify: "(\<And>s. I s \<Longrightarrow> I (f s)) \<Longrightarrow> preserves I (modify f)"
  by (simp add: preserves_def exec_simps)

lemma preserves_bind [preserves_intros]:
  "preserves I m \<Longrightarrow> (\<And>a. preserves I (f a)) \<Longrightarrow> preserves I (State_Monad.bind m f)"
  by (simp add: preserves_def split: prod.splits) (metis snd_conv)

lemma preserves_try_bind [preserves_intros]:
  "preserves I m \<Longrightarrow> (\<And>a. preserves I (f a)) \<Longrightarrow> preserves I (try_bind m f)"
  by (fastforce simp: preserves_def run_try_bind split: prod.splits sum.splits)

lemma preserves_if [preserves_intros]:
  "(b \<Longrightarrow> preserves I m) \<Longrightarrow> (\<not> b \<Longrightarrow> preserves I n) \<Longrightarrow> preserves I (if b then m else n)"
  by simp

lemma preserves_case_option [preserves_intros]:
  "(x = None \<Longrightarrow> preserves I m) \<Longrightarrow> (\<And>y. x = Some y \<Longrightarrow> preserves I (f y)) \<Longrightarrow>
     preserves I (case x of None \<Rightarrow> m | Some y \<Rightarrow> f y)"
  by (simp split: option.splits)

lemma preserves_case_sum [preserves_intros]:
  "(\<And>a. x = Inl a \<Longrightarrow> preserves I (f a)) \<Longrightarrow> (\<And>b. x = Inr b \<Longrightarrow> preserves I (g b)) \<Longrightarrow>
     preserves I (case x of Inl a \<Rightarrow> f a | Inr b \<Rightarrow> g b)"
  by (simp split: sum.splits)

lemma preserves_case_prod [preserves_intros]:
  "(\<And>a b. x = (a, b) \<Longrightarrow> preserves I (f a b)) \<Longrightarrow> preserves I (case x of (a, b) \<Rightarrow> f a b)"
  by (simp split: prod.splits)

lemma preserves_let [preserves_intros]: "preserves I (f x) \<Longrightarrow> preserves I (let y = x in f y)"
  by simp

text \<open>\<open>yields I m Q\<close>: from a state that satisfies \<open>I\<close> the operation answers something that satisfies \<open>Q\<close>.\<close>

definition yields :: "('s \<Rightarrow> bool) \<Rightarrow> ('s, 'a) state \<Rightarrow> ('a \<Rightarrow> bool) \<Rightarrow> bool" where
  "yields I m Q \<longleftrightarrow> (\<forall>s. I s \<longrightarrow> Q (fst (run_state m s)))"

lemma yieldsI: "(\<And>s. I s \<Longrightarrow> Q (fst (run_state m s))) \<Longrightarrow> yields I m Q"
  by (simp add: yields_def)

lemma preserves_bind_yields:
  "preserves I m \<Longrightarrow> yields I m Q \<Longrightarrow> (\<And>a. Q a \<Longrightarrow> preserves I (f a)) \<Longrightarrow> preserves I (State_Monad.bind m f)"
  by (simp add: preserves_def yields_def split: prod.splits) (metis fst_conv snd_conv)

lemma yields_bind:
  "preserves I m \<Longrightarrow> yields I m P \<Longrightarrow> (\<And>a. P a \<Longrightarrow> yields I (f a) Q) \<Longrightarrow> yields I (State_Monad.bind m f) Q"
  by (simp add: preserves_def yields_def split: prod.splits) (metis fst_conv snd_conv)

section \<open>Tables as lists of rows\<close>

definition select_first :: "'r list \<Rightarrow> 'r option" where
  "select_first rows = (case rows of [] \<Rightarrow> None | r # _ \<Rightarrow> Some r)"

definition delete_where :: "('r \<Rightarrow> bool) \<Rightarrow> 'r list \<Rightarrow> nat \<times> 'r list" where
  "delete_where p rows = (length (filter p rows), filter (\<lambda>r. \<not> p r) rows)"

definition update_where :: "('r \<Rightarrow> bool) \<Rightarrow> ('r \<Rightarrow> 'r) \<Rightarrow> 'r list \<Rightarrow> nat \<times> 'r list" where
  "update_where p f rows = (length (filter p rows), map (\<lambda>r. if p r then f r else r) rows)"

definition insert_unique :: "('r \<Rightarrow> 'k) \<Rightarrow> 'r \<Rightarrow> 'r list \<Rightarrow> 'r list option" where
  "insert_unique key r rows = (if key r \<in> set (map key rows) then None else Some (rows @ [r]))"

definition unique_on :: "('r \<Rightarrow> 'k) \<Rightarrow> 'r list \<Rightarrow> bool" where
  "unique_on key rows \<longleftrightarrow> distinct (map key rows)"

lemma select_first_Some: "select_first rows = Some r \<Longrightarrow> r \<in> set rows"
  by (auto simp: select_first_def split: list.splits)

lemma select_first_None [simp]: "select_first rows = None \<longleftrightarrow> rows = []"
  by (auto simp: select_first_def split: list.splits)

lemma select_first_Nil [simp]: "select_first [] = None"
  by (simp add: select_first_def)

lemma select_first_Cons [simp]: "select_first (r # rows) = Some r"
  by (simp add: select_first_def)

lemma unique_on_Nil [simp]: "unique_on key []"
  by (simp add: unique_on_def)

lemma unique_on_filter: "unique_on key rows \<Longrightarrow> unique_on key (filter p rows)"
  by (simp add: unique_on_def distinct_map_filter)

lemma unique_on_delete: "unique_on key rows \<Longrightarrow> unique_on key (snd (delete_where p rows))"
  by (simp add: delete_where_def unique_on_filter)

lemma unique_on_update:
  assumes "\<And>r. key (f r) = key r" and "unique_on key rows"
  shows "unique_on key (snd (update_where p f rows))"
proof -
  have "map key (map (\<lambda>r. if p r then f r else r) rows) = map key rows"
    by (simp add: assms(1))
  then show ?thesis
    using assms(2) by (simp only: unique_on_def update_where_def snd_conv)
qed

lemma unique_on_insert:
  "insert_unique key r rows = Some rows' \<Longrightarrow> unique_on key rows \<Longrightarrow> unique_on key rows'"
  by (auto simp: insert_unique_def unique_on_def split: if_splits)

lemma unique_onD:
  "unique_on key rows \<Longrightarrow> r \<in> set rows \<Longrightarrow> r' \<in> set rows \<Longrightarrow> key r = key r' \<Longrightarrow> r = r'"
  by (simp add: unique_on_def distinct_map inj_on_def)

text \<open>At most one row of a keyed table can match a predicate that fixes the key.\<close>

lemma filter_key_le_one:
  assumes "unique_on key rows" and "\<And>r. p r \<Longrightarrow> key r = k"
  shows "length (filter p rows) \<le> 1"
proof (cases "filter p rows")
  case (Cons a rest)
  have "distinct (map key (filter p rows))"
    using assms(1) by (simp add: unique_on_def distinct_map_filter)
  moreover have "\<forall>r \<in> set (filter p rows). key r = k"
    using assms(2) by auto
  ultimately have "rest = []"
    using Cons by (cases rest) auto
  with Cons show ?thesis by simp
qed simp

lemma filter_length_one:
  assumes "unique_on key rows" and "\<And>r. p r \<Longrightarrow> key r = k" and "r \<in> set rows" and "p r"
  shows "length (filter p rows) = 1"
proof -
  have "filter p rows \<noteq> []"
    using assms(3,4) by (auto simp: filter_empty_conv)
  then have "length (filter p rows) \<ge> 1"
    by (cases "filter p rows") auto
  with filter_key_le_one [OF assms(1,2), of p] show ?thesis by simp
qed

lemma length_filter_one_ex: "length (filter p rows) = Suc 0 \<Longrightarrow> \<exists>r \<in> set rows. p r"
  by (metis filter_empty_conv length_0_conv nat.simps(3))

lemma count_keyed:
  "unique_on key rows \<Longrightarrow> (\<And>r. p r \<Longrightarrow> key r = k) \<Longrightarrow>
     length (filter p rows) = 1 \<longleftrightarrow> (\<exists>r \<in> set rows. p r)"
  by (metis One_nat_def filter_length_one length_filter_one_ex)

text \<open>A query by key finds the row of that key.\<close>

lemma select_by_key:
  assumes "unique_on key rows" and "r \<in> set rows" and "key r = k"
  shows "select_first (filter (\<lambda>x. key x = k) rows) = Some r"
proof (cases "filter (\<lambda>x. key x = k) rows")
  case Nil
  with assms(2,3) show ?thesis by (auto simp: filter_empty_conv)
next
  case (Cons a rest)
  then have "a \<in> set (filter (\<lambda>x. key x = k) rows)" by simp
  then have "a = r" using assms by (auto intro: unique_onD)
  with Cons show ?thesis by simp
qed

section \<open>Step relations with an inductive invariant\<close>

inductive reach :: "('s \<Rightarrow> bool) \<Rightarrow> ('s \<Rightarrow> 's \<Rightarrow> bool) \<Rightarrow> 's \<Rightarrow> bool"
  for start :: "'s \<Rightarrow> bool" and step :: "'s \<Rightarrow> 's \<Rightarrow> bool" where
  reach_start: "start s \<Longrightarrow> reach start step s"
| reach_step: "reach start step s \<Longrightarrow> step s t \<Longrightarrow> reach start step t"

lemma reach_steps: "step\<^sup>*\<^sup>* s t \<Longrightarrow> reach start step s \<Longrightarrow> reach start step t"
  by (induction rule: rtranclp_induct) (auto intro: reach_step)

locale machine =
  fixes start :: "'s \<Rightarrow> bool"
    and step :: "'s \<Rightarrow> 's \<Rightarrow> bool"
    and inv :: "'s \<Rightarrow> bool"
  assumes start_inv: "start s \<Longrightarrow> inv s"
    and step_inv: "inv s \<Longrightarrow> step s t \<Longrightarrow> inv t"
begin

lemma reach_inv: "reach start step s \<Longrightarrow> inv s"
  by (induction rule: reach.induct) (auto intro: start_inv step_inv)

lemma steps_inv: "step\<^sup>*\<^sup>* s t \<Longrightarrow> inv s \<Longrightarrow> inv t"
  by (induction rule: rtranclp_induct) (auto intro: step_inv)

end

end
