(* ===== verification/World.thy ===== *)
theory World
  imports Prelude
begin

text \<open>
  What lies outside the source tree, as parameters of the model.

  The programs ask their environment for clock readings, random UUIDs and SQL statements. Each such
  request is numbered by the counter \<open>ticks\<close> of the state, and a field of the record \<open>env\<close> says
  what the environment answers at that number. A theorem for every \<open>env\<close> is one for every clock,
  every choice of random values and every pattern of database failures.

  \<^item> \<open>system_time\<close> is \<open>SystemTime::now()\<close> in seconds from the Unix epoch, \<open>instant\<close> is
    \<open>Instant::now()\<close> in nanoseconds from an arbitrary origin, and \<open>instant_min\<close> is the least
    value an \<open>Instant\<close> can hold on the platform (\<open>checked_sub\<close> returns \<open>None\<close> below it).
  \<^item> \<open>sql_ok k\<close> tells whether the statement sent as the \<open>k\<close>-th request reaches the database. One
    that does not returns an error and changes nothing (SQLite statements are atomic).
  \<^item> \<open>sha256\<close>, \<open>bcrypt_hash\<close>, \<open>bcrypt_verify\<close>, \<open>uuid_v4\<close> and \<open>uuid_simple\<close> are the functions of the
    crates sodiumoxide, bcrypt and uuid; the salt of \<open>bcrypt_hash\<close> is drawn at the request number.
\<close>

record env =
  system_time :: "nat \<Rightarrow> int"
  instant :: "nat \<Rightarrow> int"
  instant_min :: int
  sql_ok :: "nat \<Rightarrow> bool"
  uuid_v4 :: "nat \<Rightarrow> bytes"
  uuid_simple :: "bytes \<Rightarrow> string"
  sha256 :: "string \<Rightarrow> bytes"
  bcrypt_hash :: "nat \<Rightarrow> string \<Rightarrow> string option"
  bcrypt_verify :: "string \<Rightarrow> string \<Rightarrow> bool option"

record world =
  ticks :: nat

datatype store_error = SqlFailed | Constraint | Bail string | BcryptFailed

definition tick :: "('w world_scheme, nat) state" where
  "tick = State (\<lambda>s. (ticks s, s\<lparr>ticks := Suc (ticks s)\<rparr>))"

lemma run_tick [exec_simps]: "run_state tick s = (ticks s, s\<lparr>ticks := Suc (ticks s)\<rparr>)"
  by (simp add: tick_def)

text \<open>Request numbers counted from the start of an operation, in the simplifier's normal form.\<close>

lemma ticks_plus:
  "ticks s + 2 = Suc (Suc (ticks s))"
  "ticks s + 3 = Suc (Suc (Suc (ticks s)))"
  "ticks s + 4 = Suc (Suc (Suc (Suc (ticks s))))"
  "ticks s + 5 = Suc (Suc (Suc (Suc (Suc (ticks s)))))"
  "ticks s + 6 = Suc (Suc (Suc (Suc (Suc (Suc (ticks s))))))"
  "ticks s + 7 = Suc (Suc (Suc (Suc (Suc (Suc (Suc (ticks s)))))))"
  "ticks s + 8 = Suc (Suc (Suc (Suc (Suc (Suc (Suc (Suc (ticks s))))))))"
  by simp_all

text \<open>
  Rust's cast \<open>as i64\<close> of an unsigned value, and \<open>account::now\<close>: the whole seconds since the epoch,
  0 when the clock is before it.
\<close>

definition as_i64 :: "nat \<Rightarrow> int" where
  "as_i64 n = signed_take_bit 63 (int n)"

lemma as_i64_id: "n < 2 ^ 63 \<Longrightarrow> as_i64 n = int n"
proof -
  assume "n < 2 ^ 63"
  then have "int n < 2 ^ 63" by (metis of_nat_less_iff of_nat_numeral of_nat_power)
  then show ?thesis
    by (simp add: as_i64_def signed_take_bit_int_eq_self)
qed

definition unix_now :: "('e env_scheme) \<Rightarrow> ('w world_scheme, int) state" where
  "unix_now e = do {
     k \<leftarrow> tick;
     State_Monad.return (if system_time e k < 0 then 0 else as_i64 (nat (system_time e k)))
   }"

definition clock_at :: "('e env_scheme) \<Rightarrow> nat \<Rightarrow> int" where
  "clock_at e k = (if system_time e k < 0 then 0 else as_i64 (nat (system_time e k)))"

lemma run_unix_now [exec_simps]:
  "run_state (unix_now e) s = (clock_at e (ticks s), s\<lparr>ticks := Suc (ticks s)\<rparr>)"
  by (simp add: unix_now_def clock_at_def exec_simps)

text \<open>
  Monotonic time. A duration is a number of nanoseconds; \<open>Instant::elapsed\<close> saturates at zero, and
  \<open>get_expired_time\<close> is an hour ago, or now where the platform cannot represent that.
\<close>

definition instant_now :: "('e env_scheme) \<Rightarrow> ('w world_scheme, int) state" where
  "instant_now e = do { k \<leftarrow> tick; State_Monad.return (instant e k) }"

definition elapsed :: "('e env_scheme) \<Rightarrow> int \<Rightarrow> ('w world_scheme, nat) state" where
  "elapsed e t = do { n \<leftarrow> instant_now e; State_Monad.return (nat (n - t)) }"

definition as_secs :: "nat \<Rightarrow> nat" where
  "as_secs d = d div 1000000000"

definition as_millis :: "nat \<Rightarrow> nat" where
  "as_millis d = d div 1000000"

definition get_expired_time :: "('e env_scheme) \<Rightarrow> ('w world_scheme, int) state" where
  "get_expired_time e = do {
     now \<leftarrow> instant_now e;
     State_Monad.return
       (if now - 3600 * 1000000000 < instant_min e then now else now - 3600 * 1000000000)
   }"

lemma run_instant_now [exec_simps]:
  "run_state (instant_now e) s = (instant e (ticks s), s\<lparr>ticks := Suc (ticks s)\<rparr>)"
  by (simp add: instant_now_def exec_simps)

lemma run_elapsed [exec_simps]:
  "run_state (elapsed e t) s = (nat (instant e (ticks s) - t), s\<lparr>ticks := Suc (ticks s)\<rparr>)"
  by (simp add: elapsed_def exec_simps)

lemma run_get_expired_time [exec_simps]:
  "run_state (get_expired_time e) s =
     ((if instant e (ticks s) - 3600 * 1000000000 < instant_min e then instant e (ticks s)
       else instant e (ticks s) - 3600 * 1000000000), s\<lparr>ticks := Suc (ticks s)\<rparr>)"
  by (simp add: get_expired_time_def exec_simps)

text \<open>A random UUID, as its bytes.\<close>

definition new_uuid :: "('e env_scheme) \<Rightarrow> ('w world_scheme, bytes) state" where
  "new_uuid e = do { k \<leftarrow> tick; State_Monad.return (uuid_v4 e k) }"

lemma run_new_uuid [exec_simps]:
  "run_state (new_uuid e) s = (uuid_v4 e (ticks s), s\<lparr>ticks := Suc (ticks s)\<rparr>)"
  by (simp add: new_uuid_def exec_simps)

text \<open>
  One SQL statement: the state transformer \<open>f\<close> runs when the database is reached, and refuses with
  \<open>None\<close> when a uniqueness constraint fails.
\<close>

definition sql ::
  "('e env_scheme) \<Rightarrow> ('w world_scheme \<Rightarrow> ('a \<times> 'w world_scheme) option)
     \<Rightarrow> ('w world_scheme, store_error + 'a) state" where
  "sql e f = State (\<lambda>s.
     let s1 = s\<lparr>ticks := Suc (ticks s)\<rparr>
     in if sql_ok e (ticks s) then
          (case f s1 of None \<Rightarrow> (Inl Constraint, s1) | Some (a, s2) \<Rightarrow> (Inr a, s2))
        else (Inl SqlFailed, s1))"

text \<open>A query reads the database and changes nothing.\<close>

definition query ::
  "('e env_scheme) \<Rightarrow> ('w world_scheme \<Rightarrow> 'a) \<Rightarrow> ('w world_scheme, store_error + 'a) state" where
  "query e f = sql e (\<lambda>s. Some (f s, s))"

lemma run_sql [exec_simps]:
  "run_state (sql e f) s =
     (let s1 = s\<lparr>ticks := Suc (ticks s)\<rparr>
      in if sql_ok e (ticks s) then
           (case f s1 of None \<Rightarrow> (Inl Constraint, s1) | Some (a, s2) \<Rightarrow> (Inr a, s2))
         else (Inl SqlFailed, s1))"
  by (simp add: sql_def)

lemma run_query [exec_simps]:
  "run_state (query e f) s =
     ((if sql_ok e (ticks s) then Inr (f (s\<lparr>ticks := Suc (ticks s)\<rparr>)) else Inl SqlFailed),
      s\<lparr>ticks := Suc (ticks s)\<rparr>)"
  by (simp add: query_def run_sql Let_def)

section \<open>Invariants that do not read the request counter\<close>

definition tick_free :: "('w world_scheme \<Rightarrow> bool) \<Rightarrow> bool" where
  "tick_free I \<longleftrightarrow> (\<forall>s k. I (s\<lparr>ticks := k\<rparr>) = I s)"

lemma tick_freeI: "(\<And>s k. I (s\<lparr>ticks := k\<rparr>) = I s) \<Longrightarrow> tick_free I"
  by (simp add: tick_free_def)

lemma preserves_tick [preserves_intros]: "tick_free I \<Longrightarrow> preserves I tick"
  by (simp add: preserves_def tick_free_def exec_simps)

lemma preserves_unix_now [preserves_intros]: "tick_free I \<Longrightarrow> preserves I (unix_now e)"
  by (simp add: preserves_def tick_free_def exec_simps)

lemma preserves_instant_now [preserves_intros]: "tick_free I \<Longrightarrow> preserves I (instant_now e)"
  by (simp add: preserves_def tick_free_def exec_simps)

lemma preserves_elapsed [preserves_intros]: "tick_free I \<Longrightarrow> preserves I (elapsed e t)"
  by (simp add: preserves_def tick_free_def exec_simps)

lemma preserves_get_expired_time [preserves_intros]:
  "tick_free I \<Longrightarrow> preserves I (get_expired_time e)"
  by (simp add: preserves_def tick_free_def exec_simps)

lemma preserves_new_uuid [preserves_intros]: "tick_free I \<Longrightarrow> preserves I (new_uuid e)"
  by (simp add: preserves_def tick_free_def exec_simps)

lemma preserves_query [preserves_intros]: "tick_free I \<Longrightarrow> preserves I (query e f)"
  by (simp add: preserves_def tick_free_def exec_simps)

lemma preserves_sql:
  assumes "tick_free I" and "\<And>s a s'. I s \<Longrightarrow> f s = Some (a, s') \<Longrightarrow> I s'"
  shows "preserves I (sql e f)"
proof (rule preservesI)
  fix s
  assume "I s"
  then have "I (s\<lparr>ticks := Suc (ticks s)\<rparr>)"
    using assms(1) by (simp add: tick_free_def)
  then show "I (snd (run_state (sql e f) s))"
    using assms(2) by (auto simp: run_sql Let_def split: option.splits)
qed

end
