(* ===== verification/Databases.thy ===== *)
theory Databases
  imports World
begin

text \<open>
  The two SQLite files the programs share, as one record of tables, and every statement that
  changes the account database as a constructor of \<open>stmt\<close> whose meaning is \<open>exec_stmt\<close>.

  \<^item> \<open>peer_rows\<close> is the table \<open>peer\<close> of the hbbs file (src/database.rs); the columns that no
    query reads (\<open>created_at\<close>, \<open>note\<close>) are left out.
  \<^item> The other tables are those \<open>Accounts::open\<close> creates (src/account/store.rs, wol.rs, audit.rs).
  \<^item> \<open>shared_open\<close> is the process-wide handle of \<open>account::shared\<close>.

  Any interleaving of handlers is, for the database, a sequence of single statements. The step
  relation \<open>stmt_step\<close> is one such statement, and what is proved of it holds however the tasks
  of the three programs are scheduled.
\<close>

record peer_row =
  row_guid :: bytes
  row_id :: string
  row_uuid :: bytes
  row_pk :: bytes
  row_user :: "bytes option"
  row_info :: string
  row_status :: "int option"

record account_row =
  acc_name :: string
  acc_hash :: string
  acc_enabled :: int

record session_row =
  ses_hash :: bytes
  ses_name :: string
  ses_expires :: int

record ticket_row =
  tic_hash :: bytes
  tic_session :: bytes
  tic_relay :: string
  tic_expires :: int

record device_row =
  dev_owner :: string
  dev_id :: string
  dev_seen :: int
  dev_session :: bytes
  dev_peers :: string

record job_row =
  job_owner :: string
  job_target :: string
  job_helper :: string
  job_expires :: int

record audit_row =
  aud_nonce :: string
  aud_id :: string
  aud_peer_id :: "string option"
  aud_action :: "string option"
  aud_conn_id :: "int option"
  aud_session_id :: "int option"
  aud_note :: string
  aud_from_ip :: string
  aud_received_at :: int

record host = world +
  peer_rows :: "peer_row list"
  accounts :: "account_row list"
  sessions :: "session_row list"
  tickets :: "ticket_row list"
  devices :: "device_row list"
  jobs :: "job_row list"
  audits :: "audit_row list"
  shared_open :: bool

section \<open>The statements\<close>

datatype stmt =
    InsertAccount string string
  | UpdatePassword string string
  | UpdateEnabled int string
  | DeleteAccount string
  | DeleteTicketsOfUser string
  | DeleteSessionsOfUser string
  | DeleteSessionsExpired int
  | InsertSession bytes string int
  | DeleteSession bytes
  | DeleteTicketsExpired int
  | InsertTicket bytes bytes string int
  | RedeemTicket bytes string int int
  | DeleteJobsOfUser string
  | DeleteDevicesOfUser string
  | UpsertDevice string string int bytes string
  | LeaseJobs string string
  | UpsertJob string string string int int
  | InsertAudit audit_row

text \<open>
  The subquery of the redeem statement: \<open>h\<close> is the hash of a session that has not expired at
  \<open>t\<close> and belongs to an enabled account.
\<close>

definition session_live :: "int \<Rightarrow> 'w host_scheme \<Rightarrow> bytes \<Rightarrow> bool" where
  "session_live t s h \<longleftrightarrow>
     list_ex (\<lambda>x. ses_hash x = h \<and> ses_expires x > t \<and>
       list_ex (\<lambda>a. acc_name a = ses_name x \<and> acc_enabled a = 1) (accounts s)) (sessions s)"

definition redeemable :: "bytes \<Rightarrow> string \<Rightarrow> int \<Rightarrow> int \<Rightarrow> 'w host_scheme \<Rightarrow> ticket_row \<Rightarrow> bool" where
  "redeemable h relay t1 t2 s r \<longleftrightarrow>
     tic_hash r = h \<and> tic_relay r = relay \<and> tic_expires r > t1 \<and> session_live t2 s (tic_session r)"

definition user_sessions :: "string \<Rightarrow> 'w host_scheme \<Rightarrow> bytes list" where
  "user_sessions name s = map ses_hash (filter (\<lambda>x. ses_name x = name) (sessions s))"

text \<open>
  \<open>exec_stmt\<close> returns the number of affected rows and the new tables; \<open>None\<close> is a violated
  primary key. An upsert with a \<open>WHERE\<close> clause that fails affects no row.
\<close>

fun exec_stmt :: "stmt \<Rightarrow> 'w host_scheme \<Rightarrow> (nat \<times> 'w host_scheme) option" where
  "exec_stmt (InsertAccount name hash) s =
     map_option (\<lambda>rows. (1, s\<lparr>accounts := rows\<rparr>))
       (insert_unique acc_name \<lparr>acc_name = name, acc_hash = hash, acc_enabled = 1\<rparr> (accounts s))"
| "exec_stmt (UpdatePassword hash name) s =
     (let (n, rows) = update_where (\<lambda>a. acc_name a = name) (\<lambda>a. a\<lparr>acc_hash := hash\<rparr>) (accounts s)
      in Some (n, s\<lparr>accounts := rows\<rparr>))"
| "exec_stmt (UpdateEnabled v name) s =
     (let (n, rows) = update_where (\<lambda>a. acc_name a = name) (\<lambda>a. a\<lparr>acc_enabled := v\<rparr>) (accounts s)
      in Some (n, s\<lparr>accounts := rows\<rparr>))"
| "exec_stmt (DeleteAccount name) s =
     (let (n, rows) = delete_where (\<lambda>a. acc_name a = name) (accounts s)
      in Some (n, s\<lparr>accounts := rows\<rparr>))"
| "exec_stmt (DeleteTicketsOfUser name) s =
     (let (n, rows) = delete_where (\<lambda>r. tic_session r \<in> set (user_sessions name s)) (tickets s)
      in Some (n, s\<lparr>tickets := rows\<rparr>))"
| "exec_stmt (DeleteSessionsOfUser name) s =
     (let (n, rows) = delete_where (\<lambda>x. ses_name x = name) (sessions s)
      in Some (n, s\<lparr>sessions := rows\<rparr>))"
| "exec_stmt (DeleteSessionsExpired t) s =
     (let (n, rows) = delete_where (\<lambda>x. ses_expires x \<le> t) (sessions s)
      in Some (n, s\<lparr>sessions := rows\<rparr>))"
| "exec_stmt (InsertSession h name ex) s =
     map_option (\<lambda>rows. (1, s\<lparr>sessions := rows\<rparr>))
       (insert_unique ses_hash \<lparr>ses_hash = h, ses_name = name, ses_expires = ex\<rparr> (sessions s))"
| "exec_stmt (DeleteSession h) s =
     (let (n, rows) = delete_where (\<lambda>x. ses_hash x = h) (sessions s)
      in Some (n, s\<lparr>sessions := rows\<rparr>))"
| "exec_stmt (DeleteTicketsExpired t) s =
     (let (n, rows) = delete_where (\<lambda>r. tic_expires r \<le> t) (tickets s)
      in Some (n, s\<lparr>tickets := rows\<rparr>))"
| "exec_stmt (InsertTicket h sh relay ex) s =
     map_option (\<lambda>rows. (1, s\<lparr>tickets := rows\<rparr>))
       (insert_unique tic_hash
          \<lparr>tic_hash = h, tic_session = sh, tic_relay = relay, tic_expires = ex\<rparr> (tickets s))"
| "exec_stmt (RedeemTicket h relay t1 t2) s =
     (let (n, rows) = delete_where (redeemable h relay t1 t2 s) (tickets s)
      in Some (n, s\<lparr>tickets := rows\<rparr>))"
| "exec_stmt (DeleteJobsOfUser owner) s =
     (let (n, rows) = delete_where (\<lambda>j. job_owner j = owner) (jobs s)
      in Some (n, s\<lparr>jobs := rows\<rparr>))"
| "exec_stmt (DeleteDevicesOfUser owner) s =
     (let (n, rows) = delete_where (\<lambda>d. dev_owner d = owner) (devices s)
      in Some (n, s\<lparr>devices := rows\<rparr>))"
| "exec_stmt (UpsertDevice owner dev seen sh peers) s =
     (let new = \<lparr>dev_owner = owner, dev_id = dev, dev_seen = seen, dev_session = sh,
                 dev_peers = peers\<rparr>
      in Some (1, s\<lparr>devices :=
           (case insert_unique (\<lambda>d. (dev_owner d, dev_id d)) new (devices s) of
              Some rows \<Rightarrow> rows
            | None \<Rightarrow>
                snd (update_where (\<lambda>d. dev_owner d = owner \<and> dev_id d = dev)
                  (\<lambda>d. d\<lparr>dev_seen := seen, dev_session := sh, dev_peers := peers\<rparr>)
                  (devices s)))\<rparr>))"
| "exec_stmt (LeaseJobs owner helper) s =
     (let (n, rows) = delete_where (\<lambda>j. job_owner j = owner \<and> job_helper j = helper) (jobs s)
      in Some (n, s\<lparr>jobs := rows\<rparr>))"
| "exec_stmt (UpsertJob owner target helper ex t) s =
     (let new = \<lparr>job_owner = owner, job_target = target, job_helper = helper, job_expires = ex\<rparr>
      in case insert_unique (\<lambda>j. (job_owner j, job_target j)) new (jobs s) of
           Some rows \<Rightarrow> Some (1, s\<lparr>jobs := rows\<rparr>)
         | None \<Rightarrow>
             (let (n, rows) =
                update_where (\<lambda>j. job_owner j = owner \<and> job_target j = target \<and> job_expires j < t)
                  (\<lambda>j. j\<lparr>job_helper := helper, job_expires := ex\<rparr>) (jobs s)
              in Some (n, s\<lparr>jobs := rows\<rparr>)))"
| "exec_stmt (InsertAudit row) s =
     (case insert_unique aud_nonce row (audits s) of
        Some rows \<Rightarrow> Some (1, s\<lparr>audits := rows\<rparr>)
      | None \<Rightarrow> Some (0, s))"

declare exec_stmt.simps [simp del]

definition execute :: "'e env_scheme \<Rightarrow> stmt \<Rightarrow> ('w host_scheme, store_error + nat) state" where
  "execute e q = sql e (exec_stmt q)"

lemma session_live_iff:
  "session_live t s h \<longleftrightarrow>
     (\<exists>x \<in> set (sessions s). ses_hash x = h \<and> ses_expires x > t \<and>
        (\<exists>a \<in> set (accounts s). acc_name a = ses_name x \<and> acc_enabled a = 1))"
  by (simp add: session_live_def list_ex_iff)

lemma session_live_ticks [simp]: "session_live t (s\<lparr>ticks := k\<rparr>) h = session_live t s h"
  by (simp add: session_live_def)

lemma redeemable_ticks [simp]: "redeemable h relay t1 t2 (s\<lparr>ticks := k\<rparr>) = redeemable h relay t1 t2 s"
  by (rule ext) (simp add: redeemable_def)

lemma user_sessions_ticks [simp]: "user_sessions name (s\<lparr>ticks := k\<rparr>) = user_sessions name s"
  by (simp add: user_sessions_def)

lemma run_execute [exec_simps]:
  "run_state (execute e q) s =
     (if sql_ok e (ticks s) then
        (case exec_stmt q (s\<lparr>ticks := Suc (ticks s)\<rparr>) of
           None \<Rightarrow> (Inl Constraint, s\<lparr>ticks := Suc (ticks s)\<rparr>)
         | Some (n, s') \<Rightarrow> (Inr n, s'))
      else (Inl SqlFailed, s\<lparr>ticks := Suc (ticks s)\<rparr>))"
  by (simp add: execute_def run_sql Let_def)

section \<open>Primary keys\<close>

definition db_ok :: "'w host_scheme \<Rightarrow> bool" where
  "db_ok s \<longleftrightarrow>
     unique_on acc_name (accounts s) \<and> unique_on ses_hash (sessions s) \<and>
     unique_on tic_hash (tickets s) \<and> unique_on (\<lambda>d. (dev_owner d, dev_id d)) (devices s) \<and>
     unique_on (\<lambda>j. (job_owner j, job_target j)) (jobs s) \<and> unique_on aud_nonce (audits s)"

lemma db_ok_tick_free: "tick_free db_ok"
  by (simp add: tick_free_def db_ok_def)

lemma exec_stmt_db_ok:
  assumes "db_ok s" and "exec_stmt q s = Some (n, s')"
  shows "db_ok s'"
  using assms
  by (cases q)
    (auto simp: db_ok_def exec_stmt.simps Let_def delete_where_def update_where_def
      unique_on_filter split: option.splits
      intro: unique_on_insert intro!: unique_on_update [unfolded update_where_def snd_conv])

lemma preserves_execute [preserves_intros]: "preserves db_ok (execute e q)"
  unfolding execute_def by (rule preserves_sql [OF db_ok_tick_free]) (rule exec_stmt_db_ok)

text \<open>Tables that a statement does not name are left alone.\<close>

lemma exec_stmt_frame:
  "exec_stmt q s = Some (n, s') \<Longrightarrow> peer_rows s' = peer_rows s \<and> ticks s' = ticks s \<and>
     shared_open s' = shared_open s"
  by (cases q) (auto simp: exec_stmt.simps Let_def delete_where_def update_where_def
      split: option.splits)

section \<open>Interleavings of statements\<close>

definition empty_store :: "'w host_scheme \<Rightarrow> bool" where
  "empty_store s \<longleftrightarrow> accounts s = [] \<and> sessions s = [] \<and> tickets s = [] \<and> devices s = [] \<and>
     jobs s = [] \<and> audits s = []"

inductive stmt_step :: "'w host_scheme \<Rightarrow> 'w host_scheme \<Rightarrow> bool" where
  stmt_exec: "exec_stmt q s = Some (n, t) \<Longrightarrow> stmt_step s t"

inductive_cases stmt_stepE: "stmt_step s t"

interpretation store_machine: machine empty_store stmt_step db_ok
proof unfold_locales
  show "db_ok s" if "empty_store s" for s :: "'w host_scheme"
    using that by (simp add: empty_store_def db_ok_def)
  show "db_ok t" if "db_ok s" and "stmt_step s t" for s t :: "'w host_scheme"
    using that by (blast elim: stmt_stepE intro: exec_stmt_db_ok)
qed

text \<open>A schedule of statements, with the rows each affected; a refused one changes nothing.\<close>

fun run_stmts :: "stmt list \<Rightarrow> 'w host_scheme \<Rightarrow> (stmt \<times> nat) list \<times> 'w host_scheme" where
  "run_stmts [] s = ([], s)"
| "run_stmts (q # qs) s =
     (case exec_stmt q s of
        None \<Rightarrow> run_stmts qs s
      | Some (n, s') \<Rightarrow> (let (log, t) = run_stmts qs s' in ((q, n) # log, t)))"

lemma run_stmts_db_ok: "db_ok s \<Longrightarrow> db_ok (snd (run_stmts qs s))"
  by (induction qs s rule: run_stmts.induct)
    (auto split: option.splits prod.splits dest: exec_stmt_db_ok)

lemma run_stmts_steps: "stmt_step\<^sup>*\<^sup>* s (snd (run_stmts qs s))"
  by (induction qs s rule: run_stmts.induct)
    (auto split: option.splits prod.splits intro: stmt_exec converse_rtranclp_into_rtranclp)

section \<open>The ledger of tickets\<close>

text \<open>
  \<open>held\<close> counts the row of a ticket hash (0 or 1); \<open>issues\<close> and \<open>redeems\<close> pick the successful
  insertions and redemptions of that hash from a log.
\<close>

definition held :: "bytes \<Rightarrow> 'w host_scheme \<Rightarrow> nat" where
  "held h s = (if h \<in> tic_hash ` set (tickets s) then 1 else 0)"

fun issues :: "bytes \<Rightarrow> stmt \<times> nat \<Rightarrow> bool" where
  "issues h (InsertTicket h' _ _ _, n) = (h' = h)"
| "issues h _ = False"

fun redeems :: "bytes \<Rightarrow> stmt \<times> nat \<Rightarrow> bool" where
  "redeems h (RedeemTicket h' _ _ _, n) = (h' = h \<and> n = 1)"
| "redeems h _ = False"

lemma exec_stmt_tickets:
  "exec_stmt q s = Some (n, s') \<Longrightarrow> \<not> issues h (q, n) \<Longrightarrow>
     h \<in> tic_hash ` set (tickets s') \<Longrightarrow> h \<in> tic_hash ` set (tickets s)"
  by (cases q)
    (auto simp: exec_stmt.simps delete_where_def update_where_def Let_def insert_unique_def
      split: option.splits if_splits)

lemma exec_stmt_held:
  assumes "db_ok s" and "exec_stmt q s = Some (n, s')"
  shows "held h s' + (if redeems h (q, n) then 1 else 0) \<le> held h s + (if issues h (q, n) then 1 else 0)"
proof (cases q)
  case (RedeemTicket h' relay t1 t2)
  let ?p = "redeemable h' relay t1 t2 s"
  have s': "tickets s' = filter (\<lambda>r. \<not> ?p r) (tickets s)" "n = length (filter ?p (tickets s))"
    using assms(2) by (auto simp: RedeemTicket exec_stmt.simps delete_where_def)
  have "?p x" if "r \<in> set (tickets s)" "?p r" "x \<in> set (tickets s)" "tic_hash x = h'" for r x
    using assms(1) that by (metis (no_types, lifting) db_ok_def redeemable_def unique_onD)
  note all = this
  have "held h' s' = 0 \<and> held h' s = 1" if n: "n = 1"
  proof -
    obtain r where r: "r \<in> set (tickets s)" "?p r"
      using n s'(2) by (auto dest: length_filter_one_ex)
    have "h' \<notin> tic_hash ` set (tickets s')"
      using all [OF r] unfolding s'(1) by auto
    moreover have "h' \<in> tic_hash ` set (tickets s)"
      using r by (auto simp: redeemable_def)
    ultimately show ?thesis by (simp add: held_def)
  qed
  moreover have "held h s' \<le> held h s"
    by (auto simp: held_def s'(1))
  ultimately show ?thesis by (auto simp: RedeemTicket)
next
  case InsertTicket
  then show ?thesis using assms(2)
    by (auto simp: exec_stmt.simps held_def insert_unique_def split: if_splits)
qed (use exec_stmt_tickets [OF assms(2), of h] in \<open>auto simp: held_def\<close>)

end
