(* ===== verification/Sample.thy ===== *)
theory Sample
  imports Databases
begin

text \<open>
  One concrete environment and database, on which the witnesses of the development run: a clock
  that stands at second 1000, a database that always answers, UUIDs numbered by the request, a
  digest that keeps the last character, and the account \<open>alice\<close> with one open session.
\<close>

definition sample_env :: env where
  "sample_env = \<lparr>system_time = (\<lambda>_. 1000), instant = (\<lambda>_. 10000000000000), instant_min = 0,
     sql_ok = (\<lambda>_. True), uuid_v4 = (\<lambda>k. [of_nat k]),
     uuid_simple = (\<lambda>b. replicate 31 (CHR ''0'') @ [''abcdefghijklmnop'' ! (unat (hd (b @ [0])) mod 16)]),
     sha256 = (\<lambda>t. case rev t of [] \<Rightarrow> [] | c # _ \<Rightarrow> [of_char c]),
     bcrypt_hash = (\<lambda>_ p. Some (''h'' @ p)), bcrypt_verify = (\<lambda>p h. Some (h = ''h'' @ p))\<rparr>"

lemma sample_clock [simp]: "clock_at sample_env k = 1000"
  by (simp add: clock_at_def sample_env_def as_i64_def signed_take_bit_int_eq_self)

lemma sample_env_simps [simp]:
  "sql_ok sample_env k" "instant sample_env k = 10000000000000" "instant_min sample_env = 0"
  "uuid_v4 sample_env k = [of_nat k]"
  "uuid_simple sample_env b = replicate 31 (CHR ''0'') @ [''abcdefghijklmnop'' ! (unat (hd (b @ [0])) mod 16)]"
  "sha256 sample_env t = (case rev t of [] \<Rightarrow> [] | c # _ \<Rightarrow> [of_char c])"
  "bcrypt_hash sample_env k p = Some (''h'' @ p)"
  "bcrypt_verify sample_env p h = Some (h = ''h'' @ p)"
  by (simp_all add: sample_env_def)

definition sample_token :: string where
  "sample_token = replicate 63 (CHR ''0'') @ ''T''"

definition sample_host :: host where
  "sample_host = \<lparr>ticks = 0, peer_rows = [],
     accounts = [\<lparr>acc_name = ''alice'', acc_hash = ''hcorrect horse'', acc_enabled = 1\<rparr>],
     sessions = [\<lparr>ses_hash = [84], ses_name = ''alice'', ses_expires = 5000\<rparr>],
     tickets = [], devices = [], jobs = [], audits = [], shared_open = True\<rparr>"

lemma sample_ok: "db_ok sample_host"
  by (simp add: db_ok_def sample_host_def unique_on_def)

text \<open>The same database holding one ticket for the relay id \<open>u\<close>, presented as \<open>sample_token\<close>.\<close>

definition sample_row :: ticket_row where
  "sample_row = \<lparr>tic_hash = [84], tic_session = [84], tic_relay = ''u'', tic_expires = 1060\<rparr>"

definition sample_ticketed :: host where
  "sample_ticketed = sample_host\<lparr>tickets := [sample_row]\<rparr>"

lemma sample_ticketed_ok: "db_ok sample_ticketed"
  by (simp add: db_ok_def sample_ticketed_def sample_host_def unique_on_def)

end
