(* ===== verification/AccountStore.thy ===== *)
theory AccountStore
  imports Sample
begin

text \<open>
  The account store, src/account/store.rs: one definition per method of \<open>Accounts\<close>, statement by
  statement. Clock readings and random values are taken where the code takes them. bcrypt runs on a
  blocking thread behind a semaphore that is never closed, so neither adds an outcome.
\<close>

definition ascii_alphanumeric :: "char \<Rightarrow> bool" where
  "ascii_alphanumeric c =
     (let n = (of_char c :: nat)
      in (48 \<le> n \<and> n \<le> 57) \<or> (65 \<le> n \<and> n \<le> 90) \<or> (97 \<le> n \<and> n \<le> 122))"

definition valid_name :: "string \<Rightarrow> bool" where
  "valid_name name \<longleftrightarrow> name \<noteq> [] \<and> length name \<le> 64 \<and>
     list_all (\<lambda>c. ascii_alphanumeric c \<or> c \<in> set ''._-'') name"

definition digest :: "'e env_scheme \<Rightarrow> string \<Rightarrow> bytes" where
  "digest e token = sha256 e token"

definition hash_password ::
  "'e env_scheme \<Rightarrow> string \<Rightarrow> ('w world_scheme, store_error + string) state" where
  "hash_password e password =
     (if length password < 12 \<or> length password > 72
      then State_Monad.return (Inl (Bail ''Use a 12-72 byte password''))
      else do {
        k \<leftarrow> tick;
        State_Monad.return
          (case bcrypt_hash e k password of None \<Rightarrow> Inl BcryptFailed | Some h \<Rightarrow> Inr h)
      })"

definition create_user ::
  "'e env_scheme \<Rightarrow> string \<Rightarrow> string \<Rightarrow> ('w host_scheme, store_error + unit) state" where
  "create_user e name password =
     (if \<not> valid_name name
      then State_Monad.return (Inl (Bail
             ''Use a 1-64 character account name (letters, digits, . _ -)''))
      else try_bind (hash_password e password) (\<lambda>hash.
           try_bind (execute e (InsertAccount name hash)) (\<lambda>_.
           State_Monad.return (Inr ()))))"

definition revoke_user ::
  "'e env_scheme \<Rightarrow> string \<Rightarrow> ('w host_scheme, store_error + unit) state" where
  "revoke_user e name =
     try_bind (execute e (DeleteTicketsOfUser name)) (\<lambda>_.
     try_bind (execute e (DeleteSessionsOfUser name)) (\<lambda>_.
     State_Monad.return (Inr ())))"

definition no_such_account :: "string \<Rightarrow> store_error" where
  "no_such_account name = Bail (''No such account: '' @ name)"

definition set_password ::
  "'e env_scheme \<Rightarrow> string \<Rightarrow> string \<Rightarrow> ('w host_scheme, store_error + unit) state" where
  "set_password e name password =
     try_bind (hash_password e password) (\<lambda>hash.
     try_bind (execute e (UpdatePassword hash name)) (\<lambda>affected.
     if affected = 0 then State_Monad.return (Inl (no_such_account name))
     else revoke_user e name))"

definition set_enabled ::
  "'e env_scheme \<Rightarrow> string \<Rightarrow> bool \<Rightarrow> ('w host_scheme, store_error + unit) state" where
  "set_enabled e name enabled =
     try_bind (execute e (UpdateEnabled (if enabled then 1 else 0) name)) (\<lambda>affected.
     if affected = 0 then State_Monad.return (Inl (no_such_account name))
     else if \<not> enabled then revoke_user e name
     else State_Monad.return (Inr ()))"

definition delete_user ::
  "'e env_scheme \<Rightarrow> string \<Rightarrow> ('w host_scheme, store_error + unit) state" where
  "delete_user e name =
     try_bind (revoke_user e name) (\<lambda>_.
     try_bind (execute e (DeleteJobsOfUser name)) (\<lambda>_.
     try_bind (execute e (DeleteDevicesOfUser name)) (\<lambda>_.
     try_bind (execute e (DeleteAccount name)) (\<lambda>affected.
     State_Monad.return
       (if affected = 0 then Inl (no_such_account name) else Inr ())))))"

text \<open>
  \<open>list_users\<close>: the accounts in the order of their names (bytewise, SQLite's \<open>BINARY\<close> collation),
  each with its enabled flag and the number of its sessions that have not expired.
\<close>

fun bytes_le :: "string \<Rightarrow> string \<Rightarrow> bool" where
  "bytes_le [] ys = True"
| "bytes_le (x # xs) [] = False"
| "bytes_le (x # xs) (y # ys) =
     ((of_char x :: nat) < of_char y \<or> (x = y \<and> bytes_le xs ys))"

fun insert_by_name :: "account_row \<Rightarrow> account_row list \<Rightarrow> account_row list" where
  "insert_by_name a [] = [a]"
| "insert_by_name a (b # bs) =
     (if bytes_le (acc_name a) (acc_name b) then a # b # bs else b # insert_by_name a bs)"

definition list_users ::
  "'e env_scheme \<Rightarrow> ('w host_scheme, store_error + (string \<times> bool \<times> nat) list) state" where
  "list_users e = do {
     t \<leftarrow> unix_now e;
     query e (\<lambda>s. map (\<lambda>a. (acc_name a, acc_enabled a \<noteq> 0,
         length (filter (\<lambda>x. ses_name x = acc_name a \<and> ses_expires x > t) (sessions s))))
       (foldr insert_by_name (accounts s) []))
   }"

definition session_user :: "bytes \<Rightarrow> int \<Rightarrow> 'w host_scheme \<Rightarrow> string option" where
  "session_user h t s =
     select_first [acc_name a. x \<leftarrow> sessions s, a \<leftarrow> accounts s,
       acc_name a = ses_name x \<and> ses_hash x = h \<and> ses_expires x > t \<and> acc_enabled a = 1]"

definition user ::
  "'e env_scheme \<Rightarrow> string \<Rightarrow> ('w host_scheme, store_error + string option) state" where
  "user e token =
     (if length token \<noteq> 64 then State_Monad.return (Inr None)
      else do { t \<leftarrow> unix_now e; query e (session_user (digest e token) t) })"

definition random_token :: "'e env_scheme \<Rightarrow> ('w world_scheme, string) state" where
  "random_token e = do {
     a \<leftarrow> new_uuid e;
     b \<leftarrow> new_uuid e;
     State_Monad.return (uuid_simple e a @ uuid_simple e b)
   }"

definition password_hash_of :: "string \<Rightarrow> 'w host_scheme \<Rightarrow> string option" where
  "password_hash_of name s =
     select_first [acc_hash a. a \<leftarrow> accounts s, acc_name a = name \<and> acc_enabled a = 1]"

definition verify_password :: "'e env_scheme \<Rightarrow> string option \<Rightarrow> string \<Rightarrow> bool" where
  "verify_password e hash password =
     (case hash of
        Some h \<Rightarrow> (case bcrypt_verify e password h of Some b \<Rightarrow> b | None \<Rightarrow> False)
      | None \<Rightarrow> False)"

definition login ::
  "'e env_scheme \<Rightarrow> string \<Rightarrow> string \<Rightarrow> ('w host_scheme, store_error + string option) state" where
  "login e name password =
     (if length name > 64 \<or> length password > 72 then State_Monad.return (Inr None)
      else try_bind (query e (password_hash_of name)) (\<lambda>hash.
        if \<not> verify_password e hash password then State_Monad.return (Inr None)
        else do {
          token \<leftarrow> random_token e;
          t \<leftarrow> unix_now e;
          try_bind (execute e (DeleteSessionsExpired t)) (\<lambda>_. do {
            t' \<leftarrow> unix_now e;
            try_bind (execute e (InsertSession (digest e token) name (t' + 86400))) (\<lambda>_.
              State_Monad.return (Inr (Some token)))
          })
        }))"

definition ticket ::
  "'e env_scheme \<Rightarrow> string \<Rightarrow> string \<Rightarrow> ('w host_scheme, store_error + string option) state" where
  "ticket e token relay_id =
     (if relay_id = [] \<or> length relay_id > 128 then State_Monad.return (Inr None)
      else try_bind (user e token) (\<lambda>name.
        if name = None then State_Monad.return (Inr None)
        else do {
          tk \<leftarrow> random_token e;
          t \<leftarrow> unix_now e;
          try_bind (execute e (DeleteTicketsExpired t)) (\<lambda>_. do {
            t' \<leftarrow> unix_now e;
            try_bind
              (execute e (InsertTicket (digest e tk) (digest e token) relay_id (t' + 60)))
              (\<lambda>_. State_Monad.return (Inr (Some tk)))
          })
        }))"

definition redeem ::
  "'e env_scheme \<Rightarrow> string \<Rightarrow> string \<Rightarrow> ('w host_scheme, store_error + bool) state" where
  "redeem e tk relay_id =
     (if length tk \<noteq> 64 then State_Monad.return (Inr False)
      else do {
        t1 \<leftarrow> unix_now e;
        t2 \<leftarrow> unix_now e;
        try_bind (execute e (RedeemTicket (digest e tk) relay_id t1 t2)) (\<lambda>affected.
          State_Monad.return (Inr (affected = 1)))
      })"

text \<open>
  \<open>ticket_failure\<close>: the clock is read only when a row was found, by the guard of the second arm.
\<close>

definition ticket_failure ::
  "'e env_scheme \<Rightarrow> string \<Rightarrow> string \<Rightarrow> ('w host_scheme, store_error + string) state" where
  "ticket_failure e tk relay_id =
     try_bind (query e (\<lambda>s. select_first (filter (\<lambda>r. tic_hash r = digest e tk) (tickets s))))
       (\<lambda>row. case row of
          None \<Rightarrow> State_Monad.return (Inr ''unknown'')
        | Some r \<Rightarrow> do {
            t \<leftarrow> unix_now e;
            State_Monad.return (Inr
              (if tic_expires r \<le> t then ''expired''
               else if tic_relay r \<noteq> relay_id then ''relay_mismatch''
               else ''unknown''))
          })"

definition revoke ::
  "'e env_scheme \<Rightarrow> string \<Rightarrow> ('w host_scheme, store_error + unit) state" where
  "revoke e token =
     try_bind (execute e (DeleteSession (digest e token))) (\<lambda>_. State_Monad.return (Inr ()))"

section \<open>Every operation keeps the primary keys\<close>

lemma hash_password_db_ok [preserves_intros]: "preserves db_ok (hash_password e pw)"
  unfolding hash_password_def by (intro preserves_intros db_ok_tick_free)

lemma create_user_db_ok [preserves_intros]: "preserves db_ok (create_user e name pw)"
  unfolding create_user_def by (intro preserves_intros db_ok_tick_free)

lemma revoke_user_db_ok [preserves_intros]: "preserves db_ok (revoke_user e name)"
  unfolding revoke_user_def by (intro preserves_intros db_ok_tick_free)

lemma set_password_db_ok [preserves_intros]: "preserves db_ok (set_password e name pw)"
  unfolding set_password_def by (intro preserves_intros db_ok_tick_free)

lemma set_enabled_db_ok [preserves_intros]: "preserves db_ok (set_enabled e name b)"
  unfolding set_enabled_def by (intro preserves_intros db_ok_tick_free)

lemma delete_user_db_ok [preserves_intros]: "preserves db_ok (delete_user e name)"
  unfolding delete_user_def by (intro preserves_intros db_ok_tick_free)

lemma list_users_db_ok [preserves_intros]: "preserves db_ok (list_users e)"
  unfolding list_users_def by (intro preserves_intros db_ok_tick_free)

lemma user_db_ok [preserves_intros]: "preserves db_ok (user e token)"
  unfolding user_def by (intro preserves_intros db_ok_tick_free)

lemma random_token_db_ok [preserves_intros]: "preserves db_ok (random_token e)"
  unfolding random_token_def by (intro preserves_intros db_ok_tick_free)

lemma login_db_ok [preserves_intros]: "preserves db_ok (login e name pw)"
  unfolding login_def by (intro preserves_intros db_ok_tick_free)

lemma ticket_db_ok [preserves_intros]: "preserves db_ok (ticket e token relay)"
  unfolding ticket_def by (intro preserves_intros db_ok_tick_free)

lemma redeem_db_ok [preserves_intros]: "preserves db_ok (redeem e tk relay)"
  unfolding redeem_def by (intro preserves_intros db_ok_tick_free)

lemma ticket_failure_db_ok [preserves_intros]: "preserves db_ok (ticket_failure e tk relay)"
  unfolding ticket_failure_def by (intro preserves_intros db_ok_tick_free)

lemma revoke_db_ok [preserves_intros]: "preserves db_ok (revoke e token)"
  unfolding revoke_def by (intro preserves_intros db_ok_tick_free)

section \<open>Redeeming a ticket\<close>

lemma redeem_run:
  "run_state (redeem e tk relay) s =
     (if length tk \<noteq> 64 then (Inr False, s)
      else if sql_ok e (ticks s + 2) then
        (let s1 = s\<lparr>ticks := ticks s + 3\<rparr>;
             p = redeemable (sha256 e tk) relay (clock_at e (ticks s)) (clock_at e (ticks s + 1)) s
         in (Inr (length (filter p (tickets s)) = 1),
             s1\<lparr>tickets := filter (\<lambda>r. \<not> p r) (tickets s)\<rparr>))
      else (Inl SqlFailed, s\<lparr>ticks := ticks s + 3\<rparr>))"
  by (simp add: redeem_def exec_simps exec_stmt.simps delete_where_def digest_def Let_def
      ticks_plus)

lemma redeem_true_iff:
  assumes "db_ok s"
  shows "fst (run_state (redeem e tk relay) s) = Inr True \<longleftrightarrow>
    length tk = 64 \<and> sql_ok e (ticks s + 2) \<and>
    (\<exists>r \<in> set (tickets s). tic_hash r = sha256 e tk \<and> tic_relay r = relay \<and>
        tic_expires r > clock_at e (ticks s) \<and> session_live (clock_at e (ticks s + 1)) s (tic_session r))"
proof -
  let ?p = "redeemable (sha256 e tk) relay (clock_at e (ticks s)) (clock_at e (ticks s + 1)) s"
  have "length (filter ?p (tickets s)) = 1 \<longleftrightarrow> (\<exists>r \<in> set (tickets s). ?p r)"
    using assms by (intro count_keyed [where key = tic_hash and k = "sha256 e tk"])
      (simp_all add: db_ok_def redeemable_def)
  then show ?thesis
    by (simp add: redeem_run Let_def redeemable_def)
qed

lemma redeem_true_removes:
  assumes "db_ok s" and "run_state (redeem e tk relay) s = (Inr True, s')"
  shows "sha256 e tk \<notin> tic_hash ` set (tickets s')"
proof -
  let ?p = "redeemable (sha256 e tk) relay (clock_at e (ticks s)) (clock_at e (ticks s + 1)) s"
  obtain r where r: "r \<in> set (tickets s)" "?p r"
    and s': "tickets s' = filter (\<lambda>r. \<not> ?p r) (tickets s)"
    using assms(2) by (auto simp: redeem_run Let_def split: if_splits dest!: length_filter_one_ex)
  have "?p x" if "x \<in> set (tickets s)" "tic_hash x = sha256 e tk" for x
  proof -
    have "x = r"
      using assms(1) that r by (auto simp: db_ok_def redeemable_def intro: unique_onD)
    with r show ?thesis by simp
  qed
  then show ?thesis by (auto simp: s')
qed

section \<open>Sessions\<close>

lemma user_run:
  "run_state (user e token) s =
     (if length token \<noteq> 64 then (Inr None, s)
      else ((if sql_ok e (ticks s + 1)
             then Inr (session_user (sha256 e token) (clock_at e (ticks s)) s) else Inl SqlFailed),
            s\<lparr>ticks := ticks s + 2\<rparr>))"
  by (simp add: user_def exec_simps digest_def session_user_def)

lemma session_user_Some:
  assumes "session_user h t s = Some name"
  shows "\<exists>x \<in> set (sessions s). ses_hash x = h \<and> ses_name x = name \<and> ses_expires x > t \<and>
      (\<exists>a \<in> set (accounts s). acc_name a = name \<and> acc_enabled a = 1)"
  using select_first_Some [OF assms [unfolded session_user_def]] by auto

lemma session_user_live: "session_user h t s = None \<longleftrightarrow> \<not> session_live t s h"
  by (fastforce simp: session_user_def session_live_iff)

lemma session_user_ticks [simp]: "session_user h t (s\<lparr>ticks := k\<rparr>) = session_user h t s"
  by (simp add: session_user_def)

lemma run_random_token [exec_simps]:
  "run_state (random_token e) s =
     (uuid_simple e (uuid_v4 e (ticks s)) @ uuid_simple e (uuid_v4 e (Suc (ticks s))),
      s\<lparr>ticks := Suc (Suc (ticks s))\<rparr>)"
  by (simp add: random_token_def exec_simps)

lemma ticket_issued:
  assumes "run_state (ticket e token relay) s = (Inr (Some tk), s')"
  shows "relay \<noteq> [] \<and> length relay \<le> 128 \<and> length token = 64 \<and>
    session_live (clock_at e (ticks s)) s (sha256 e token) \<and>
    tk = uuid_simple e (uuid_v4 e (ticks s + 2)) @ uuid_simple e (uuid_v4 e (ticks s + 3)) \<and>
    s' = s\<lparr>ticks := ticks s + 8,
           tickets := filter (\<lambda>r. tic_expires r > clock_at e (ticks s + 4)) (tickets s) @
             [\<lparr>tic_hash = sha256 e tk, tic_session = sha256 e token, tic_relay = relay,
               tic_expires = clock_at e (ticks s + 6) + 60\<rparr>]\<rparr>"
  using assms
  by (auto simp: ticket_def exec_simps user_run session_user_live [symmetric] exec_stmt.simps digest_def
      delete_where_def insert_unique_def ticks_plus not_le
      simp del: not_None_eq split: if_splits option.splits)

lemma login_ok:
  assumes "run_state (login e name pw) s = (Inr (Some token), s')"
  shows "(\<exists>a \<in> set (accounts s). acc_name a = name \<and> acc_enabled a = 1 \<and>
           bcrypt_verify e pw (acc_hash a) = Some True) \<and>
    token = uuid_simple e (uuid_v4 e (ticks s + 1)) @ uuid_simple e (uuid_v4 e (ticks s + 2)) \<and>
    s' = s\<lparr>ticks := ticks s + 7,
           sessions := filter (\<lambda>x. ses_expires x > clock_at e (ticks s + 3)) (sessions s) @
             [\<lparr>ses_hash = sha256 e token, ses_name = name,
               ses_expires = clock_at e (ticks s + 5) + 86400\<rparr>]\<rparr>"
proof -
  have "\<exists>a \<in> set (accounts s). acc_name a = name \<and> acc_enabled a = 1 \<and> acc_hash a = h"
    if "password_hash_of name (s\<lparr>ticks := Suc (ticks s)\<rparr>) = Some h" for h
    using select_first_Some [OF that [unfolded password_hash_of_def]] by auto
  then show ?thesis
    using assms
    by (auto simp: login_def exec_simps verify_password_def exec_stmt.simps digest_def
        delete_where_def insert_unique_def ticks_plus not_le
        split: if_splits option.splits)
qed

section \<open>Revocation\<close>

lemma revoke_user_run:
  "run_state (revoke_user e name) s = (Inr (), s') \<longleftrightarrow>
     sql_ok e (ticks s) \<and> sql_ok e (ticks s + 1) \<and>
     s' = s\<lparr>ticks := ticks s + 2,
            tickets := filter (\<lambda>r. tic_session r \<notin> set (user_sessions name s)) (tickets s),
            sessions := filter (\<lambda>x. ses_name x \<noteq> name) (sessions s)\<rparr>"
  by (auto simp: revoke_user_def exec_simps exec_stmt.simps delete_where_def ticks_plus user_sessions_def)

definition revoked :: "string \<Rightarrow> 'w host_scheme \<Rightarrow> 'w host_scheme \<Rightarrow> bool" where
  "revoked name s s' \<longleftrightarrow>
     sessions s' = filter (\<lambda>x. ses_name x \<noteq> name) (sessions s) \<and>
     tickets s' = filter (\<lambda>r. tic_session r \<notin> set (user_sessions name s)) (tickets s)"

lemma revoke_user_revoked: "run_state (revoke_user e name) s = (Inr (), s') \<Longrightarrow> revoked name s s'"
  by (simp add: revoke_user_run revoked_def)

lemma set_enabled_False_outcome:
  "run_state (set_enabled e name False) s = (Inr (), s') \<Longrightarrow>
     revoked name s s' \<and>
     accounts s' = map (\<lambda>a. if acc_name a = name then a\<lparr>acc_enabled := 0\<rparr> else a) (accounts s)"
  by (auto simp: set_enabled_def revoke_user_run revoked_def user_sessions_def exec_simps
      exec_stmt.simps update_where_def split: if_splits)

lemma set_password_outcome:
  "run_state (set_password e name pw) s = (Inr (), s') \<Longrightarrow>
     revoked name s s' \<and>
     (\<exists>hash. bcrypt_hash e (ticks s) pw = Some hash \<and>
       accounts s' = map (\<lambda>a. if acc_name a = name then a\<lparr>acc_hash := hash\<rparr> else a) (accounts s))"
  by (auto simp: set_password_def hash_password_def revoke_user_run revoked_def user_sessions_def
      exec_simps exec_stmt.simps update_where_def split: if_splits option.splits)

lemma delete_user_outcome:
  "run_state (delete_user e name) s = (Inr (), s') \<Longrightarrow>
     revoked name s s' \<and> accounts s' = filter (\<lambda>a. acc_name a \<noteq> name) (accounts s) \<and>
     devices s' = filter (\<lambda>d. dev_owner d \<noteq> name) (devices s) \<and>
     jobs s' = filter (\<lambda>j. job_owner j \<noteq> name) (jobs s)"
  by (auto simp: delete_user_def revoke_user_run revoked_def exec_simps exec_stmt.simps
      delete_where_def split: if_splits option.splits sum.splits prod.splits)

lemma revoked_user:
  "revoked name s s' \<Longrightarrow> fst (run_state (user e token) s') \<noteq> Inr (Some name)"
  by (auto simp: user_run revoked_def dest: session_user_Some)

lemma revoked_redeem:
  assumes "revoked name s s'" and "db_ok s" and "r \<in> set (tickets s)"
    and "tic_session r \<in> set (user_sessions name s)" and "tic_hash r = sha256 e tk"
  shows "fst (run_state (redeem e tk relay) s') \<noteq> Inr True"
proof
  assume "fst (run_state (redeem e tk relay) s') = Inr True"
  then obtain r' where r': "r' \<in> set (tickets s')" "tic_hash r' = sha256 e tk"
    by (auto simp: redeem_run Let_def redeemable_def split: if_splits dest!: length_filter_one_ex)
  then have "r' \<in> set (tickets s)" "tic_session r' \<notin> set (user_sessions name s)"
    using assms(1) by (auto simp: revoked_def)
  moreover from this have "r' = r"
    using assms(2,3,5) r'(2) by (auto simp: db_ok_def intro: unique_onD)
  ultimately show False using assms(4) by simp
qed

lemma revoke_run:
  "run_state (revoke e token) s = (Inr (), s') \<longleftrightarrow>
     sql_ok e (ticks s) \<and>
     s' = s\<lparr>ticks := Suc (ticks s), sessions := filter (\<lambda>x. ses_hash x \<noteq> sha256 e token) (sessions s)\<rparr>"
  by (auto simp: revoke_def exec_simps exec_stmt.simps delete_where_def digest_def)

section \<open>Properties\<close>

text \<open>
  C2: Whatever statements the tasks of the three programs send, in whatever order, a ticket is
  redeemed at most once per issue: the redemptions of a hash never exceed the rows held at the
  start plus the rows inserted since, and what is still held counts against them too.
\<close>

theorem ticket_ledger:
  assumes "db_ok s"
  shows "held h (snd (run_stmts qs s)) + length (filter (redeems h) (fst (run_stmts qs s)))
     \<le> held h s + length (filter (issues h) (fst (run_stmts qs s)))"
  using assms
proof (induction qs s rule: run_stmts.induct)
  case (2 q qs s)
  show ?case
  proof (cases "exec_stmt q s")
    case (Some r)
    obtain n s' where r: "r = (n, s')" by (cases r)
    have "db_ok s'" using 2 Some r exec_stmt_db_ok by blast
    with 2 Some r have IH: "held h (snd (run_stmts qs s')) + length (filter (redeems h) (fst (run_stmts qs s')))
     \<le> held h s' + length (filter (issues h) (fst (run_stmts qs s')))" by blast
    with exec_stmt_held [OF 2(3), of q n s' h] Some r show ?thesis
      by (auto split: prod.splits)
  qed (use 2 in auto)
qed simp

lemma ticket_ledger_witness:
  "length (filter (redeems [84])
     (fst (run_stmts [RedeemTicket [84] ''u'' 0 0, RedeemTicket [84] ''u'' 0 0] sample_ticketed))) \<le> 1"
proof -
  have "held [84] sample_ticketed = 1"
    by (simp add: held_def sample_ticketed_def sample_row_def)
  with ticket_ledger [OF sample_ticketed_ok, of "[84]"
      "[RedeemTicket [84] ''u'' 0 0, RedeemTicket [84] ''u'' 0 0]"]
  show ?thesis by (auto simp: Let_def split: option.splits prod.splits)
qed

text \<open>
  C7: A ticket is accepted exactly when it has the length of a ticket, the database answers, and a
  stored row matches its hash and the relay id, has not expired, and belongs to a session that is
  still live for an enabled account.
\<close>

theorem redeem_accepts_iff:
  assumes "db_ok s"
  shows "fst (run_state (redeem e tk relay) s) = Inr True \<longleftrightarrow>
    length tk = 64 \<and> sql_ok e (ticks s + 2) \<and>
    (\<exists>r \<in> set (tickets s). tic_hash r = sha256 e tk \<and> tic_relay r = relay \<and>
        tic_expires r > clock_at e (ticks s) \<and>
        session_live (clock_at e (ticks s + 1)) s (tic_session r))"
  using assms by (rule redeem_true_iff)

lemma redeem_accepts_iff_witness:
  "fst (run_state (redeem sample_env sample_token ''u'') sample_ticketed) = Inr True"
  unfolding redeem_accepts_iff [OF sample_ticketed_ok]
  by (simp add: sample_ticketed_def sample_row_def sample_host_def sample_token_def session_live_def)

text \<open>
  A ticket that was just issued is accepted for its relay id within a minute while the session
  is live; it is accepted once, and never for another relay id.
\<close>

theorem ticket_redeems_once:
  assumes ok: "db_ok s" and issued: "run_state (ticket e token relay) s = (Inr (Some tk), s1)"
    and len: "\<forall>b. length (uuid_simple e b) = 32"
    and up: "sql_ok e (ticks s1 + 2)"
    and fresh: "clock_at e (ticks s1) < clock_at e (ticks s + 6) + 60"
    and live: "session_live (clock_at e (ticks s1 + 1)) s1 (sha256 e token)"
  shows "\<exists>s2. run_state (redeem e tk relay) s1 = (Inr True, s2) \<and>
    (\<forall>other. fst (run_state (redeem e tk other) s2) \<noteq> Inr True) \<and>
    (\<forall>other. other \<noteq> relay \<longrightarrow> fst (run_state (redeem e tk other) s1) \<noteq> Inr True)"
proof -
  note i = ticket_issued [OF issued]
  have ok1: "db_ok s1" using preservesD_run [OF ticket_db_ok issued ok] .
  let ?row = "\<lparr>tic_hash = sha256 e tk, tic_session = sha256 e token, tic_relay = relay,
               tic_expires = clock_at e (ticks s + 6) + 60\<rparr>"
  have row: "?row \<in> set (tickets s1)" using i by simp
  have only: "r = ?row" if "r \<in> set (tickets s1)" "tic_hash r = sha256 e tk" for r
    using ok1 row that by (auto simp: db_ok_def intro: unique_onD)
  have len64: "length tk = 64" using i len by simp
  have "fst (run_state (redeem e tk relay) s1) = Inr True"
    using row len64 up fresh live by (auto simp: redeem_true_iff [OF ok1] intro!: bexI [OF _ row])
  then obtain s2 where r2: "run_state (redeem e tk relay) s1 = (Inr True, s2)"
    by (metis prod.collapse)
  have ok2: "db_ok s2" using preservesD_run [OF redeem_db_ok r2 ok1] .
  have "fst (run_state (redeem e tk other) s2) \<noteq> Inr True" for other
    using redeem_true_removes [OF ok1 r2] by (force simp: redeem_true_iff [OF ok2])
  moreover have "fst (run_state (redeem e tk other) s1) \<noteq> Inr True" if "other \<noteq> relay" for other
    using that only by (force simp: redeem_true_iff [OF ok1])
  ultimately show ?thesis using r2 by blast
qed

lemma ticket_redeems_once_witness:
  "\<exists>tk s1 s2. run_state (ticket sample_env sample_token ''u'') sample_host = (Inr (Some tk), s1) \<and>
     run_state (redeem sample_env tk ''u'') s1 = (Inr True, s2)"
proof -
  let ?tk = "replicate 31 (CHR ''0'') @ ''c'' @ replicate 31 (CHR ''0'') @ ''d''"
  let ?s1 = "sample_host\<lparr>ticks := 8, tickets :=
    [\<lparr>tic_hash = [100], tic_session = [84], tic_relay = ''u'', tic_expires = 1060\<rparr>]\<rparr>"
  have t: "run_state (ticket sample_env sample_token ''u'') sample_host = (Inr (Some ?tk), ?s1)"
    by (simp add: ticket_def user_def session_user_def exec_simps exec_stmt.simps digest_def
        delete_where_def insert_unique_def sample_token_def sample_host_def)
  have "session_live (clock_at sample_env (ticks ?s1 + 1)) ?s1 (sha256 sample_env sample_token)"
    by (simp add: session_live_def sample_host_def sample_token_def)
  from ticket_redeems_once [OF sample_ok t _ _ _ this] t show ?thesis by fastforce
qed

text \<open>
  C8: Once \<open>set_enabled(name, false)\<close>, \<open>set_password\<close> or \<open>delete_user\<close> has returned success, no
  token authenticates as that user, and no ticket that was issued from a session of that user is
  accepted any more.
\<close>

theorem revocation_complete:
  assumes "db_ok s"
    and "run_state (set_enabled e name False) s = (Inr (), s') \<or>
         run_state (set_password e name pw) s = (Inr (), s') \<or>
         run_state (delete_user e name) s = (Inr (), s')"
  shows "fst (run_state (user e' token) s') \<noteq> Inr (Some name) \<and>
    (\<forall>x r. x \<in> set (sessions s) \<longrightarrow> ses_name x = name \<longrightarrow> r \<in> set (tickets s) \<longrightarrow>
       tic_session r = ses_hash x \<longrightarrow> tic_hash r = sha256 e' tk \<longrightarrow>
       fst (run_state (redeem e' tk relay) s') \<noteq> Inr True)"
proof -
  have rev: "revoked name s s'"
    using assms(2) set_enabled_False_outcome set_password_outcome delete_user_outcome by blast
  have "fst (run_state (redeem e' tk relay) s') \<noteq> Inr True"
    if "x \<in> set (sessions s)" "ses_name x = name" "r \<in> set (tickets s)"
       "tic_session r = ses_hash x" "tic_hash r = sha256 e' tk" for x r
    using rev assms(1) that(3)
    by (rule revoked_redeem) (use that in \<open>auto simp: user_sessions_def\<close>)
  with revoked_user [OF rev] show ?thesis by blast
qed

lemma revocation_complete_witness:
  "\<exists>s'. run_state (set_enabled sample_env ''alice'' False) sample_host = (Inr (), s') \<and>
     fst (run_state (user sample_env sample_token) s') \<noteq> Inr (Some ''alice'')"
proof -
  have "fst (run_state (set_enabled sample_env ''alice'' False) sample_host) = Inr ()"
    by (simp add: set_enabled_def revoke_user_def exec_simps exec_stmt.simps delete_where_def
        update_where_def sample_host_def)
  then obtain s' where r: "run_state (set_enabled sample_env ''alice'' False) sample_host = (Inr (), s')"
    by (metis prod.collapse)
  with revocation_complete [OF sample_ok disjI1 [OF r]] show ?thesis by blast
qed

text \<open>
  Logging out removes the session, so its token authenticates nobody and its tickets are
  refused. The ticket rows themselves stay in the table: only \<open>revoke_user\<close> deletes them.
\<close>

theorem logout_disarms_tickets:
  assumes "db_ok s" and "run_state (revoke e token) s = (Inr (), s')"
    and "r \<in> set (tickets s)" and "tic_session r = sha256 e token" and "tic_hash r = sha256 e tk"
  shows "r \<in> set (tickets s') \<and> fst (run_state (redeem e tk relay) s') \<noteq> Inr True \<and>
    (\<forall>name. fst (run_state (user e token) s') \<noteq> Inr (Some name))"
proof -
  have db: "db_ok s'" using preservesD_run [OF revoke_db_ok assms(2,1)] .
  have s': "sessions s' = filter (\<lambda>x. ses_hash x \<noteq> sha256 e token) (sessions s)"
    "tickets s' = tickets s"
    using assms(2) by (auto simp: revoke_run)
  have "r' = r" if "r' \<in> set (tickets s')" "tic_hash r' = sha256 e tk" for r'
    using db that assms(3,5) s'(2) by (auto simp: db_ok_def intro: unique_onD)
  then have "fst (run_state (redeem e tk relay) s') \<noteq> Inr True"
    using assms(4) by (auto simp: redeem_true_iff [OF db] session_live_iff s'(1))
  moreover have "fst (run_state (user e token) s') \<noteq> Inr (Some name)" for name
    by (auto simp: user_run s'(1) dest!: session_user_Some)
  ultimately show ?thesis using assms(3) s'(2) by simp
qed

lemma logout_disarms_tickets_witness:
  "\<exists>s'. run_state (revoke sample_env sample_token) sample_ticketed = (Inr (), s') \<and>
     sample_row \<in> set (tickets s') \<and>
     fst (run_state (redeem sample_env sample_token ''u'') s') \<noteq> Inr True"
proof -
  obtain s' where r: "run_state (revoke sample_env sample_token) sample_ticketed = (Inr (), s')"
    by (simp add: revoke_run)
  have "sample_row \<in> set (tickets sample_ticketed)" "tic_session sample_row = sha256 sample_env sample_token"
    "tic_hash sample_row = sha256 sample_env sample_token"
    by (simp_all add: sample_ticketed_def sample_row_def sample_token_def)
  from logout_disarms_tickets [OF sample_ticketed_ok r this] r show ?thesis by blast
qed

text \<open>
  A successful login presented a password that verifies against the stored hash of an enabled
  account, and the returned token authenticates as that account for 24 hours.
\<close>

theorem login_opens_session:
  assumes ok: "db_ok s" and logged: "run_state (login e name pw) s = (Inr (Some token), s1)"
    and len: "\<forall>b. length (uuid_simple e b) = 32"
    and up: "sql_ok e (ticks s1 + 1)"
    and fresh: "clock_at e (ticks s1) < clock_at e (ticks s + 5) + 86400"
  shows "(\<exists>a \<in> set (accounts s). acc_name a = name \<and> acc_enabled a = 1 \<and>
           bcrypt_verify e pw (acc_hash a) = Some True) \<and>
    fst (run_state (user e token) s1) = Inr (Some name)"
proof -
  note l = login_ok [OF logged]
  have ok1: "db_ok s1" using preservesD_run [OF login_db_ok logged ok] .
  let ?row = "\<lparr>ses_hash = sha256 e token, ses_name = name,
               ses_expires = clock_at e (ticks s + 5) + 86400\<rparr>"
  have row: "?row \<in> set (sessions s1)" using l by simp
  obtain a where a: "a \<in> set (accounts s1)" "acc_name a = name" "acc_enabled a = 1"
    using l by auto
  have "session_live (clock_at e (ticks s1)) s1 (sha256 e token)"
    using row a fresh by (auto simp: session_live_iff intro!: bexI [OF _ row] bexI [OF _ a(1)])
  then obtain n where n: "session_user (sha256 e token) (clock_at e (ticks s1)) s1 = Some n"
    using session_user_live by fastforce
  have "n = name"
    using session_user_Some [OF n] row ok1 by (auto simp: db_ok_def dest: unique_onD)
  with n l up len show ?thesis
    by (simp add: user_run)
qed

lemma login_opens_session_witness:
  "\<exists>token s1. run_state (login sample_env ''alice'' ''correct horse'') sample_host =
       (Inr (Some token), s1) \<and> fst (run_state (user sample_env token) s1) = Inr (Some ''alice'')"
proof -
  have "\<exists>token s1. run_state (login sample_env ''alice'' ''correct horse'') sample_host =
       (Inr (Some token), s1)"
    by (auto simp: login_def password_hash_of_def verify_password_def exec_simps exec_stmt.simps
        digest_def delete_where_def insert_unique_def sample_host_def)
  then obtain token s1 where
    r: "run_state (login sample_env ''alice'' ''correct horse'') sample_host = (Inr (Some token), s1)"
    by blast
  from login_opens_session [OF sample_ok r] r show ?thesis by simp
qed

text \<open>
  When \<open>set_password\<close> fails, either nothing was changed, or the new hash is stored and the
  revocation that should follow stopped before the sessions were deleted: the sessions, the devices
  and the jobs are those of before in every case.
\<close>

theorem set_password_failed:
  assumes "run_state (set_password e name pw) s = (Inl err, s')"
  shows "sessions s' = sessions s \<and> devices s' = devices s \<and> jobs s' = jobs s \<and>
    (accounts s' = accounts s \<and> tickets s' = tickets s \<or>
     (\<exists>hash. bcrypt_hash e (ticks s) pw = Some hash \<and>
       accounts s' = map (\<lambda>a. if acc_name a = name then a\<lparr>acc_hash := hash\<rparr> else a) (accounts s)))"
  using assms
  by (auto simp: set_password_def hash_password_def revoke_user_def revoked_def user_sessions_def
      exec_simps exec_stmt.simps update_where_def delete_where_def map_idI
      split: if_splits option.splits)

lemma set_password_failed_witness:
  "\<exists>s'. run_state (set_password sample_env ''bob'' ''a new password'') sample_host =
       (Inl (no_such_account ''bob''), s') \<and> sessions s' = sessions sample_host"
proof -
  obtain s' where r: "run_state (set_password sample_env ''bob'' ''a new password'') sample_host =
      (Inl (no_such_account ''bob''), s')"
    by (simp add: set_password_def hash_password_def exec_simps exec_stmt.simps update_where_def
        sample_host_def)
  from set_password_failed [OF r] r show ?thesis by blast
qed

text \<open>
  \<open>redeem\<close> deletes no row but the one presented. In particular rows that have expired are left
  in the table.
\<close>

theorem redeem_keeps_others:
  assumes "run_state (redeem e tk relay) s = (res, s')" and "r \<in> set (tickets s)"
    and "tic_hash r \<noteq> sha256 e tk \<or> tic_expires r \<le> clock_at e (ticks s)"
  shows "r \<in> set (tickets s') \<and> sessions s' = sessions s \<and> accounts s' = accounts s"
  using assms by (auto simp: redeem_run redeemable_def Let_def split: if_splits)

lemma redeem_keeps_others_witness:
  "sample_row \<in> set (tickets (snd (run_state (redeem sample_env ''another'' ''u'') sample_ticketed)))"
proof -
  obtain res s' where r: "run_state (redeem sample_env ''another'' ''u'') sample_ticketed = (res, s')"
    by (metis prod.collapse)
  have "sample_row \<in> set (tickets sample_ticketed)"
    "tic_hash sample_row \<noteq> sha256 sample_env ''another'' \<or>
       tic_expires sample_row \<le> clock_at sample_env (ticks sample_ticketed)"
    by (simp_all add: sample_ticketed_def sample_row_def)
  from redeem_keeps_others [OF r this] r show ?thesis by simp
qed

end
