(* ===== verification/Net.thy ===== *)
theory Net
  imports Prelude
begin

unbundle bit_operations_syntax

text \<open>
  The network types and functions of the Rust standard library that the source uses (std::net), and
  \<open>console_addr\<close> of src/common/mod.rs. An IPv6 socket address carries its flow label and scope id,
  which take part in its equality.
\<close>

datatype ip_addr = V4 "32 word" | V6 "128 word"

datatype socket_addr =
    SockV4 "32 word" "16 word"
  | SockV6 "128 word" "16 word" "32 word" "32 word"

fun sock_ip :: "socket_addr \<Rightarrow> ip_addr" where
  "sock_ip (SockV4 a p) = V4 a"
| "sock_ip (SockV6 a p f s) = V6 a"

fun sock_port :: "socket_addr \<Rightarrow> 16 word" where
  "sock_port (SockV4 a p) = p"
| "sock_port (SockV6 a p f s) = p"

text \<open>\<open>SocketAddr::new\<close>: flow label and scope id are zero.\<close>

fun socket_addr_new :: "ip_addr \<Rightarrow> 16 word \<Rightarrow> socket_addr" where
  "socket_addr_new (V4 a) p = SockV4 a p"
| "socket_addr_new (V6 a) p = SockV6 a p 0 0"

fun is_loopback :: "ip_addr \<Rightarrow> bool" where
  "is_loopback (V4 a) = (drop_bit 24 a = 127)"
| "is_loopback (V6 a) = (a = 1)"

fun is_unspecified :: "ip_addr \<Rightarrow> bool" where
  "is_unspecified (V4 a) = (a = 0)"
| "is_unspecified (V6 a) = (a = 0)"

definition is_private_v4 :: "32 word \<Rightarrow> bool" where
  "is_private_v4 a \<longleftrightarrow>
     drop_bit 24 a = 10 \<or> drop_bit 20 a = 2753 \<or> drop_bit 16 a = 49320"

text \<open>\<open>Ipv6Addr::to_ipv4\<close>: the mapped (\<open>::ffff:a.b.c.d\<close>) and the compatible form.\<close>

definition to_ipv4 :: "128 word \<Rightarrow> 32 word option" where
  "to_ipv4 a = (if drop_bit 32 a = 0 \<or> drop_bit 32 a = 65535 then Some (ucast a) else None)"

definition localhost_v4 :: ip_addr where
  "localhost_v4 = V4 2130706433"

text \<open>Text form of an address, the keys of the IP tables: dotted decimal for IPv4.\<close>

definition digit_char :: "nat \<Rightarrow> char" where
  "digit_char d = ''0123456789abcdef'' ! d"

fun show_base :: "nat \<Rightarrow> nat \<Rightarrow> string" where
  "show_base b n =
     (if b < 2 \<or> n < b then [digit_char n] else show_base b (n div b) @ [digit_char (n mod b)])"

declare show_base.simps [simp del]

definition show_nat :: "nat \<Rightarrow> string" where
  "show_nat n = show_base 10 n"

definition show_v4 :: "32 word \<Rightarrow> string" where
  "show_v4 a =
     show_nat (unat (drop_bit 24 a)) @ ''.'' @ show_nat (unat (drop_bit 16 a AND 255)) @ ''.'' @
     show_nat (unat (drop_bit 8 a AND 255)) @ ''.'' @ show_nat (unat (a AND 255))"

definition segments :: "128 word \<Rightarrow> nat list" where
  "segments a = map (\<lambda>i. unat (drop_bit (16 * (7 - i)) a AND 65535)) [0..<8]"

text \<open>
  \<open>Ipv6Addr\<close>'s \<open>Display\<close>: the first longest run of zero segments, when longer than one, is written
  \<open>::\<close>; the mapped form is written with its IPv4 part. The loop of the library keeps the run it is in
  and the longest one seen, each as its start and length.
\<close>

fun zero_span :: "nat list \<Rightarrow> nat \<Rightarrow> nat \<times> nat \<Rightarrow> nat \<times> nat \<Rightarrow> nat \<times> nat" where
  "zero_span [] i current longest = longest"
| "zero_span (x # xs) i (start, len) longest =
     (if x = 0 then
        (let cur = (if len = 0 then i else start, len + 1)
         in zero_span xs (i + 1) cur (if snd cur > snd longest then cur else longest))
      else zero_span xs (i + 1) (0, 0) longest)"

fun join_hex :: "nat list \<Rightarrow> string" where
  "join_hex [] = ''''"
| "join_hex [x] = show_base 16 x"
| "join_hex (x # xs) = show_base 16 x @ '':'' @ join_hex xs"

definition show_v6 :: "128 word \<Rightarrow> string" where
  "show_v6 a =
     (if drop_bit 32 a = 65535 then ''::ffff:'' @ show_v4 (ucast a)
      else let segs = segments a; (start, len) = zero_span segs 0 (0, 0) (0, 0)
           in if len > 1 then
                join_hex (take start segs) @ ''::'' @ join_hex (drop (start + len) segs)
              else join_hex segs)"

fun show_ip :: "ip_addr \<Rightarrow> string" where
  "show_ip (V4 a) = show_v4 a"
| "show_ip (V6 a) = show_v6 a"

text \<open>\<open>common::console_addr\<close>: where the console listens beside the bind address.\<close>

definition console_addr :: "ip_addr option \<Rightarrow> 16 word \<Rightarrow> socket_addr option" where
  "console_addr bind_addr port =
     (case bind_addr of
        None \<Rightarrow> None
      | Some ip \<Rightarrow>
          if is_unspecified ip \<or> ip = localhost_v4 then None
          else Some (socket_addr_new localhost_v4 port))"

end
