(* ===== verification/RateLimit.thy ===== *)
theory RateLimit
  imports World Net "HOL-Library.AList"
begin

text \<open>
  A fixed-window limiter over a hash table, the shape shared by the login attempts of
  src/account/api.rs and the audit records of src/account/audit.rs. A hash table is an association
  list with distinct keys, in whatever order the table is iterated.

  The locale \<open>window_limiter\<close> is the contract: while the window of an entry is open, each request
  of its key adds one, and a request is refused exactly when the count passes the limit. Its lemmas
  bound what a key can get through in one window; the components interpret it on their own code.
\<close>

type_synonym window_table = "(ip_addr \<times> int \<times> 32 word) list"

text \<open>\<open>retain(|_, (time, _)| now() - *time < 60)\<close>: the clock is read again for every entry.\<close>

fun retain_fresh :: "'e env_scheme \<Rightarrow> window_table \<Rightarrow> ('w world_scheme, window_table) state" where
  "retain_fresh e [] = State_Monad.return []"
| "retain_fresh e ((k, time, n) # m) = do {
     t \<leftarrow> unix_now e;
     m' \<leftarrow> retain_fresh e m;
     State_Monad.return (if t - time < 60 then (k, time, n) # m' else m')
   }"

text \<open>
  The rest of the step, at the reading \<open>t\<close> of the clock: a full table refuses keys it does not hold,
  otherwise the entry is created at \<open>(t, 0)\<close> if missing, counted (\<open>u32\<close>, wrapping) and compared.
\<close>

definition count_request ::
  "32 word \<Rightarrow> int \<Rightarrow> ip_addr \<Rightarrow> window_table \<Rightarrow> bool \<times> window_table" where
  "count_request limit t ip m =
     (let (time, n) = (case map_of m ip of Some entry \<Rightarrow> entry | None \<Rightarrow> (t, 0))
      in (limit < n + 1, AList.update ip (time, n + 1) m))"

definition table_full :: "ip_addr \<Rightarrow> window_table \<Rightarrow> bool" where
  "table_full ip m \<longleftrightarrow> length m \<ge> 10000 \<and> map_of m ip = None"

definition window_ok :: "window_table \<Rightarrow> bool" where
  "window_ok m \<longleftrightarrow> distinct (map fst m) \<and> length m \<le> 10000"

lemma run_retain_fresh:
  "\<exists>m'. run_state (retain_fresh e m) s = (m', s\<lparr>ticks := ticks s + length m\<rparr>) \<and>
     set m' \<subseteq> set m \<and> length m' \<le> length m \<and> (distinct (map fst m) \<longrightarrow> distinct (map fst m')) \<and>
     (\<forall>k t0 c. (k, t0, c) \<in> set m \<longrightarrow>
        (\<forall>n. ticks s \<le> n \<and> n < ticks s + length m \<longrightarrow> clock_at e n - t0 < 60) \<longrightarrow>
        (k, t0, c) \<in> set m')"
proof (induction e m arbitrary: s rule: retain_fresh.induct)
  case (2 e k time n m)
  let ?s1 = "s\<lparr>ticks := Suc (ticks s)\<rparr>"
  from "2.IH" [of "?s1"] obtain m' where
    IH: "run_state (retain_fresh e m) ?s1 = (m', ?s1\<lparr>ticks := Suc (ticks s) + length m\<rparr>)"
      "set m' \<subseteq> set m" "length m' \<le> length m" "distinct (map fst m) \<longrightarrow> distinct (map fst m')"
      "\<forall>k t0 c. (k, t0, c) \<in> set m \<longrightarrow>
        (\<forall>n. Suc (ticks s) \<le> n \<and> n < Suc (ticks s) + length m \<longrightarrow> clock_at e n - t0 < 60) \<longrightarrow>
        (k, t0, c) \<in> set m'"
    by auto
  show ?case
    using IH by (auto simp: exec_simps)
qed simp

section \<open>The contract\<close>

text \<open>A sequence of requests, with the keys that were let through.\<close>

fun admitted :: "('k \<Rightarrow> ('s, bool) state) \<Rightarrow> 'k list \<Rightarrow> 's \<Rightarrow> 'k list \<times> 's" where
  "admitted limited [] s = ([], s)"
| "admitted limited (k # ks) s =
     (let (b, s1) = run_state (limited k) s; (oks, s2) = admitted limited ks s1
      in (if b then oks else k # oks, s2))"

locale window_limiter =
  fixes limited :: "'k \<Rightarrow> ('s, bool) state"
    and table :: "'s \<Rightarrow> ('k \<times> int \<times> 32 word) list"
    and time :: "'s \<Rightarrow> nat"
    and clock :: "nat \<Rightarrow> int"
    and limit :: "32 word"
  assumes limit_pos: "1 \<le> limit"
    and forward: "run_state (limited k) s = (b, s') \<Longrightarrow> time s \<le> time s'"
    and keys: "run_state (limited k) s = (b, s') \<Longrightarrow> distinct (map fst (table s)) \<Longrightarrow>
      distinct (map fst (table s'))"
    and bounded: "run_state (limited k) s = (b, s') \<Longrightarrow> length (table s) \<le> 10000 \<Longrightarrow>
      length (table s') \<le> 10000"
    and starts: "run_state (limited k') s = (b, s') \<Longrightarrow> map_of (table s) k = None \<Longrightarrow>
      (if k' = k \<and> \<not> b
       then \<exists>n. time s \<le> n \<and> n < time s' \<and> map_of (table s') k = Some (clock n, 1)
       else map_of (table s') k = None)"
    and counts: "run_state (limited k') s = (b, s') \<Longrightarrow> distinct (map fst (table s)) \<Longrightarrow>
      map_of (table s) k = Some (t0, c) \<Longrightarrow>
      (\<And>n. time s \<le> n \<Longrightarrow> n < time s' \<Longrightarrow> clock n - t0 < 60) \<Longrightarrow>
      map_of (table s') k = Some (t0, if k' = k then c + 1 else c) \<and>
      (k' = k \<longrightarrow> b = (limit < c + 1))"
begin

lemma admitted_Cons:
  "run_state (limited k) s = (b, s1) \<Longrightarrow>
     fst (admitted limited (k # ks) s) =
       (if b then fst (admitted limited ks s1) else k # fst (admitted limited ks s1)) \<and>
     snd (admitted limited (k # ks) s) = snd (admitted limited ks s1)"
  by (simp split: prod.splits)

lemma admitted_forward: "time s \<le> time (snd (admitted limited ks s))"
proof (induction ks arbitrary: s)
  case (Cons k ks)
  obtain b s1 where r: "run_state (limited k) s = (b, s1)" by (metis prod.collapse)
  from Cons [of s1] forward [OF r] admitted_Cons [OF r] show ?case by simp
qed simp

lemma admitted_keys:
  "distinct (map fst (table s)) \<Longrightarrow> distinct (map fst (table (snd (admitted limited ks s))))"
proof (induction ks arbitrary: s)
  case (Cons k ks)
  obtain b s1 where r: "run_state (limited k) s = (b, s1)" by (metis prod.collapse)
  from Cons.IH [OF keys [OF r Cons.prems]] admitted_Cons [OF r] show ?case by simp
qed simp

lemma admitted_bounded:
  "length (table s) \<le> 10000 \<Longrightarrow> length (table (snd (admitted limited ks s))) \<le> 10000"
proof (induction ks arbitrary: s)
  case (Cons k ks)
  obtain b s1 where r: "run_state (limited k) s = (b, s1)" by (metis prod.collapse)
  from Cons.IH [OF bounded [OF r Cons.prems]] admitted_Cons [OF r] show ?case by simp
qed simp

text \<open>While the window of an entry is open, its count and what was let through stay in the limit.\<close>

lemma window_bound:
  assumes "distinct (map fst (table s))" and "map_of (table s) k = Some (t0, c)"
    and "\<And>n. time s \<le> n \<Longrightarrow> n < time (snd (admitted limited ks s)) \<Longrightarrow> clock n - t0 < 60"
    and "unat c + length ks < 2 ^ 32"
  shows "count_list (fst (admitted limited ks s)) k + unat c \<le> max (unat c) (unat limit)"
  using assms
proof (induction ks arbitrary: s c)
  case (Cons k' ks)
  obtain b s1 where r: "run_state (limited k') s = (b, s1)" by (metis prod.collapse)
  note split = admitted_Cons [OF r, of ks]
  have le: "time s \<le> time s1" "time s1 \<le> time (snd (admitted limited ks s1))"
    using forward [OF r] admitted_forward by auto
  have step: "map_of (table s1) k = Some (t0, if k' = k then c + 1 else c)"
    "k' = k \<longrightarrow> b = (limit < c + 1)"
    using counts [OF r Cons.prems(1,2)] Cons.prems(3) le split by auto
  have c1: "unat (c + 1) = Suc (unat c)"
    using Cons.prems(4) by (simp add: unat_word_ariths)
  have IH: "count_list (fst (admitted limited ks s1)) k + unat (if k' = k then c + 1 else c)
      \<le> max (unat (if k' = k then c + 1 else c)) (unat limit)"
    using Cons.IH [OF keys [OF r Cons.prems(1)] step(1)] Cons.prems(3,4) le split c1 by auto
  have "limit < c + 1 \<longleftrightarrow> unat limit < Suc (unat c)"
    by (simp add: word_less_nat_alt c1)
  with IH step(2) split c1 show ?case
    by (auto split: if_splits)
qed simp

text \<open>A key without an entry gets at most \<open>limit\<close> requests through in less than a minute.\<close>

lemma fresh_bound:
  assumes "distinct (map fst (table s))" and "map_of (table s) k = None"
    and "\<And>m n. time s \<le> m \<Longrightarrow> time s \<le> n \<Longrightarrow> n < time (snd (admitted limited ks s)) \<Longrightarrow>
      m < time (snd (admitted limited ks s)) \<Longrightarrow> clock n - clock m < 60"
    and "length ks < 2 ^ 32"
  shows "count_list (fst (admitted limited ks s)) k \<le> unat limit"
  using assms
proof (induction ks arbitrary: s)
  case (Cons k' ks)
  obtain b s1 where r: "run_state (limited k') s = (b, s1)" by (metis prod.collapse)
  note split = admitted_Cons [OF r, of ks]
  have le: "time s \<le> time s1" "time s1 \<le> time (snd (admitted limited ks s1))"
    using forward [OF r] admitted_forward by auto
  note dist = keys [OF r Cons.prems(1)]
  show ?case
  proof (cases "k' = k \<and> \<not> b")
    case True
    then obtain n where n: "time s \<le> n" "n < time s1" "map_of (table s1) k = Some (clock n, 1)"
      using starts [OF r Cons.prems(2)] by auto
    have "count_list (fst (admitted limited ks s1)) k + unat (1 :: 32 word)
        \<le> max (unat (1 :: 32 word)) (unat limit)"
      using Cons.prems(3,4) n le split by (intro window_bound [OF dist n(3)]) auto
    then show ?thesis
      using True split limit_pos by (simp add: word_le_nat_alt)
  next
    case False
    then have "map_of (table s1) k = None"
      using starts [OF r Cons.prems(2)] by auto
    then have "count_list (fst (admitted limited ks s1)) k \<le> unat limit"
      using Cons.prems(3,4) le split by (intro Cons.IH [OF dist]) auto
    with False split show ?thesis by auto
  qed
qed simp

end

section \<open>Providing the contract\<close>

text \<open>
  An operation that filters its table, refuses a full table and otherwise counts the request meets
  the contract, wherever it keeps the table.
\<close>

definition window_run ::
  "'e env_scheme \<Rightarrow> 32 word \<Rightarrow> ('w world_scheme \<Rightarrow> window_table)
     \<Rightarrow> (window_table \<Rightarrow> 'w world_scheme \<Rightarrow> 'w world_scheme) \<Rightarrow> ip_addr \<Rightarrow> 'w world_scheme
     \<Rightarrow> bool \<times> 'w world_scheme" where
  "window_run e limit get put ip s =
     (let (m, s1) = run_state (retain_fresh e (get s)) s
      in if table_full ip m then (True, put m s1)
         else let (b, m') = count_request limit (clock_at e (ticks s1)) ip m
              in (b, put m' (s1\<lparr>ticks := Suc (ticks s1)\<rparr>)))"

lemma length_update:
  "length (AList.update k v m) = (if map_of m k = None then Suc (length m) else length m)"
  by (induction m) auto

lemma window_runE:
  assumes "window_run e limit get put ip s = (b, s')"
    and "\<And>m s. get (put m s) = m" and "\<And>m s. ticks (put m s) = ticks s"
  obtains m where "set m \<subseteq> set (get s)" and "length m \<le> length (get s)"
    and "distinct (map fst (get s)) \<Longrightarrow> distinct (map fst m)"
    and "\<And>k t0 c. (k, t0, c) \<in> set (get s) \<Longrightarrow>
      (\<And>n. ticks s \<le> n \<Longrightarrow> n < ticks s' \<Longrightarrow> clock_at e n - t0 < 60) \<Longrightarrow> (k, t0, c) \<in> set m"
    and "ticks s \<le> ticks s'"
    and "b \<and> table_full ip m \<and> get s' = m \<or>
      (\<not> table_full ip m \<and> ticks s \<le> ticks s' - 1 \<and> ticks s' - 1 < ticks s' \<and>
       (b, get s') = count_request limit (clock_at e (ticks s' - 1)) ip m)"
proof -
  obtain m where
    m: "run_state (retain_fresh e (get s)) s = (m, s\<lparr>ticks := ticks s + length (get s)\<rparr>)"
      "set m \<subseteq> set (get s)" "length m \<le> length (get s)"
      "distinct (map fst (get s)) \<longrightarrow> distinct (map fst m)"
      "\<forall>k t0 c. (k, t0, c) \<in> set (get s) \<longrightarrow>
        (\<forall>n. ticks s \<le> n \<and> n < ticks s + length (get s) \<longrightarrow> clock_at e n - t0 < 60) \<longrightarrow>
        (k, t0, c) \<in> set m"
    using run_retain_fresh [of e "get s" s] by auto
  have "ticks s + length (get s) \<le> ticks s'"
    using assms(1) by (auto simp: window_run_def m(1) Let_def assms(3) split: if_splits prod.splits)
  moreover have "b \<and> table_full ip m \<and> get s' = m \<or>
      (\<not> table_full ip m \<and> ticks s \<le> ticks s' - 1 \<and> ticks s' - 1 < ticks s' \<and>
       (b, get s') = count_request limit (clock_at e (ticks s' - 1)) ip m)"
    using assms(1)
    by (auto simp: window_run_def m(1) Let_def assms(2,3) split: if_splits prod.splits)
  ultimately show thesis
    using m by (intro that [of m]) auto
qed

lemma window_limiterI:
  assumes run: "\<And>k s. run_state (limited k) s = window_run e limit get put k s"
    and gp: "\<And>m s. get (put m s) = m" and tp: "\<And>m s. ticks (put m s) = ticks s"
    and pos: "1 \<le> limit"
  shows "window_limiter limited get ticks (clock_at e) limit"
proof unfold_locales
  fix k k' s b s' t0 c
  assume r: "run_state (limited k') s = (b, s')"
  from r obtain m where
    m: "set m \<subseteq> set (get s)" "length m \<le> length (get s)"
      "distinct (map fst (get s)) \<Longrightarrow> distinct (map fst m)"
      "\<And>k t0 c. (k, t0, c) \<in> set (get s) \<Longrightarrow>
        (\<And>n. ticks s \<le> n \<Longrightarrow> n < ticks s' \<Longrightarrow> clock_at e n - t0 < 60) \<Longrightarrow> (k, t0, c) \<in> set m"
    and le: "ticks s \<le> ticks s'"
    and out: "b \<and> table_full k' m \<and> get s' = m \<or>
      (\<not> table_full k' m \<and> ticks s \<le> ticks s' - 1 \<and> ticks s' - 1 < ticks s' \<and>
       (b, get s') = count_request limit (clock_at e (ticks s' - 1)) k' m)"
    unfolding run by (rule window_runE [OF _ gp tp]) blast+
  note count = count_request_def Let_def
  show "ticks s \<le> ticks s'" by (rule le)
  show "distinct (map fst (get s'))" if "distinct (map fst (get s))"
    using out m(3) [OF that] by (auto simp: count distinct_update split: option.splits)
  show "length (get s') \<le> 10000" if "length (get s) \<le> 10000"
    using out m(2) that by (auto simp: count table_full_def length_update split: option.splits)
  show "if k' = k \<and> \<not> b then \<exists>n. ticks s \<le> n \<and> n < ticks s' \<and> map_of (get s') k = Some (clock_at e n, 1)
       else map_of (get s') k = None" if "map_of (get s) k = None"
  proof -
    have "map_of m k = None" using that m(1) by (force simp: map_of_eq_None_iff)
    moreover have "\<not> limit < 1" using pos by (rule leD)
    ultimately show ?thesis using out
      by (cases "k' = k")
        (auto simp: count update_conv' split: option.splits intro!: exI [of _ "ticks s' - 1"])
  qed
  show "map_of (get s') k = Some (t0, if k' = k then c + 1 else c) \<and> (k' = k \<longrightarrow> b = (limit < c + 1))"
    if "distinct (map fst (get s))" and "map_of (get s) k = Some (t0, c)"
      and "\<And>n. ticks s \<le> n \<Longrightarrow> n < ticks s' \<Longrightarrow> clock_at e n - t0 < 60"
  proof -
    have "(k, t0, c) \<in> set m" using m(4) that(2,3) by (auto dest: map_of_SomeD)
    then have "map_of m k = Some (t0, c)" using m(3) [OF that(1)] by simp
    with out show ?thesis
      by (auto simp: count update_conv' table_full_def split: option.splits)
  qed
qed (rule pos)

end
