(* ===== verification/TicketDesk.thy ===== *)
theory TicketDesk
  imports Prelude
begin

text \<open>
  The contract between a relay and whatever redeems its tickets: the account store opened in the
  process (account::redeem_ticket) or the internal HTTP endpoint of the account service. The relay
  relies on one promise only, that a ticket which was accepted is spent.
\<close>

text \<open>A sequence of presentations, and those that were accepted.\<close>

fun accept_all ::
  "('t \<Rightarrow> 'u \<Rightarrow> ('s, bool) state) \<Rightarrow> ('t \<times> 'u) list \<Rightarrow> 's \<Rightarrow> ('t \<times> 'u) list \<times> 's" where
  "accept_all present [] s = ([], s)"
| "accept_all present ((tk, u) # ps) s =
     (let (b, s1) = run_state (present tk u) s; (oks, s2) = accept_all present ps s1
      in (if b then (tk, u) # oks else oks, s2))"

locale ticket_desk =
  fixes present :: "'t \<Rightarrow> 'u \<Rightarrow> ('s, bool) state"
    and good :: "'s \<Rightarrow> bool"
    and spent :: "'t \<Rightarrow> 's \<Rightarrow> bool"
  assumes keeps: "good s \<Longrightarrow> run_state (present tk u) s = (b, s') \<Longrightarrow> good s'"
    and accepts: "good s \<Longrightarrow> run_state (present tk u) s = (True, s') \<Longrightarrow> spent tk s'"
    and refuses: "good s \<Longrightarrow> spent tk s \<Longrightarrow> run_state (present tk u) s = (b, s') \<Longrightarrow> \<not> b"
    and stays: "good s \<Longrightarrow> spent tk s \<Longrightarrow> run_state (present tk' u) s = (b, s') \<Longrightarrow> spent tk s'"
begin

lemma accept_all_good: "good s \<Longrightarrow> good (snd (accept_all present ps s))"
proof (induction ps arbitrary: s)
  case (Cons p ps)
  obtain t u where p: "p = (t, u)" by force
  obtain b s1 where r: "run_state (present t u) s = (b, s1)" by (metis prod.collapse)
  from Cons.IH [OF keeps [OF Cons.prems r]] show ?case by (auto simp: p r split: prod.splits)
qed simp

lemma accept_all_spent:
  "good s \<Longrightarrow> spent tk s \<Longrightarrow>
     tk \<notin> fst ` set (fst (accept_all present ps s)) \<and> spent tk (snd (accept_all present ps s))"
proof (induction ps arbitrary: s)
  case (Cons p ps)
  obtain t u where p: "p = (t, u)" by force
  obtain b s1 where r: "run_state (present t u) s = (b, s1)" by (metis prod.collapse)
  have "\<not> b" if "t = tk" using refuses [OF Cons.prems] r that by blast
  with Cons.IH [OF keeps [OF Cons.prems(1) r] stays [OF Cons.prems r]] show ?case
    by (auto simp: p r split: prod.splits)
qed simp

text \<open>No ticket is accepted twice, in any order of presentations.\<close>

lemma accepted_once: "good s \<Longrightarrow> distinct (map fst (fst (accept_all present ps s)))"
proof (induction ps arbitrary: s)
  case (Cons p ps)
  obtain t u where p: "p = (t, u)" by force
  obtain b s1 where r: "run_state (present t u) s = (b, s1)" by (metis prod.collapse)
  note s1 = keeps [OF Cons.prems r]
  have "t \<notin> fst ` set (fst (accept_all present ps s1))" if b
    using accept_all_spent [OF s1 accepts [OF Cons.prems], of t u] r that by simp
  with Cons.IH [OF s1] show ?case
    by (force simp: p r split: prod.splits)
qed simp

end

end
