(* ===== verification/Text.thy ===== *)
theory Text
  imports Prelude
begin

text \<open>
  The \<open>str\<close> operations of the Rust standard library that the source uses on its byte strings:
  \<open>chars\<close> (a character is the list of its UTF-8 bytes), \<open>chars().take(n).collect()\<close>, \<open>trim\<close>,
  \<open>split\<close>, \<open>strip_prefix\<close>, \<open>to_ascii_lowercase\<close> and decimal numbers.
\<close>

definition char_width :: "char \<Rightarrow> nat" where
  "char_width c =
     (let n = (of_char c :: nat) in if n < 128 then 1 else if n < 224 then 2 else if n < 240 then 3 else 4)"

fun chars :: "string \<Rightarrow> string list" where
  "chars [] = []"
| "chars (c # cs) = (c # take (char_width c - 1) cs) # chars (drop (char_width c - 1) cs)"

definition take_chars :: "nat \<Rightarrow> string \<Rightarrow> string" where
  "take_chars n t = concat (take n (chars t))"

lemma concat_chars [simp]: "concat (chars t) = t"
  by (induction t rule: chars.induct) (simp_all add: append_take_drop_id)

lemma chars_width: "c \<in> set (chars t) \<Longrightarrow> length c \<le> 4"
  by (induction t rule: chars.induct) (auto simp: char_width_def Let_def min_def split: if_splits)

lemma length_concat_le: "(\<And>x. x \<in> set xs \<Longrightarrow> length x \<le> k) \<Longrightarrow> length (concat xs) \<le> k * length xs"
proof (induction xs)
  case (Cons x xs)
  then have "length x \<le> k" "length (concat xs) \<le> k * length xs" by auto
  then show ?case by simp
qed simp

text \<open>The truncation to \<open>n\<close> characters is a prefix of at most \<open>4 n\<close> bytes.\<close>

lemma length_take_chars: "length (take_chars n t) \<le> 4 * n"
proof -
  have "length (take_chars n t) \<le> 4 * length (take n (chars t))"
    unfolding take_chars_def by (rule length_concat_le) (auto dest: in_set_takeD chars_width)
  then show ?thesis by simp
qed

lemma take_chars_prefix: "\<exists>rest. t = take_chars n t @ rest"
  by (metis append_take_drop_id concat_append concat_chars take_chars_def)

text \<open>\<open>char::is_whitespace\<close>: the code points of the Unicode property White_Space, as UTF-8.\<close>

definition utf8_bytes :: "nat list \<Rightarrow> string" where
  "utf8_bytes ns = map char_of ns"

definition is_whitespace :: "string \<Rightarrow> bool" where
  "is_whitespace c \<longleftrightarrow> c \<in> set (map utf8_bytes
     ([[n]. n \<leftarrow> [9..<14]] @ [[32], [194, 133], [194, 160], [225, 154, 128]] @
      [[226, 128, n]. n \<leftarrow> [128..<139]] @
      [[226, 128, 168], [226, 128, 169], [226, 128, 175], [226, 129, 159], [227, 128, 128]]))"

definition trim :: "string \<Rightarrow> string" where
  "trim t = concat (rev (dropWhile is_whitespace (rev (dropWhile is_whitespace (chars t)))))"

text \<open>ASCII text that begins and ends with a printing character is trimmed already.\<close>

definition printing :: "char \<Rightarrow> bool" where
  "printing c \<longleftrightarrow> 32 < (of_char c :: nat) \<and> (of_char c :: nat) < 127"

lemma printing_not_white: "printing c \<Longrightarrow> \<not> is_whitespace [c]"
proof
  assume "printing c" "is_whitespace [c]"
  then have "[c] \<in> set (map utf8_bytes ([[n]. n \<leftarrow> [9..<14]] @ [[32]]))"
    by (auto simp: is_whitespace_def utf8_bytes_def)
  then have "(of_char c :: nat) \<in> {9..<14} \<union> {32}" by (auto simp: utf8_bytes_def)
  with \<open>printing c\<close> show False by (auto simp: printing_def)
qed

lemma ascii_chars: "list_all (\<lambda>c. (of_char c :: nat) < 128) t \<Longrightarrow> chars t = map (\<lambda>c. [c]) t"
  by (induction t) (auto simp: char_width_def)

lemma trim_ascii:
  assumes "list_all (\<lambda>c. (of_char c :: nat) < 128) t" and "printing (hd t)" and "printing (last t)" and "t \<noteq> []"
  shows "trim t = t"
proof -
  have keep: "dropWhile is_whitespace (map (\<lambda>c. [c]) u) = map (\<lambda>c. [c]) u" if "u \<noteq> []" "printing (hd u)" for u
    using that printing_not_white by (cases u) auto
  have "concat (map (\<lambda>c. [c]) t) = t" by (induction t) auto
  then show ?thesis
    using keep [of t] keep [of "rev t"] assms by (simp add: trim_def ascii_chars rev_map hd_rev)
qed

lemma length_trim: "length (trim t) \<le> length t"
proof -
  have "length (concat (dropWhile P xs)) \<le> length (concat xs)" for P and xs :: "string list"
    by (induction xs) auto
  moreover have "length (concat (rev xs)) = length (concat xs)" for xs :: "string list"
    by (simp add: length_concat rev_map [symmetric])
  ultimately show ?thesis
    unfolding trim_def by (metis concat_chars le_trans)
qed

definition strip_prefix :: "string \<Rightarrow> string \<Rightarrow> string option" where
  "strip_prefix p t = (if take (length p) t = p then Some (drop (length p) t) else None)"

lemma strip_prefix_Some: "strip_prefix p t = Some r \<longleftrightarrow> t = p @ r"
  by (auto simp: strip_prefix_def) (metis append_take_drop_id)

text \<open>\<open>str::split\<close> with a one-byte separator: always at least one piece.\<close>

fun split_on :: "char \<Rightarrow> string \<Rightarrow> string list" where
  "split_on c [] = [[]]"
| "split_on c (x # xs) =
     (if x = c then [] # split_on c xs
      else case split_on c xs of [] \<Rightarrow> [[x]] | p # ps \<Rightarrow> (x # p) # ps)"

lemma split_on_nonempty [simp]: "split_on c t \<noteq> []"
  by (cases t) (auto split: list.splits)

lemma split_on_parts: "p \<in> set (split_on c t) \<Longrightarrow> c \<notin> set p"
  by (induction t arbitrary: p) (auto split: if_splits list.splits)

definition ascii_lower :: "char \<Rightarrow> char" where
  "ascii_lower c =
     (let n = (of_char c :: nat) in if 65 \<le> n \<and> n \<le> 90 then char_of (n + 32) else c)"

definition to_ascii_lowercase :: "string \<Rightarrow> string" where
  "to_ascii_lowercase t = map ascii_lower t"

text \<open>\<open>u32::from_str\<close> and its siblings: an optional plus, then decimal digits that stay below \<open>2 ^ w\<close>.\<close>

definition digit_of :: "char \<Rightarrow> nat option" where
  "digit_of c = (let n = (of_char c :: nat) in if 48 \<le> n \<and> n \<le> 57 then Some (n - 48) else None)"

fun digits_value :: "nat \<Rightarrow> string \<Rightarrow> nat option" where
  "digits_value acc [] = Some acc"
| "digits_value acc (c # cs) =
     (case digit_of c of None \<Rightarrow> None | Some d \<Rightarrow> digits_value (10 * acc + d) cs)"

definition parse_unsigned :: "nat \<Rightarrow> string \<Rightarrow> nat option" where
  "parse_unsigned w t =
     (let digits = (case t of [] \<Rightarrow> [] | c # cs \<Rightarrow> if c = CHR ''+'' then cs else t)
      in if digits = [] then None
         else case digits_value 0 digits of
             None \<Rightarrow> None
           | Some n \<Rightarrow> if n < 2 ^ w then Some n else None)"

lemma parse_unsigned_bound: "parse_unsigned w t = Some n \<Longrightarrow> n < 2 ^ w"
  by (auto simp: parse_unsigned_def Let_def split: if_splits option.splits)

end
