(* ===== verification/AccountApi.thy ===== *)
theory AccountApi
  imports AccountStore RateLimit TicketDesk Text
begin

text \<open>
  The HTTP account service: src/account/mod.rs and src/account/api.rs, one definition per handler.

  \<open>json\<close> is serde_json's \<open>Value\<close> and a response is \<open>Inr body\<close> (status 200) or \<open>Inl (status, body)\<close>.
  Parsing bytes to JSON or to a request struct and reading a header as text are functions of
  serde_json and of the http crate, fields of \<open>service_env\<close>. \<open>authorized\<close>, \<open>redeem_ticket\<close> and
  \<open>peer_ticket\<close> are the in-process entry points that hbbs and hbbr call.
\<close>

datatype json =
    JNull
  | JBool bool
  | JInt int
  | JFloat string
  | JString string
  | JArray "json list"
  | JObject "(string \<times> json) list"

type_synonym response = "(nat \<times> json) + json"
type_synonym headers = "(string \<times> string) list"

record service_env = env +
  header_to_str :: "string \<Rightarrow> string option"
  parse_json :: "string \<Rightarrow> json option"
  parse_credentials :: "string \<Rightarrow> (string \<times> string) option"
  parse_redeem :: "string \<Rightarrow> (string \<times> string) option"
  json_text :: "json \<Rightarrow> string"
  strings_text :: "string list \<Rightarrow> string option"
  parse_strings :: "string \<Rightarrow> string list option"

record service = host +
  attempts :: window_table
  audit_rate :: window_table
  peers_attached :: bool

definition error :: "nat \<Rightarrow> string \<Rightarrow> nat \<times> json" where
  "error code message = (code, JObject [(''error'', JString message)])"

text \<open>\<open>Value::get\<close> with a string key, and \<open>Value::as_str\<close>, \<open>Value::as_i64\<close>.\<close>

fun json_get :: "string \<Rightarrow> json \<Rightarrow> json option" where
  "json_get key (JObject members) = map_of members key"
| "json_get key _ = None"

fun as_str :: "json \<Rightarrow> string option" where
  "as_str (JString t) = Some t"
| "as_str _ = None"

fun json_i64 :: "json \<Rightarrow> int option" where
  "json_i64 (JInt n) = (if n < 2 ^ 63 then Some n else None)"
| "json_i64 _ = None"

definition bearer :: "'e service_env_scheme \<Rightarrow> headers \<Rightarrow> string" where
  "bearer e headers =
     (case map_of headers ''authorization'' of
        None \<Rightarrow> ''''
      | Some v \<Rightarrow>
          (case header_to_str e v of
             None \<Rightarrow> ''''
           | Some t \<Rightarrow> (case strip_prefix ''Bearer '' t of None \<Rightarrow> '''' | Some r \<Rightarrow> r)))"

definition profile :: "string \<Rightarrow> json" where
  "profile name = JObject [(''name'', JString name), (''display_name'', JString name),
     (''status'', JInt 1), (''is_admin'', JBool False)]"

section \<open>In-process entry points\<close>

text \<open>
  \<open>account::shared\<close>: the database is opened on the first use (the connection and seven \<open>CREATE\<close>
  statements, none of which changes a row), and kept once that has succeeded.
\<close>

fun run_all :: "nat \<Rightarrow> 'e env_scheme \<Rightarrow> ('w host_scheme, store_error + unit) state" where
  "run_all 0 e = State_Monad.return (Inr ())"
| "run_all (Suc n) e = try_bind (query e (\<lambda>_. ())) (\<lambda>_. run_all n e)"

definition shared :: "'e env_scheme \<Rightarrow> ('w host_scheme, store_error + unit) state" where
  "shared e = do {
     opened \<leftarrow> gets shared_open;
     if opened then State_Monad.return (Inr ())
     else try_bind (run_all 8 e) (\<lambda>_. do {
       modify (\<lambda>s. s\<lparr>shared_open := True\<rparr>);
       State_Monad.return (Inr ())
     })
   }"

definition authorized :: "'e env_scheme \<Rightarrow> string \<Rightarrow> ('w host_scheme, bool) state" where
  "authorized e token = do {
     db \<leftarrow> shared e;
     case db of
       Inl err \<Rightarrow> State_Monad.return False
     | Inr _ \<Rightarrow> do {
         r \<leftarrow> user e token;
         State_Monad.return
           (case r of Inr (Some name) \<Rightarrow> True | Inr None \<Rightarrow> False | Inl err \<Rightarrow> False)
       }
   }"

definition redeem_ticket ::
  "'e env_scheme \<Rightarrow> string \<Rightarrow> string \<Rightarrow> ('w host_scheme, bool) state" where
  "redeem_ticket e tk relay_id = do {
     db \<leftarrow> shared e;
     case db of
       Inl err \<Rightarrow> State_Monad.return False
     | Inr _ \<Rightarrow> do {
         r \<leftarrow> redeem e tk relay_id;
         State_Monad.return (case r of Inr b \<Rightarrow> b | Inl err \<Rightarrow> False)
       }
   }"

definition peer_ticket ::
  "'e env_scheme \<Rightarrow> string \<Rightarrow> string \<Rightarrow> ('w host_scheme, string option) state" where
  "peer_ticket e session_token uuid = do {
     db \<leftarrow> shared e;
     case db of
       Inl err \<Rightarrow> State_Monad.return None
     | Inr _ \<Rightarrow> do {
         r \<leftarrow> ticket e session_token uuid;
         State_Monad.return (case r of Inr t \<Rightarrow> t | Inl err \<Rightarrow> None)
       }
   }"

section \<open>Handlers\<close>

definition login_limited ::
  "'e env_scheme \<Rightarrow> ip_addr \<Rightarrow> ('w service_scheme, bool) state" where
  "login_limited e ip = do {
     m \<leftarrow> gets attempts;
     m' \<leftarrow> retain_fresh e m;
     modify (\<lambda>s. s\<lparr>attempts := m'\<rparr>);
     if table_full ip m' then State_Monad.return True
     else do {
       t \<leftarrow> unix_now e;
       modify (\<lambda>s. s\<lparr>attempts := snd (count_request 10 t ip m')\<rparr>);
       State_Monad.return (fst (count_request 10 t ip m'))
     }
   }"

definition login_handler ::
  "'e service_env_scheme \<Rightarrow> ip_addr \<Rightarrow> string \<Rightarrow> ('w service_scheme, response) state" where
  "login_handler e ip body =
     (if length body > 16384 then State_Monad.return (Inl (error 413 ''Request too large''))
      else do {
        limited \<leftarrow> login_limited e ip;
        if limited then State_Monad.return (Inl (error 429 ''Try again later''))
        else (case parse_credentials e body of
            None \<Rightarrow> State_Monad.return (Inl (error 400 ''Invalid request''))
          | Some (username, password) \<Rightarrow> do {
              r \<leftarrow> login e username password;
              State_Monad.return (case r of
                  Inl err \<Rightarrow> Inl (error 500 ''Authentication unavailable'')
                | Inr None \<Rightarrow> Inl (error 401 ''Invalid username or password'')
                | Inr (Some token) \<Rightarrow>
                    Inr (JObject [(''type'', JString ''access_token''),
                      (''access_token'', JString token), (''user'', profile username)]))
            })
      })"

text \<open>
  The check that the bearer handlers share: 503 when the store fails, 401 without a session.
\<close>

definition require_user ::
  "'e service_env_scheme \<Rightarrow> headers \<Rightarrow> ('w service_scheme, (nat \<times> json) + string) state" where
  "require_user e headers = do {
     r \<leftarrow> user e (bearer e headers);
     State_Monad.return (case r of
         Inl err \<Rightarrow> Inl (error 503 ''Authentication unavailable'')
       | Inr None \<Rightarrow> Inl (error 401 ''Login required'')
       | Inr (Some name) \<Rightarrow> Inr name)
   }"

definition current ::
  "'e service_env_scheme \<Rightarrow> headers \<Rightarrow> ('w service_scheme, response) state" where
  "current e headers =
     try_bind (require_user e headers) (\<lambda>name. State_Monad.return (Inr (profile name)))"

definition logout ::
  "'e service_env_scheme \<Rightarrow> headers \<Rightarrow> ('w service_scheme, response) state" where
  "logout e headers = do {
     r \<leftarrow> revoke e (bearer e headers);
     State_Monad.return (case r of
         Inl err \<Rightarrow> Inl (error 503 ''Authentication unavailable'')
       | Inr _ \<Rightarrow> Inr (JObject []))
   }"

definition empty_directory ::
  "'e service_env_scheme \<Rightarrow> headers \<Rightarrow> ('w service_scheme, response) state" where
  "empty_directory e headers =
     try_bind (require_user e headers)
       (\<lambda>_. State_Monad.return (Inr (JObject [(''total'', JInt 0), (''data'', JArray [])])))"

definition address_book ::
  "'e service_env_scheme \<Rightarrow> headers \<Rightarrow> ('w service_scheme, response) state" where
  "address_book e headers =
     try_bind (require_user e headers) (\<lambda>_. State_Monad.return (Inr JNull))"

definition relay_uuid :: "json \<Rightarrow> string" where
  "relay_uuid body =
     (case Option.bind (json_get ''uuid'' body) as_str of Some u \<Rightarrow> u | None \<Rightarrow> '''')"

definition relay_ticket ::
  "'e service_env_scheme \<Rightarrow> headers \<Rightarrow> json \<Rightarrow> ('w service_scheme, response) state" where
  "relay_ticket e headers body = do {
     r \<leftarrow> ticket e (bearer e headers) (relay_uuid body);
     State_Monad.return (case r of
         Inl err \<Rightarrow> Inl (error 503 ''Authentication unavailable'')
       | Inr None \<Rightarrow> Inl (error 401 ''Login required'')
       | Inr (Some tk) \<Rightarrow> Inr (JObject [(''ticket'', JString tk)]))
   }"

section \<open>Lemmas\<close>

lemma run_shared_open [exec_simps]: "shared_open s \<Longrightarrow> run_state (shared e) s = (Inr (), s)"
  by (simp add: shared_def exec_simps)

lemma run_run_all: "\<exists>r k. run_state (run_all n e) s = (r, s\<lparr>ticks := k\<rparr>)"
proof (induction n arbitrary: s)
  case 0
  have "run_state (run_all 0 e) s = (Inr (), s\<lparr>ticks := ticks s\<rparr>)" by simp
  then show ?case by blast
next
  case (Suc n)
  obtain r k where "run_state (run_all n e) (s\<lparr>ticks := Suc (ticks s)\<rparr>) = (r, s\<lparr>ticks := k\<rparr>)"
    using Suc [of "s\<lparr>ticks := Suc (ticks s)\<rparr>"] by auto
  then show ?case by (auto simp: exec_simps)
qed

text \<open>Opening the store changes neither a table nor, once it is open, anything at all.\<close>

lemma run_shared:
  "(\<exists>k. run_state (shared e) s = (Inr (), s\<lparr>ticks := k, shared_open := True\<rparr>)) \<or>
   (\<exists>err k. run_state (shared e) s = (Inl err, s\<lparr>ticks := k\<rparr>))"
proof (cases "shared_open s")
  case True
  then have "run_state (shared e) s = (Inr (), s\<lparr>ticks := ticks s, shared_open := True\<rparr>)"
    by (simp add: exec_simps)
  then show ?thesis by blast
next
  case False
  obtain r k where "run_state (run_all 8 e) s = (r, s\<lparr>ticks := k\<rparr>)" using run_run_all by blast
  with False show ?thesis
    by (cases r) (simp_all add: shared_def exec_simps, blast+)
qed

lemma shared_ok:
  "run_state (shared e) s = (Inr x, s1) \<Longrightarrow> \<exists>k. s1 = s\<lparr>ticks := k, shared_open := True\<rparr>"
  using run_shared [of e s] by auto

lemma run_all_db_ok: "preserves db_ok (run_all n e)"
  by (induction n) (auto intro!: preserves_intros db_ok_tick_free)

lemma shared_db_ok [preserves_intros]: "preserves db_ok (shared e)"
  unfolding shared_def
  by (intro preserves_intros run_all_db_ok preserves_modify) (simp_all add: db_ok_def)

lemma authorized_db_ok [preserves_intros]: "preserves db_ok (authorized e token)"
  unfolding authorized_def by (intro preserves_intros)

lemma redeem_ticket_db_ok [preserves_intros]: "preserves db_ok (redeem_ticket e tk relay_id)"
  unfolding redeem_ticket_def by (intro preserves_intros)

lemma peer_ticket_db_ok [preserves_intros]: "preserves db_ok (peer_ticket e token uuid)"
  unfolding peer_ticket_def by (intro preserves_intros)

text \<open>With the store open, each entry point is its method, with every error read as a refusal.\<close>

lemma run_authorized:
  "shared_open s \<Longrightarrow> run_state (authorized e token) s =
     (if length token \<noteq> 64 then (False, s)
      else (sql_ok e (ticks s + 1) \<and> session_live (clock_at e (ticks s)) s (sha256 e token),
            s\<lparr>ticks := ticks s + 2\<rparr>))"
  by (auto simp: authorized_def exec_simps user_run session_user_live split: option.splits)
    (metis option.distinct(1) option.exhaust session_user_live)+

lemma run_redeem_ticket:
  "shared_open s \<Longrightarrow> run_state (redeem_ticket e tk relay_id) s =
     (let (r, s') = run_state (redeem e tk relay_id) s in (r = Inr True, s'))"
  by (auto simp: redeem_ticket_def exec_simps split: sum.splits prod.splits)

lemma run_peer_ticket:
  "shared_open s \<Longrightarrow> run_state (peer_ticket e token uuid) s =
     (let (r, s') = run_state (ticket e token uuid) s
      in (case r of Inr t \<Rightarrow> t | Inl _ \<Rightarrow> None, s'))"
  by (auto simp: peer_ticket_def exec_simps split: sum.splits prod.splits)

lemma redeem_shared_open:
  "run_state (redeem e tk relay_id) s = (r, s') \<Longrightarrow> shared_open s' = shared_open s"
  by (auto simp: redeem_run Let_def split: if_splits)

lemma session_live_shared_open [simp]:
  "session_live t (s\<lparr>shared_open := b\<rparr>) h = session_live t s h"
  by (simp add: session_live_def)

section \<open>The ticket desk of this process\<close>

definition spent_ticket :: "'e env_scheme \<Rightarrow> string \<Rightarrow> 'w host_scheme \<Rightarrow> bool" where
  "spent_ticket e tk s \<longleftrightarrow> sha256 e tk \<notin> tic_hash ` set (tickets s)"

lemma redeem_tickets_subset:
  "run_state (redeem e tk relay_id) s = (r, s') \<Longrightarrow> set (tickets s') \<subseteq> set (tickets s)"
  by (auto simp: redeem_run Let_def split: if_splits)

lemma spent_ticket_redeem:
  assumes "db_ok s" and "run_state (redeem e tk relay_id) s = (r, s')"
  shows "r = Inr True \<Longrightarrow> spent_ticket e tk s'"
    and "spent_ticket e tk s \<Longrightarrow> r \<noteq> Inr True"
    and "spent_ticket e tk0 s \<Longrightarrow> spent_ticket e tk0 s'"
proof -
  show "spent_ticket e tk s'" if "r = Inr True"
    using redeem_true_removes [OF assms(1), of e tk relay_id s'] assms(2) that
    by (simp add: spent_ticket_def)
  show "r \<noteq> Inr True" if "spent_ticket e tk s"
  proof
    assume "r = Inr True"
    then have "fst (run_state (redeem e tk relay_id) s) = Inr True" using assms(2) by simp
    then show False using that by (force simp: redeem_true_iff [OF assms(1)] spent_ticket_def)
  qed
  show "spent_ticket e tk0 s'" if "spent_ticket e tk0 s"
    using redeem_tickets_subset [OF assms(2)] that by (auto simp: spent_ticket_def)
qed

interpretation local_desk: ticket_desk "redeem_ticket e" "\<lambda>s. db_ok s \<and> shared_open s" "spent_ticket e"
  for e :: "'e env_scheme"
proof unfold_locales
  fix s s' :: "'w host_scheme" and tk tk' u b
  assume good: "db_ok s \<and> shared_open s"
  note run = run_redeem_ticket [of s e]
  show "db_ok s' \<and> shared_open s'" if "run_state (redeem_ticket e tk u) s = (b, s')"
    using good that preservesD_run [OF redeem_db_ok] redeem_shared_open
    by (force simp: run split: prod.splits)
  show "spent_ticket e tk s'" if "run_state (redeem_ticket e tk u) s = (True, s')"
    using good that spent_ticket_redeem(1) by (force simp: run split: prod.splits)
  show "\<not> b" if "spent_ticket e tk s" "run_state (redeem_ticket e tk u) s = (b, s')"
    using good that spent_ticket_redeem(2) by (force simp: run split: prod.splits)
  show "spent_ticket e tk s'" if "spent_ticket e tk s" "run_state (redeem_ticket e tk' u) s = (b, s')"
    using good that spent_ticket_redeem(3) by (force simp: run split: prod.splits)
qed

section \<open>The login limiter\<close>

lemma run_login_limited:
  "run_state (login_limited e ip) s = window_run e 10 attempts (\<lambda>m. attempts_update (\<lambda>_. m)) ip s"
proof -
  obtain m' where m': "run_state (retain_fresh e (attempts s)) s =
      (m', s\<lparr>ticks := ticks s + length (attempts s)\<rparr>)"
    using run_retain_fresh [of e "attempts s" s] by auto
  then show ?thesis
    by (simp add: login_limited_def window_run_def exec_simps Let_def split: prod.splits)
qed

interpretation login_limiter: window_limiter "login_limited e" attempts ticks "clock_at e" 10
  for e :: "'e env_scheme"
  by (rule window_limiterI [where put = "\<lambda>m. attempts_update (\<lambda>_. m)"])
    (simp_all add: run_login_limited word_le_nat_alt)

section \<open>A concrete service\<close>

definition sample_service_env :: service_env where
  "sample_service_env = \<lparr>system_time = (\<lambda>_. 1000), instant = (\<lambda>_. 10000000000000), instant_min = 0,
     sql_ok = (\<lambda>_. True), uuid_v4 = uuid_v4 sample_env, uuid_simple = uuid_simple sample_env,
     sha256 = sha256 sample_env, bcrypt_hash = bcrypt_hash sample_env,
     bcrypt_verify = bcrypt_verify sample_env,
     header_to_str = Some,
     parse_json = (\<lambda>b. if b = ''record'' then Some (JObject [(''nonce'', JString ''n1''),
         (''id'', JString ''dev''), (''conn_id'', JInt 7), (''extra'', JString ''x'')]) else None),
     parse_credentials = (\<lambda>b. if b = ''creds'' then Some (''alice'', ''correct horse'') else None),
     parse_redeem = (\<lambda>b. if b = ''redeem'' then Some (sample_token, ''u'') else None),
     json_text = (\<lambda>_. ''json''),
     strings_text = (\<lambda>xs. case xs of [] \<Rightarrow> Some '''' | [x] \<Rightarrow> Some x | _ \<Rightarrow> None),
     parse_strings = (\<lambda>t. Some (if t = '''' then [] else [t]))\<rparr>"

lemma sample_service_clock [simp]: "clock_at sample_service_env k = 1000"
  by (simp add: clock_at_def sample_service_env_def as_i64_def signed_take_bit_int_eq_self)

lemma sample_service_env_simps [simp]:
  "sql_ok sample_service_env k" "uuid_v4 sample_service_env = uuid_v4 sample_env"
  "uuid_simple sample_service_env = uuid_simple sample_env"
  "sha256 sample_service_env = sha256 sample_env"
  "bcrypt_hash sample_service_env = bcrypt_hash sample_env"
  "bcrypt_verify sample_service_env = bcrypt_verify sample_env"
  "header_to_str sample_service_env = Some" "json_text sample_service_env v = ''json''"
  by (simp_all add: sample_service_env_def)

definition sample_service :: service where
  "sample_service = \<lparr>ticks = 0, peer_rows = [],
     accounts = [\<lparr>acc_name = ''alice'', acc_hash = ''hcorrect horse'', acc_enabled = 1\<rparr>],
     sessions = [\<lparr>ses_hash = [84], ses_name = ''alice'', ses_expires = 5000\<rparr>],
     tickets = [sample_row], devices = [], jobs = [], audits = [], shared_open = True,
     attempts = [], audit_rate = [], peers_attached = True\<rparr>"

definition sample_headers :: headers where
  "sample_headers = [(''authorization'', ''Bearer '' @ sample_token)]"

lemma sample_service_ok: "db_ok sample_service"
  by (simp add: db_ok_def sample_service_def unique_on_def)

lemma sample_bearer: "bearer sample_service_env sample_headers = sample_token"
  by (simp add: bearer_def sample_headers_def strip_prefix_def)

section \<open>Properties\<close>

text \<open>
  C35: The login limiter: starting from a table without an entry for an address, at most 10 of the
  requests from that address pass in any stretch of time shorter than a minute, whatever the other
  addresses do, and the table never exceeds 10000 entries.
\<close>

theorem login_window:
  assumes "distinct (map fst (attempts s))" and "length (attempts s) \<le> 10000"
    and "map_of (attempts s) ip = None"
    and "\<And>m n. ticks s \<le> m \<Longrightarrow> ticks s \<le> n \<Longrightarrow> n < ticks (snd (admitted (login_limited e) ips s)) \<Longrightarrow>
      m < ticks (snd (admitted (login_limited e) ips s)) \<Longrightarrow> clock_at e n - clock_at e m < 60"
    and "length ips < 2 ^ 32"
  shows "count_list (fst (admitted (login_limited e) ips s)) ip \<le> 10 \<and>
    length (attempts (snd (admitted (login_limited e) ips s))) \<le> 10000"
  using login_limiter.fresh_bound [OF assms(1,3,4,5)] login_limiter.admitted_bounded [OF assms(2)]
  by simp

lemma login_window_witness:
  "count_list (fst (admitted (login_limited sample_service_env) (replicate 50 localhost_v4)
     sample_service)) localhost_v4 \<le> 10"
  using login_window [of sample_service localhost_v4 sample_service_env "replicate 50 localhost_v4"]
  by (simp add: sample_service_def)

lemma login_outcome:
  "run_state (login e name pw) s = (res, s') \<Longrightarrow>
     accounts s' = accounts s \<and> tickets s' = tickets s \<and>
     (case res of
        Inr (Some token) \<Rightarrow> \<exists>ex. set (sessions s') \<subseteq>
          insert \<lparr>ses_hash = sha256 e token, ses_name = name, ses_expires = ex\<rparr> (set (sessions s))
      | _ \<Rightarrow> set (sessions s') \<subseteq> set (sessions s))"
  by (auto simp: login_def exec_simps exec_stmt.simps digest_def delete_where_def insert_unique_def
      split: if_splits option.splits)

lemma login_limited_outcome:
  "run_state (login_limited e ip) s = (b, s') \<Longrightarrow>
     accounts s' = accounts s \<and> tickets s' = tickets s \<and> sessions s' = sessions s"
  using run_retain_fresh [of e "attempts s" s]
  by (auto simp: run_login_limited window_run_def Let_def split: if_splits prod.splits)

text \<open>
  A login request that is not answered 200 (too large, rate limited, malformed, wrong password,
  store failure) opens no session and touches no account or ticket; one that is answered 200 has
  presented a password that verifies for an enabled account, and adds at most the session of the
  token it returns.
\<close>

theorem login_answers:
  assumes "run_state (login_handler e ip body) s = (res, s')"
  shows "accounts s' = accounts s \<and> tickets s' = tickets s \<and>
    (case res of
       Inl _ \<Rightarrow> set (sessions s') \<subseteq> set (sessions s)
     | Inr answer \<Rightarrow> \<exists>name password token ex.
         parse_credentials e body = Some (name, password) \<and>
         json_get ''access_token'' answer = Some (JString token) \<and>
         set (sessions s') \<subseteq>
           insert \<lparr>ses_hash = sha256 e token, ses_name = name, ses_expires = ex\<rparr> (set (sessions s)) \<and>
         (\<exists>a \<in> set (accounts s). acc_name a = name \<and> acc_enabled a = 1 \<and>
            bcrypt_verify e password (acc_hash a) = Some True))"
proof (cases "length body > 16384")
  case False
  obtain b s1 where lim: "run_state (login_limited e ip) s = (b, s1)" by (metis prod.collapse)
  note same = login_limited_outcome [OF lim]
  show ?thesis
  proof (cases "b \<or> parse_credentials e body = None")
    case True
    then show ?thesis using assms False lim same
      by (auto simp: login_handler_def exec_simps split: if_splits)
  next
    case go: False
    then obtain name password where c: "parse_credentials e body = Some (name, password)" by auto
    obtain r s2 where log: "run_state (login e name password) s1 = (r, s2)" by (metis prod.collapse)
    show ?thesis
      using assms False go lim same c log login_outcome [OF log] login_ok [of e name password s1]
      by (auto simp: login_handler_def exec_simps split: sum.splits option.splits)
  qed
qed (use assms in \<open>auto simp: login_handler_def exec_simps\<close>)

lemma login_answers_witness:
  "\<exists>r s'. run_state (login_handler sample_service_env localhost_v4 ''wrong'') sample_service = (Inl r, s') \<and>
     set (sessions s') \<subseteq> set (sessions sample_service)"
proof -
  have "\<exists>r s'. run_state (login_handler sample_service_env localhost_v4 ''wrong'') sample_service = (Inl r, s')"
    by (simp add: login_handler_def login_limited_def exec_simps sample_service_def table_full_def
        sample_service_env_def)
  then obtain r s' where
    r: "run_state (login_handler sample_service_env localhost_v4 ''wrong'') sample_service = (Inl r, s')"
    by blast
  from login_answers [OF r] r show ?thesis by auto
qed

end
