(* ===== verification/Hub.thy ===== *)
theory Hub
  imports AccountApi
begin

text \<open>
  The data of the rendezvous server hbbs: its messages, its peers and the state its tasks share.

  The messages are those of rendezvous.proto, which belongs to the submodule hbb_common; a record
  here has the fields the source names, and \<open>other\<close> stands for the fields it forwards unread.
  \<open>hub_env\<close> adds what hbb_common, sodiumoxide, serde_json and the resolver (\<open>to_socket_addrs\<close>) compute. Hash maps and
  hash sets are lists with distinct keys, in the order they happen to be iterated.

  A \<open>hub\<close> is the shared state of the process: the statics, the \<open>Arc\<close>s of \<open>RendezvousServer\<close> and
  the database files. A \<open>server\<close> is what every clone of \<open>RendezvousServer\<close> copies: a connection task
  keeps the values it was started with. What goes out is appended to \<open>sent\<close>, oldest first.
\<close>

section \<open>Messages\<close>

datatype pk_result = OK | UUID_MISMATCH | TOO_FREQUENT | SERVER_ERROR

datatype punch_failure = ID_NOT_EXIST | OFFLINE | LICENSE_MISMATCH

datatype nat_type = UNKNOWN_NAT | ASYMMETRIC | SYMMETRIC

datatype resp_union = RespId string | RespPk bytes | RespNone

record register_pk =
  rk_id :: string
  rk_uuid :: bytes
  rk_pk :: bytes

record punch_hole_request =
  ph_id :: string
  ph_nat_type :: nat_type
  ph_licence_key :: string
  ph_token :: string

record punch_hole_sent =
  phs_socket_addr :: bytes
  phs_id :: string
  phs_relay_server :: string
  phs_nat_type :: "nat_type option"
  phs_version :: string

record local_addr =
  la_socket_addr :: bytes
  la_local_addr :: bytes
  la_relay_server :: string
  la_id :: string
  la_version :: string

record request_relay =
  rf_id :: string
  rf_uuid :: string
  rf_socket_addr :: bytes
  rf_relay_server :: string
  rf_licence_key :: string
  rf_token :: string
  rf_other :: bytes

record relay_response =
  rr_socket_addr :: bytes
  rr_uuid :: string
  rr_relay_server :: string
  rr_union :: resp_union
  rr_refuse_reason :: string
  rr_version :: string
  rr_other :: bytes

text \<open>
  \<open>PunchHoleResponse\<close>: \<open>failure\<close> is the enum's default \<open>ID_NOT_EXIST\<close> unless set, and its \<open>union\<close> is
  the NAT type or the flag \<open>is_local\<close>.
\<close>

record punch_hole_response =
  pr_socket_addr :: bytes
  pr_pk :: bytes
  pr_failure :: punch_failure
  pr_relay_server :: string
  pr_nat_type :: "nat_type option"
  pr_is_local :: "bool option"

definition punch_hole_response0 :: punch_hole_response where
  "punch_hole_response0 = \<lparr>pr_socket_addr = [], pr_pk = [], pr_failure = ID_NOT_EXIST,
     pr_relay_server = '''', pr_nat_type = None, pr_is_local = None\<rparr>"

definition request_relay0 :: request_relay where
  "request_relay0 = \<lparr>rf_id = '''', rf_uuid = '''', rf_socket_addr = [], rf_relay_server = '''',
     rf_licence_key = '''', rf_token = '''', rf_other = []\<rparr>"

datatype message =
    RegisterPeer string int
  | RegisterPeerResponse bool
  | RegisterPk register_pk
  | RegisterPkResponse pk_result
  | PunchHoleRequest punch_hole_request
  | PunchHole bytes nat_type string
  | PunchHoleSent punch_hole_sent
  | PunchHoleResponse punch_hole_response
  | FetchLocalAddr bytes string
  | LocalAddr local_addr
  | RequestRelay request_relay
  | RelayResponse relay_response
  | TestNatRequest int
  | TestNatResponse int "(int \<times> string list) option"
  | ConfigureUpdate int "string list"
  | SoftwareUpdate string
  | OnlineRequest "string list"
  | OnlineResponse bytes
  | KeyExchange "bytes list"
  | OtherMessage

section \<open>State\<close>

text \<open>
  A sink is the write half of a connection: its number, and for TCP the key of the \<open>Encrypt\<close> that
  was installed by the handshake. \<open>SinkClosed\<close> is the placeholder \<open>Sink::Closed\<close>.
\<close>

datatype sink = TcpStream nat "bytes option" | Ws nat | SinkClosed

datatype destination = Udp socket_addr | OnSink sink | OnStream socket_addr

datatype data =
    Msg message socket_addr
  | RelayServers0 string
  | RelayServers "string list"

record peer =
  socket_addr :: socket_addr
  last_reg_time :: int
  guid :: bytes
  uuid :: bytes
  pk :: bytes
  info_ip :: string
  reg_pk :: "32 word \<times> int"

record punch_req =
  req_tm :: int
  req_from_ip :: string
  req_to_ip :: string
  req_to_id :: string

record hub = host +
  pm_map :: "(string \<times> peer) list"
  ip_blocker :: "(string \<times> ((32 word \<times> int) \<times> (string list \<times> int))) list"
  ip_changes :: "(string \<times> (int \<times> (string \<times> 32 word) list)) list"
  punch_reqs :: "punch_req list"
  punch_sessions :: "((socket_addr \<times> string) \<times> (string \<times> int)) list"
  tcp_punch :: "(socket_addr \<times> sink) list"
  tcp_peers :: "(socket_addr \<times> sink) list"
  queue :: "data list"
  rotation :: "64 word"
  always_use_relay :: bool
  sent :: "(destination \<times> message) list"

record server =
  relay_servers :: "string list"
  relay_servers0 :: "string list"
  rendezvous_servers :: "string list"
  serial :: int
  version :: string
  software_url :: string
  mask :: "(32 word \<times> nat) option"
  local_ip :: string
  sk :: "bytes option"

record hub_env = env +
  try_into_v4 :: "socket_addr \<Rightarrow> socket_addr"
  mangle_encode :: "socket_addr \<Rightarrow> bytes"
  mangle_decode :: "bytes \<Rightarrow> socket_addr"
  sign_id_pk :: "bytes \<Rightarrow> string \<Rightarrow> bytes \<Rightarrow> bytes"
  info_text :: "string \<Rightarrow> string"
  parse_info :: "string \<Rightarrow> string option"
  to_socket_addrs :: "string \<Rightarrow> socket_addr list option"
  udp_ok :: "nat \<Rightarrow> bool"
  encodable :: "message \<Rightarrow> bool"

section \<open>Names of servers\<close>

text \<open>\<open>common::test_if_valid_server\<close>: the first address of a name, which may come with a port.\<close>

definition test_if_valid_server :: "'e hub_env_scheme \<Rightarrow> string \<Rightarrow> socket_addr option" where
  "test_if_valid_server e host =
     (case to_socket_addrs e (if CHR '':'' \<in> set host then host else host @ '':0'') of
        None \<Rightarrow> None
      | Some addrs \<Rightarrow> select_first addrs)"

definition valid_server :: "'e hub_env_scheme \<Rightarrow> string \<Rightarrow> bool" where
  "valid_server e host \<longleftrightarrow> test_if_valid_server e host \<noteq> None"

lemmas server_names = valid_server_def test_if_valid_server_def

section \<open>Elementary effects\<close>

definition emit :: "destination \<Rightarrow> message \<Rightarrow> ('w hub_scheme, unit) state" where
  "emit d msg = modify (\<lambda>s. s\<lparr>sent := sent s @ [(d, msg)]\<rparr>)"

lemma run_emit [exec_simps]: "run_state (emit d msg) s = ((), s\<lparr>sent := sent s @ [(d, msg)]\<rparr>)"
  by (simp add: emit_def exec_simps)

text \<open>\<open>FramedSocket::send\<close>: it may fail, and the failure is a value of type \<open>string\<close>.\<close>

definition udp_send ::
  "'e hub_env_scheme \<Rightarrow> socket_addr \<Rightarrow> message \<Rightarrow> ('w hub_scheme, string + unit) state" where
  "udp_send e addr msg = do {
     k \<leftarrow> tick;
     if udp_ok e k then do { emit (Udp addr) msg; State_Monad.return (Inr ()) }
     else State_Monad.return (Inl ''udp send failed'')
   }"

lemma run_udp_send [exec_simps]:
  "run_state (udp_send e addr msg) s =
     (if udp_ok e (ticks s) then (Inr (), s\<lparr>ticks := Suc (ticks s), sent := sent s @ [(Udp addr, msg)]\<rparr>)
      else (Inl ''udp send failed'', s\<lparr>ticks := Suc (ticks s)\<rparr>))"
  by (simp add: udp_send_def exec_simps)

text \<open>\<open>tx.send\<close> on the unbounded channel to the main loop, whose receiver lives as long as the process.\<close>

definition enqueue :: "data \<Rightarrow> ('w hub_scheme, unit) state" where
  "enqueue d = modify (\<lambda>s. s\<lparr>queue := queue s @ [d]\<rparr>)"

lemma run_enqueue [exec_simps]: "run_state (enqueue d) s = ((), s\<lparr>queue := queue s @ [d]\<rparr>)"
  by (simp add: enqueue_def exec_simps)

text \<open>Removing a key of a hash map.\<close>

definition remove_key :: "'k \<Rightarrow> ('k \<times> 'v) list \<Rightarrow> ('k \<times> 'v) list" where
  "remove_key k m = filter (\<lambda>(k', _). k' \<noteq> k) m"

lemma map_of_remove_key [simp]: "map_of (remove_key k m) k' = (if k' = k then None else map_of m k')"
  by (induction m) (auto simp: remove_key_def)

end
