(* ===== verification/PeerDb.thy ===== *)
theory PeerDb
  imports Hub
begin

text \<open>
  src/database.rs and src/peer.rs: the table of registered peers and the cache of it in memory.
  Here an operation runs from its first lock to its last with nothing in between, so a \<open>LockPeer\<close>
  is the entry of its id in \<open>pm_map\<close>: the entry an operation was handed is still the one in the map when
  it writes to it. PeerTasks takes the operations apart at their awaits, with the references as they
  are, and shows that these are their uninterrupted runs.
\<close>

section \<open>The peer table\<close>

definition peer_rows_ok :: "peer_row list \<Rightarrow> bool" where
  "peer_rows_ok rows \<longleftrightarrow> unique_on row_guid rows \<and> unique_on row_id rows"

definition get_peer ::
  "'e env_scheme \<Rightarrow> string \<Rightarrow> ('w host_scheme, store_error + peer_row option) state" where
  "get_peer e dev = query e (\<lambda>s. select_first (filter (\<lambda>r. row_id r = dev) (peer_rows s)))"

text \<open>\<open>guid\<close> is the primary key and \<open>id\<close> has a unique index: a statement that breaks either fails.\<close>

definition insert_peer ::
  "'e env_scheme \<Rightarrow> string \<Rightarrow> bytes \<Rightarrow> bytes \<Rightarrow> string \<Rightarrow> ('w host_scheme, store_error + bytes) state" where
  "insert_peer e dev u k info = do {
     g \<leftarrow> new_uuid e;
     try_bind (sql e (\<lambda>s.
         let rows = peer_rows s @ [\<lparr>row_guid = g, row_id = dev, row_uuid = u, row_pk = k,
                                    row_user = None, row_info = info, row_status = None\<rparr>]
         in if g \<in> row_guid ` set (peer_rows s) \<or> dev \<in> row_id ` set (peer_rows s) then None
            else Some ((), s\<lparr>peer_rows := rows\<rparr>)))
       (\<lambda>_. State_Monad.return (Inr g))
   }"

definition update_peer_row :: "bytes \<Rightarrow> string \<Rightarrow> bytes \<Rightarrow> string \<Rightarrow> peer_row list \<Rightarrow> peer_row list" where
  "update_peer_row g dev k info rows =
     map (\<lambda>r. if row_guid r = g then r\<lparr>row_id := dev, row_pk := k, row_info := info\<rparr> else r) rows"

definition db_update_pk ::
  "'e env_scheme \<Rightarrow> bytes \<Rightarrow> string \<Rightarrow> bytes \<Rightarrow> string \<Rightarrow> ('w host_scheme, store_error + unit) state" where
  "db_update_pk e g dev k info =
     sql e (\<lambda>s. let rows = update_peer_row g dev k info (peer_rows s)
       in if distinct (map row_id rows) then Some ((), s\<lparr>peer_rows := rows\<rparr>) else None)"

section \<open>The cache\<close>

definition unspecified_addr :: socket_addr where
  "unspecified_addr = SockV4 0 0"

text \<open>\<open>Peer::default()\<close>: two readings of the clock, in the order of the fields.\<close>

definition default_peer :: "'e env_scheme \<Rightarrow> ('w world_scheme, peer) state" where
  "default_peer e = do {
     t1 \<leftarrow> get_expired_time e;
     t2 \<leftarrow> get_expired_time e;
     State_Monad.return \<lparr>socket_addr = unspecified_addr, last_reg_time = t1, guid = [], uuid = [],
       pk = [], info_ip = '''', reg_pk = (0, t2)\<rparr>
   }"

definition put_peer :: "string \<Rightarrow> peer \<Rightarrow> ('w hub_scheme, unit) state" where
  "put_peer dev p = modify (\<lambda>s. s\<lparr>pm_map := AList.update dev p (pm_map s)\<rparr>)"

definition get_in_memory :: "string \<Rightarrow> ('w hub_scheme, peer option) state" where
  "get_in_memory dev = gets (\<lambda>s. map_of (pm_map s) dev)"

definition is_in_memory :: "string \<Rightarrow> ('w hub_scheme, bool) state" where
  "is_in_memory dev = gets (\<lambda>s. map_of (pm_map s) dev \<noteq> None)"

definition pm_get :: "'e hub_env_scheme \<Rightarrow> string \<Rightarrow> ('w hub_scheme, peer option) state" where
  "pm_get e dev = do {
     p \<leftarrow> get_in_memory dev;
     case p of
       Some q \<Rightarrow> State_Monad.return (Some q)
     | None \<Rightarrow> do {
         r \<leftarrow> get_peer e dev;
         case r of
           Inl err \<Rightarrow> State_Monad.return None
         | Inr None \<Rightarrow> State_Monad.return None
         | Inr (Some v) \<Rightarrow> do {
             d \<leftarrow> default_peer e;
             let q = d\<lparr>guid := row_guid v, uuid := row_uuid v, pk := row_pk v,
               info_ip := (case parse_info e (row_info v) of Some ip \<Rightarrow> ip | None \<Rightarrow> '''')\<rparr>;
             put_peer dev q;
             State_Monad.return (Some q)
           }
       }
   }"

definition pm_get_or :: "'e hub_env_scheme \<Rightarrow> string \<Rightarrow> ('w hub_scheme, peer) state" where
  "pm_get_or e dev = do {
     p \<leftarrow> pm_get e dev;
     case p of
       Some q \<Rightarrow> State_Monad.return q
     | None \<Rightarrow> do {
         m \<leftarrow> get_in_memory dev;
         case m of
           Some q \<Rightarrow> State_Monad.return q
         | None \<Rightarrow> do {
             d \<leftarrow> default_peer e;
             put_peer dev d;
             State_Monad.return d
           }
       }
   }"

definition pm_update_pk ::
  "'e hub_env_scheme \<Rightarrow> string \<Rightarrow> peer \<Rightarrow> socket_addr \<Rightarrow> bytes \<Rightarrow> bytes \<Rightarrow> string
     \<Rightarrow> ('w hub_scheme, pk_result) state" where
  "pm_update_pk e dev p addr u k ip = do {
     t \<leftarrow> instant_now e;
     let w = p\<lparr>socket_addr := addr, uuid := u, pk := k, last_reg_time := t, info_ip := ip\<rparr>;
     put_peer dev w;
     if guid w = [] then do {
       r \<leftarrow> insert_peer e dev u k (info_text e ip);
       case r of
         Inl err \<Rightarrow> State_Monad.return SERVER_ERROR
       | Inr g \<Rightarrow> do { put_peer dev (w\<lparr>guid := g\<rparr>); State_Monad.return OK }
     } else do {
       r \<leftarrow> db_update_pk e (guid w) dev k (info_text e ip);
       State_Monad.return (case r of Inl err \<Rightarrow> SERVER_ERROR | Inr _ \<Rightarrow> OK)
     }
   }"

text \<open>Milliseconds since a peer's last registration, \<open>as i64\<close>; the clock is read at every call.\<close>

definition elapsed_ms :: "'e env_scheme \<Rightarrow> int \<Rightarrow> ('w world_scheme, int) state" where
  "elapsed_ms e t = do { d \<leftarrow> elapsed e t; State_Monad.return (as_i64 (as_millis d)) }"

fun count_online :: "'e env_scheme \<Rightarrow> int \<Rightarrow> (string \<times> peer) list \<Rightarrow> ('w world_scheme, nat) state" where
  "count_online e timeout [] = State_Monad.return 0"
| "count_online e timeout ((_, p) # m) = do {
     ms \<leftarrow> elapsed_ms e (last_reg_time p);
     n \<leftarrow> count_online e timeout m;
     State_Monad.return (if ms < timeout then Suc n else n)
   }"

definition online_count :: "'e env_scheme \<Rightarrow> int \<Rightarrow> ('w hub_scheme, nat) state" where
  "online_count e timeout = do { m \<leftarrow> gets pm_map; count_online e timeout m }"

section \<open>Lemmas\<close>

lemma run_put_peer [exec_simps]:
  "run_state (put_peer dev p) s = ((), s\<lparr>pm_map := AList.update dev p (pm_map s)\<rparr>)"
  by (simp add: put_peer_def exec_simps)

lemma run_get_in_memory [exec_simps]:
  "run_state (get_in_memory dev) s = (map_of (pm_map s) dev, s)"
  by (simp add: get_in_memory_def exec_simps)

lemma run_get_peer [exec_simps]:
  "run_state (get_peer e dev) s =
     ((if sql_ok e (ticks s) then Inr (select_first (filter (\<lambda>r. row_id r = dev) (peer_rows s)))
       else Inl SqlFailed), s\<lparr>ticks := Suc (ticks s)\<rparr>)"
  by (simp add: get_peer_def exec_simps)

lemma run_elapsed_ms [exec_simps]:
  "run_state (elapsed_ms e t) s =
     (as_i64 (as_millis (nat (instant e (ticks s) - t))), s\<lparr>ticks := Suc (ticks s)\<rparr>)"
  by (simp add: elapsed_ms_def exec_simps)

definition expired_at :: "'e env_scheme \<Rightarrow> nat \<Rightarrow> int" where
  "expired_at e n =
     (if instant e n - 3600 * 1000000000 < instant_min e then instant e n
      else instant e n - 3600 * 1000000000)"

lemma run_default_peer [exec_simps]:
  "run_state (default_peer e) s =
     (\<lparr>socket_addr = unspecified_addr, last_reg_time = expired_at e (ticks s), guid = [], uuid = [],
       pk = [], info_ip = '''', reg_pk = (0, expired_at e (Suc (ticks s)))\<rparr>,
      s\<lparr>ticks := Suc (Suc (ticks s))\<rparr>)"
  by (simp add: default_peer_def expired_at_def exec_simps)

text \<open>What \<open>get\<close> finds: the entry in memory, or the row of the table as a peer that is offline.\<close>

definition row_peer :: "'e hub_env_scheme \<Rightarrow> nat \<Rightarrow> peer_row \<Rightarrow> peer" where
  "row_peer e n v = \<lparr>socket_addr = unspecified_addr, last_reg_time = expired_at e n,
     guid = row_guid v, uuid = row_uuid v, pk = row_pk v,
     info_ip = (case parse_info e (row_info v) of Some ip \<Rightarrow> ip | None \<Rightarrow> ''''),
     reg_pk = (0, expired_at e (Suc n))\<rparr>"

lemma run_pm_get [exec_simps]:
  "run_state (pm_get e dev) s =
     (case map_of (pm_map s) dev of
        Some q \<Rightarrow> (Some q, s)
      | None \<Rightarrow>
          (case (if sql_ok e (ticks s) then select_first (filter (\<lambda>r. row_id r = dev) (peer_rows s)) else None) of
             None \<Rightarrow> (None, s\<lparr>ticks := Suc (ticks s)\<rparr>)
           | Some v \<Rightarrow> (Some (row_peer e (Suc (ticks s)) v),
               s\<lparr>ticks := Suc (Suc (Suc (ticks s))),
                 pm_map := AList.update dev (row_peer e (Suc (ticks s)) v) (pm_map s)\<rparr>)))"
  by (simp add: pm_get_def exec_simps row_peer_def Let_def split: option.splits sum.splits)

lemma pm_get_or_memory:
  "run_state (pm_get_or e dev) s = (p, s') \<Longrightarrow>
     map_of (pm_map s') dev = Some p \<and> (\<forall>other. other \<noteq> dev \<longrightarrow> map_of (pm_map s') other = map_of (pm_map s) other) \<and>
     peer_rows s' = peer_rows s \<and> ticks s \<le> ticks s' \<and>
     (\<forall>q. map_of (pm_map s) dev = Some q \<longrightarrow> p = q \<and> s' = s)"
  by (auto simp: pm_get_or_def exec_simps update_conv' simp del: select_first_None
      split: option.splits if_splits)

section \<open>The contract of the cache\<close>

locale peer_cache =
  fixes cached :: "'s \<Rightarrow> 'k \<Rightarrow> 'v option"
    and load :: "'k \<Rightarrow> ('s, 'v) state"
  assumes hit: "cached s k = Some v \<Longrightarrow> run_state (load k) s = (v, s)"
    and keep: "run_state (load k) s = (v, s') \<Longrightarrow> cached s' k = Some v"
    and others: "run_state (load k) s = (v, s') \<Longrightarrow> k' \<noteq> k \<Longrightarrow> cached s' k' = cached s k'"
begin

lemma load_again: "run_state (load k) s = (v, s') \<Longrightarrow> run_state (load k) s' = (v, s')"
  by (rule hit) (rule keep)

lemma load_cached: "cached s k' = Some v \<Longrightarrow> run_state (load k) s = (w, s') \<Longrightarrow> cached s' k' = Some v"
  using hit [of s k' v] others [of k s w s' k'] by (cases "k' = k") auto

end

interpretation peer_memory: peer_cache "\<lambda>s. map_of (pm_map s)" "pm_get_or e"
  for e :: "'e hub_env_scheme"
proof unfold_locales
  fix s s' :: "'w hub_scheme" and k k' p
  show "run_state (pm_get_or e k) s = (p, s)" if "map_of (pm_map s) k = Some p"
    using that by (simp add: pm_get_or_def exec_simps)
  show "map_of (pm_map s') k = Some p" if "run_state (pm_get_or e k) s = (p, s')"
    using pm_get_or_memory [OF that] by blast
  show "map_of (pm_map s') k' = map_of (pm_map s) k'"
    if "run_state (pm_get_or e k) s = (p, s')" and "k' \<noteq> k"
    using pm_get_or_memory [OF that(1)] that(2) by metis
qed

text \<open>
  Every cached peer that has a guid is the row of that guid, under the same id.
\<close>

definition linked :: "'w hub_scheme \<Rightarrow> bool" where
  "linked s \<longleftrightarrow> peer_rows_ok (peer_rows s) \<and>
     (\<forall>dev p. map_of (pm_map s) dev = Some p \<longrightarrow> guid p \<noteq> [] \<longrightarrow>
        (\<exists>r \<in> set (peer_rows s). row_guid r = guid p \<and> row_id r = dev))"

lemma linked_tick_free: "tick_free linked"
  by (simp add: tick_free_def linked_def)

lemma pm_get_linked: "preserves linked (pm_get e dev :: ('w hub_scheme, peer option) state)"
proof (rule preservesI)
  fix s :: "'w hub_scheme"
  assume s: "linked s"
  have "\<exists>r \<in> set (peer_rows s). row_guid r = row_guid v \<and> row_id r = dev"
    if "select_first (filter (\<lambda>r. row_id r = dev) (peer_rows s)) = Some v" for v
    using select_first_Some [OF that] by auto
  then show "linked (snd (run_state (pm_get e dev) s))"
    using s by (auto simp: exec_simps linked_def update_conv' row_peer_def split: option.splits if_splits)
qed

lemma pm_get_or_linked: "preserves linked (pm_get_or e dev :: ('w hub_scheme, peer) state)"
proof -
  have mem: "preserves linked (get_in_memory dev :: ('w hub_scheme, peer option) state)"
    unfolding get_in_memory_def by (rule preserves_gets)
  have new: "preserves linked
      (do { d \<leftarrow> default_peer e; put_peer dev d; State_Monad.return d } :: ('w hub_scheme, peer) state)"
    by (rule preservesI) (auto simp: exec_simps linked_def update_conv')
  show ?thesis
    unfolding pm_get_or_def
    by (rule preserves_bind [OF pm_get_linked], rule preserves_case_option,
        rule preserves_bind [OF mem], rule preserves_case_option, rule new)
      (rule preserves_return)+
qed

lemma run_insert_peer:
  "run_state (insert_peer e dev u k info) s =
     (let g = uuid_v4 e (ticks s)
      in if \<not> sql_ok e (Suc (ticks s)) then (Inl SqlFailed, s\<lparr>ticks := Suc (Suc (ticks s))\<rparr>)
         else if g \<in> row_guid ` set (peer_rows s) \<or> dev \<in> row_id ` set (peer_rows s)
         then (Inl Constraint, s\<lparr>ticks := Suc (Suc (ticks s))\<rparr>)
         else (Inr g, s\<lparr>ticks := Suc (Suc (ticks s)),
                peer_rows := peer_rows s @ [\<lparr>row_guid = g, row_id = dev, row_uuid = u, row_pk = k,
                  row_user = None, row_info = info, row_status = None\<rparr>]\<rparr>))"
  by (simp add: insert_peer_def exec_simps Let_def)

lemma run_db_update_pk:
  "run_state (db_update_pk e g dev k info) s =
     (if \<not> sql_ok e (ticks s) then (Inl SqlFailed, s\<lparr>ticks := Suc (ticks s)\<rparr>)
      else if distinct (map row_id (update_peer_row g dev k info (peer_rows s)))
      then (Inr (), s\<lparr>ticks := Suc (ticks s), peer_rows := update_peer_row g dev k info (peer_rows s)\<rparr>)
      else (Inl Constraint, s\<lparr>ticks := Suc (ticks s)\<rparr>))"
  by (simp add: db_update_pk_def exec_simps Let_def)

lemma update_peer_row_ids:
  assumes "peer_rows_ok rows" and "r \<in> set rows" and "row_guid r = g" and "row_id r = dev"
  shows "map row_id (update_peer_row g dev k info rows) = map row_id rows"
    and "map row_guid (update_peer_row g dev k info rows) = map row_guid rows"
    and "r\<lparr>row_pk := k, row_info := info\<rparr> \<in> set (update_peer_row g dev k info rows)"
    and "x \<in> set rows \<Longrightarrow>
      \<exists>x' \<in> set (update_peer_row g dev k info rows). row_guid x' = row_guid x \<and> row_id x' = row_id x"
proof -
  have one: "row_id x = dev" if "x \<in> set rows" "row_guid x = g" for x
    using assms that by (metis peer_rows_ok_def unique_onD)
  then show "map row_id (update_peer_row g dev k info rows) = map row_id rows"
    by (auto simp: update_peer_row_def)
  show "map row_guid (update_peer_row g dev k info rows) = map row_guid rows"
    by (auto simp: update_peer_row_def)
  have "r\<lparr>row_pk := k, row_info := info\<rparr> =
      (if row_guid r = g then r\<lparr>row_id := dev, row_pk := k, row_info := info\<rparr> else r)"
    using assms(3,4) by simp
  then show "r\<lparr>row_pk := k, row_info := info\<rparr> \<in> set (update_peer_row g dev k info rows)"
    unfolding update_peer_row_def set_map using assms(2) by (rule rev_image_eqI [rotated])
  show "\<exists>x' \<in> set (update_peer_row g dev k info rows). row_guid x' = row_guid x \<and> row_id x' = row_id x"
    if "x \<in> set rows"
    unfolding update_peer_row_def set_map using that one [OF that]
    by (intro bexI [OF _ imageI [OF that]]) auto
qed

text \<open>
  The effect of \<open>update_pk\<close> on memory, whatever the database answers, and on the table when it
  answers OK.
\<close>

lemma pm_update_pk_memory:
  "run_state (pm_update_pk e dev p addr u k ip) s = (res, s') \<Longrightarrow>
     (\<exists>q. map_of (pm_map s') dev = Some q \<and> socket_addr q = addr \<and> uuid q = u \<and> pk q = k \<and>
        last_reg_time q = instant e (ticks s) \<and> info_ip q = ip \<and> reg_pk q = reg_pk p) \<and>
     (\<forall>other. other \<noteq> dev \<longrightarrow> map_of (pm_map s') other = map_of (pm_map s) other)"
  by (auto simp: pm_update_pk_def exec_simps run_insert_peer run_db_update_pk Let_def update_conv'
      split: if_splits)

lemma pm_update_pk_rows:
  assumes "linked s" and "map_of (pm_map s) dev = Some p"
    and "run_state (pm_update_pk e dev p addr u k ip) s = (res, s')"
  shows "linked s' \<and> (res = OK \<longrightarrow>
    (\<exists>r \<in> set (peer_rows s'). row_id r = dev \<and> row_pk r = k \<and> row_info r = info_text e ip \<and>
       (guid p = [] \<longrightarrow> row_uuid r = u))) \<and>
    (res \<noteq> OK \<longrightarrow> peer_rows s' = peer_rows s)"
proof (cases "guid p = []")
  case True
  let ?g = "uuid_v4 e (Suc (ticks s))"
  let ?r = "\<lparr>row_guid = ?g, row_id = dev, row_uuid = u, row_pk = k, row_user = None,
      row_info = info_text e ip, row_status = None\<rparr>"
  have "peer_rows_ok (peer_rows s @ [?r])"
    if "?g \<notin> row_guid ` set (peer_rows s)" "dev \<notin> row_id ` set (peer_rows s)"
    using assms(1) that by (auto simp: linked_def peer_rows_ok_def unique_on_def)
  then show ?thesis
    using assms True
    by (auto simp: pm_update_pk_def exec_simps run_insert_peer Let_def linked_def update_conv'
        split: if_splits)
next
  case False
  then obtain r where r: "r \<in> set (peer_rows s)" "row_guid r = guid p" "row_id r = dev"
    using assms(1,2) by (auto simp: linked_def)
  have ok: "peer_rows_ok (peer_rows s)" using assms(1) by (simp add: linked_def)
  note u = update_peer_row_ids [OF ok r, where k = k and info = "info_text e ip"]
  have dist: "distinct (map row_id (update_peer_row (guid p) dev k (info_text e ip) (peer_rows s)))"
    using ok by (simp only: u(1)) (simp add: peer_rows_ok_def unique_on_def)
  have ok': "peer_rows_ok (update_peer_row (guid p) dev k (info_text e ip) (peer_rows s))"
    using ok by (simp only: peer_rows_ok_def unique_on_def u)
  show ?thesis
  proof (cases "sql_ok e (Suc (ticks s))")
    case True
    then have "res = OK" and rows: "peer_rows s' =
        update_peer_row (guid p) dev k (info_text e ip) (peer_rows s)"
      and m: "pm_map s' = AList.update dev (p\<lparr>socket_addr := addr, uuid := u, pk := k,
        last_reg_time := instant e (ticks s), info_ip := ip\<rparr>) (pm_map s)"
      using assms(3) False dist
      by (auto simp: pm_update_pk_def exec_simps run_db_update_pk Let_def split: if_splits)
    have "linked s'"
      using assms(1,2) False ok' u(4) unfolding linked_def rows m
      by (auto simp: update_conv') metis+
    moreover have "\<exists>x \<in> set (peer_rows s'). row_id x = dev \<and> row_pk x = k \<and> row_info x = info_text e ip"
      unfolding rows by (rule bexI [OF _ u(3)]) (simp add: r)
    ultimately show ?thesis using \<open>res = OK\<close> False by simp
  next
    case fail: False
    then show ?thesis
      using assms False r
      by (auto simp: pm_update_pk_def exec_simps run_db_update_pk Let_def linked_def update_conv'
          split: if_splits)
  qed
qed

section \<open>A concrete hub\<close>

definition sample_hub_env :: hub_env where
  "sample_hub_env = \<lparr>system_time = (\<lambda>_. 1000), instant = (\<lambda>_. 10000000000000), instant_min = 0,
     sql_ok = (\<lambda>_. True), uuid_v4 = uuid_v4 sample_env, uuid_simple = uuid_simple sample_env,
     sha256 = sha256 sample_env, bcrypt_hash = bcrypt_hash sample_env,
     bcrypt_verify = bcrypt_verify sample_env,
     try_into_v4 = (\<lambda>a. a),
     mangle_encode = (\<lambda>a. case a of SockV4 ip p \<Rightarrow> [ucast ip, ucast p] | SockV6 ip p f sc \<Rightarrow> [ucast ip, ucast p, 6]),
     mangle_decode = (\<lambda>b. SockV4 (case b of [] \<Rightarrow> 0 | x # _ \<Rightarrow> ucast x) 0),
     sign_id_pk = (\<lambda>key dev k. key @ k), info_text = (\<lambda>ip. ip), parse_info = Some,
     to_socket_addrs = (\<lambda>h. Some [SockV4 0 0]), udp_ok = (\<lambda>_. True), encodable = (\<lambda>_. True)\<rparr>"

lemma sample_hub_clock [simp]: "clock_at sample_hub_env k = 1000"
  by (simp add: clock_at_def sample_hub_env_def as_i64_def signed_take_bit_int_eq_self)

lemma sample_hub_env_simps [simp]:
  "sql_ok sample_hub_env k" "uuid_v4 sample_hub_env = uuid_v4 sample_env"
  "uuid_simple sample_hub_env = uuid_simple sample_env" "sha256 sample_hub_env = sha256 sample_env"
  "instant sample_hub_env k = 10000000000000" "instant_min sample_hub_env = 0"
  "try_into_v4 sample_hub_env a = a" "info_text sample_hub_env t = t"
  "parse_info sample_hub_env t = Some t" "udp_ok sample_hub_env k" "valid_server sample_hub_env h"
  "encodable sample_hub_env msg"
  by (simp_all add: sample_hub_env_def server_names)

definition sample_peer :: peer where
  "sample_peer = \<lparr>socket_addr = SockV4 3325256705 4000, last_reg_time = 9999000000000, guid = [1],
     uuid = [7], pk = [8], info_ip = ''198.51.100.1'', reg_pk = (0, 0)\<rparr>"

definition sample_hub :: hub where
  "sample_hub = \<lparr>ticks = 0,
     peer_rows = [\<lparr>row_guid = [1], row_id = ''desk01'', row_uuid = [7], row_pk = [8], row_user = None,
       row_info = ''198.51.100.1'', row_status = None\<rparr>],
     accounts = [\<lparr>acc_name = ''alice'', acc_hash = ''hcorrect horse'', acc_enabled = 1\<rparr>],
     sessions = [\<lparr>ses_hash = [84], ses_name = ''alice'', ses_expires = 5000\<rparr>],
     tickets = [], devices = [], jobs = [], audits = [], shared_open = True,
     pm_map = [(''desk01'', sample_peer)], ip_blocker = [], ip_changes = [], punch_reqs = [],
     punch_sessions = [], tcp_punch = [], tcp_peers = [], queue = [], rotation = 0,
     always_use_relay = False, sent = []\<rparr>"

lemma sample_hub_linked: "linked sample_hub"
  by (simp add: linked_def sample_hub_def sample_peer_def peer_rows_ok_def unique_on_def)

section \<open>Properties\<close>

text \<open>
  C25: A key that \<open>update_pk\<close> has confirmed survives a restart: reading the peer back from the
  database with an empty cache gives the key and the address it was registered with.
\<close>

theorem pk_survives_restart:
  assumes "linked s" and "map_of (pm_map s) dev = Some p"
    and "run_state (pm_update_pk e dev p addr u k ip) s = (OK, s')"
    and "parse_info e (info_text e ip) = Some ip" and "sql_ok e (ticks s')"
  shows "\<exists>q s''. run_state (pm_get e dev) (s'\<lparr>pm_map := []\<rparr>) = (Some q, s'') \<and>
    pk q = k \<and> info_ip q = ip \<and> (guid p = [] \<longrightarrow> uuid q = u)"
proof -
  obtain r where r: "r \<in> set (peer_rows s')" "row_id r = dev" "row_pk r = k"
    "row_info r = info_text e ip" "guid p = [] \<longrightarrow> row_uuid r = u" and "linked s'"
    using pm_update_pk_rows [OF assms(1-3)] by blast
  then have "select_first (filter (\<lambda>r. row_id r = dev) (peer_rows s')) = Some r"
    by (intro select_by_key) (simp_all add: linked_def peer_rows_ok_def)
  then show ?thesis
    using r assms(4,5) by (simp add: exec_simps row_peer_def)
qed

lemma pk_survives_restart_witness:
  "\<exists>q s' s''. run_state (pm_update_pk sample_hub_env ''desk01'' sample_peer (SockV4 5 6) [7] [9] ''0.0.0.5'')
       sample_hub = (OK, s') \<and>
     run_state (pm_get sample_hub_env ''desk01'') (s'\<lparr>pm_map := []\<rparr>) = (Some q, s'') \<and> pk q = [9]"
proof -
  have m: "map_of (pm_map sample_hub) ''desk01'' = Some sample_peer"
    by (simp add: sample_hub_def)
  have "fst (run_state (pm_update_pk sample_hub_env ''desk01'' sample_peer (SockV4 5 6) [7] [9] ''0.0.0.5'')
      sample_hub) = OK"
    by (simp add: pm_update_pk_def exec_simps run_db_update_pk update_peer_row_def sample_hub_def
        sample_peer_def Let_def)
  then obtain s' where r: "run_state (pm_update_pk sample_hub_env ''desk01'' sample_peer (SockV4 5 6) [7] [9]
      ''0.0.0.5'') sample_hub = (OK, s')"
    by (metis prod.collapse)
  from pk_survives_restart [OF sample_hub_linked m r] r show ?thesis by auto
qed

end
