(* ===== verification/Registration.thy ===== *)
theory Registration
  imports PeerDb
begin

text \<open>
  Registration of peers: \<open>check_ip_blocker\<close> of src/rendezvous_server/relay.rs and the two operations
  of udp.rs that the UDP and the TCP path share, \<open>register_peer_response\<close> and \<open>register_pk_result\<close>,
  each from its beginning to its end. Their critical sections, which other tasks may come between,
  are in PeerTasks.
\<close>

section \<open>The address limiter\<close>

definition put_blocker ::
  "string \<Rightarrow> (32 word \<times> int) \<times> (string list \<times> int) \<Rightarrow> ('w hub_scheme, unit) state" where
  "put_blocker ip v = modify (\<lambda>s. s\<lparr>ip_blocker := AList.update ip v (ip_blocker s)\<rparr>)"

text \<open>
  Two counters per address: registrations in the last minute and distinct ids in the last day. The
  second part runs when the first has let the request pass and has stored its new value.
\<close>

definition check_ids ::
  "'e env_scheme \<Rightarrow> string \<Rightarrow> string \<Rightarrow> int \<Rightarrow> 32 word \<times> int \<Rightarrow> string list \<Rightarrow> int
     \<Rightarrow> ('w hub_scheme, bool) state" where
  "check_ids e ip dev now counter ids since = do {
     put_blocker ip (counter, (ids, since));
     let is_new = dev \<notin> set ids;
     el \<leftarrow> elapsed e since;
     if as_secs el \<le> 86400 \<and> length ids > 300 then State_Monad.return (\<not> is_new)
     else do {
       let ids' = (if as_secs el > 86400 then [] else ids);
       put_blocker ip (counter, (if is_new then ids' @ [dev] else ids', now));
       State_Monad.return True
     }
   }"

definition check_ip_blocker ::
  "'e env_scheme \<Rightarrow> string \<Rightarrow> string \<Rightarrow> ('w hub_scheme, bool) state" where
  "check_ip_blocker e ip dev = do {
     now \<leftarrow> instant_now e;
     m \<leftarrow> gets ip_blocker;
     case map_of m ip of
       None \<Rightarrow> do { put_blocker ip ((0, now), ([], now)); State_Monad.return True }
     | Some ((n, t), (ids, since)) \<Rightarrow> do {
         el \<leftarrow> elapsed e t;
         if as_secs el \<le> 60 \<and> n > 30 then State_Monad.return False
         else check_ids e ip dev now ((if as_secs el > 60 then 0 else n) + 1, now) ids since
       }
   }"

section \<open>Heartbeats\<close>

definition ip_changed_of :: "peer \<Rightarrow> socket_addr \<Rightarrow> bool" where
  "ip_changed_of old addr \<longleftrightarrow>
     (if sock_port (socket_addr old) \<noteq> 0 then sock_ip addr \<noteq> sock_ip (socket_addr old)
      else show_ip (sock_ip addr) \<noteq> info_ip old) \<and> \<not> is_loopback (sock_ip addr)"

definition register_peer_response ::
  "'e env_scheme \<Rightarrow> string \<Rightarrow> socket_addr \<Rightarrow> ('w hub_scheme, message) state" where
  "register_peer_response e dev addr = do {
     m \<leftarrow> get_in_memory dev;
     case m of
       None \<Rightarrow> State_Monad.return (RegisterPeerResponse True)
     | Some old \<Rightarrow>
         if pk old = [] \<or> ip_changed_of old addr
         then State_Monad.return (RegisterPeerResponse True)
         else do {
           t \<leftarrow> instant_now e;
           put_peer dev (old\<lparr>socket_addr := addr, last_reg_time := t\<rparr>);
           State_Monad.return (RegisterPeerResponse False)
         }
   }"

section \<open>Keys\<close>

text \<open>
  The comparison with the stored peer: \<open>None\<close> is a mismatch, otherwise whether anything changed and
  whether the address did.
\<close>

definition pk_verdict :: "peer \<Rightarrow> register_pk \<Rightarrow> string \<Rightarrow> (bool \<times> bool) option" where
  "pk_verdict p rk ip =
     (if uuid p = [] then Some (True, False)
      else if uuid p = rk_uuid rk then
        (if info_ip p \<noteq> ip \<and> pk p \<noteq> rk_pk rk then None
         else let ip_changed = (info_ip p \<noteq> ip)
              in Some (uuid p \<noteq> rk_uuid rk \<or> pk p \<noteq> rk_pk rk \<or> ip_changed, ip_changed))
      else None)"

definition record_ip_change ::
  "'e env_scheme \<Rightarrow> string \<Rightarrow> string \<Rightarrow> ('w hub_scheme, unit) state" where
  "record_ip_change e dev ip = do {
     m \<leftarrow> gets ip_changes;
     case map_of m dev of
       Some (tm, ips) \<Rightarrow> do {
         el \<leftarrow> elapsed e tm;
         if as_secs el > 180 then do {
           t \<leftarrow> instant_now e;
           modify (\<lambda>s. s\<lparr>ip_changes := AList.update dev (t, [(ip, 1)]) (ip_changes s)\<rparr>)
         } else
           modify (\<lambda>s. s\<lparr>ip_changes := AList.update dev
             (tm, AList.update ip (case map_of ips ip of Some v \<Rightarrow> v + 1 | None \<Rightarrow> 1) ips)
             (ip_changes s)\<rparr>)
       }
     | None \<Rightarrow> do {
         t \<leftarrow> instant_now e;
         modify (\<lambda>s. s\<lparr>ip_changes := AList.update dev (t, [(ip, 1)]) (ip_changes s)\<rparr>)
       }
   }"

definition register_pk_result ::
  "'e hub_env_scheme \<Rightarrow> register_pk \<Rightarrow> socket_addr \<Rightarrow> ('w hub_scheme, pk_result) state" where
  "register_pk_result e rk addr = (
     let dev = rk_id rk; ip = show_ip (sock_ip addr) in
     if length dev < 6 then State_Monad.return UUID_MISMATCH
     else do {
       allowed \<leftarrow> check_ip_blocker e ip dev;
       if \<not> allowed then State_Monad.return TOO_FREQUENT
       else do {
         p \<leftarrow> pm_get_or e dev;
         case pk_verdict p rk ip of
           None \<Rightarrow> State_Monad.return UUID_MISMATCH
         | Some (changed, ip_changed) \<Rightarrow> do {
             el \<leftarrow> elapsed e (snd (reg_pk p));
             if as_secs el \<le> 6 \<and> fst (reg_pk p) > 2 then State_Monad.return TOO_FREQUENT
             else do {
               t \<leftarrow> instant_now e;
               let q = p\<lparr>reg_pk := ((if as_secs el > 6 then 0 else fst (reg_pk p)) + 1, t)\<rparr>;
               put_peer dev q;
               (if ip_changed then record_ip_change e dev ip else State_Monad.return ());
               if changed then do {
                 r \<leftarrow> pm_update_pk e dev q addr (rk_uuid rk) (rk_pk rk) ip;
                 State_Monad.return OK
               } else State_Monad.return OK
             }
           }
       }
     })"

section \<open>Lemmas\<close>

lemma run_put_blocker [exec_simps]:
  "run_state (put_blocker ip v) s = ((), s\<lparr>ip_blocker := AList.update ip v (ip_blocker s)\<rparr>)"
  by (simp add: put_blocker_def exec_simps)

text \<open>
  The bookkeeping of a registration: it leaves the peers, the tables and the connections alone.
\<close>

definition bookkeeping :: "'w hub_scheme \<Rightarrow> 'w hub_scheme \<Rightarrow> bool" where
  "bookkeeping s s' \<longleftrightarrow> s' = s\<lparr>ip_blocker := ip_blocker s', ip_changes := ip_changes s', ticks := ticks s'\<rparr> \<and>
     ticks s \<le> ticks s'"

lemma bookkeepingD:
  assumes "bookkeeping s s'"
  shows "pm_map s' = pm_map s" "peer_rows s' = peer_rows s" "sent s' = sent s" "queue s' = queue s"
    "tcp_peers s' = tcp_peers s" "tcp_punch s' = tcp_punch s" "ticks s \<le> ticks s'"
    "linked s' = linked s"
proof -
  let ?u = "s\<lparr>ip_blocker := ip_blocker s', ip_changes := ip_changes s', ticks := ticks s'\<rparr>"
  have u: "s' = ?u" and t: "ticks s \<le> ticks s'" using assms by (simp_all add: bookkeeping_def)
  have "pm_map ?u = pm_map s" "peer_rows ?u = peer_rows s" "sent ?u = sent s" "queue ?u = queue s"
    "tcp_peers ?u = tcp_peers s" "tcp_punch ?u = tcp_punch s" "linked ?u = linked s"
    by (simp_all add: linked_def)
  then show "pm_map s' = pm_map s" "peer_rows s' = peer_rows s" "sent s' = sent s" "queue s' = queue s"
    "tcp_peers s' = tcp_peers s" "tcp_punch s' = tcp_punch s" "linked s' = linked s"
    using u by metis+
  show "ticks s \<le> ticks s'" by (rule t)
qed

lemma check_ip_blocker_books:
  "run_state (check_ip_blocker e ip dev) s = (b, s') \<Longrightarrow> bookkeeping s s'"
  by (auto simp: check_ip_blocker_def check_ids_def exec_simps Let_def bookkeeping_def
      split: option.splits if_splits)

lemma record_ip_change_books:
  "run_state (record_ip_change e dev ip) s = (x, s') \<Longrightarrow> bookkeeping s s'"
  by (auto simp: record_ip_change_def exec_simps bookkeeping_def split: option.splits if_splits)

text \<open>The entry of one address after one request.\<close>

lemma check_ip_blocker_entry:
  assumes "run_state (check_ip_blocker e ip' dev) s = (b, s')"
  shows "ticks s < ticks s'"
    and "map_of (ip_blocker s) ip = None \<Longrightarrow>
      (if ip' = ip then b \<and> (\<exists>ids since. map_of (ip_blocker s') ip =
          Some ((0, instant e (ticks s)), (ids, since)))
       else map_of (ip_blocker s') ip = None)"
    and "map_of (ip_blocker s) ip = Some ((n, t), v) \<Longrightarrow>
      as_secs (nat (instant e (Suc (ticks s)) - t)) \<le> 60 \<Longrightarrow>
      (if ip' = ip then
         (if n > 30 then \<not> b \<and> map_of (ip_blocker s') ip = Some ((n, t), v)
          else \<exists>v'. map_of (ip_blocker s') ip = Some ((n + 1, instant e (ticks s)), v'))
       else map_of (ip_blocker s') ip = Some ((n, t), v))"
  using assms
  by (auto simp: check_ip_blocker_def check_ids_def exec_simps Let_def update_conv'
      split: option.splits if_splits prod.splits)

lemma pm_update_pk_ticks:
  "run_state (pm_update_pk e dev p addr u k ip) s = (r, s') \<Longrightarrow> ticks s \<le> ticks s'"
  by (auto simp: pm_update_pk_def exec_simps run_insert_peer run_db_update_pk Let_def split: if_splits)

text \<open>
  A registration is refused, with the stored peers untouched, or it passes every check; then the
  entry \<open>q\<close> that is in memory differs from the one compared only in its request counter.
\<close>

lemma register_pk_cases:
  assumes "run_state (register_pk_result e rk addr) s = (res, s')"
  obtains (refused) "res = UUID_MISMATCH \<or> res = TOO_FREQUENT" "peer_rows s' = peer_rows s"
      "\<And>d p. map_of (pm_map s) d = Some p \<Longrightarrow> map_of (pm_map s') d = Some p"
      "\<And>d. d \<noteq> rk_id rk \<Longrightarrow> map_of (pm_map s') d = map_of (pm_map s) d"
      "pm_map s' = pm_map s \<or> (\<exists>s1 p s2. bookkeeping s s1 \<and>
         run_state (pm_get_or e (rk_id rk)) s1 = (p, s2) \<and> pm_map s' = pm_map s2 \<and> ticks s2 \<le> ticks s')"
    | (passed) s1 p s2 changed ipc q s3 where "res = OK" "bookkeeping s s1"
      "run_state (pm_get_or e (rk_id rk)) s1 = (p, s2)"
      "pk_verdict p rk (show_ip (sock_ip addr)) = Some (changed, ipc)"
      "q = p\<lparr>reg_pk := reg_pk q\<rparr>" "peer_rows s3 = peer_rows s2" "ticks s \<le> ticks s3"
      "\<And>d. map_of (pm_map s3) d = (if d = rk_id rk then Some q else map_of (pm_map s2) d)"
      "if changed then \<exists>r. run_state (pm_update_pk e (rk_id rk) q addr (rk_uuid rk) (rk_pk rk)
         (show_ip (sock_ip addr))) s3 = (r, s') else s' = s3"
      "ticks s2 \<le> ticks s'"
proof -
  let ?dev = "rk_id rk" and ?ip = "show_ip (sock_ip addr)"
  obtain b s1 where lim: "run_state (check_ip_blocker e ?ip ?dev) s = (b, s1)" by (metis prod.collapse)
  note books = check_ip_blocker_books [OF lim]
  obtain p s2 where get: "run_state (pm_get_or e ?dev) s1 = (p, s2)" by (metis prod.collapse)
  note mem = pm_get_or_memory [OF get]
  have keep: "map_of (pm_map s2) d = Some x" if "map_of (pm_map s) d = Some x" for d x
    using mem that bookkeepingD(1) [OF books] by (cases "d = ?dev") auto
  have others: "map_of (pm_map s2) d = map_of (pm_map s) d" if "d \<noteq> ?dev" for d
    using mem that bookkeepingD(1) [OF books] by auto
  have rows: "peer_rows s2 = peer_rows s" and le: "ticks s \<le> ticks s2"
    using mem bookkeepingD(2,7) [OF books] by auto
  show thesis
  proof (cases "length ?dev < 6 \<or> \<not> b")
    case True
    then show thesis
      using assms lim bookkeepingD(1,2) [OF books]
      by (intro refused) (auto simp: register_pk_result_def exec_simps Let_def split: if_splits)
  next
    case go: False
    show thesis
    proof (cases "pk_verdict p rk ?ip")
      case None
      then have "res = UUID_MISMATCH \<and> s' = s2"
        using assms lim get go by (auto simp: register_pk_result_def exec_simps Let_def)
      then show thesis using keep others rows books get by (intro refused) blast+
    next
      case (Some v)
      obtain changed ipc where v: "v = (changed, ipc)" by force
      let ?el = "as_secs (nat (instant e (ticks s2) - snd (reg_pk p)))"
      show thesis
      proof (cases "?el \<le> 6 \<and> fst (reg_pk p) > 2")
        case True
        then have "res = TOO_FREQUENT \<and> s' = s2\<lparr>ticks := Suc (ticks s2)\<rparr>"
          using assms lim get go Some v
          by (auto simp: register_pk_result_def exec_simps Let_def split: if_splits)
        then have "res = TOO_FREQUENT" "pm_map s' = pm_map s2" "peer_rows s' = peer_rows s" "ticks s2 \<le> ticks s'"
          using rows by simp_all
        then show thesis using keep others books get by (intro refused) (simp_all, blast)
      next
        case False
        let ?q = "p\<lparr>reg_pk := ((if ?el > 6 then 0 else fst (reg_pk p)) + 1, instant e (Suc (ticks s2)))\<rparr>"
        let ?s4 = "s2\<lparr>ticks := Suc (Suc (ticks s2)), pm_map := AList.update ?dev ?q (pm_map s2)\<rparr>"
        obtain x s3 where rec: "run_state (if ipc then record_ip_change e ?dev ?ip else State_Monad.return ()) ?s4 = (x, s3)"
          by (metis prod.collapse)
        have "bookkeeping ?s4 s3"
        proof (cases ipc)
          case True
          then have "run_state (record_ip_change e ?dev ?ip) ?s4 = (x, s3)"
            using rec by (simp only: if_True)
          then show ?thesis by (rule record_ip_change_books)
        next
          case False
          then show ?thesis using rec by (auto simp: bookkeeping_def)
        qed
        note b3 = bookkeepingD [OF this]
        have run: "run_state (if changed
            then pm_update_pk e ?dev ?q addr (rk_uuid rk) (rk_pk rk) ?ip \<bind> (\<lambda>r. State_Monad.return OK)
            else State_Monad.return OK) s3 = (res, s')"
          using assms lim get go Some v False rec
          by (auto simp: register_pk_result_def exec_simps Let_def split: if_splits)
        show thesis
        proof (rule passed [of s1 p s2 changed ipc ?q s3])
          show "res = OK" using run by (auto simp: exec_simps split: if_splits prod.splits)
          show "if changed then \<exists>r. run_state (pm_update_pk e ?dev ?q addr (rk_uuid rk) (rk_pk rk) ?ip) s3 = (r, s')
            else s' = s3"
            using run by (auto simp: exec_simps split: if_splits prod.splits)
          show "\<And>d. map_of (pm_map s3) d = (if d = ?dev then Some ?q else map_of (pm_map s2) d)"
            using b3(1) by (auto simp: update_conv')
          show "peer_rows s3 = peer_rows s2" "ticks s \<le> ticks s3"
            using b3(2,7) le by auto
          have "ticks s3 \<le> ticks s'"
            using run pm_update_pk_ticks by (fastforce simp: exec_simps split: if_splits prod.splits)
          then show "ticks s2 \<le> ticks s'" using b3(7) by simp
        qed (use books get Some v in auto)
      qed
    qed
  qed
qed

lemma pk_verdict_Some:
  "pk_verdict p rk ip = Some (changed, ipc) \<Longrightarrow>
     (uuid p \<noteq> [] \<longrightarrow> uuid p = rk_uuid rk \<and> (info_ip p = ip \<or> pk p = rk_pk rk)) \<and>
     (\<not> changed \<longrightarrow> uuid p = rk_uuid rk \<and> pk p = rk_pk rk \<and> info_ip p = ip)"
  by (auto simp: pk_verdict_def Let_def split: if_splits)

lemma linked_pm_update:
  assumes "linked s" and "map_of (pm_map s) dev = Some p" and "guid q = guid p"
    and "peer_rows s' = peer_rows s"
    and "\<And>d. map_of (pm_map s') d = (if d = dev then Some q else map_of (pm_map s) d)"
  shows "linked s'"
  using assms by (auto simp: linked_def)

lemma register_pk_result_linked: "preserves linked (register_pk_result e rk addr :: ('w hub_scheme, pk_result) state)"
proof (rule preservesI)
  fix s :: "'w hub_scheme"
  assume s: "linked s"
  obtain res s' where r: "run_state (register_pk_result e rk addr) s = (res, s')" by (metis prod.collapse)
  obtain b s1 where lim: "run_state (check_ip_blocker e (show_ip (sock_ip addr)) (rk_id rk)) s = (b, s1)"
    by (metis prod.collapse)
  have "linked s'" using r
  proof (cases rule: register_pk_cases)
    case refused
    obtain p s2 where get: "run_state (pm_get_or e (rk_id rk)) s1 = (p, s2)" by (metis prod.collapse)
    have "linked s1" using s bookkeepingD(8) [OF check_ip_blocker_books [OF lim]] by simp
    then have "linked s2" using preservesD_run [OF pm_get_or_linked get] by simp
    moreover have "s' = s \<or> pm_map s' = pm_map s1 \<and> peer_rows s' = peer_rows s1 \<or>
        pm_map s' = pm_map s2 \<and> peer_rows s' = peer_rows s2"
      using r refused(1) lim get
      by (auto simp: register_pk_result_def exec_simps Let_def split: if_splits option.splits prod.splits)
    ultimately show ?thesis using s \<open>linked s1\<close> by (auto simp: linked_def)
  next
    case (passed s1 p s2 changed ipc q s3)
    have "linked s1" using s bookkeepingD(8) [OF passed(2)] by simp
    then have "linked s2" using preservesD_run [OF pm_get_or_linked passed(3)] by simp
    moreover have "map_of (pm_map s2) (rk_id rk) = Some p" using pm_get_or_memory [OF passed(3)] by blast
    moreover have "guid q = guid p" using passed(5) by (metis peer.select_convs(3) peer.surjective peer.update_convs(7))
    ultimately have "linked s3" using linked_pm_update [OF _ _ _ passed(6,8)] by blast
    moreover have "map_of (pm_map s3) (rk_id rk) = Some q" using passed(8) by simp
    ultimately show ?thesis using passed(9)
      by (cases changed) (auto dest: pm_update_pk_rows [rotated 2])
  qed
  then show "linked (snd (run_state (register_pk_result e rk addr) s))" using r by simp
qed

lemma register_peer_response_linked: "preserves linked (register_peer_response e dev addr :: ('w hub_scheme, message) state)"
proof (rule preservesI)
  fix s :: "'w hub_scheme"
  assume "linked s"
  then show "linked (snd (run_state (register_peer_response e dev addr) s))"
    by (auto simp: register_peer_response_def exec_simps linked_def update_conv' split: option.splits)
qed

section \<open>What registration leaves alone\<close>

text \<open>
  A predicate that is kept by the writes registration makes, to the cache, to the two address tables
  and to the peer table, is kept by registration. \<open>sane\<close> is what the predicate may ask of the request
  counters of the cached peers; the counters registration writes are at most 3.
\<close>

lemma limit_keeps:
  "tick_free I \<Longrightarrow> (\<And>s b. I s \<Longrightarrow> I (s\<lparr>ip_blocker := b\<rparr>)) \<Longrightarrow> preserves I (check_ip_blocker e ip dev)"
  unfolding check_ip_blocker_def check_ids_def put_blocker_def by (intro preserves_intros preserves_modify)

lemma change_keeps:
  "tick_free I \<Longrightarrow> (\<And>s c. I s \<Longrightarrow> I (s\<lparr>ip_changes := c\<rparr>)) \<Longrightarrow> preserves I (record_ip_change e dev ip)"
  unfolding record_ip_change_def by (intro preserves_intros preserves_modify)

locale registration_frame =
  fixes e :: "'e hub_env_scheme" and I :: "'w hub_scheme \<Rightarrow> bool" and sane :: "32 word \<times> int \<Rightarrow> bool"
  assumes frame_free: "tick_free I"
    and frame_put: "sane (reg_pk p) \<Longrightarrow> preserves I (put_peer dev p)"
    and frame_cached: "I s \<Longrightarrow> map_of (pm_map s) dev = Some p \<Longrightarrow> sane (reg_pk p)"
    and frame_sane: "n \<le> 3 \<Longrightarrow> sane (n, t)"
    and frame_rows: "I s \<Longrightarrow> I (s\<lparr>peer_rows := rows\<rparr>)"
    and frame_limit: "preserves I (check_ip_blocker e ip dev)"
    and frame_change: "preserves I (record_ip_change e dev ip)"
begin

lemma frame_table:
  "preserves I (get_peer e dev)" "preserves I (insert_peer e dev u k info)" "preserves I (db_update_pk e g dev k info)"
  unfolding get_peer_def insert_peer_def db_update_pk_def
  by (intro preserves_intros frame_free preserves_sql; auto simp: Let_def intro: frame_rows split: if_splits)+

lemmas frame_intros = preserves_intros frame_free frame_table frame_limit frame_change

lemma frame_default: "preserves I (default_peer e)" "yields I (default_peer e) (\<lambda>p. sane (reg_pk p))"
  unfolding default_peer_def by (intro frame_intros) (auto simp: yields_def exec_simps frame_sane)

lemma frame_memory: "preserves I (get_in_memory dev)" "yields I (get_in_memory dev) (\<lambda>r. \<forall>p. r = Some p \<longrightarrow> sane (reg_pk p))"
  unfolding get_in_memory_def by (auto simp: yields_def exec_simps intro: frame_intros frame_cached)

lemma frame_pm_get: "preserves I (pm_get e dev)"
  unfolding pm_get_def Let_def
  by (intro frame_intros frame_memory preserves_bind_yields [OF frame_default] frame_put) simp

lemma frame_pm_get_sane: "yields I (pm_get e dev) (\<lambda>r. \<forall>p. r = Some p \<longrightarrow> sane (reg_pk p))"
  by (rule yieldsI) (auto simp: run_pm_get row_peer_def frame_sane dest: frame_cached split: option.splits)

lemma frame_pm_get_or: "preserves I (pm_get_or e dev)" "yields I (pm_get_or e dev) (\<lambda>p. sane (reg_pk p))"
proof -
  show keep: "preserves I (pm_get_or e dev)"
    unfolding pm_get_or_def
    by (intro frame_intros frame_pm_get frame_memory preserves_bind_yields [OF frame_default] frame_put)
  have "sane (reg_pk p)" if "I s" "run_state (pm_get_or e dev) s = (p, s')" for s p s'
    using frame_cached [OF preservesD_run [OF keep that(2,1)]] pm_get_or_memory [OF that(2)] by blast
  then show "yields I (pm_get_or e dev) (\<lambda>p. sane (reg_pk p))"
    by (intro yieldsI) (metis prod.collapse)
qed

lemma frame_update_pk: "sane (reg_pk p) \<Longrightarrow> preserves I (pm_update_pk e dev p addr u k ip)"
  unfolding pm_update_pk_def Let_def by (intro frame_intros frame_put) simp_all

lemma frame_register_pk: "preserves I (register_pk_result e rk addr)"
proof -
  have step: "sane (n + 1, t)" if "n \<le> 2" for n t
    using that by (intro frame_sane) (simp add: word_le_nat_alt unat_word_ariths)
  have count: "sane ((if b > 6 then 0 else n) + 1, t)" if "\<not> (b \<le> 6 \<and> n > 2)" for b :: nat and n t
    using that step [of n t] step [of 0 t] by (auto simp: not_less)
  show ?thesis
    unfolding register_pk_result_def Let_def
    by (intro frame_intros preserves_bind_yields [OF frame_pm_get_or] frame_put frame_update_pk)
      (simp_all add: count)
qed

lemma frame_heartbeat: "preserves I (register_peer_response e dev addr)"
  unfolding register_peer_response_def
  by (intro frame_intros preserves_bind_yields [OF frame_memory] frame_put) simp

end

section \<open>Properties\<close>

text \<open>
  What hbbs knows of an id: the entry of its cache or, when there is none, the row of the table, as
  uuid, key and address.
\<close>

definition known_identity :: "'e hub_env_scheme \<Rightarrow> 'w hub_scheme \<Rightarrow> string \<Rightarrow> (bytes \<times> bytes \<times> string) option" where
  "known_identity e s dev =
     (case map_of (pm_map s) dev of
        Some p \<Rightarrow> Some (uuid p, pk p, info_ip p)
      | None \<Rightarrow> map_option (\<lambda>r. (row_uuid r, row_pk r,
            (case parse_info e (row_info r) of Some ip \<Rightarrow> ip | None \<Rightarrow> '''')))
          (select_first (filter (\<lambda>r. row_id r = dev) (peer_rows s))))"

text \<open>The rows of the other ids, in order.\<close>

definition other_rows :: "string \<Rightarrow> peer_row list \<Rightarrow> peer_row list" where
  "other_rows dev rows = filter (\<lambda>r. row_id r \<noteq> dev) rows"

lemma known_identity_same:
  "map_of (pm_map s') d = map_of (pm_map s) d \<Longrightarrow> peer_rows s' = peer_rows s \<Longrightarrow>
     known_identity e s' d = known_identity e s d"
  by (simp add: known_identity_def cong: option.case_cong)

lemma pm_get_or_known:
  assumes "run_state (pm_get_or e dev) s = (p, s')" and "known_identity e s dev = Some (u, k, ip)"
    and "ticks s < ticks s' \<Longrightarrow> sql_ok e (ticks s)"
  shows "uuid p = u \<and> pk p = k \<and> info_ip p = ip \<and> known_identity e s' dev = Some (u, k, ip)"
proof -
  have "uuid p = u \<and> pk p = k \<and> info_ip p = ip"
    using assms
    by (auto simp: pm_get_or_def known_identity_def exec_simps row_peer_def split: option.splits if_splits)
  then show ?thesis using pm_get_or_memory [OF assms(1)] by (simp add: known_identity_def)
qed

lemma pm_update_pk_others:
  assumes "linked s" and "map_of (pm_map s) dev = Some p"
    and "run_state (pm_update_pk e dev p addr u k ip) s = (res, s')"
  shows "other_rows dev (peer_rows s') = other_rows dev (peer_rows s)"
proof (cases "guid p = []")
  case True
  then show ?thesis using assms(3)
    by (auto simp: pm_update_pk_def exec_simps run_insert_peer Let_def other_rows_def split: if_splits)
next
  case False
  then obtain r where r: "r \<in> set (peer_rows s)" "row_guid r = guid p" "row_id r = dev"
    using assms(1,2) by (auto simp: linked_def)
  have one: "row_id x = dev" if "x \<in> set (peer_rows s)" "row_guid x = guid p" for x
    using assms(1) r that by (metis linked_def peer_rows_ok_def unique_onD)
  have keep: "other_rows dev (update_peer_row (guid p) dev k i rows) = other_rows dev rows"
    if "\<And>x. x \<in> set rows \<Longrightarrow> row_guid x = guid p \<Longrightarrow> row_id x = dev" for rows i
    using that by (induction rows) (auto simp: other_rows_def update_peer_row_def)
  show ?thesis using assms(3) False keep [OF one]
    by (auto simp: pm_update_pk_def exec_simps run_db_update_pk Let_def split: if_splits)
qed

lemma register_pk_others:
  assumes "run_state (register_pk_result e rk addr) s = (res, s')" and "linked s"
  shows "(\<forall>d. d \<noteq> rk_id rk \<longrightarrow> map_of (pm_map s') d = map_of (pm_map s) d) \<and>
    other_rows (rk_id rk) (peer_rows s') = other_rows (rk_id rk) (peer_rows s)"
  using assms(1)
proof (cases rule: register_pk_cases)
  case (passed s1 p s2 changed ipc q s3)
  note mem = pm_get_or_memory [OF passed(3)] and b1 = bookkeepingD(1,2,8) [OF passed(2)]
  have l2: "linked s2" using preservesD_run [OF pm_get_or_linked passed(3)] b1(3) assms(2) by simp
  have "guid q = guid p" using passed(5) by (metis peer.select_convs(3) peer.surjective peer.update_convs(7))
  then have l3: "linked s3" and m3: "map_of (pm_map s3) (rk_id rk) = Some q"
    using linked_pm_update [OF l2 _ _ passed(6,8)] mem passed(8) by auto
  have up: "(\<forall>d. d \<noteq> rk_id rk \<longrightarrow> map_of (pm_map s') d = map_of (pm_map s3) d) \<and>
      other_rows (rk_id rk) (peer_rows s') = other_rows (rk_id rk) (peer_rows s3)"
    using passed(9) pm_update_pk_others [OF l3 m3] pm_update_pk_memory by (cases changed) fastforce+
  show ?thesis using up passed(6,8) mem b1(1,2) by auto
qed simp

lemma register_pk_refuses:
  assumes "run_state (register_pk_result e rk addr) s = (res, s')"
    and "\<And>n. ticks s \<le> n \<Longrightarrow> n < ticks s' \<Longrightarrow> sql_ok e n"
    and "known_identity e s (rk_id rk) = Some (u, k, ip)" and "u \<noteq> []"
    and "rk_uuid rk \<noteq> u \<or> (show_ip (sock_ip addr) \<noteq> ip \<and> rk_pk rk \<noteq> k)"
  shows "(res = UUID_MISMATCH \<or> res = TOO_FREQUENT) \<and> peer_rows s' = peer_rows s \<and>
    (\<forall>d. known_identity e s' d = known_identity e s d)"
  using assms(1)
proof (cases rule: register_pk_cases)
  case refused
  have "known_identity e s' (rk_id rk) = known_identity e s (rk_id rk)"
    using refused(5)
  proof
    assume "pm_map s' = pm_map s"
    then show ?thesis using refused(2) by (intro known_identity_same) simp_all
  next
    assume "\<exists>s1 p s2. bookkeeping s s1 \<and> run_state (pm_get_or e (rk_id rk)) s1 = (p, s2) \<and>
      pm_map s' = pm_map s2 \<and> ticks s2 \<le> ticks s'"
    then obtain s1 p s2 where s: "bookkeeping s s1" "run_state (pm_get_or e (rk_id rk)) s1 = (p, s2)"
      "pm_map s' = pm_map s2" "ticks s2 \<le> ticks s'"
      by blast
    note b = bookkeepingD [OF s(1)]
    have "known_identity e s1 (rk_id rk) = Some (u, k, ip)"
      using assms(3) known_identity_same [of s1 "rk_id rk" s e] b(1,2) by simp
    from pm_get_or_known [OF s(2) this] assms(2) b(7) s(4)
    have "known_identity e s2 (rk_id rk) = Some (u, k, ip)" by simp
    moreover have "peer_rows s2 = peer_rows s'" using pm_get_or_memory [OF s(2)] b(2) refused(2) by simp
    ultimately show ?thesis using s(3) assms(3) known_identity_same [of s' "rk_id rk" s2 e] by simp
  qed
  then show ?thesis using refused(1,2,4) known_identity_same by metis
next
  case (passed s1 p s2 changed ipc q s3)
  note b = bookkeepingD [OF passed(2)]
  have "known_identity e s1 (rk_id rk) = Some (u, k, ip)"
    using assms(3) known_identity_same [of s1 "rk_id rk" s e] b(1,2) by simp
  from pm_get_or_known [OF passed(3) this] assms(2) b(7) passed(10)
  have "uuid p = u \<and> pk p = k \<and> info_ip p = ip" by simp
  with pk_verdict_Some [OF passed(4)] assms(4,5) show ?thesis by auto
qed

text \<open>
  C9: Nobody takes over a registered id, cached or only in the table: a \<open>RegisterPk\<close> that comes with
  another uuid than the one hbbs knows, or with another key from another address, is refused, and the
  table, every cached peer and what is known of this and of every other id stay as they were. And no
  \<open>RegisterPk\<close>, accepted or refused, touches another id, in the cache or in the table. The table is
  taken to answer while the request runs, and nothing else to run between its sections; PeerTasks
  has the interleavings.
\<close>

theorem identity_protected:
  assumes "run_state (register_pk_result e rk addr) s = (res, s')" and "linked s"
    and "\<And>n. ticks s \<le> n \<Longrightarrow> n < ticks s' \<Longrightarrow> sql_ok e n"
  shows "(\<forall>u k ip. known_identity e s (rk_id rk) = Some (u, k, ip) \<and> u \<noteq> [] \<and>
      (rk_uuid rk \<noteq> u \<or> (show_ip (sock_ip addr) \<noteq> ip \<and> rk_pk rk \<noteq> k)) \<longrightarrow>
        (res = UUID_MISMATCH \<or> res = TOO_FREQUENT) \<and> peer_rows s' = peer_rows s \<and>
        (\<forall>d. known_identity e s' d = known_identity e s d) \<and>
        (\<forall>d p. map_of (pm_map s) d = Some p \<longrightarrow> map_of (pm_map s') d = Some p)) \<and>
    (\<forall>d. d \<noteq> rk_id rk \<longrightarrow> map_of (pm_map s') d = map_of (pm_map s) d) \<and>
    other_rows (rk_id rk) (peer_rows s') = other_rows (rk_id rk) (peer_rows s)"
proof -
  have "map_of (pm_map s') d = Some p" if "res \<noteq> OK" "map_of (pm_map s) d = Some p" for d p
    using assms(1) that by (cases rule: register_pk_cases) auto
  then show ?thesis
    using register_pk_refuses [OF assms(1,3)] register_pk_others [OF assms(1,2)] by fastforce
qed

lemma identity_protected_witness:
  "\<exists>res s'. run_state (register_pk_result sample_hub_env \<lparr>rk_id = ''desk01'', rk_uuid = [6], rk_pk = [9]\<rparr>
       (SockV4 3325256705 4000)) (sample_hub\<lparr>pm_map := []\<rparr>) = (res, s') \<and>
     (res = UUID_MISMATCH \<or> res = TOO_FREQUENT) \<and> peer_rows s' = peer_rows sample_hub"
proof -
  let ?rk = "\<lparr>rk_id = ''desk01'', rk_uuid = [6], rk_pk = [9]\<rparr> :: register_pk" and ?s = "sample_hub\<lparr>pm_map := []\<rparr>"
  obtain res s' where
    r: "run_state (register_pk_result sample_hub_env ?rk (SockV4 3325256705 4000)) ?s = (res, s')"
    by (metis prod.collapse)
  have l: "linked ?s" using sample_hub_linked by (simp add: linked_def)
  have k: "known_identity sample_hub_env ?s (rk_id ?rk) = Some ([7], [8], ''198.51.100.1'')"
    by (simp add: known_identity_def sample_hub_def)
  from identity_protected [OF r l] k r show ?thesis by fastforce
qed

lemma register_pk_OK_memory:
  assumes "run_state (register_pk_result e rk addr) s = (OK, s')"
  shows "\<exists>q. map_of (pm_map s') (rk_id rk) = Some q \<and> uuid q = rk_uuid rk \<and> pk q = rk_pk rk \<and>
    info_ip q = show_ip (sock_ip addr) \<and>
    (socket_addr q = addr \<or> (\<exists>p. map_of (pm_map s) (rk_id rk) = Some p \<and> socket_addr q = socket_addr p) \<or>
       map_of (pm_map s) (rk_id rk) = None)"
  using assms
proof (cases rule: register_pk_cases)
  case (passed s1 p s2 changed ipc q s3)
  note v = pk_verdict_Some [OF passed(4)] and mem = pm_get_or_memory [OF passed(3)]
  have q: "uuid q = uuid p" "pk q = pk p" "info_ip q = info_ip p" "socket_addr q = socket_addr p"
    by (subst passed(5), simp)+
  show ?thesis
  proof (cases changed)
    case True
    then obtain r where "run_state (pm_update_pk e (rk_id rk) q addr (rk_uuid rk) (rk_pk rk)
        (show_ip (sock_ip addr))) s3 = (r, s')"
      using passed(9) by auto
    then show ?thesis using pm_update_pk_memory by fastforce
  next
    case False
    then have "map_of (pm_map s') (rk_id rk) = Some q" using passed(8,9) by simp
    with False v q mem bookkeepingD(1) [OF passed(2)] show ?thesis
      by (cases "map_of (pm_map s) (rk_id rk)") auto
  qed
qed simp

text \<open>
  After a \<open>RegisterPk\<close> that is answered OK, the peer in memory has exactly the uuid, the key and
  the address of the request; if one of them changed, its connection address is the sender's.
\<close>

theorem registered_as_requested:
  assumes "run_state (register_pk_result e rk addr) s = (OK, s')"
  shows "\<exists>q. map_of (pm_map s') (rk_id rk) = Some q \<and> uuid q = rk_uuid rk \<and> pk q = rk_pk rk \<and>
    info_ip q = show_ip (sock_ip addr) \<and>
    (socket_addr q = addr \<or> (\<exists>p. map_of (pm_map s) (rk_id rk) = Some p \<and> socket_addr q = socket_addr p) \<or>
       map_of (pm_map s) (rk_id rk) = None)"
  using register_pk_OK_memory [OF assms] .

lemma registered_as_requested_witness:
  "\<exists>q s'. run_state (register_pk_result sample_hub_env \<lparr>rk_id = ''desk01'', rk_uuid = [7], rk_pk = [9]\<rparr>
       (SockV4 3325256705 5000)) sample_hub = (OK, s') \<and> map_of (pm_map s') ''desk01'' = Some q \<and> pk q = [9]"
proof -
  let ?rk = "\<lparr>rk_id = ''desk01'', rk_uuid = [7], rk_pk = [9]\<rparr> :: register_pk"
  have ip: "show_v4 3325256705 = ''198.51.100.1''"
    by (simp only: show_v4_def) (simp add: show_nat_def show_base.simps digit_char_def)
  have "fst (run_state (register_pk_result sample_hub_env ?rk (SockV4 3325256705 5000)) sample_hub) = OK"
    by (simp add: register_pk_result_def check_ip_blocker_def pm_get_or_def pk_verdict_def exec_simps
        sample_hub_def sample_peer_def Let_def ip as_secs_def split: prod.splits)
  then obtain s' where r: "run_state (register_pk_result sample_hub_env ?rk (SockV4 3325256705 5000)) sample_hub = (OK, s')"
    by (metis prod.collapse)
  from registered_as_requested [OF r] r show ?thesis by auto
qed

section \<open>Heartbeats from elsewhere\<close>

text \<open>
  A heartbeat that does not come from the recorded IP address (nor from loopback) cannot move or
  refresh a peer: it is answered with a request for the key and changes nothing. One that is
  answered without that request has come from the recorded address or loopback, for a peer with a
  key, and makes the sender's address the peer's, registered now.
\<close>

theorem heartbeat_needs_same_address:
  assumes "run_state (register_peer_response e dev addr) s = (answer, s')"
    and "map_of (pm_map s) dev = Some p"
  shows "(sock_port (socket_addr p) \<noteq> 0 \<and> sock_ip addr \<noteq> sock_ip (socket_addr p) \<and>
      \<not> is_loopback (sock_ip addr) \<longrightarrow> answer = RegisterPeerResponse True \<and> s' = s) \<and>
    (answer \<noteq> RegisterPeerResponse True \<longrightarrow>
      pk p \<noteq> [] \<and> (is_loopback (sock_ip addr) \<or> sock_ip addr = sock_ip (socket_addr p) \<or>
        (sock_port (socket_addr p) = 0 \<and> show_ip (sock_ip addr) = info_ip p)) \<and>
      map_of (pm_map s') dev = Some (p\<lparr>socket_addr := addr, last_reg_time := instant e (ticks s)\<rparr>))"
  using assms
  by (auto simp: register_peer_response_def exec_simps ip_changed_of_def update_conv' split: if_splits)

lemma heartbeat_needs_same_address_witness:
  "fst (run_state (register_peer_response sample_hub_env ''desk01'' (SockV4 1 4000)) sample_hub) =
     RegisterPeerResponse True"
proof -
  obtain answer s' where
    r: "run_state (register_peer_response sample_hub_env ''desk01'' (SockV4 1 4000)) sample_hub = (answer, s')"
    by (metis prod.collapse)
  have "map_of (pm_map sample_hub) ''desk01'' = Some sample_peer" by (simp add: sample_hub_def)
  from heartbeat_needs_same_address [OF r this] r show ?thesis
    by (simp add: sample_peer_def)
qed

section \<open>How often an address may register\<close>

lemma accept_all_Cons:
  "run_state (present k d) s = (b, s1) \<Longrightarrow>
     fst (accept_all present ((k, d) # ps) s) =
       (if b then (k, d) # fst (accept_all present ps s1) else fst (accept_all present ps s1)) \<and>
     snd (accept_all present ((k, d) # ps) s) = snd (accept_all present ps s1)"
  by (simp split: prod.splits)

lemma blocker_forward: "ticks s \<le> ticks (snd (accept_all (check_ip_blocker e) ps s))"
proof (induction ps arbitrary: s)
  case (Cons p ps)
  obtain k d where p: "p = (k, d)" by force
  obtain b s1 where r: "run_state (check_ip_blocker e k d) s = (b, s1)" by (metis prod.collapse)
  from Cons [of s1] check_ip_blocker_entry(1) [OF r] accept_all_Cons [where present = "check_ip_blocker e", OF r, where ps = ps] show ?case
    by (simp add: p)
qed simp

lemma blocker_bound_entry:
  assumes "map_of (ip_blocker s) ip = Some ((n, t), v)" and "n \<le> 31"
    and "\<And>i j. ticks s \<le> i \<Longrightarrow> i < ticks (snd (accept_all (check_ip_blocker e) ps s)) \<Longrightarrow>
      as_secs (nat (instant e i - t)) \<le> 60"
    and "\<And>i j. ticks s \<le> i \<Longrightarrow> ticks s \<le> j \<Longrightarrow> i < ticks (snd (accept_all (check_ip_blocker e) ps s)) \<Longrightarrow>
      j < ticks (snd (accept_all (check_ip_blocker e) ps s)) \<Longrightarrow> as_secs (nat (instant e i - instant e j)) \<le> 60"
  shows "length (filter (\<lambda>p. fst p = ip) (fst (accept_all (check_ip_blocker e) ps s))) + unat n \<le> 31"
  using assms
proof (induction ps arbitrary: s n t v)
  case Nil
  then show ?case by (simp add: word_le_nat_alt)
next
  case (Cons p ps)
  obtain k d where p: "p = (k, d)" by force
  obtain b s1 where r: "run_state (check_ip_blocker e k d) s = (b, s1)" by (metis prod.collapse)
  note split = accept_all_Cons [where present = "check_ip_blocker e", OF r, where ps = ps]
  have le: "ticks s < ticks s1" "ticks s1 \<le> ticks (snd (accept_all (check_ip_blocker e) ps s1))"
    using check_ip_blocker_entry(1) [OF r] blocker_forward by auto
  have el: "as_secs (nat (instant e (Suc (ticks s)) - t)) \<le> 60" if "k = ip"
  proof -
    have "Suc (ticks s) < ticks s1"
      using r that Cons.prems(1)
      by (cases v) (auto simp: check_ip_blocker_def check_ids_def exec_simps Let_def split: if_splits)
    then show ?thesis using Cons.prems(3) [of "Suc (ticks s)"] le split by (simp add: p)
  qed
  show ?case
  proof (cases "k = ip \<and> \<not> n > 30")
    case True
    have n1: "unat (n + 1) = Suc (unat n)" "n + 1 \<le> 31"
      using True by (auto simp: not_less word_le_nat_alt unat_word_ariths)
    obtain v' where e1: "map_of (ip_blocker s1) ip = Some ((n + 1, instant e (ticks s)), v')"
      using check_ip_blocker_entry(3) [OF r Cons.prems(1)] el True by auto
    have "length (filter (\<lambda>p. fst p = ip) (fst (accept_all (check_ip_blocker e) ps s1))) + unat (n + 1) \<le> 31"
      using Cons.prems(4) le split by (intro Cons.IH [OF e1 n1(2)]) (auto simp: p)
    with split n1 show ?thesis by (auto simp: p)
  next
    case False
    have e1: "map_of (ip_blocker s1) ip = Some ((n, t), v) \<and> (k = ip \<longrightarrow> \<not> b)"
    proof (cases "k = ip")
      case True
      with check_ip_blocker_entry(3) [OF r Cons.prems(1)] el False show ?thesis by simp
    next
      case False
      then show ?thesis using r Cons.prems(1)
        by (cases v) (auto simp: check_ip_blocker_def check_ids_def exec_simps Let_def update_conv'
            split: option.splits if_splits prod.splits)
    qed
    then have "length (filter (\<lambda>p. fst p = ip) (fst (accept_all (check_ip_blocker e) ps s1))) + unat n \<le> 31"
      using Cons.prems(2,3,4) le split by (intro Cons.IH [of s1 n t v]) (auto simp: p)
    with split e1 show ?thesis by (auto simp: p)
  qed
qed

text \<open>
  C38: An address that has not registered before gets at most 32 key registrations past the limiter
  in any stretch of time in which two readings of the clock differ by at most 60 seconds.
\<close>

theorem ip_blocker_bound:
  assumes "map_of (ip_blocker s) ip = None"
    and "\<And>i j. ticks s \<le> i \<Longrightarrow> ticks s \<le> j \<Longrightarrow> i < ticks (snd (accept_all (check_ip_blocker e) ps s)) \<Longrightarrow>
      j < ticks (snd (accept_all (check_ip_blocker e) ps s)) \<Longrightarrow> as_secs (nat (instant e i - instant e j)) \<le> 60"
  shows "length (filter (\<lambda>p. fst p = ip) (fst (accept_all (check_ip_blocker e) ps s))) \<le> 32"
  using assms
proof (induction ps arbitrary: s)
  case (Cons p ps)
  obtain k d where p: "p = (k, d)" by force
  obtain b s1 where r: "run_state (check_ip_blocker e k d) s = (b, s1)" by (metis prod.collapse)
  note split = accept_all_Cons [where present = "check_ip_blocker e", OF r, where ps = ps]
  have le: "ticks s < ticks s1" "ticks s1 \<le> ticks (snd (accept_all (check_ip_blocker e) ps s1))"
    using check_ip_blocker_entry(1) [OF r] blocker_forward by auto
  show ?case
  proof (cases "k = ip")
    case True
    then obtain ids since where
      e1: "map_of (ip_blocker s1) ip = Some ((0, instant e (ticks s)), (ids, since))"
      using check_ip_blocker_entry(2) [OF r Cons.prems(1)] by auto
    have "length (filter (\<lambda>p. fst p = ip) (fst (accept_all (check_ip_blocker e) ps s1))) + unat (0 :: 32 word) \<le> 31"
      using Cons.prems(2) le split by (intro blocker_bound_entry [OF e1]) (auto simp: p)
    with split show ?thesis by (auto simp: p)
  next
    case False
    then have "map_of (ip_blocker s1) ip = None"
      using check_ip_blocker_entry(2) [OF r Cons.prems(1)] by simp
    then have "length (filter (\<lambda>p. fst p = ip) (fst (accept_all (check_ip_blocker e) ps s1))) \<le> 32"
      using Cons.prems(2) le split by (intro Cons.IH) (auto simp: p)
    with split False show ?thesis by (auto simp: p)
  qed
qed simp

lemma ip_blocker_bound_witness:
  "length (filter (\<lambda>p. fst p = ''198.51.100.1'') (fst (accept_all (check_ip_blocker sample_hub_env)
     (replicate 100 (''198.51.100.1'', ''desk01'')) sample_hub))) \<le> 32"
  using ip_blocker_bound [of sample_hub "''198.51.100.1''" sample_hub_env
      "replicate 100 (''198.51.100.1'', ''desk01'')"]
  by (simp add: sample_hub_def as_secs_def)

section \<open>A failed write is not reported\<close>

text \<open>
  \<open>register_pk_result\<close> ignores the result of \<open>update_pk\<close>: a new peer whose row could not be
  written is still answered OK, and since the peer in memory already has the new key, the same
  registration sent again does not try to write it either: the table stays without it, also when
  the database works again.
\<close>

theorem lost_registration:
  assumes "length (rk_id rk) \<ge> 6" and "rk_uuid rk \<noteq> []"
    and "map_of (pm_map s) (rk_id rk) = None" and "map_of (ip_blocker s) (show_ip (sock_ip addr)) = None"
    and "\<And>k. \<not> sql_ok e k"
    and "run_state (register_pk_result e rk addr) s = (res, s1)"
    and "run_state (register_pk_result e' rk addr') s1 = (res', s2)"
    and "sock_ip addr' = sock_ip addr"
  shows "res = OK \<and> peer_rows s1 = peer_rows s \<and> peer_rows s2 = peer_rows s"
proof -
  let ?ip = "show_ip (sock_ip addr)"
  have first: "res = OK \<and> peer_rows s1 = peer_rows s"
    using assms(1,3,4,5,6)
    by (auto simp: register_pk_result_def check_ip_blocker_def pm_get_or_def pk_verdict_def
        pm_update_pk_def run_insert_peer exec_simps Let_def update_conv' split: if_splits)
  obtain q where q: "map_of (pm_map s1) (rk_id rk) = Some q" "uuid q = rk_uuid rk" "pk q = rk_pk rk"
    "info_ip q = ?ip"
    using register_pk_OK_memory [of e rk addr s s1] assms(6) first by blast
  have "peer_rows s2 = peer_rows s1" using assms(7)
  proof (cases rule: register_pk_cases)
    case (passed t1 p t2 changed ipc q' t3)
    have "p = q" "peer_rows t2 = peer_rows s1"
      using pm_get_or_memory [OF passed(3)] q(1) bookkeepingD(1,2) [OF passed(2)] by auto
    then have "\<not> changed"
      using passed(4) q assms(2,8) by (auto simp: pk_verdict_def Let_def)
    then show ?thesis using passed(6,9) \<open>peer_rows t2 = peer_rows s1\<close> by simp
  qed
  with first show ?thesis by simp
qed

lemma lost_registration_witness:
  "fst (run_state (register_pk_result (sample_hub_env\<lparr>sql_ok := (\<lambda>_. False)\<rparr>)
     \<lparr>rk_id = ''fresh1'', rk_uuid = [3], rk_pk = [4]\<rparr> (SockV4 1 4000)) sample_hub) = OK"
proof -
  let ?rk = "\<lparr>rk_id = ''fresh1'', rk_uuid = [3], rk_pk = [4]\<rparr> :: register_pk"
  let ?e = "sample_hub_env\<lparr>sql_ok := (\<lambda>_. False)\<rparr>"
  obtain res s1 where r1: "run_state (register_pk_result ?e ?rk (SockV4 1 4000)) sample_hub = (res, s1)"
    by (metis prod.collapse)
  obtain res' s2 where r2: "run_state (register_pk_result sample_hub_env ?rk (SockV4 1 5000)) s1 = (res', s2)"
    by (metis prod.collapse)
  show ?thesis
    using lost_registration [OF _ _ _ _ _ r1 r2] r1 by (simp add: sample_hub_def)
qed

end
