(* ===== verification/Sinks.thy ===== *)
theory Sinks
  imports Registration
begin

text \<open>
  Connections: src/rendezvous_server/tcp_register.rs and the sending functions of tcp.rs. Handing a
  message to a sink appends it to \<open>sent\<close>; whether the socket then accepts it changes no state.
  \<open>send_to_tcp_peer\<close> takes the stored sink out, sends without holding the lock, and puts it back:
  \<open>take_sink\<close> and \<open>give_back\<close> are its two critical sections, composed here and interleaved with those
  of other tasks in \<open>sink_step\<close>.
\<close>

definition send_to_sink ::
  "'e hub_env_scheme \<Rightarrow> sink option \<Rightarrow> message \<Rightarrow> ('w hub_scheme, unit) state" where
  "send_to_sink e slot msg =
     (case slot of
        None \<Rightarrow> State_Monad.return ()
      | Some sk' \<Rightarrow>
          if encodable e msg then
            (case sk' of
               TcpStream c key \<Rightarrow> emit (OnSink sk') msg
             | Ws c \<Rightarrow> emit (OnSink sk') msg
             | SinkClosed \<Rightarrow> State_Monad.return ())
          else State_Monad.return ())"

definition put_tcp_peer :: "socket_addr \<Rightarrow> sink \<Rightarrow> ('w hub_scheme, unit) state" where
  "put_tcp_peer key sk' = modify (\<lambda>s. s\<lparr>tcp_peers := AList.update key sk' (tcp_peers s)\<rparr>)"

definition take_sink :: "'e hub_env_scheme \<Rightarrow> socket_addr \<Rightarrow> ('w hub_scheme, sink option) state" where
  "take_sink e addr = do {
     let key = try_into_v4 e addr;
     m \<leftarrow> gets tcp_peers;
     case map_of m key of
       None \<Rightarrow> State_Monad.return None
     | Some sk' \<Rightarrow> do { put_tcp_peer key SinkClosed; State_Monad.return (Some sk') }
   }"

definition give_back :: "'e hub_env_scheme \<Rightarrow> socket_addr \<Rightarrow> sink \<Rightarrow> ('w hub_scheme, unit) state" where
  "give_back e addr sk' = do {
     let key = try_into_v4 e addr;
     m \<leftarrow> gets tcp_peers;
     if map_of m key = Some SinkClosed then put_tcp_peer key sk' else State_Monad.return ()
   }"

definition send_to_tcp_peer ::
  "'e hub_env_scheme \<Rightarrow> socket_addr \<Rightarrow> message \<Rightarrow> ('w hub_scheme, bool) state" where
  "send_to_tcp_peer e addr msg = do {
     taken \<leftarrow> take_sink e addr;
     case taken of
       None \<Rightarrow> State_Monad.return False
     | Some sk' \<Rightarrow>
         if sk' = SinkClosed then State_Monad.return True
         else do {
           send_to_sink e (Some sk') msg;
           give_back e addr sk';
           State_Monad.return True
         }
   }"

text \<open>The connection's own slot is passed in and returned: \<open>sink.take()\<close> empties it.\<close>

definition adopt_sink ::
  "'e hub_env_scheme \<Rightarrow> socket_addr \<Rightarrow> sink option \<Rightarrow> ('w hub_scheme, unit) state" where
  "adopt_sink e addr slot =
     (case slot of
        None \<Rightarrow> State_Monad.return ()
      | Some sk' \<Rightarrow> put_tcp_peer (try_into_v4 e addr) sk')"

definition config_update :: "server \<Rightarrow> message" where
  "config_update sv = ConfigureUpdate (serial sv) (rendezvous_servers sv)"

definition handle_tcp_register_peer ::
  "'e hub_env_scheme \<Rightarrow> server \<Rightarrow> string \<Rightarrow> int \<Rightarrow> sink option \<Rightarrow> socket_addr
     \<Rightarrow> ('w hub_scheme, sink option) state" where
  "handle_tcp_register_peer e sv dev rp_serial slot addr =
     (if dev = [] then State_Monad.return slot
      else do {
        adopt_sink e addr slot;
        msg \<leftarrow> register_peer_response e dev addr;
        _ \<leftarrow> send_to_tcp_peer e addr msg;
        if serial sv > rp_serial then do {
          _ \<leftarrow> send_to_tcp_peer e addr (config_update sv);
          State_Monad.return None
        } else State_Monad.return None
      })"

definition handle_tcp_register_pk ::
  "'e hub_env_scheme \<Rightarrow> register_pk \<Rightarrow> sink option \<Rightarrow> socket_addr
     \<Rightarrow> ('w hub_scheme, sink option) state" where
  "handle_tcp_register_pk e rk slot addr =
     (if rk_uuid rk = [] \<or> rk_pk rk = [] then State_Monad.return slot
      else do {
        adopt_sink e addr slot;
        res \<leftarrow> register_pk_result e rk addr;
        _ \<leftarrow> send_to_tcp_peer e addr (RegisterPkResponse res);
        State_Monad.return None
      })"

definition reply_on_connection ::
  "'e hub_env_scheme \<Rightarrow> sink option \<Rightarrow> socket_addr \<Rightarrow> message \<Rightarrow> ('w hub_scheme, unit) state" where
  "reply_on_connection e slot addr msg =
     (if slot \<noteq> None then send_to_sink e slot msg
      else do { _ \<leftarrow> send_to_tcp_peer e addr msg; State_Monad.return () })"

definition deliver :: "'e hub_env_scheme \<Rightarrow> message \<Rightarrow> socket_addr \<Rightarrow> ('w hub_scheme, unit) state" where
  "deliver e msg addr = do {
     done \<leftarrow> send_to_tcp_peer e addr msg;
     if done then State_Monad.return ()
     else do { _ \<leftarrow> udp_send e addr msg; State_Monad.return () }
   }"

text \<open>\<open>log_peer_transport\<close>: the three numbers it logs.\<close>

definition peer_transport :: "'e hub_env_scheme \<Rightarrow> ('w hub_scheme, nat \<times> nat \<times> nat) state" where
  "peer_transport e = do {
     online \<leftarrow> online_count e 30000;
     tcp \<leftarrow> gets (\<lambda>s. length (tcp_peers s));
     State_Monad.return (online, tcp, online - tcp)
   }"

definition is_tcp_peer :: "'e hub_env_scheme \<Rightarrow> socket_addr \<Rightarrow> ('w hub_scheme, bool) state" where
  "is_tcp_peer e addr = gets (\<lambda>s. map_of (tcp_peers s) (try_into_v4 e addr) \<noteq> None)"

definition forget_tcp_peer :: "'e hub_env_scheme \<Rightarrow> socket_addr \<Rightarrow> ('w hub_scheme, unit) state" where
  "forget_tcp_peer e addr =
     modify (\<lambda>s. s\<lparr>tcp_peers := remove_key (try_into_v4 e addr) (tcp_peers s)\<rparr>)"

text \<open>
  Answers to controllers: the sink of a punch or relay request waits in \<open>tcp_punch\<close> and is used
  once. \<open>send_to_tcp\<close> sends from a new task, \<open>send_to_tcp_sync\<close> in place.
\<close>

definition take_punch :: "'e hub_env_scheme \<Rightarrow> socket_addr \<Rightarrow> ('w hub_scheme, sink option) state" where
  "take_punch e addr = do {
     m \<leftarrow> gets tcp_punch;
     modify (\<lambda>s. s\<lparr>tcp_punch := remove_key (try_into_v4 e addr) (tcp_punch s)\<rparr>);
     State_Monad.return (map_of m (try_into_v4 e addr))
   }"

definition send_to_tcp :: "'e hub_env_scheme \<Rightarrow> message \<Rightarrow> socket_addr \<Rightarrow> ('w hub_scheme, unit) state" where
  "send_to_tcp e msg addr = do {
     tcp \<leftarrow> take_punch e addr;
     if tcp = None then do { _ \<leftarrow> send_to_tcp_peer e addr msg; State_Monad.return () }
     else send_to_sink e tcp msg
   }"

definition send_to_tcp_sync :: "'e hub_env_scheme \<Rightarrow> message \<Rightarrow> socket_addr \<Rightarrow> ('w hub_scheme, unit) state" where
  "send_to_tcp_sync e msg addr = do {
     slot \<leftarrow> take_punch e addr;
     if slot = None then do { _ \<leftarrow> send_to_tcp_peer e addr msg; State_Monad.return () }
     else send_to_sink e slot msg
   }"

section \<open>Lemmas\<close>

definition sendable :: "'e hub_env_scheme \<Rightarrow> sink \<Rightarrow> message \<Rightarrow> bool" where
  "sendable e sk' msg \<longleftrightarrow> sk' \<noteq> SinkClosed \<and> encodable e msg"

lemma run_send_to_sink [exec_simps]:
  "run_state (send_to_sink e slot msg) s =
     ((), case slot of None \<Rightarrow> s
          | Some sk' \<Rightarrow> if sendable e sk' msg then s\<lparr>sent := sent s @ [(OnSink sk', msg)]\<rparr> else s)"
  by (auto simp: send_to_sink_def sendable_def exec_simps split: option.splits sink.splits)

lemma run_put_tcp_peer [exec_simps]:
  "run_state (put_tcp_peer key sk') s = ((), s\<lparr>tcp_peers := AList.update key sk' (tcp_peers s)\<rparr>)"
  by (simp add: put_tcp_peer_def exec_simps)

lemma run_take_sink [exec_simps]:
  "run_state (take_sink e addr) s =
     (case map_of (tcp_peers s) (try_into_v4 e addr) of
        None \<Rightarrow> (None, s)
      | Some sk' \<Rightarrow> (Some sk', s\<lparr>tcp_peers := AList.update (try_into_v4 e addr) SinkClosed (tcp_peers s)\<rparr>))"
  by (simp add: take_sink_def exec_simps split: option.splits)

lemma run_give_back [exec_simps]:
  "run_state (give_back e addr sk') s =
     ((), if map_of (tcp_peers s) (try_into_v4 e addr) = Some SinkClosed
          then s\<lparr>tcp_peers := AList.update (try_into_v4 e addr) sk' (tcp_peers s)\<rparr> else s)"
  by (simp add: give_back_def exec_simps)

lemma update_present: "map_of m k = Some v \<Longrightarrow> AList.update k v m = m"
  by (induction m) auto

text \<open>Run to the end without interruption, a send leaves every stored sink where it was.\<close>

lemma run_send_to_tcp_peer [exec_simps]:
  "run_state (send_to_tcp_peer e addr msg) s =
     (case map_of (tcp_peers s) (try_into_v4 e addr) of
        None \<Rightarrow> (False, s)
      | Some sk' \<Rightarrow> (True, if sendable e sk' msg then s\<lparr>sent := sent s @ [(OnSink sk', msg)]\<rparr> else s))"
proof (cases "map_of (tcp_peers s) (try_into_v4 e addr)")
  case (Some sk')
  then show ?thesis
    by (cases "sk' = SinkClosed")
      (auto simp: send_to_tcp_peer_def exec_simps update_conv' update_present sendable_def)
qed (simp add: send_to_tcp_peer_def exec_simps)

section \<open>What registration leaves alone\<close>

text \<open>The connections, the channel and what was sent, as an invariant with given values.\<close>

definition net_is ::
  "(socket_addr \<times> sink) list \<Rightarrow> (socket_addr \<times> sink) list \<Rightarrow> data list \<Rightarrow> (destination \<times> message) list
     \<Rightarrow> 'w hub_scheme \<Rightarrow> bool" where
  "net_is peers punch q out s \<longleftrightarrow>
     tcp_peers s = peers \<and> tcp_punch s = punch \<and> queue s = q \<and> sent s = out"

lemma net_is_tick_free: "tick_free (net_is peers punch q out)"
  by (simp add: tick_free_def net_is_def)

interpretation net_frame: registration_frame e "net_is peers punch q out" "\<lambda>_. True"
  for e :: "'e hub_env_scheme" and peers punch q out
  by unfold_locales
    (auto simp: net_is_tick_free net_is_def put_peer_def intro!: preserves_modify limit_keeps change_keeps)

lemmas net_is_pm_get = net_frame.frame_pm_get
lemmas net_is_register_pk_result = net_frame.frame_register_pk
lemmas net_is_register_peer_response = net_frame.frame_heartbeat

lemma net_same:
  assumes "\<And>peers punch q out. preserves (net_is peers punch q out) m" and "run_state m s = (a, s')"
  shows "tcp_peers s' = tcp_peers s \<and> tcp_punch s' = tcp_punch s \<and> queue s' = queue s \<and> sent s' = sent s"
  using preservesD_run [OF assms, of "tcp_peers s" "tcp_punch s" "queue s" "sent s"]
  by (simp add: net_is_def)

section \<open>Interleaved sends\<close>

text \<open>
  The tasks that share \<open>tcp_peers\<close>, one critical section at a time. The second component holds the
  sinks that are out, each with the address it was asked for. \<open>home\<close> is the address of the connection
  that a sink writes to.
\<close>

inductive sink_step ::
  "'e hub_env_scheme \<Rightarrow> (sink \<Rightarrow> socket_addr) \<Rightarrow> 'w hub_scheme \<times> (socket_addr \<times> sink) list
     \<Rightarrow> 'w hub_scheme \<times> (socket_addr \<times> sink) list \<Rightarrow> bool"
  for e :: "'e hub_env_scheme" and home :: "sink \<Rightarrow> socket_addr" where
  step_adopt: "run_state (adopt_sink e addr (Some sk')) h = ((), h') \<Longrightarrow> sk' \<noteq> SinkClosed \<Longrightarrow>
    home sk' = try_into_v4 e addr \<Longrightarrow> sk' \<notin> snd ` set (tcp_peers h) \<union> snd ` set f \<Longrightarrow>
    sink_step e home (h, f) (h', f)"
| step_take: "run_state (take_sink e addr) h = (Some sk', h') \<Longrightarrow> sk' \<noteq> SinkClosed \<Longrightarrow>
    sink_step e home (h, f) (h', (addr, sk') # f)"
| step_give: "(addr, sk') \<in> set f \<Longrightarrow> run_state (give_back e addr sk') h = ((), h') \<Longrightarrow>
    sink_step e home (h, f) (h', remove1 (addr, sk') f)"
| step_forget: "run_state (forget_tcp_peer e addr) h = ((), h') \<Longrightarrow> sink_step e home (h, f) (h', f)"

definition no_sinks :: "'w hub_scheme \<times> (socket_addr \<times> sink) list \<Rightarrow> bool" where
  "no_sinks = (\<lambda>(h, f). tcp_peers h = [] \<and> f = [])"

definition sinks_ok ::
  "'e hub_env_scheme \<Rightarrow> (sink \<Rightarrow> socket_addr) \<Rightarrow> 'w hub_scheme \<times> (socket_addr \<times> sink) list \<Rightarrow> bool" where
  "sinks_ok e home = (\<lambda>(h, f).
     (\<forall>k sk'. map_of (tcp_peers h) k = Some sk' \<longrightarrow> sk' \<noteq> SinkClosed \<longrightarrow>
        home sk' = k \<and> sk' \<notin> snd ` set f) \<and>
     (\<forall>(a, sk') \<in> set f. sk' \<noteq> SinkClosed \<and> home sk' = try_into_v4 e a) \<and> distinct (map snd f))"

lemma sinks_ok_step:
  assumes "sink_step e home s t" and ok: "sinks_ok e home s"
  shows "sinks_ok e home t"
  using assms(1)
proof cases
  case (step_adopt addr sk' h h' f)
  have "tcp_peers h' = AList.update (try_into_v4 e addr) sk' (tcp_peers h)"
    using step_adopt(3) by (auto simp: adopt_sink_def exec_simps)
  with ok step_adopt(4-6) show ?thesis
    by (auto simp: step_adopt(1,2) sinks_ok_def update_conv')
next
  case (step_take addr h sk' h' f)
  have m: "tcp_peers h' = AList.update (try_into_v4 e addr) SinkClosed (tcp_peers h)"
    and at: "map_of (tcp_peers h) (try_into_v4 e addr) = Some sk'"
    using step_take(3) by (auto simp: exec_simps split: option.splits)
  have home: "home x = k \<and> x \<notin> snd ` set f"
    if "map_of (tcp_peers h) k = Some x" "x \<noteq> SinkClosed" for k x
    using ok that by (simp add: step_take(1) sinks_ok_def)
  have "home x = k \<and> x \<notin> snd ` set ((addr, sk') # f)"
    if "map_of (tcp_peers h') k = Some x" "x \<noteq> SinkClosed" for k x
  proof -
    have "map_of (tcp_peers h) k = Some x" "k \<noteq> try_into_v4 e addr"
      using that by (auto simp: m update_conv' split: if_splits)
    with home [OF this(1) that(2)] home [OF at step_take(4)] show ?thesis by auto
  qed
  moreover have "distinct (map snd ((addr, sk') # f))"
    using ok home [OF at step_take(4)] by (simp add: step_take(1) sinks_ok_def)
  moreover have "\<forall>(a, x) \<in> set ((addr, sk') # f). x \<noteq> SinkClosed \<and> home x = try_into_v4 e a"
    using ok home [OF at step_take(4)] step_take(4) by (simp add: step_take(1) sinks_ok_def)
  ultimately show ?thesis by (simp add: step_take(2) sinks_ok_def)
next
  case (step_give addr sk' f h h')
  have d: "distinct (map snd f)" using ok by (simp add: step_give(1) sinks_ok_def)
  then have out: "sk' \<notin> snd ` set (remove1 (addr, sk') f)"
    using step_give(3) by (auto simp: distinct_map set_remove1_eq) (metis inj_onD prod.inject snd_conv)
  have sub: "set (remove1 (addr, sk') f) \<subseteq> set f" by (rule set_remove1_subset)
  have d': "distinct (map snd (remove1 (addr, sk') f))"
    using d sub by (metis distinct_map distinct_remove1 inj_on_subset)
  have flight: "x \<noteq> SinkClosed \<and> home x = try_into_v4 e a" if "(a, x) \<in> set f" for a x
    using ok that by (auto simp: step_give(1) sinks_ok_def)
  have home: "home x = k \<and> x \<notin> snd ` set f"
    if "map_of (tcp_peers h) k = Some x" "x \<noteq> SinkClosed" for k x
    using ok that by (simp add: step_give(1) sinks_ok_def)
  have "home x = k \<and> x \<notin> snd ` set (remove1 (addr, sk') f)"
    if "map_of (tcp_peers h') k = Some x" "x \<noteq> SinkClosed" for k x
  proof -
    have "map_of (tcp_peers h) k = Some x \<or> k = try_into_v4 e addr \<and> x = sk'"
      using step_give(4) that by (auto simp: exec_simps update_conv' split: if_splits)
    with home [of k x] flight [OF step_give(3)] out sub that(2) show ?thesis by blast
  qed
  moreover have "\<forall>(a, x) \<in> set (remove1 (addr, sk') f). x \<noteq> SinkClosed \<and> home x = try_into_v4 e a"
    using flight sub by blast
  ultimately show ?thesis using d' by (simp add: step_give(2) sinks_ok_def)
next
  case (step_forget addr h h' f)
  have "tcp_peers h' = remove_key (try_into_v4 e addr) (tcp_peers h)"
    using step_forget(3) by (auto simp: forget_tcp_peer_def exec_simps)
  with ok show ?thesis
    by (auto simp: step_forget(1,2) sinks_ok_def split: if_splits)
qed

interpretation sink_machine: machine no_sinks "sink_step e home" "sinks_ok e home"
  for e :: "'e hub_env_scheme" and home
proof unfold_locales
  show "sinks_ok e home s" if "no_sinks s" for s :: "'w hub_scheme \<times> (socket_addr \<times> sink) list"
    using that by (auto simp: no_sinks_def sinks_ok_def)
  show "sinks_ok e home t" if "sinks_ok e home s" and "sink_step e home s t"
    for s t :: "'w hub_scheme \<times> (socket_addr \<times> sink) list"
    using that(2,1) by (rule sinks_ok_step)
qed

section \<open>Properties\<close>

text \<open>
  C24: However the sends, registrations and disconnections of all tasks interleave, the sink of a
  connection is in one place only: no two tasks write to it at once, one that is out is not in the
  map, and it is stored and used only for the address of its own connection.
\<close>

theorem sinks_never_shared:
  assumes "reach no_sinks (sink_step e home) (h, f)"
  shows "distinct (map snd f) \<and> (\<forall>(addr, s) \<in> set f. home s = try_into_v4 e addr) \<and>
    (\<forall>k s. map_of (tcp_peers h) k = Some s \<and> s \<noteq> SinkClosed \<longrightarrow> home s = k \<and> s \<notin> snd ` set f)"
  using sink_machine.reach_inv [OF assms] by (auto simp: sinks_ok_def)

lemma sinks_never_shared_witness:
  "distinct (map snd [(SockV4 1 2, TcpStream 1 None)]) \<and>
   reach no_sinks (sink_step sample_hub_env (\<lambda>_. SockV4 1 2))
     (sample_hub\<lparr>tcp_peers := [(SockV4 1 2, SinkClosed)]\<rparr>, [(SockV4 1 2, TcpStream 1 None)])"
proof -
  let ?s = "TcpStream 1 None" and ?a = "SockV4 1 2"
  have "reach no_sinks (sink_step sample_hub_env (\<lambda>_. ?a)) (sample_hub, [])"
    by (rule reach_start) (simp add: no_sinks_def sample_hub_def)
  then have "reach no_sinks (sink_step sample_hub_env (\<lambda>_. ?a)) (sample_hub\<lparr>tcp_peers := [(?a, ?s)]\<rparr>, [])"
    by (rule reach_step)
      (rule step_adopt [where addr = ?a and sk' = ?s],
        simp_all add: adopt_sink_def exec_simps sample_hub_def)
  then have r: "reach no_sinks (sink_step sample_hub_env (\<lambda>_. ?a))
      (sample_hub\<lparr>tcp_peers := [(?a, SinkClosed)]\<rparr>, [(?a, ?s)])"
    by (rule reach_step) (rule step_take, simp_all add: exec_simps)
  from sinks_never_shared [OF r] r show ?thesis by blast
qed

text \<open>
  The put-back does not check that the connection is still the one the sink was taken from. If a
  connection closes while a send to it is under way, a new connection from the same address
  registers, and a second send takes the new sink before the first send ends, then the first sink,
  of the closed connection, is stored and the new one is dropped: the new connection, still open
  and registered, never receives a message again.
\<close>

theorem stale_sink_put_back:
  "\<exists>h1 h2. reach no_sinks (sink_step e (\<lambda>_. try_into_v4 e addr)) (h1 :: hub, [(addr, TcpStream 1 None)]) \<and>
     map_of (tcp_peers h1) (try_into_v4 e addr) = Some (TcpStream 2 None) \<and>
     run_state (do {
       taken \<leftarrow> take_sink e addr;
       give_back e addr (TcpStream 1 None);
       give_back e addr (TcpStream 2 None);
       State_Monad.return taken
     }) h1 = (Some (TcpStream 2 None), h2) \<and>
     map_of (tcp_peers h2) (try_into_v4 e addr) = Some (TcpStream 1 None)"
proof -
  let ?k = "try_into_v4 e addr" and ?c1 = "TcpStream 1 None" and ?c2 = "TcpStream 2 None"
  let ?step = "sink_step e (\<lambda>_. ?k)"
  let ?h = "\<lambda>m. sample_hub\<lparr>tcp_peers := m\<rparr>"
  have "reach no_sinks ?step (?h [], [])"
    by (rule reach_start) (simp add: no_sinks_def)
  then have "reach no_sinks ?step (?h [(?k, ?c1)], [])"
    by (rule reach_step) (rule step_adopt [where addr = addr and sk' = ?c1], simp_all add: adopt_sink_def exec_simps)
  then have "reach no_sinks ?step (?h [(?k, SinkClosed)], [(addr, ?c1)])"
    by (rule reach_step) (rule step_take, simp_all add: exec_simps)
  then have "reach no_sinks ?step (?h [], [(addr, ?c1)])"
    by (rule reach_step) (rule step_forget [where addr = addr],
        simp add: forget_tcp_peer_def remove_key_def exec_simps)
  then have r: "reach no_sinks ?step (?h [(?k, ?c2)], [(addr, ?c1)])"
    by (rule reach_step) (rule step_adopt [where addr = addr and sk' = ?c2], simp_all add: adopt_sink_def exec_simps)
  moreover have "map_of (tcp_peers (?h [(?k, ?c2)])) ?k = Some ?c2" by simp
  moreover have "run_state (do {
       taken \<leftarrow> take_sink e addr; give_back e addr ?c1; give_back e addr ?c2; State_Monad.return taken
     }) (?h [(?k, ?c2)]) = (Some ?c2, ?h [(?k, ?c1)])"
    by (simp add: exec_simps)
  moreover have "map_of (tcp_peers (?h [(?k, ?c1)])) ?k = Some ?c1" by simp
  ultimately show ?thesis by (intro exI conjI)
qed

text \<open>
  A peer that registers over TCP is reached through that connection: after \<open>handle_tcp_register_pk\<close>
  took the connection's sink, whatever the main loop delivers to the address goes to that sink,
  and not to UDP.
\<close>

theorem tcp_registration_routes:
  assumes "run_state (handle_tcp_register_pk e rk (Some sk') addr) s = (slot, s1)"
    and "rk_uuid rk \<noteq> []" and "rk_pk rk \<noteq> []" and "sk' \<noteq> SinkClosed"
    and "\<And>m. encodable e m"
  shows "slot = None \<and> sent (snd (run_state (deliver e msg addr) s1)) = sent s1 @ [(OnSink sk', msg)] \<and>
    (\<exists>res. sent s1 = sent s @ [(OnSink sk', RegisterPkResponse res)])"
proof -
  let ?k = "try_into_v4 e addr"
  let ?s0 = "s\<lparr>tcp_peers := AList.update ?k sk' (tcp_peers s)\<rparr>"
  obtain res s2 where reg: "run_state (register_pk_result e rk addr) ?s0 = (res, s2)"
    by (metis prod.collapse)
  have same: "tcp_peers s2 = tcp_peers ?s0" "sent s2 = sent s"
    using net_same [OF net_is_register_pk_result reg] by simp_all
  have m: "map_of (tcp_peers s2) ?k = Some sk'" by (simp add: same(1) update_conv')
  have s1: "slot = None" "s1 = s2\<lparr>sent := sent s2 @ [(OnSink sk', RegisterPkResponse res)]\<rparr>"
    using assms reg m by (auto simp: handle_tcp_register_pk_def adopt_sink_def exec_simps sendable_def)
  with m assms(4,5) same(2) show ?thesis
    by (auto simp: deliver_def exec_simps sendable_def)
qed

lemma tcp_registration_routes_witness:
  "\<exists>slot s1. run_state (handle_tcp_register_pk sample_hub_env \<lparr>rk_id = ''desk01'', rk_uuid = [7], rk_pk = [8]\<rparr>
      (Some (TcpStream 3 None)) (SockV4 1 4000)) sample_hub = (slot, s1) \<and>
     sent (snd (run_state (deliver sample_hub_env OtherMessage (SockV4 1 4000)) s1)) =
       sent s1 @ [(OnSink (TcpStream 3 None), OtherMessage)]"
proof -
  obtain slot s1 where r: "run_state (handle_tcp_register_pk sample_hub_env
      \<lparr>rk_id = ''desk01'', rk_uuid = [7], rk_pk = [8]\<rparr> (Some (TcpStream 3 None)) (SockV4 1 4000)) sample_hub = (slot, s1)"
    by (metis prod.collapse)
  from tcp_registration_routes [OF r] r show ?thesis by auto
qed

end
