(* ===== verification/Punch.thy ===== *)
theory Punch
  imports Sinks
begin

unbundle bit_operations_syntax

text \<open>
  Connecting a controller to a peer: src/rendezvous_server/sessions.rs, punch.rs, the relay list of
  relay.rs, and \<open>get_pk\<close> and \<open>is_lan\<close> of tcp.rs.
\<close>

section \<open>Controller sessions\<close>

definition punch_ttl :: nat where
  "punch_ttl = 60 * 1000000000"

text \<open>\<open>retain(|_, (_, at)| at.elapsed() < TTL)\<close>, with a reading of the clock per entry.\<close>

fun retain_sessions ::
  "'e env_scheme \<Rightarrow> ((socket_addr \<times> string) \<times> (string \<times> int)) list
     \<Rightarrow> ('w world_scheme, ((socket_addr \<times> string) \<times> (string \<times> int)) list) state" where
  "retain_sessions e [] = State_Monad.return []"
| "retain_sessions e ((k, token, at) # m) = do {
     el \<leftarrow> elapsed e at;
     m' \<leftarrow> retain_sessions e m;
     State_Monad.return (if el < punch_ttl then (k, token, at) # m' else m')
   }"

definition remember ::
  "'e hub_env_scheme \<Rightarrow> socket_addr \<Rightarrow> string \<Rightarrow> string \<Rightarrow> ('w hub_scheme, unit) state" where
  "remember e controller target token = do {
     m \<leftarrow> gets punch_sessions;
     m' \<leftarrow> retain_sessions e m;
     t \<leftarrow> instant_now e;
     modify (\<lambda>s. s\<lparr>punch_sessions :=
       AList.update (try_into_v4 e controller, target) (token, t) m'\<rparr>)
   }"

definition token_for ::
  "'e hub_env_scheme \<Rightarrow> socket_addr \<Rightarrow> string \<Rightarrow> ('w hub_scheme, string option) state" where
  "token_for e controller target = do {
     m \<leftarrow> gets punch_sessions;
     case map_of m (try_into_v4 e controller, target) of
       None \<Rightarrow> State_Monad.return None
     | Some (token, at) \<Rightarrow> do {
         el \<leftarrow> elapsed e at;
         State_Monad.return (if el < punch_ttl then Some token else None)
       }
   }"

section \<open>Relay servers\<close>

definition get_servers :: "'e hub_env_scheme \<Rightarrow> string \<Rightarrow> string list" where
  "get_servers e list = filter (\<lambda>x. x \<noteq> [] \<and> valid_server e x) (split_on (CHR '','') list)"

definition parse_relay_servers :: "'e hub_env_scheme \<Rightarrow> string \<Rightarrow> server \<Rightarrow> server" where
  "parse_relay_servers e list sv =
     (let rs = get_servers e list in sv\<lparr>relay_servers0 := rs, relay_servers := rs\<rparr>)"

definition get_relay_server :: "server \<Rightarrow> ('w hub_scheme, string) state" where
  "get_relay_server sv =
     (if relay_servers sv = [] then State_Monad.return ''''
      else if length (relay_servers sv) = 1 then State_Monad.return (relay_servers sv ! 0)
      else do {
        r \<leftarrow> gets rotation;
        modify (\<lambda>s. s\<lparr>rotation := rotation s + 1\<rparr>);
        State_Monad.return (relay_servers sv ! (unat r mod length (relay_servers sv)))
      })"

text \<open>
  \<open>check_relay_servers\<close>: \<open>answered\<close> are the servers that accepted a connection, in the order the
  probes ended; the list is replaced only when there is one.
\<close>

definition check_relay_servers :: "string list \<Rightarrow> ('w hub_scheme, unit) state" where
  "check_relay_servers answered =
     (if answered \<noteq> [] then enqueue (RelayServers answered) else State_Monad.return ())"

text \<open>\<open>Ipv4Network::contains\<close> compares the network bits.\<close>

definition network_contains :: "32 word \<times> nat \<Rightarrow> 32 word \<Rightarrow> bool" where
  "network_contains net a \<longleftrightarrow> drop_bit (32 - snd net) a = drop_bit (32 - snd net) (fst net)"

definition is_lan :: "server \<Rightarrow> socket_addr \<Rightarrow> bool" where
  "is_lan sv addr =
     (case mask sv of
        None \<Rightarrow> False
      | Some net \<Rightarrow>
          (case addr of
             SockV4 a p \<Rightarrow> network_contains net a
           | SockV6 a p f sc \<Rightarrow> (case to_ipv4 a of None \<Rightarrow> False | Some v \<Rightarrow> network_contains net v)))"

definition get_pk ::
  "'e hub_env_scheme \<Rightarrow> server \<Rightarrow> string \<Rightarrow> string \<Rightarrow> ('w hub_scheme, bytes) state" where
  "get_pk e sv ver dev =
     (if ver = [] \<or> sk sv = None then State_Monad.return []
      else do {
        p \<leftarrow> pm_get e dev;
        State_Monad.return
          (case p of Some q \<Rightarrow> sign_id_pk e (the (sk sv)) dev (pk q) | None \<Rightarrow> [])
      })"

section \<open>Punch holes\<close>

definition failure :: "punch_failure \<Rightarrow> message" where
  "failure f = PunchHoleResponse (punch_hole_response0\<lparr>pr_failure := f\<rparr>)"

text \<open>
  The request log: no second entry for the same source and target within a minute, looking at the
  last 30 entries, the most recent first, and stopping at the first match.
\<close>

definition record_punch ::
  "'e hub_env_scheme \<Rightarrow> string \<Rightarrow> string \<Rightarrow> string \<Rightarrow> ('w hub_scheme, unit) state" where
  "record_punch e from_ip to_ip dev = do {
     reqs \<leftarrow> gets punch_reqs;
     dup \<leftarrow> (case List.find (\<lambda>r. req_from_ip r = from_ip \<and> req_to_id r = dev) (take 30 (rev reqs)) of
         None \<Rightarrow> State_Monad.return False
       | Some r \<Rightarrow> do { el \<leftarrow> elapsed e (req_tm r); State_Monad.return (as_secs el < 60) });
     if dup then State_Monad.return ()
     else do {
       t \<leftarrow> instant_now e;
       modify (\<lambda>s. s\<lparr>punch_reqs := punch_reqs s @
         [\<lparr>req_tm = t, req_from_ip = from_ip, req_to_ip = to_ip, req_to_id = dev\<rparr>]\<rparr>)
     }
   }"

definition same_ip :: "socket_addr \<Rightarrow> socket_addr \<Rightarrow> bool" where
  "same_ip a b \<longleftrightarrow> sock_ip a = sock_ip b"

definition handle_punch_hole_request ::
  "'e hub_env_scheme \<Rightarrow> server \<Rightarrow> socket_addr \<Rightarrow> punch_hole_request \<Rightarrow> string \<Rightarrow> bool
     \<Rightarrow> ('w hub_scheme, message \<times> socket_addr option) state" where
  "handle_punch_hole_request e sv addr ph key ws =
     (if key \<noteq> [] \<and> ph_licence_key ph \<noteq> key
      then State_Monad.return (failure LICENSE_MISMATCH, None)
      else do {
        found \<leftarrow> pm_get e (ph_id ph);
        case found of
          None \<Rightarrow> State_Monad.return (failure ID_NOT_EXIST, None)
        | Some p \<Rightarrow> do {
            ms \<leftarrow> elapsed_ms e (last_reg_time p);
            if ms \<ge> 30000 then State_Monad.return (failure OFFLINE, None)
            else do {
              record_punch e (show_ip (sock_ip (try_into_v4 e addr)))
                (show_ip (sock_ip (try_into_v4 e (socket_addr p)))) (ph_id ph);
              let peer_is_lan = is_lan sv (socket_addr p);
              let lan = is_lan sv addr;
              rs \<leftarrow> get_relay_server sv;
              relay_always \<leftarrow> gets always_use_relay;
              let forced = relay_always \<or> peer_is_lan \<noteq> lan;
              let relay = (if forced \<and> peer_is_lan then local_ip sv else rs);
              let nat = (if forced then SYMMETRIC else ph_nat_type ph);
              let same_intranet = (\<not> ws \<and> (peer_is_lan \<and> lan \<or> same_ip (socket_addr p) addr));
              State_Monad.return
                (if same_intranet then FetchLocalAddr (mangle_encode e addr) relay
                 else PunchHole (mangle_encode e addr) nat relay,
                 Some (socket_addr p))
            }
          }
      })"

definition handle_tcp_punch_hole_request ::
  "'e hub_env_scheme \<Rightarrow> server \<Rightarrow> socket_addr \<Rightarrow> punch_hole_request \<Rightarrow> string \<Rightarrow> bool
     \<Rightarrow> ('w hub_scheme, unit) state" where
  "handle_tcp_punch_hole_request e sv addr ph key ws = do {
     r \<leftarrow> handle_punch_hole_request e sv addr ph key ws;
     case r of
       (msg, Some to) \<Rightarrow> enqueue (Msg msg to)
     | (msg, None) \<Rightarrow> send_to_tcp_sync e msg addr
   }"

definition handle_udp_punch_hole_request ::
  "'e hub_env_scheme \<Rightarrow> server \<Rightarrow> socket_addr \<Rightarrow> punch_hole_request \<Rightarrow> string
     \<Rightarrow> ('w hub_scheme, unit) state" where
  "handle_udp_punch_hole_request e sv addr ph key = do {
     r \<leftarrow> handle_punch_hole_request e sv addr ph key False;
     enqueue (Msg (fst r) (case snd r of Some to \<Rightarrow> to | None \<Rightarrow> addr))
   }"

text \<open>
  Answers of the peer to the controller; \<open>over_udp\<close> says whether the caller passed its socket.
\<close>

definition handle_hole_sent ::
  "'e hub_env_scheme \<Rightarrow> server \<Rightarrow> punch_hole_sent \<Rightarrow> socket_addr \<Rightarrow> bool
     \<Rightarrow> ('w hub_scheme, string + unit) state" where
  "handle_hole_sent e sv phs addr over_udp = do {
     let addr_a = mangle_decode e (phs_socket_addr phs);
     key \<leftarrow> get_pk e sv (phs_version phs) (phs_id phs);
     let msg = PunchHoleResponse (punch_hole_response0\<lparr>pr_socket_addr := mangle_encode e addr,
       pr_pk := key, pr_relay_server := phs_relay_server phs, pr_nat_type := phs_nat_type phs\<rparr>);
     if over_udp then udp_send e addr_a msg
     else do { send_to_tcp e msg addr_a; State_Monad.return (Inr ()) }
   }"

definition handle_local_addr ::
  "'e hub_env_scheme \<Rightarrow> server \<Rightarrow> local_addr \<Rightarrow> socket_addr \<Rightarrow> bool
     \<Rightarrow> ('w hub_scheme, string + unit) state" where
  "handle_local_addr e sv la addr over_udp = do {
     let addr_a = mangle_decode e (la_socket_addr la);
     key \<leftarrow> get_pk e sv (la_version la) (la_id la);
     let msg = PunchHoleResponse (punch_hole_response0\<lparr>pr_socket_addr := la_local_addr la,
       pr_pk := key, pr_relay_server := la_relay_server la, pr_is_local := Some True\<rparr>);
     if over_udp then udp_send e addr_a msg
     else do { send_to_tcp e msg addr_a; State_Monad.return (Inr ()) }
   }"

section \<open>Online queries\<close>

text \<open>The bit of peer \<open>i\<close> is bit \<open>7 - i mod 8\<close> of byte \<open>i div 8\<close>.\<close>

definition set_state_bit :: "nat \<Rightarrow> bytes \<Rightarrow> bytes" where
  "set_state_bit i states =
     states[i div 8 := (states ! (i div 8)) OR push_bit (7 - i mod 8) 1]"

fun online_states ::
  "'e env_scheme \<Rightarrow> nat \<Rightarrow> string list \<Rightarrow> bytes \<Rightarrow> ('w hub_scheme, bytes) state" where
  "online_states e i [] states = State_Monad.return states"
| "online_states e i (dev # devs) states = do {
     m \<leftarrow> get_in_memory dev;
     case m of
       None \<Rightarrow> online_states e (Suc i) devs states
     | Some p \<Rightarrow> do {
         ms \<leftarrow> elapsed_ms e (last_reg_time p);
         online_states e (Suc i) devs (if ms < 30000 then set_state_bit i states else states)
       }
   }"

definition handle_online_request ::
  "'e env_scheme \<Rightarrow> socket_addr \<Rightarrow> string list \<Rightarrow> ('w hub_scheme, unit) state" where
  "handle_online_request e addr devs = do {
     states \<leftarrow> online_states e 0 devs (replicate ((length devs + 7) div 8) 0);
     emit (OnStream addr) (OnlineResponse states)
   }"

section \<open>Lemmas\<close>

definition state_bit :: "bytes \<Rightarrow> nat \<Rightarrow> bool" where
  "state_bit states i \<longleftrightarrow> i div 8 < length states \<and> bit (states ! (i div 8)) (7 - i mod 8)"

lemma length_set_state_bit [simp]: "length (set_state_bit i states) = length states"
  by (simp add: set_state_bit_def)

lemma state_bit_set:
  assumes "i div 8 < length states"
  shows "state_bit (set_state_bit i states) j \<longleftrightarrow> j = i \<or> state_bit states j"
proof (cases "j div 8 = i div 8")
  case True
  have "(7 - j mod 8 = 7 - i mod 8) = (j mod 8 = i mod 8)"
    using pos_mod_bound [of 8 "int i"] by (auto simp: diff_eq_diff_eq)
  moreover have "(j mod 8 = i mod 8) = (j = i)"
    using True by (metis div_mult_mod_eq)
  ultimately show ?thesis using assms True
    by (auto simp: state_bit_def set_state_bit_def bit_or_iff bit_exp_iff)
next
  case False
  then show ?thesis by (auto simp: state_bit_def set_state_bit_def)
qed

definition age_ms :: "'e env_scheme \<Rightarrow> nat \<Rightarrow> peer \<Rightarrow> int" where
  "age_ms e n p = as_i64 (as_millis (nat (instant e n - last_reg_time p)))"

lemma run_online_states:
  assumes "run_state (online_states e i devs st) s = (st', s')" and "i + length devs \<le> 8 * length st"
  shows "length st' = length st \<and> s' = s\<lparr>ticks := ticks s'\<rparr> \<and> ticks s \<le> ticks s' \<and>
    (\<forall>j. j < i \<or> i + length devs \<le> j \<longrightarrow> state_bit st' j = state_bit st j) \<and>
    (\<forall>j < length devs. case map_of (pm_map s) (devs ! j) of
        None \<Rightarrow> state_bit st' (i + j) = state_bit st (i + j)
      | Some p \<Rightarrow> \<exists>n \<ge> ticks s. n < ticks s' \<and>
          state_bit st' (i + j) = (state_bit st (i + j) \<or> age_ms e n p < 30000))"
  using assms
proof (induction devs arbitrary: i st s)
  case Nil
  then show ?case by simp
next
  case (Cons dev devs)
  let ?ms = "as_i64 (as_millis (nat (instant e (ticks s) - last_reg_time (the (map_of (pm_map s) dev)))))"
  obtain st1 s1 where r: "run_state (online_states e (Suc i) devs st1) s1 = (st', s')"
    and s1: "map_of (pm_map s) dev = None \<and> s1 = s \<and> st1 = st \<or>
      map_of (pm_map s) dev \<noteq> None \<and> s1 = s\<lparr>ticks := Suc (ticks s)\<rparr> \<and>
        st1 = (if ?ms < 30000 then set_state_bit i st else st)"
    using Cons.prems(1) by (auto simp: exec_simps split: option.splits if_splits)
  have len: "length st1 = length st" using s1 by auto
  have bit1: "state_bit st1 j = (state_bit st j \<or> j = i \<and> map_of (pm_map s) dev \<noteq> None \<and> ?ms < 30000)" for j
    using s1 Cons.prems(2) by (auto simp: state_bit_set split: if_splits)
  have pm: "pm_map s1 = pm_map s" "ticks s \<le> ticks s1" "s\<lparr>ticks := k\<rparr> = s1\<lparr>ticks := k\<rparr>" for k
    using s1 by auto
  note IH = Cons.IH [OF r]
  have IH': "length st' = length st1" "s' = s1\<lparr>ticks := ticks s'\<rparr>" "ticks s1 \<le> ticks s'"
    "\<And>j. j < Suc i \<or> Suc i + length devs \<le> j \<Longrightarrow> state_bit st' j = state_bit st1 j"
    "\<And>j. j < length devs \<Longrightarrow> case map_of (pm_map s1) (devs ! j) of
        None \<Rightarrow> state_bit st' (Suc i + j) = state_bit st1 (Suc i + j)
      | Some p \<Rightarrow> \<exists>n \<ge> ticks s1. n < ticks s' \<and>
          state_bit st' (Suc i + j) = (state_bit st1 (Suc i + j) \<or> age_ms e n p < 30000)"
    using IH Cons.prems(2) len by auto
  have "case map_of (pm_map s) ((dev # devs) ! j) of
        None \<Rightarrow> state_bit st' (i + j) = state_bit st (i + j)
      | Some p \<Rightarrow> \<exists>n \<ge> ticks s. n < ticks s' \<and>
          state_bit st' (i + j) = (state_bit st (i + j) \<or> age_ms e n p < 30000)"
    if "j < length (dev # devs)" for j
  proof (cases j)
    case 0
    have "state_bit st' i = state_bit st1 i" using IH'(4) by simp
    then show ?thesis using 0 bit1 [of i] s1 IH'(3)
      by (auto simp: age_ms_def split: option.splits intro!: exI [of _ "ticks s"])
  next
    case (Suc k)
    have "state_bit st1 (Suc (i + k)) = state_bit st (Suc (i + k))" by (simp add: bit1)
    then show ?thesis using IH'(5) [of k] Suc that pm(1,2)
      by (cases "map_of (pm_map s) (devs ! k)") (auto intro: order.trans)
  qed
  moreover have "s' = s\<lparr>ticks := ticks s'\<rparr>" using IH'(2) pm(3) by metis
  moreover have "state_bit st' j = state_bit st j" if "j < i \<or> i + length (dev # devs) \<le> j" for j
    using IH'(4) [of j] bit1 [of j] that by auto
  ultimately show ?case using IH'(1,3) len pm(2) by auto
qed

section \<open>Properties\<close>

text \<open>
  The answer to an online query has one bit per queried id, padded with zeros to whole bytes:
  the bit of an id that is not in memory is 0, and that of a peer in memory tells whether it had
  registered less than 30 seconds before the moment it was looked at. The query changes no peer.
\<close>

theorem online_bitmap:
  assumes "run_state (handle_online_request e addr devs) s = ((), s')"
  shows "\<exists>states. sent s' = sent s @ [(OnStream addr, OnlineResponse states)] \<and> pm_map s' = pm_map s \<and>
    length states = (length devs + 7) div 8 \<and>
    (\<forall>i. length devs \<le> i \<longrightarrow> \<not> state_bit states i) \<and>
    (\<forall>i < length devs. case map_of (pm_map s) (devs ! i) of
       None \<Rightarrow> \<not> state_bit states i
     | Some p \<Rightarrow> \<exists>n. ticks s \<le> n \<and> n < ticks s' \<and>
         (state_bit states i \<longleftrightarrow> age_ms e n p < 30000))"
proof -
  let ?z = "replicate ((length devs + 7) div 8) 0 :: bytes"
  obtain st s1 where r: "run_state (online_states e 0 devs ?z) s = (st, s1)" by (metis prod.collapse)
  have s': "s' = s1\<lparr>sent := sent s1 @ [(OnStream addr, OnlineResponse st)]\<rparr>"
    using assms r by (auto simp: handle_online_request_def exec_simps)
  have zero: "\<not> state_bit ?z i" for i by (simp add: state_bit_def)
  have len: "0 + length devs \<le> 8 * length ?z" by simp
  note on = run_online_states [OF r len]
  then obtain k where "s1 = s\<lparr>ticks := k\<rparr>" by blast
  then have same: "sent s1 = sent s" "pm_map s1 = pm_map s" by simp_all
  show ?thesis
  proof (intro exI [of _ st] conjI allI impI)
    show "\<not> state_bit st i" if "length devs \<le> i" for i
      using on zero that by simp
    show "case map_of (pm_map s) (devs ! i) of None \<Rightarrow> \<not> state_bit st i
        | Some p \<Rightarrow> \<exists>n. ticks s \<le> n \<and> n < ticks s' \<and> (state_bit st i \<longleftrightarrow> age_ms e n p < 30000)"
      if "i < length devs" for i
    proof -
      have "case map_of (pm_map s) (devs ! i) of None \<Rightarrow> state_bit st (0 + i) = state_bit ?z (0 + i)
        | Some p \<Rightarrow> \<exists>n \<ge> ticks s. n < ticks s1 \<and> state_bit st (0 + i) = (state_bit ?z (0 + i) \<or> age_ms e n p < 30000)"
        using on that by blast
      then show ?thesis using zero [of i] by (auto simp: s' split: option.splits)
    qed
  qed (use on same s' in auto)
qed

lemma online_bitmap_witness:
  "\<exists>s' states. run_state (handle_online_request sample_hub_env (SockV4 1 2) [''desk01'', ''gone00'']) sample_hub =
       ((), s') \<and> sent s' = [(OnStream (SockV4 1 2), OnlineResponse states)] \<and>
     state_bit states 0 \<and> \<not> state_bit states 1"
proof -
  obtain s' where r: "run_state (handle_online_request sample_hub_env (SockV4 1 2) [''desk01'', ''gone00'']) sample_hub =
      ((), s')"
    by (cases "run_state (handle_online_request sample_hub_env (SockV4 1 2) [''desk01'', ''gone00'']) sample_hub")
      simp
  have "age_ms sample_hub_env n sample_peer < 30000" for n
    by (simp add: age_ms_def sample_peer_def as_millis_def as_i64_id)
  with online_bitmap [OF r] r show ?thesis
    by (auto simp: sample_hub_def less_Suc_eq)
qed

text \<open>
  A punch request is forwarded only with the right key and only to a peer that is known and had
  registered less than 30 seconds before; it then goes to that peer's address and carries the
  controller's. In every other case the controller gets the reason, and no request is forwarded.
\<close>

theorem punch_forwarded:
  assumes "run_state (handle_punch_hole_request e sv addr ph key ws) s = ((msg, to), s')"
  shows "case to of
      Some dest \<Rightarrow> (key = [] \<or> ph_licence_key ph = key) \<and>
        (\<exists>p n. map_of (pm_map s') (ph_id ph) = Some p \<and> dest = socket_addr p \<and> ticks s \<le> n \<and>
           age_ms e n p < 30000) \<and>
        (\<exists>relay nat. msg = FetchLocalAddr (mangle_encode e addr) relay \<or>
           msg = PunchHole (mangle_encode e addr) nat relay)
    | None \<Rightarrow>
        (msg = failure LICENSE_MISMATCH \<and> key \<noteq> [] \<and> ph_licence_key ph \<noteq> key \<and> s' = s) \<or>
        (msg = failure ID_NOT_EXIST \<and> map_of (pm_map s') (ph_id ph) = None) \<or>
        (msg = failure OFFLINE \<and> (\<exists>p n. map_of (pm_map s') (ph_id ph) = Some p \<and> ticks s \<le> n \<and>
           age_ms e n p \<ge> 30000))"
proof (cases "key \<noteq> [] \<and> ph_licence_key ph \<noteq> key")
  case True
  then show ?thesis using assms by (auto simp: handle_punch_hole_request_def)
next
  case False
  obtain q s1 where get: "run_state (pm_get e (ph_id ph)) s = (q, s1)" by (metis prod.collapse)
  have mem: "map_of (pm_map s1) (ph_id ph) = q" "ticks s \<le> ticks s1"
    using get by (auto simp: exec_simps update_conv' split: option.splits if_splits)
  show ?thesis
  proof (cases q)
    case None
    then show ?thesis using assms False get mem by (auto simp: handle_punch_hole_request_def exec_simps)
  next
    case (Some p)
    let ?f = "show_ip (sock_ip (try_into_v4 e addr))"
      and ?t = "show_ip (sock_ip (try_into_v4 e (socket_addr p)))"
    obtain x s2 where rec: "run_state (record_punch e ?f ?t (ph_id ph)) (s1\<lparr>ticks := Suc (ticks s1)\<rparr>) = (x, s2)"
      by (metis prod.collapse)
    have "pm_map s2 = pm_map s1"
      using rec by (auto simp: record_punch_def exec_simps split: option.splits if_splits)
    moreover obtain rs s3 where rot: "run_state (get_relay_server sv) s2 = (rs, s3)" by (metis prod.collapse)
    moreover have "pm_map s3 = pm_map s2"
      using rot by (auto simp: get_relay_server_def exec_simps split: if_splits)
    ultimately have pm: "pm_map s3 = pm_map s1" by simp
    have age: "as_i64 (as_millis (nat (instant e (ticks s1) - last_reg_time p))) = age_ms e (ticks s1) p"
      by (simp add: age_ms_def)
    show ?thesis
    proof (cases "age_ms e (ticks s1) p < 30000")
      case True
      then have "to = Some (socket_addr p) \<and> s' = s3 \<and> (\<exists>relay nat. msg = FetchLocalAddr (mangle_encode e addr) relay \<or>
           msg = PunchHole (mangle_encode e addr) nat relay)"
        using assms False get Some rec rot
        by (auto simp: handle_punch_hole_request_def exec_simps age Let_def split: if_splits)
      with True False mem Some pm show ?thesis by auto
    next
      case off: False
      then have "to = None \<and> msg = failure OFFLINE \<and> pm_map s' = pm_map s1"
        using assms False get Some by (auto simp: handle_punch_hole_request_def exec_simps age)
      with off mem Some show ?thesis by auto
    qed
  qed
qed

definition sample_server :: server where
  "sample_server = \<lparr>relay_servers = [''r1'', ''r2''], relay_servers0 = [''r1'', ''r2''],
     rendezvous_servers = [''hub''], serial = 3, version = '''', software_url = '''', mask = None,
     local_ip = '''', sk = Some [42]\<rparr>"

definition sample_punch :: punch_hole_request where
  "sample_punch = \<lparr>ph_id = ''desk01'', ph_nat_type = ASYMMETRIC, ph_licence_key = ''k'', ph_token = sample_token\<rparr>"

lemma punch_forwarded_witness:
  "\<exists>msg s'. run_state (handle_punch_hole_request sample_hub_env sample_server (SockV4 1 2) sample_punch ''other'' False)
      sample_hub = ((msg, None), s') \<and> msg = failure LICENSE_MISMATCH"
proof -
  obtain msg to s' where r: "run_state (handle_punch_hole_request sample_hub_env sample_server (SockV4 1 2)
      sample_punch ''other'' False) sample_hub = ((msg, to), s')"
    by (metis prod.collapse)
  with punch_forwarded [OF r] show ?thesis
    by (auto simp: sample_punch_def sample_hub_def handle_punch_hole_request_def split: option.splits)
qed

text \<open>
  Where the clock cannot represent the moment one hour ago (\<open>checked_sub\<close> fails),
  \<open>get_expired_time\<close> answers the present. A peer just read from the database, which has not been
  heard of since the server started, then counts as online, and a punch request for it is sent to
  the unspecified address 0.0.0.0:0 instead of being answered OFFLINE.
\<close>

theorem unheard_peer_online:
  assumes "map_of (pm_map s) (ph_id ph) = None" and "v \<in> set (peer_rows s)" and "row_id v = ph_id ph"
    and "peer_rows_ok (peer_rows s)" and "sql_ok e (ticks s)" and "key = [] \<or> ph_licence_key ph = key"
    and "\<And>n. instant e n = now" and "now - 3600 * 1000000000 < instant_min e"
    and "run_state (handle_punch_hole_request e sv addr ph key ws) s = ((msg, to), s')"
  shows "to = Some unspecified_addr"
proof -
  have sel: "select_first (filter (\<lambda>r. row_id r = ph_id ph) (peer_rows s)) = Some v"
    using assms(2-4) by (intro select_by_key) (simp_all add: peer_rows_ok_def)
  have "as_millis (nat (instant e n - last_reg_time (row_peer e m v))) = 0" for n m
    using assms(7,8) by (simp add: row_peer_def expired_at_def as_millis_def)
  then show ?thesis using assms(1,5,6,9) sel
    by (auto simp: handle_punch_hole_request_def exec_simps as_i64_def row_peer_def Let_def
        split: if_splits prod.splits)
qed

lemma unheard_peer_online_witness:
  "\<exists>msg s'. run_state (handle_punch_hole_request (sample_hub_env\<lparr>instant := (\<lambda>_. 5), instant_min := 0\<rparr>)
      sample_server (SockV4 1 2) sample_punch '''' False) (sample_hub\<lparr>pm_map := []\<rparr>) =
        ((msg, Some unspecified_addr), s')"
proof -
  let ?e = "sample_hub_env\<lparr>instant := (\<lambda>_. 5), instant_min := 0\<rparr>"
  obtain msg to s' where r: "run_state (handle_punch_hole_request ?e sample_server (SockV4 1 2)
      sample_punch '''' False) (sample_hub\<lparr>pm_map := []\<rparr>) = ((msg, to), s')"
    by (metis prod.collapse)
  have "to = Some unspecified_addr"
    by (rule unheard_peer_online [OF _ _ _ _ _ _ _ _ r, where now = 5 and v = "hd (peer_rows sample_hub)"])
      (simp_all add: sample_hub_def sample_punch_def peer_rows_ok_def unique_on_def)
  with r show ?thesis by blast
qed

text \<open>A number of draws from the relay list, one after the other.\<close>

fun draws :: "nat \<Rightarrow> server \<Rightarrow> ('w hub_scheme, string list) state" where
  "draws 0 sv = State_Monad.return []"
| "draws (Suc n) sv = do { x \<leftarrow> get_relay_server sv; xs \<leftarrow> draws n sv; State_Monad.return (x # xs) }"

lemma run_draws:
  assumes "length (relay_servers sv) > 1" and "unat (rotation s) + n < 2 ^ 64"
  shows "fst (run_state (draws n sv) s) =
    map (\<lambda>i. relay_servers sv ! ((unat (rotation s) + i) mod length (relay_servers sv))) [0..<n]"
  using assms(2)
proof (induction n arbitrary: s)
  case (Suc n)
  let ?s1 = "s\<lparr>rotation := rotation s + 1\<rparr>"
  have "unat (rotation s + 1) = Suc (unat (rotation s))"
    using Suc.prems by (simp add: unat_word_ariths)
  then have "fst (run_state (draws n sv) ?s1) =
      map (\<lambda>i. relay_servers sv ! ((Suc (unat (rotation s)) + i) mod length (relay_servers sv))) [0..<n]"
    using Suc.IH [of ?s1] Suc.prems by simp
  moreover have "[0..<Suc n] = 0 # map Suc [0..<n]" by (simp add: upt_conv_Cons map_Suc_upt)
  ultimately show ?case using assms(1)
    by (auto simp: get_relay_server_def exec_simps split: prod.splits)
qed simp

lemma mod_shift_image:
  fixes n :: nat
  assumes "0 < n"
  shows "(\<lambda>i. (r + i) mod n) ` {0..<n} = {0..<n}"
proof
  show "{0..<n} \<subseteq> (\<lambda>i. (r + i) mod n) ` {0..<n}"
  proof
    fix j
    assume j: "j \<in> {0..<n}"
    let ?x = "j + (n - r mod n)"
    have sum: "r mod n + ?x = j + n" using mod_less_divisor [OF assms, of r] by linarith
    have "(r + ?x mod n) mod n = (r + ?x) mod n" by (rule mod_add_right_eq)
    also have "\<dots> = (r mod n + ?x) mod n" by (rule mod_add_left_eq [symmetric])
    also have "\<dots> = j" unfolding sum using j by simp
    finally have "j = (r + ?x mod n) mod n" by simp
    moreover have "?x mod n \<in> {0..<n}" using assms by simp
    ultimately show "j \<in> (\<lambda>i. (r + i) mod n) ` {0..<n}" by (rule image_eqI)
  qed
qed (use assms in auto)

text \<open>
  Relay servers are handed out in turn: among as many consecutive answers as there are servers,
  every server appears (until the 64-bit counter wraps).
\<close>

theorem rotation_fair:
  assumes "length (relay_servers sv) > 1"
    and "unat (rotation s) + length (relay_servers sv) < 2 ^ 64"
  shows "set (fst (run_state (draws (length (relay_servers sv)) sv) s)) = set (relay_servers sv)"
proof -
  let ?n = "length (relay_servers sv)" and ?r = "unat (rotation s)"
  have "0 < ?n" using assms(1) by linarith
  then have "(\<lambda>i. (?r + i) mod ?n) ` {0..<?n} = {0..<?n}" by (rule mod_shift_image)
  moreover have "set (map (\<lambda>i. relay_servers sv ! ((?r + i) mod ?n)) [0..<?n]) =
      nth (relay_servers sv) ` (\<lambda>i. (?r + i) mod ?n) ` {0..<?n}"
    by (simp add: image_image)
  ultimately show ?thesis
    by (simp only: run_draws [OF assms] nth_image order.refl take_all)
qed

lemma rotation_fair_witness:
  "set (fst (run_state (draws 2 sample_server) sample_hub)) = {''r1'', ''r2''}"
proof -
  have rs: "relay_servers sample_server = [''r1'', ''r2'']" "rotation sample_hub = 0"
    by (simp_all add: sample_server_def sample_hub_def)
  have "set (fst (run_state (draws (length (relay_servers sample_server)) sample_server) sample_hub)) =
      set (relay_servers sample_server)"
    by (rule rotation_fair) (simp_all add: rs)
  then show ?thesis by (simp only: rs) (simp add: numeral_2_eq_2)
qed

text \<open>
  A controller's session is remembered under its exact address and target for a minute: right
  after \<open>remember\<close>, \<open>token_for\<close> gives that token back, and for any other address or target it gives
  nothing that was not there before; once a minute has passed it gives nothing.
\<close>

theorem punch_session_exact:
  assumes "run_state (remember e controller target token) s = ((), s')"
    and "run_state (token_for e a t) (s'\<lparr>ticks := k\<rparr>) = (answer, s'')"
  shows "((try_into_v4 e a, t) = (try_into_v4 e controller, target) \<longrightarrow>
      answer = (if nat (instant e k - instant e (ticks s' - 1)) < punch_ttl then Some token else None)) \<and>
    ((try_into_v4 e a, t) \<noteq> (try_into_v4 e controller, target) \<longrightarrow> answer \<noteq> None \<longrightarrow>
      (\<exists>at. ((try_into_v4 e a, t), the answer, at) \<in> set (punch_sessions s)))"
proof -
  have retain: "\<exists>m'. run_state (retain_sessions e m) w = (m', w\<lparr>ticks := ticks w + length m\<rparr>) \<and> set m' \<subseteq> set m"
    for m and w :: "'a hub_scheme"
  proof (induction m arbitrary: w)
    case (Cons x m)
    obtain key tok at where x: "x = (key, tok, at)" by (metis prod.collapse)
    from Cons [of "w\<lparr>ticks := Suc (ticks w)\<rparr>"] show ?case by (auto simp: x exec_simps)
  qed simp
  obtain m' where m': "run_state (retain_sessions e (punch_sessions s)) s =
      (m', s\<lparr>ticks := ticks s + length (punch_sessions s)\<rparr>)" "set m' \<subseteq> set (punch_sessions s)"
    using retain by blast
  have s': "punch_sessions s' = AList.update (try_into_v4 e controller, target)
      (token, instant e (ticks s' - 1)) m'"
    using assms(1) m'(1) by (auto simp: remember_def exec_simps)
  have old: "((try_into_v4 e a, t), v) \<in> set (punch_sessions s)"
    if "map_of m' (try_into_v4 e a, t) = Some v" for v
    using map_of_SomeD [OF that] m'(2) by blast
  show ?thesis
  proof (cases "(try_into_v4 e a, t) = (try_into_v4 e controller, target)")
    case True
    then show ?thesis using assms(2) by (auto simp: token_for_def exec_simps s' update_conv' split: if_splits)
  next
    case False
    then have m: "map_of (punch_sessions s') (try_into_v4 e a, t) = map_of m' (try_into_v4 e a, t)"
      by (simp add: s' update_conv' del: Pair_inject prod.inject)
    have "\<exists>at. map_of m' (try_into_v4 e a, t) = Some (the answer, at)" if "answer \<noteq> None"
      using assms(2) m that by (auto simp: token_for_def exec_simps split: option.splits if_splits)
    with False old show ?thesis by blast
  qed
qed

lemma punch_session_exact_witness:
  "\<exists>s' s''. run_state (remember sample_hub_env (SockV4 1 2) ''desk01'' ''tok'') sample_hub = ((), s') \<and>
     run_state (token_for sample_hub_env (SockV4 1 2) ''desk01'') (s'\<lparr>ticks := 9\<rparr>) = (Some ''tok'', s'')"
proof -
  obtain s' where r: "run_state (remember sample_hub_env (SockV4 1 2) ''desk01'' ''tok'') sample_hub = ((), s')"
    by (cases "run_state (remember sample_hub_env (SockV4 1 2) ''desk01'' ''tok'') sample_hub") simp
  obtain answer s'' where q: "run_state (token_for sample_hub_env (SockV4 1 2) ''desk01'') (s'\<lparr>ticks := 9\<rparr>) =
      (answer, s'')"
    by (metis prod.collapse)
  from punch_session_exact [OF r q] r q show ?thesis by (simp add: punch_ttl_def)
qed

end
