(* ===== verification/Dispatch.thy ===== *)
theory Dispatch
  imports Punch
begin

text \<open>
  The message handlers of hbbs: \<open>handle_tcp\<close> and \<open>answer_peer_initiated_relay\<close> of
  src/rendezvous_server/tcp.rs, \<open>handle_udp\<close> of udp.rs, and from io.rs the second listener, the
  branch of the main loop that serves the channel, and the end of a connection. A handler of a TCP
  connection takes its sink slot and returns whether the connection stays open and the new slot;
  \<open>handle_udp\<close> runs on the main loop's own \<open>server\<close> and returns it, changed or not.
\<close>

definition park_sink :: "'e hub_env_scheme \<Rightarrow> socket_addr \<Rightarrow> sink option \<Rightarrow> ('w hub_scheme, unit) state" where
  "park_sink e addr slot =
     (case slot of
        None \<Rightarrow> State_Monad.return ()
      | Some sk' \<Rightarrow> modify (\<lambda>s. s\<lparr>tcp_punch := AList.update (try_into_v4 e addr) sk' (tcp_punch s)\<rparr>))"

definition tcp_punch_request ::
  "'e hub_env_scheme \<Rightarrow> server \<Rightarrow> punch_hole_request \<Rightarrow> sink option \<Rightarrow> socket_addr \<Rightarrow> string \<Rightarrow> bool
     \<Rightarrow> ('w hub_scheme, bool \<times> sink option) state" where
  "tcp_punch_request e sv ph slot addr key ws = do {
     ok \<leftarrow> authorized e (ph_token ph);
     if \<not> ok then State_Monad.return (False, slot)
     else do {
       park_sink e addr slot;
       remember e addr (ph_id ph) (ph_token ph);
       handle_tcp_punch_hole_request e sv addr ph key ws;
       State_Monad.return (True, None)
     }
   }"

definition tcp_request_relay ::
  "'e hub_env_scheme \<Rightarrow> request_relay \<Rightarrow> sink option \<Rightarrow> socket_addr
     \<Rightarrow> ('w hub_scheme, bool \<times> sink option) state" where
  "tcp_request_relay e rf slot addr = do {
     ok \<leftarrow> authorized e (rf_token rf);
     if \<not> ok then State_Monad.return (False, slot)
     else do {
       t \<leftarrow> peer_ticket e (rf_token rf) (rf_uuid rf);
       park_sink e addr slot;
       p \<leftarrow> get_in_memory (rf_id rf);
       (case p of
          None \<Rightarrow> State_Monad.return ()
        | Some q \<Rightarrow> enqueue (Msg (RequestRelay (rf\<lparr>rf_token := (case t of Some x \<Rightarrow> x | None \<Rightarrow> ''''),
            rf_socket_addr := mangle_encode e addr\<rparr>)) (socket_addr q)));
       State_Monad.return (True, None)
     }
   }"

definition resp_id :: "relay_response \<Rightarrow> string" where
  "resp_id rr = (case rr_union rr of RespId d \<Rightarrow> d | RespPk k \<Rightarrow> '''' | RespNone \<Rightarrow> '''')"

definition answer_peer_initiated_relay ::
  "'e hub_env_scheme \<Rightarrow> relay_response \<Rightarrow> socket_addr \<Rightarrow> sink option \<Rightarrow> socket_addr
     \<Rightarrow> ('w hub_scheme, unit) state" where
  "answer_peer_initiated_relay e rr controller slot sender =
     (if rr_uuid rr = [] then State_Monad.return ()
      else do {
        found \<leftarrow> token_for e controller (resp_id rr);
        case found of
          None \<Rightarrow> State_Monad.return ()
        | Some token \<Rightarrow> do {
            t \<leftarrow> peer_ticket e token (rr_uuid rr);
            case t of
              None \<Rightarrow> State_Monad.return ()
            | Some tk \<Rightarrow> reply_on_connection e slot sender
                (RequestRelay (request_relay0\<lparr>rf_uuid := rr_uuid rr, rf_token := tk\<rparr>))
          }
      })"

definition tcp_relay_response ::
  "'e hub_env_scheme \<Rightarrow> server \<Rightarrow> relay_response \<Rightarrow> sink option \<Rightarrow> socket_addr
     \<Rightarrow> ('w hub_scheme, unit) state" where
  "tcp_relay_response e sv rr slot addr = do {
     let addr_b = mangle_decode e (rr_socket_addr rr);
     answer_peer_initiated_relay e rr addr_b slot addr;
     let rr1 = rr\<lparr>rr_socket_addr := []\<rparr>;
     rr2 \<leftarrow> (if resp_id rr1 \<noteq> [] then do {
         k \<leftarrow> get_pk e sv (rr_version rr1) (resp_id rr1);
         State_Monad.return (rr1\<lparr>rr_union := RespPk k\<rparr>)
       } else State_Monad.return rr1);
     rr3 \<leftarrow> (if rr_relay_server rr2 = [] then State_Monad.return rr2
       else if is_lan sv addr_b then State_Monad.return (rr2\<lparr>rr_relay_server := local_ip sv\<rparr>)
       else if rr_relay_server rr2 = local_ip sv then do {
         x \<leftarrow> get_relay_server sv;
         State_Monad.return (rr2\<lparr>rr_relay_server := x\<rparr>)
       } else State_Monad.return rr2);
     send_to_tcp_sync e (RelayResponse rr3) addr_b
   }"

definition test_nat_response :: "server \<Rightarrow> socket_addr \<Rightarrow> int \<Rightarrow> message" where
  "test_nat_response sv addr req_serial =
     TestNatResponse (uint (sock_port addr))
       (if serial sv > req_serial then Some (serial sv, rendezvous_servers sv) else None)"

definition handle_tcp ::
  "'e hub_env_scheme \<Rightarrow> server \<Rightarrow> message option \<Rightarrow> sink option \<Rightarrow> socket_addr \<Rightarrow> string \<Rightarrow> bool
     \<Rightarrow> ('w hub_scheme, bool \<times> sink option) state" where
  "handle_tcp e sv msg slot addr key ws =
     (let finish = do { b \<leftarrow> is_tcp_peer e addr; State_Monad.return (b, slot) } in
      case msg of
        Some (PunchHoleRequest ph) \<Rightarrow> tcp_punch_request e sv ph slot addr key ws
      | Some (RequestRelay rf) \<Rightarrow> tcp_request_relay e rf slot addr
      | Some (RelayResponse rr) \<Rightarrow> do { tcp_relay_response e sv rr slot addr; finish }
      | Some (PunchHoleSent phs) \<Rightarrow> do { _ \<leftarrow> handle_hole_sent e sv phs addr False; finish }
      | Some (LocalAddr la) \<Rightarrow> do { _ \<leftarrow> handle_local_addr e sv la addr False; finish }
      | Some (TestNatRequest n) \<Rightarrow> do {
          reply_on_connection e slot addr (test_nat_response sv addr n);
          finish
        }
      | Some (RegisterPeer dev n) \<Rightarrow> do {
          slot' \<leftarrow> handle_tcp_register_peer e sv dev n slot addr;
          State_Monad.return (True, slot')
        }
      | Some (RegisterPk rk) \<Rightarrow> do {
          slot' \<leftarrow> handle_tcp_register_pk e rk slot addr;
          State_Monad.return (True, slot')
        }
      | _ \<Rightarrow> finish)"

text \<open>The main loop's own handler: a failed \<open>send\<close> ends the UDP socket, an answer is the new server.\<close>

definition handle_udp ::
  "'e hub_env_scheme \<Rightarrow> server \<Rightarrow> message option \<Rightarrow> socket_addr
     \<Rightarrow> ('w hub_scheme, string + server) state" where
  "handle_udp e sv msg addr = (case msg of
       Some (RegisterPeer dev n) \<Rightarrow>
         if dev = [] then State_Monad.return (Inr sv)
         else do {
           out \<leftarrow> register_peer_response e dev addr;
           try_bind (udp_send e addr out) (\<lambda>_.
             if serial sv > n then try_bind (udp_send e addr (config_update sv)) (\<lambda>_.
               State_Monad.return (Inr sv))
             else State_Monad.return (Inr sv))
         }
     | Some (RegisterPk rk) \<Rightarrow>
         if rk_uuid rk = [] \<or> rk_pk rk = [] then State_Monad.return (Inr sv)
         else do {
           res \<leftarrow> register_pk_result e rk addr;
           try_bind (udp_send e addr (RegisterPkResponse res)) (\<lambda>_. State_Monad.return (Inr sv))
         }
     | Some (TestNatRequest n) \<Rightarrow>
         try_bind (udp_send e addr (test_nat_response sv addr n)) (\<lambda>_. State_Monad.return (Inr sv))
     | Some (ConfigureUpdate n servers) \<Rightarrow> State_Monad.return (Inr
         (if is_loopback (sock_ip (try_into_v4 e addr)) \<and> n > serial sv
          then sv\<lparr>serial := n,
                  rendezvous_servers := filter (\<lambda>x. x \<noteq> [] \<and> valid_server e x) servers\<rparr>
          else sv))
     | Some (SoftwareUpdate url) \<Rightarrow>
         if version sv \<noteq> [] \<and> url \<noteq> version sv then
           try_bind (udp_send e addr (SoftwareUpdate (software_url sv))) (\<lambda>_. State_Monad.return (Inr sv))
         else State_Monad.return (Inr sv)
     | _ \<Rightarrow> State_Monad.return (Inr sv))"

text \<open>The extra port: NAT test and online queries.\<close>

definition handle_listener2 ::
  "'e hub_env_scheme \<Rightarrow> message option \<Rightarrow> socket_addr \<Rightarrow> ('w hub_scheme, unit) state" where
  "handle_listener2 e msg addr = (case msg of
       Some (TestNatRequest n) \<Rightarrow> emit (OnStream addr) (TestNatResponse (uint (sock_port addr)) None)
     | Some (OnlineRequest devs) \<Rightarrow> handle_online_request e addr devs
     | _ \<Rightarrow> State_Monad.return ())"

text \<open>\<open>rx.recv()\<close> in the main loop.\<close>

definition main_recv :: "'e hub_env_scheme \<Rightarrow> server \<Rightarrow> ('w hub_scheme, server) state" where
  "main_recv e sv = do {
     q \<leftarrow> gets queue;
     case q of
       [] \<Rightarrow> State_Monad.return sv
     | d # rest \<Rightarrow> do {
         modify (\<lambda>s. s\<lparr>queue := rest\<rparr>);
         case d of
           Msg msg addr \<Rightarrow> do { deliver e msg addr; State_Monad.return sv }
         | RelayServers0 rs \<Rightarrow> State_Monad.return (parse_relay_servers e rs sv)
         | RelayServers rs \<Rightarrow> State_Monad.return (sv\<lparr>relay_servers := rs\<rparr>)
       }
   }"

text \<open>The end of \<open>handle_listener_inner\<close>.\<close>

definition close_connection ::
  "'e hub_env_scheme \<Rightarrow> sink option \<Rightarrow> socket_addr \<Rightarrow> ('w hub_scheme, unit) state" where
  "close_connection e slot addr = do {
     (if slot = None then modify (\<lambda>s. s\<lparr>tcp_punch := remove_key (try_into_v4 e addr) (tcp_punch s)\<rparr>)
      else State_Monad.return ());
     forget_tcp_peer e addr
   }"

section \<open>Lemmas\<close>

lemma run_park_sink [exec_simps]:
  "run_state (park_sink e addr slot) s =
     ((), case slot of None \<Rightarrow> s
          | Some sk' \<Rightarrow> s\<lparr>tcp_punch := AList.update (try_into_v4 e addr) sk' (tcp_punch s)\<rparr>)"
  by (simp add: park_sink_def exec_simps split: option.splits)

lemma unauthorized_run:
  assumes "shared_open s" and "length token \<noteq> 64 \<or> \<not> session_live (clock_at e (ticks s)) s (sha256 e token)"
  shows "\<exists>k. run_state (authorized e token) s = (False, s\<lparr>ticks := k\<rparr>)"
proof (cases "length token = 64")
  case True
  then show ?thesis using assms by (auto simp: run_authorized)
next
  case False
  then have "run_state (authorized e token) s = (False, s\<lparr>ticks := ticks s\<rparr>)"
    using assms(1) by (simp add: run_authorized)
  then show ?thesis by blast
qed

section \<open>Properties\<close>

text \<open>
  C11: A \<open>PunchHoleRequest\<close> or a \<open>RequestRelay\<close> that comes over TCP or WebSocket with a token that is
  not that of a live session closes the connection and changes nothing: nothing is sent, queued or
  remembered. (The answers of a peer, \<open>PunchHoleSent\<close>, \<open>LocalAddr\<close> and \<open>RelayResponse\<close>, carry no
  token and are not checked.)
\<close>

theorem unauthorized_is_inert:
  assumes "shared_open s"
    and "msg = PunchHoleRequest ph \<and> token = ph_token ph \<or> msg = RequestRelay rf \<and> token = rf_token rf"
    and "length token \<noteq> 64 \<or> \<not> session_live (clock_at e (ticks s)) s (sha256 e token)"
    and "run_state (handle_tcp e sv (Some msg) slot addr key ws) s = ((open', slot'), s')"
  shows "\<not> open' \<and> slot' = slot \<and> (\<exists>k. s' = s\<lparr>ticks := k\<rparr>)"
proof -
  obtain k where "run_state (authorized e token) s = (False, s\<lparr>ticks := k\<rparr>)"
    using unauthorized_run [OF assms(1,3)] by blast
  then show ?thesis using assms(2,4)
    by (auto simp: handle_tcp_def tcp_punch_request_def tcp_request_relay_def exec_simps)
qed

lemma unauthorized_is_inert_witness:
  "\<exists>slot' s'. run_state (handle_tcp sample_hub_env sample_server
       (Some (PunchHoleRequest (sample_punch\<lparr>ph_token := ''guess''\<rparr>))) (Some (Ws 1)) (SockV4 1 2) '''' False)
       sample_hub = ((False, slot'), s') \<and> sent s' = []"
proof -
  let ?ph = "sample_punch\<lparr>ph_token := ''guess''\<rparr>"
  obtain b slot' s' where r: "run_state (handle_tcp sample_hub_env sample_server
       (Some (PunchHoleRequest ?ph)) (Some (Ws 1)) (SockV4 1 2) '''' False) sample_hub = ((b, slot'), s')"
    by (metis prod.collapse)
  have o: "shared_open sample_hub" by (simp add: sample_hub_def)
  have m: "PunchHoleRequest ?ph = PunchHoleRequest ?ph \<and> ''guess'' = ph_token ?ph \<or>
      PunchHoleRequest ?ph = RequestRelay request_relay0 \<and> ''guess'' = rf_token request_relay0"
    by simp
  from unauthorized_is_inert [OF o m _ r] r show ?thesis by (auto simp: sample_hub_def)
qed

text \<open>A ticket issued between two states: its row, its form and when it runs out.\<close>

definition ticket_for ::
  "'e env_scheme \<Rightarrow> nat \<Rightarrow> nat \<Rightarrow> 'w host_scheme \<Rightarrow> string \<Rightarrow> string \<Rightarrow> string \<Rightarrow> bool" where
  "ticket_for e k0 k1 s token u tk \<longleftrightarrow> u \<noteq> [] \<and> (\<exists>a b. tk = uuid_simple e a @ uuid_simple e b) \<and>
     (\<exists>row \<in> set (tickets s). tic_hash row = sha256 e tk \<and> tic_session row = sha256 e token \<and>
        tic_relay row = u \<and> (\<exists>k. k0 \<le> k \<and> k \<le> k1 \<and> tic_expires row = clock_at e k + 60))"

lemma request_relay_issues:
  assumes "shared_open s"
    and "run_state (handle_tcp e sv (Some (RequestRelay rf)) slot addr key ws) s = ((True, slot'), s')"
  obtains tk where "slot' = None"
    and "queue s' = queue s @ (case map_of (pm_map s) (rf_id rf) of None \<Rightarrow> []
      | Some p \<Rightarrow> [Msg (RequestRelay (rf\<lparr>rf_token := tk, rf_socket_addr := mangle_encode e addr\<rparr>)) (socket_addr p)])"
    and "tk = '''' \<or> ticket_for e (ticks s) (ticks s') s' (rf_token rf) (rf_uuid rf) tk"
    and "db_ok s \<Longrightarrow> db_ok s'"
proof -
  obtain ok s1 where a: "run_state (authorized e (rf_token rf)) s = (ok, s1)" by (metis prod.collapse)
  have "s1 = s\<lparr>ticks := ticks s1\<rparr> \<and> ticks s \<le> ticks s1"
    using a assms(1) by (auto simp: run_authorized split: if_splits)
  then obtain k where "k \<ge> ticks s" "s1 = s\<lparr>ticks := k\<rparr>" by blast
  then have s1: "\<exists>k \<ge> ticks s. s1 = s\<lparr>ticks := k\<rparr>" "shared_open s1" using assms(1) by auto
  have ok: "ok" using assms(2) a by (auto simp: handle_tcp_def tcp_request_relay_def exec_simps split: if_splits)
  obtain r s2 where t: "run_state (ticket e (rf_token rf) (rf_uuid rf)) s1 = (r, s2)" by (metis prod.collapse)
  let ?t = "case r of Inr t \<Rightarrow> t | Inl _ \<Rightarrow> None"
  have pt: "run_state (peer_ticket e (rf_token rf) (rf_uuid rf)) s1 = (?t, s2)"
    using t s1(2) by (simp add: run_peer_ticket)
  have frame: "pm_map s2 = pm_map s1 \<and> queue s2 = queue s1"
    using t by (auto simp: ticket_def user_def random_token_def exec_simps exec_stmt.simps
        delete_where_def split: if_splits option.splits)
  have db: "db_ok s2" if "db_ok s"
    using preservesD_run [OF ticket_db_ok t] s1(1) that by (auto simp: db_ok_def)
  have issued: "ticket_for e (ticks s) (ticks s2) s2 (rf_token rf) (rf_uuid rf) tk" if "?t = Some tk" for tk
  proof -
    have "run_state (ticket e (rf_token rf) (rf_uuid rf)) s1 = (Inr (Some tk), s2)"
      using t that by (auto split: sum.splits)
    note i = ticket_issued [OF this]
    have "ticks s \<le> ticks s1 + 6" "ticks s1 + 6 \<le> ticks s2" using s1(1) i by auto
    with i show ?thesis unfolding ticket_for_def by fastforce
  qed
  define tk where "tk = (case ?t of Some x \<Rightarrow> x | None \<Rightarrow> '''')"
  have tk: "tk = '''' \<or> ticket_for e (ticks s) (ticks s2) s2 (rf_token rf) (rf_uuid rf) tk"
    using issued by (cases ?t) (simp_all add: tk_def)
  obtain s3 where park: "run_state (park_sink e addr slot) s2 = ((), s3)"
    and s3: "pm_map s3 = pm_map s" "queue s3 = queue s" "ticks s3 = ticks s2" "tickets s3 = tickets s2"
      "db_ok s2 \<Longrightarrow> db_ok s3"
    using frame s1(1) by (cases slot) (auto simp: exec_simps db_ok_def)
  have s': "slot' = None \<and> s' = (case map_of (pm_map s) (rf_id rf) of
      None \<Rightarrow> s3
    | Some p \<Rightarrow> s3\<lparr>queue := queue s3 @ [Msg (RequestRelay (rf\<lparr>rf_token := tk,
        rf_socket_addr := mangle_encode e addr\<rparr>)) (socket_addr p)]\<rparr>)"
    using assms(2) a ok pt park s3(1)
    by (auto simp: handle_tcp_def tcp_request_relay_def run_get_in_memory run_enqueue
        tk_def [symmetric] split: option.splits)
  show thesis
  proof (rule that [of tk])
    show "slot' = None" using s' by simp
    show "queue s' = queue s @ (case map_of (pm_map s) (rf_id rf) of None \<Rightarrow> []
      | Some p \<Rightarrow> [Msg (RequestRelay (rf\<lparr>rf_token := tk, rf_socket_addr := mangle_encode e addr\<rparr>)) (socket_addr p)])"
      using s' s3 by (auto split: option.splits)
    show "tk = '''' \<or> ticket_for e (ticks s) (ticks s') s' (rf_token rf) (rf_uuid rf) tk"
      using tk s' s3(3,4) by (auto simp: ticket_for_def split: option.splits)
    show "db_ok s'" if "db_ok s" using s3(5) [OF db [OF that]] s' by (auto simp: db_ok_def split: option.splits)
  qed
qed

text \<open>
  A ticket that was made between two readings of the clock: two random uuids, whose hash is in the
  one row added to what was left of the old rows, for this session and this relay uuid, for 60 seconds.
\<close>

definition just_issued ::
  "'e env_scheme \<Rightarrow> nat \<Rightarrow> nat \<Rightarrow> ticket_row list \<Rightarrow> ticket_row list \<Rightarrow> string \<Rightarrow> string \<Rightarrow> string \<Rightarrow> bool" where
  "just_issued e k0 k1 old new token u tk \<longleftrightarrow> u \<noteq> [] \<and>
     (\<exists>a. k0 \<le> a \<and> Suc a < k1 \<and> tk = uuid_simple e (uuid_v4 e a) @ uuid_simple e (uuid_v4 e (Suc a))) \<and>
     (\<exists>i j. k0 \<le> i \<and> i \<le> j \<and> j < k1 \<and>
        new = filter (\<lambda>r. tic_expires r > clock_at e i) old @
          [\<lparr>tic_hash = sha256 e tk, tic_session = sha256 e token, tic_relay = u, tic_expires = clock_at e j + 60\<rparr>])"

lemma just_issued_widen:
  assumes "just_issued e k k1 old new token u tk" and "k0 \<le> k"
  shows "just_issued e k0 k1 old new token u tk"
proof -
  obtain a i j where "u \<noteq> []" "k \<le> a" "Suc a < k1" "k \<le> i" "i \<le> j" "j < k1"
    "tk = uuid_simple e (uuid_v4 e a) @ uuid_simple e (uuid_v4 e (Suc a))"
    "new = filter (\<lambda>r. tic_expires r > clock_at e i) old @
          [\<lparr>tic_hash = sha256 e tk, tic_session = sha256 e token, tic_relay = u, tic_expires = clock_at e j + 60\<rparr>]"
    using assms(1) unfolding just_issued_def by blast
  then show ?thesis unfolding just_issued_def using assms(2)
    by (intro conjI exI [of _ a] exI [of _ i] exI [of _ j]) simp_all
qed

lemma ticket_effect:
  assumes "run_state (ticket e token u) s = (r, s')"
  shows "s' = s\<lparr>ticks := ticks s', tickets := tickets s'\<rparr> \<and> ticks s \<le> ticks s' \<and>
    (case r of Inr (Some tk) \<Rightarrow> just_issued e (ticks s) (ticks s') (tickets s) (tickets s') token u tk
     | _ \<Rightarrow> set (tickets s') \<subseteq> set (tickets s))"
proof -
  have frame: "s' = s\<lparr>ticks := ticks s', tickets := tickets s'\<rparr> \<and> ticks s \<le> ticks s' \<and>
      ((\<forall>tk. r \<noteq> Inr (Some tk)) \<longrightarrow> set (tickets s') \<subseteq> set (tickets s))"
    using assms
    by (auto simp: ticket_def user_def exec_simps exec_stmt.simps delete_where_def insert_unique_def
        split: if_splits option.splits)
  show ?thesis
  proof (cases "\<exists>tk. r = Inr (Some tk)")
    case True
    then obtain tk where r: "r = Inr (Some tk)" by blast
    note i = ticket_issued [OF assms [unfolded r]]
    have "tickets s' = filter (\<lambda>r. tic_expires r > clock_at e (ticks s + 4)) (tickets s) @
        [\<lparr>tic_hash = sha256 e tk, tic_session = sha256 e token, tic_relay = u,
          tic_expires = clock_at e (ticks s + 6) + 60\<rparr>]"
      and "ticks s' = ticks s + 8"
      and "tk = uuid_simple e (uuid_v4 e (ticks s + 2)) @ uuid_simple e (uuid_v4 e (Suc (ticks s + 2)))"
      using i by (simp_all add: eval_nat_numeral)
    then have "just_issued e (ticks s) (ticks s') (tickets s) (tickets s') token u tk"
      unfolding just_issued_def using i
      by (intro conjI exI [of _ "ticks s + 2"] exI [of _ "ticks s + 4"] exI [of _ "ticks s + 6"]) simp_all
    then show ?thesis using frame r by simp
  next
    case False
    then show ?thesis using frame by (auto split: sum.splits option.splits)
  qed
qed

text \<open>
  C15: The controller's session token never reaches the peer. An authorised relay request sends
  nothing; it puts into the channel for the peer, if that is known, exactly the request with the
  controller's address and with a new token in place of the session's: nothing, or a ticket that was
  issued while this request was handled, for this session and this relay uuid. The row of that
  ticket is the only one added, and apart from the channel, the tickets and the parked connection
  nothing changes.
\<close>

theorem relay_request_carries_ticket:
  assumes "shared_open s"
    and "run_state (handle_tcp e sv (Some (RequestRelay rf)) slot addr key ws) s = ((True, slot'), s')"
  shows "slot' = None \<and> sent s' = sent s \<and>
    (\<exists>tk. queue s' = queue s @ (case map_of (pm_map s) (rf_id rf) of None \<Rightarrow> []
        | Some p \<Rightarrow> [Msg (RequestRelay (rf\<lparr>rf_token := tk, rf_socket_addr := mangle_encode e addr\<rparr>)) (socket_addr p)]) \<and>
      (tk = '''' \<and> set (tickets s') \<subseteq> set (tickets s) \<or>
       just_issued e (ticks s) (ticks s') (tickets s) (tickets s') (rf_token rf) (rf_uuid rf) tk)) \<and>
    s' = s\<lparr>ticks := ticks s', tickets := tickets s', tcp_punch := tcp_punch s', queue := queue s'\<rparr>"
proof -
  obtain ok s1 where a: "run_state (authorized e (rf_token rf)) s = (ok, s1)" by (metis prod.collapse)
  have "s1 = s\<lparr>ticks := ticks s1\<rparr> \<and> ticks s \<le> ticks s1"
    using a assms(1) by (auto simp: run_authorized split: if_splits)
  then obtain k where k: "k \<ge> ticks s" "s1 = s\<lparr>ticks := k\<rparr>" by blast
  have ok: "ok" using assms(2) a by (auto simp: handle_tcp_def tcp_request_relay_def exec_simps split: if_splits)
  obtain r s2 where t: "run_state (ticket e (rf_token rf) (rf_uuid rf)) s1 = (r, s2)" by (metis prod.collapse)
  define tk where "tk = (case r of Inr (Some x) \<Rightarrow> x | _ \<Rightarrow> '''')"
  have pt: "run_state (peer_ticket e (rf_token rf) (rf_uuid rf)) s1 = (case r of Inr x \<Rightarrow> x | Inl _ \<Rightarrow> None, s2)"
    using t assms(1) k by (simp add: run_peer_ticket)
  have or0: "(case (case r of Inr x \<Rightarrow> x | Inl _ \<Rightarrow> None) of Some x \<Rightarrow> x | None \<Rightarrow> '''') = tk"
    by (auto simp: tk_def split: sum.splits option.splits)
  obtain n ts where s2: "s2 = s\<lparr>ticks := n, tickets := ts\<rparr>" and n: "k \<le> n"
    and issued: "case r of Inr (Some tk) \<Rightarrow> just_issued e k n (tickets s) ts (rf_token rf) (rf_uuid rf) tk
      | _ \<Rightarrow> set ts \<subseteq> set (tickets s)"
    using ticket_effect [OF t] k by (auto split: sum.splits option.splits)
  note widen = just_issued_widen [OF _ k(1)]
  have tkt: "tk = '''' \<and> set ts \<subseteq> set (tickets s) \<or>
      just_issued e (ticks s) n (tickets s) ts (rf_token rf) (rf_uuid rf) tk"
    using issued by (auto simp: tk_def intro: widen split: sum.splits option.splits)
  have "\<exists>b. run_state (park_sink e addr slot) s2 = ((), s2\<lparr>tcp_punch := b\<rparr>)"
    by (cases slot) (auto simp: exec_simps intro: exI [of _ "tcp_punch s2"])
  then obtain b where park: "run_state (park_sink e addr slot) s2 = ((), s2\<lparr>tcp_punch := b\<rparr>)" by blast
  have "slot' = None \<and> s' = s2\<lparr>tcp_punch := b, queue := queue s @ (case map_of (pm_map s) (rf_id rf) of None \<Rightarrow> []
      | Some p \<Rightarrow> [Msg (RequestRelay (rf\<lparr>rf_token := tk, rf_socket_addr := mangle_encode e addr\<rparr>)) (socket_addr p)])\<rparr>"
    using assms(2) a ok pt park s2
    by (auto simp: handle_tcp_def tcp_request_relay_def run_get_in_memory run_enqueue or0 split: option.splits)
  then show ?thesis using s2 tkt by (intro conjI exI [of _ tk]) simp_all
qed

lemma relay_request_carries_ticket_witness:
  "\<exists>s' msg dest. run_state (handle_tcp sample_hub_env sample_server (Some (RequestRelay
       (request_relay0\<lparr>rf_id := ''desk01'', rf_uuid := ''u'', rf_token := sample_token\<rparr>))) (Some (Ws 1))
       (SockV4 1 2) '''' False) sample_hub = ((True, None), s') \<and> queue s' = [Msg msg dest] \<and> sent s' = []"
proof -
  let ?rf = "request_relay0\<lparr>rf_id := ''desk01'', rf_uuid := ''u'', rf_token := sample_token\<rparr>"
  have o: "shared_open sample_hub" by (simp add: sample_hub_def)
  have "fst (fst (run_state (handle_tcp sample_hub_env sample_server (Some (RequestRelay ?rf)) (Some (Ws 1))
       (SockV4 1 2) '''' False) sample_hub))"
    by (simp add: handle_tcp_def tcp_request_relay_def authorized_def peer_ticket_def exec_simps user_run
        session_user_def ticket_def exec_stmt.simps delete_where_def insert_unique_def digest_def
        sample_hub_def sample_token_def request_relay0_def)
  then obtain slot' s' where r: "run_state (handle_tcp sample_hub_env sample_server (Some (RequestRelay ?rf))
      (Some (Ws 1)) (SockV4 1 2) '''' False) sample_hub = ((True, slot'), s')"
    by (metis prod.collapse)
  from relay_request_carries_ticket [OF o r] r show ?thesis
    by (auto simp: sample_hub_def request_relay0_def)
qed

text \<open>
  C16: A peer that starts a relay on its own is given a ticket only for the controller that asked for
  it: a session must have been remembered under exactly that controller's address and the peer's
  id. What is then sent back carries the relay uuid and a ticket issued for that session and uuid,
  and nothing else is sent.
\<close>

theorem peer_relay_needs_punch:
  assumes "shared_open s"
    and "run_state (answer_peer_initiated_relay e rr controller (Some sk') sender) s = ((), s')"
  shows "sent s' = sent s \<or>
    (\<exists>token at tk. map_of (punch_sessions s) (try_into_v4 e controller, resp_id rr) = Some (token, at) \<and>
       sent s' = sent s @ [(OnSink sk', RequestRelay (request_relay0\<lparr>rf_uuid := rr_uuid rr, rf_token := tk\<rparr>))] \<and>
       (\<exists>row \<in> set (tickets s'). tic_hash row = sha256 e tk \<and> tic_session row = sha256 e token \<and>
          tic_relay row = rr_uuid rr))"
proof (cases "rr_uuid rr = []")
  case True
  then show ?thesis using assms(2) by (simp add: answer_peer_initiated_relay_def)
next
  case False
  obtain found s1 where f: "run_state (token_for e controller (resp_id rr)) s = (found, s1)"
    by (metis prod.collapse)
  have s1: "sent s1 = sent s" "shared_open s1"
    and at: "\<And>token. found = Some token \<Longrightarrow>
      \<exists>at. map_of (punch_sessions s) (try_into_v4 e controller, resp_id rr) = Some (token, at)"
    using f assms(1) by (auto simp: token_for_def exec_simps split: option.splits if_splits)
  show ?thesis
  proof (cases found)
    case None
    then show ?thesis using assms(2) f False s1 by (simp add: answer_peer_initiated_relay_def)
  next
    case (Some token)
    obtain r s2 where t: "run_state (ticket e token (rr_uuid rr)) s1 = (r, s2)" by (metis prod.collapse)
    have pt: "run_state (peer_ticket e token (rr_uuid rr)) s1 = (case r of Inr t \<Rightarrow> t | Inl _ \<Rightarrow> None, s2)"
      using t s1(2) by (simp add: run_peer_ticket)
    have s2: "sent s2 = sent s1"
      using t by (auto simp: ticket_def user_def random_token_def exec_simps exec_stmt.simps
          delete_where_def split: if_splits option.splits)
    show ?thesis
    proof (cases "case r of Inr t \<Rightarrow> t | Inl _ \<Rightarrow> None")
      case None
      then show ?thesis using assms(2) f False s1 s2 pt Some by (simp add: answer_peer_initiated_relay_def)
    next
      case (Some tk)
      then have "r = Inr (Some tk)" by (auto split: sum.splits)
      note iss = ticket_issued [OF t [unfolded this]]
      let ?msg = "RequestRelay (request_relay0\<lparr>rf_uuid := rr_uuid rr, rf_token := tk\<rparr>)"
      have "s' = (if sendable e sk' ?msg then s2\<lparr>sent := sent s2 @ [(OnSink sk', ?msg)]\<rparr> else s2)"
        using assms(2) f False pt Some \<open>found = Some token\<close>
        by (simp add: answer_peer_initiated_relay_def reply_on_connection_def run_send_to_sink)
      with iss s1 s2 at [OF \<open>found = Some token\<close>] show ?thesis by auto
    qed
  qed
qed

text \<open>In the witness the controller's punch request is remembered, so the peer gets its ticket.\<close>

lemma peer_relay_needs_punch_witness:
  "\<exists>s' tk row. run_state (answer_peer_initiated_relay sample_hub_env \<lparr>rr_socket_addr = [], rr_uuid = ''u'',
       rr_relay_server = '''', rr_union = RespId ''desk01'', rr_refuse_reason = '''', rr_version = '''',
       rr_other = []\<rparr> (SockV4 1 2) (Some (Ws 1)) (SockV4 3 4))
       (sample_hub\<lparr>punch_sessions := [((SockV4 1 2, ''desk01''), (sample_token, 10000000000000))]\<rparr>) = ((), s') \<and>
     sent s' = [(OnSink (Ws 1), RequestRelay (request_relay0\<lparr>rf_uuid := ''u'', rf_token := tk\<rparr>))] \<and>
     row \<in> set (tickets s') \<and> tic_hash row = sha256 sample_hub_env tk \<and> tic_session row = sha256 sample_hub_env sample_token"
proof -
  let ?rr = "\<lparr>rr_socket_addr = [], rr_uuid = ''u'', rr_relay_server = '''', rr_union = RespId ''desk01'',
    rr_refuse_reason = '''', rr_version = '''', rr_other = []\<rparr> :: relay_response"
  let ?s = "sample_hub\<lparr>punch_sessions := [((SockV4 1 2, ''desk01''), (sample_token, 10000000000000))]\<rparr>"
  let ?m = "answer_peer_initiated_relay sample_hub_env ?rr (SockV4 1 2) (Some (Ws 1)) (SockV4 3 4)"
  have o: "shared_open ?s" by (simp add: sample_hub_def)
  obtain s' where r: "run_state ?m ?s = ((), s')" by (cases "run_state ?m ?s") simp
  have sent0: "sent sample_hub = []" by (simp add: sample_hub_def)
  have a: "run_state (token_for sample_hub_env (SockV4 1 2) ''desk01'') ?s = (Some sample_token, ?s\<lparr>ticks := Suc (ticks ?s)\<rparr>)"
    by (simp add: token_for_def exec_simps punch_ttl_def as_secs_def)
  obtain tk s2 where b: "run_state (ticket sample_hub_env sample_token ''u'') (?s\<lparr>ticks := Suc (ticks sample_hub)\<rparr>) = (Inr (Some tk), s2)"
    "sent s2 = []"
    by (simp add: exec_simps user_run session_user_def ticket_def exec_stmt.simps delete_where_def insert_unique_def
        digest_def sample_hub_def sample_token_def)
  have "sent (snd (run_state ?m ?s)) \<noteq> sent ?s"
    using o sent0 by (simp add: answer_peer_initiated_relay_def resp_id_def exec_simps a b run_peer_ticket reply_on_connection_def sendable_def)
  then have "sent s' \<noteq> sent ?s" using r by simp
  with peer_relay_needs_punch [OF o r] obtain token at' tk' row where
    k: "map_of (punch_sessions ?s) (try_into_v4 sample_hub_env (SockV4 1 2), resp_id ?rr) = Some (token, at')" and
    w: "sent s' = sent ?s @ [(OnSink (Ws 1), RequestRelay (request_relay0\<lparr>rf_uuid := rr_uuid ?rr, rf_token := tk'\<rparr>))]"
      "row \<in> set (tickets s')" "tic_hash row = sha256 sample_hub_env tk'" "tic_session row = sha256 sample_hub_env token"
    by blast
  have "token = sample_token" using k by (simp add: resp_id_def)
  moreover have "sent ?s = []" using sent0 by simp
  ultimately show ?thesis
    using r w by (intro exI [of _ s'] exI [of _ tk'] exI [of _ row] conjI) (simp_all only: append_Nil relay_response.simps)
qed

text \<open>
  Over UDP the configuration of hbbs changes only by a \<open>ConfigureUpdate\<close> from loopback with a
  serial above the current one; then only the serial and the list of rendezvous servers change, to
  the names in the message that are not empty and resolve. No datagram of any other kind, and none
  from elsewhere, changes the server, and no datagram puts anything into the channel.
\<close>

theorem udp_configuration:
  assumes "run_state (handle_udp e sv msg addr) s = (Inr sv', s')"
  shows "queue s' = queue s \<and>
    (sv' = sv \<or> (\<exists>n servers. msg = Some (ConfigureUpdate n servers) \<and> serial sv < n \<and>
       is_loopback (sock_ip (try_into_v4 e addr)) \<and>
       sv' = sv\<lparr>serial := n, rendezvous_servers := filter (\<lambda>x. x \<noteq> [] \<and> valid_server e x) servers\<rparr>))"
proof -
  have hb: "queue s1 = queue s" if "run_state (register_peer_response e dev addr) s = (m, s1)" for dev m s1
    using net_same [OF net_is_register_peer_response that] by simp
  have pk: "queue s1 = queue s" if "run_state (register_pk_result e rk addr) s = (r, s1)" for rk r s1
    using net_same [OF net_is_register_pk_result that] by simp
  show ?thesis
  proof (cases "\<exists>dev n. msg = Some (RegisterPeer dev n)")
    case True
    then obtain dev n where m: "msg = Some (RegisterPeer dev n)" by blast
    obtain out s1 where r: "run_state (register_peer_response e dev addr) s = (out, s1)" by (metis prod.collapse)
    show ?thesis using assms m r hb [OF r]
      by (auto simp: handle_udp_def exec_simps split: if_splits)
  next
    case no_peer: False
    show ?thesis
    proof (cases "\<exists>rk. msg = Some (RegisterPk rk)")
      case True
      then obtain rk where m: "msg = Some (RegisterPk rk)" by blast
      obtain out s1 where r: "run_state (register_pk_result e rk addr) s = (out, s1)" by (metis prod.collapse)
      show ?thesis using assms m r pk [OF r]
        by (auto simp: handle_udp_def exec_simps split: if_splits)
    next
      case False
      with no_peer show ?thesis using assms
        by (auto simp: handle_udp_def exec_simps split: option.splits message.splits if_splits)
    qed
  qed
qed

lemma udp_configuration_witness:
  "\<exists>sv' s'. run_state (handle_udp sample_hub_env sample_server (Some (ConfigureUpdate 9 [''x''])) (SockV4 1 2))
      sample_hub = (Inr sv', s') \<and> sv' = sample_server"
proof -
  have "\<exists>sv' s'. run_state (handle_udp sample_hub_env sample_server (Some (ConfigureUpdate 9 [''x''])) (SockV4 1 2))
      sample_hub = (Inr sv', s')"
    by (simp add: handle_udp_def)
  then obtain sv' s' where r: "run_state (handle_udp sample_hub_env sample_server
      (Some (ConfigureUpdate 9 [''x''])) (SockV4 1 2)) sample_hub = (Inr sv', s')"
    by blast
  have "\<not> is_loopback (sock_ip (SockV4 1 2))" by simp
  with udp_configuration [OF r] r show ?thesis by auto
qed

end
