(* ===== verification/Assoc.thy ===== *)
theory Assoc
  imports Hub
begin

text \<open>Association lists with distinct keys as hash maps: what removing and updating a key leaves.\<close>

lemma set_remove_key [simp]: "set (remove_key k m) = {x \<in> set m. fst x \<noteq> k}"
  by (auto simp: remove_key_def)

lemma distinct_remove_key: "distinct (map fst m) \<Longrightarrow> distinct (map fst (remove_key k m))"
  by (simp add: remove_key_def distinct_map_filter)

lemma set_update_subset: "set (AList.update k v m) \<subseteq> insert (k, v) (set m)"
  by (induction m) auto

lemma set_update_distinct:
  "distinct (map fst m) \<Longrightarrow> (k', v') \<in> set (AList.update k v m) \<Longrightarrow>
     k' = k \<and> v' = v \<or> k' \<noteq> k \<and> (k', v') \<in> set m"
  by (induction m) (auto split: if_splits, force)

end
