(* ===== verification/HubConsole.thy ===== *)
theory HubConsole
  imports Dispatch Text Assoc "HOL-Library.Sublist"
begin

text \<open>
  The console of hbbs: \<open>check_cmd\<close> of src/rendezvous_server/console.rs and the branch of
  \<open>handle_listener2\<close> (io.rs) that serves it. An answer is the text that is written back. The release
  profile wraps the sum \<open>start + 10\<close> at 32 bits.

  \<open>console_env\<close> adds the address parser, the texts of Rust's \<open>Debug\<close> format for a string and for a
  map of counters, and the RFC 3339 text of the moment \<open>age\<close> nanoseconds before the clock reading \<open>k\<close>.
\<close>

record console_env = hub_env +
  console_ip :: "string \<Rightarrow> ip_addr option"
  debug_str :: "string \<Rightarrow> string"
  debug_counts :: "(string \<times> 32 word) list \<Rightarrow> string"
  event_time :: "nat \<Rightarrow> nat \<Rightarrow> string"

section \<open>Reading arguments\<close>

text \<open>\<open>i32::from_str\<close>: an optional sign and at least one digit, within the 32-bit range.\<close>

definition parse_signed :: "nat \<Rightarrow> string \<Rightarrow> int option" where
  "parse_signed w t =
     (let (neg, digits) = (case t of
          [] \<Rightarrow> (False, [])
        | c # cs \<Rightarrow> if c = CHR ''-'' then (True, cs) else if c = CHR ''+'' then (False, cs) else (False, t))
      in if digits = [] then None
         else case digits_value 0 digits of
             None \<Rightarrow> None
           | Some n \<Rightarrow>
               let v = (if neg then - int n else int n)
               in if - (2 ^ (w - 1)) \<le> v \<and> v < 2 ^ (w - 1) then Some v else None)"

definition start_of :: "string option \<Rightarrow> int" where
  "start_of arg = (case Option.bind arg (parse_signed 32) of Some v \<Rightarrow> v | None \<Rightarrow> - 1)"

definition wrap32 :: "int \<Rightarrow> int" where
  "wrap32 v = signed_take_bit 31 v"

fun first_arg :: "string list \<Rightarrow> string option" where
  "first_arg [] = None"
| "first_arg (x # xs) = Some x"

definition newline :: string where
  "newline = [CHR 0x0A]"

section \<open>Listings\<close>

text \<open>\<open>for i in 0..limit\<close> over the iterator: entries before \<open>start\<close> are skipped.\<close>

fun page_from ::
  "('x \<Rightarrow> ('w, string) state) \<Rightarrow> int \<Rightarrow> int \<Rightarrow> int \<Rightarrow> 'x list \<Rightarrow> ('w, string) state" where
  "page_from show i start limit [] = State_Monad.return ''''"
| "page_from show i start limit (x # xs) =
     (if i < limit then
        (if i < start then page_from show (i + 1) start limit xs
         else do {
           line \<leftarrow> show x;
           rest \<leftarrow> page_from show (i + 1) start limit xs;
           State_Monad.return (line @ rest)
         })
      else State_Monad.return '''')"

definition show_blocker ::
  "'e env_scheme \<Rightarrow> (32 word \<times> int) \<times> (string list \<times> int) \<Rightarrow> ('w world_scheme, string) state" where
  "show_blocker e = (\<lambda>((n, t), (ids, since)). do {
     a \<leftarrow> elapsed e t;
     b \<leftarrow> elapsed e since;
     State_Monad.return (show_nat (unat n) @ ''/'' @ show_nat (as_secs a) @ ''s '' @
       show_nat (length ids) @ ''/'' @ show_nat (as_secs b) @ ''s'' @ newline)
   })"

definition show_changes ::
  "'e console_env_scheme \<Rightarrow> int \<times> (string \<times> 32 word) list \<Rightarrow> ('w world_scheme, string) state" where
  "show_changes e = (\<lambda>(tm, ips). do {
     a \<leftarrow> elapsed e tm;
     State_Monad.return (show_nat (as_secs a) @ ''s '' @ debug_counts e ips @ newline)
   })"

definition keyed_line :: "('v \<Rightarrow> ('w, string) state) \<Rightarrow> string \<times> 'v \<Rightarrow> ('w, string) state" where
  "keyed_line show = (\<lambda>(k, v). do {
     line \<leftarrow> show v;
     State_Monad.return (k @ '': '' @ line)
   })"

text \<open>\<open>HashMap::retain\<close>, one entry after the other.\<close>

fun retain_blocker ::
  "'e env_scheme \<Rightarrow> (string \<times> ((32 word \<times> int) \<times> (string list \<times> int))) list
     \<Rightarrow> ('w world_scheme, (string \<times> ((32 word \<times> int) \<times> (string list \<times> int))) list) state" where
  "retain_blocker e [] = State_Monad.return []"
| "retain_blocker e ((ip, ((n, t), (ids, since))) # m) = do {
     a \<leftarrow> elapsed e t;
     keep \<leftarrow> (if as_secs a \<le> 60 then State_Monad.return True
       else do { b \<leftarrow> elapsed e since; State_Monad.return (as_secs b \<le> 86400) });
     rest \<leftarrow> retain_blocker e m;
     State_Monad.return (if keep then (ip, ((n, t), (ids, since))) # rest else rest)
   }"

fun retain_changes ::
  "'e env_scheme \<Rightarrow> (string \<times> (int \<times> (string \<times> 32 word) list)) list
     \<Rightarrow> ('w world_scheme, (string \<times> (int \<times> (string \<times> 32 word) list)) list) state" where
  "retain_changes e [] = State_Monad.return []"
| "retain_changes e ((dev, (tm, ips)) # m) = do {
     a \<leftarrow> elapsed e tm;
     rest \<leftarrow> retain_changes e m;
     State_Monad.return (if as_secs a < 360 \<and> length ips > 1 then (dev, (tm, ips)) # rest else rest)
   }"

definition purge_blocker ::
  "'e env_scheme \<Rightarrow> ('w hub_scheme, (string \<times> ((32 word \<times> int) \<times> (string list \<times> int))) list) state" where
  "purge_blocker e = do {
     m \<leftarrow> gets ip_blocker;
     kept \<leftarrow> retain_blocker e m;
     modify (\<lambda>s. s\<lparr>ip_blocker := kept\<rparr>);
     State_Monad.return kept
   }"

definition purge_changes ::
  "'e env_scheme \<Rightarrow> ('w hub_scheme, (string \<times> (int \<times> (string \<times> 32 word) list)) list) state" where
  "purge_changes e = do {
     m \<leftarrow> gets ip_changes;
     kept \<leftarrow> retain_changes e m;
     modify (\<lambda>s. s\<lparr>ip_changes := kept\<rparr>);
     State_Monad.return kept
   }"

section \<open>Commands\<close>

definition console_help :: string where
  "console_help = concat (map (\<lambda>l. l @ newline)
     [''relay-servers(rs) <separated by ,>'', ''reload-geo(rg)'', ''ip-blocker(ib) [<ip>|<number>] [-]'',
      ''ip-changes(ic) [<id>|<number>] [-]'', ''punch-requests(pr) [<number>] [-]'',
      ''always-use-relay(aur)'', ''test-geo(tg) <ip1> <ip2>''])"

definition cmd_relay_servers :: "server \<Rightarrow> string list \<Rightarrow> ('w hub_scheme, string) state" where
  "cmd_relay_servers sv args = (case args of
       rs # _ \<Rightarrow> do { enqueue (RelayServers0 rs); State_Monad.return '''' }
     | [] \<Rightarrow> State_Monad.return (concat (map (\<lambda>ip. ip @ newline) (relay_servers sv))))"

definition cmd_ip_blocker :: "'e console_env_scheme \<Rightarrow> string list \<Rightarrow> ('w hub_scheme, string) state" where
  "cmd_ip_blocker e args = do {
     kept \<leftarrow> purge_blocker e;
     let count = show_nat (length kept) @ newline;
     let start = start_of (first_arg args);
     if start < 0 \<and> args \<noteq> [] then do {
       let ip = hd args;
       entry \<leftarrow> (case map_of kept ip of
           None \<Rightarrow> State_Monad.return ''''
         | Some v \<Rightarrow> show_blocker e v);
       (if first_arg (tl args) = Some ''-'' then modify (\<lambda>s. s\<lparr>ip_blocker := remove_key ip (ip_blocker s)\<rparr>)
        else State_Monad.return ());
       State_Monad.return (count @ entry)
     } else do {
       let from = max start 0;
       lines \<leftarrow> page_from (keyed_line (show_blocker e)) 0 from (wrap32 (from + 10)) kept;
       State_Monad.return (count @ lines)
     }
   }"

text \<open>
  A number above ten million is taken for an id, and the listing that starts there follows.
\<close>

definition cmd_ip_changes :: "'e console_env_scheme \<Rightarrow> string list \<Rightarrow> ('w hub_scheme, string) state" where
  "cmd_ip_changes e args = do {
     kept \<leftarrow> purge_changes e;
     let count = show_nat (length kept) @ newline;
     let start = start_of (first_arg args);
     (entry, from) \<leftarrow> (
       if 0 \<le> start \<and> start \<le> 10000000 then State_Monad.return ('''', start)
       else case args of
           [] \<Rightarrow> State_Monad.return ('''', 0)
         | dev # rest \<Rightarrow> do {
             entry \<leftarrow> (case map_of kept dev of
                 None \<Rightarrow> State_Monad.return ''''
               | Some v \<Rightarrow> show_changes e v);
             (if first_arg rest = Some ''-'' then modify (\<lambda>s. s\<lparr>ip_changes := remove_key dev (ip_changes s)\<rparr>)
              else State_Monad.return ());
             State_Monad.return (entry, start)
           });
     m' \<leftarrow> gets ip_changes;
     lines \<leftarrow> (if from \<ge> 0 then page_from (keyed_line (show_changes e)) 0 from (wrap32 (from + 10)) m'
       else State_Monad.return '''');
     State_Monad.return (count @ entry @ lines)
   }"

definition show_punch :: "'e console_env_scheme \<Rightarrow> punch_req \<Rightarrow> ('w world_scheme, string) state" where
  "show_punch e r = do {
     age \<leftarrow> elapsed e (req_tm r);
     k \<leftarrow> tick;
     State_Monad.return (event_time e k age @ '' '' @ req_from_ip r @ '' -> '' @ req_to_id r @ ''@'' @
       req_to_ip r @ newline)
   }"

fun show_all :: "('x \<Rightarrow> ('w, string) state) \<Rightarrow> 'x list \<Rightarrow> ('w, string) state" where
  "show_all show [] = State_Monad.return ''''"
| "show_all show (x # xs) = do {
     line \<leftarrow> show x;
     rest \<leftarrow> show_all show xs;
     State_Monad.return (line @ rest)
   }"

definition parse_usize :: "string option \<Rightarrow> nat \<Rightarrow> nat" where
  "parse_usize arg d = (case Option.bind arg (parse_unsigned 64) of Some n \<Rightarrow> n | None \<Rightarrow> d)"

definition cmd_punch_requests :: "'e console_env_scheme \<Rightarrow> string list \<Rightarrow> ('w hub_scheme, string) state" where
  "cmd_punch_requests e args =
     (if first_arg args = Some ''-'' then do {
        modify (\<lambda>s. s\<lparr>punch_reqs := []\<rparr>);
        State_Monad.return ''''
      } else do {
        let start = parse_usize (first_arg args) 0;
        let size = parse_usize (first_arg (tl args)) 10;
        reqs \<leftarrow> gets punch_reqs;
        show_all (show_punch e) (take (if size = 0 then 10 else size) (drop start reqs))
      })"

text \<open>The only strings whose upper case is \<open>Y\<close> are the two letters.\<close>

definition cmd_always_use_relay :: "string list \<Rightarrow> ('w hub_scheme, string) state" where
  "cmd_always_use_relay args = (case args of
       rs # _ \<Rightarrow> do {
         modify (\<lambda>s. s\<lparr>always_use_relay := (rs = ''Y'' \<or> rs = ''y'')\<rparr>);
         enqueue (RelayServers0 rs);
         State_Monad.return ''''
       }
     | [] \<Rightarrow> do {
         b \<leftarrow> gets always_use_relay;
         State_Monad.return (''ALWAYS_USE_RELAY: '' @ (if b then ''true'' else ''false'') @ newline)
       })"

definition cmd_test_geo :: "'e console_env_scheme \<Rightarrow> server \<Rightarrow> string list \<Rightarrow> ('w hub_scheme, string) state" where
  "cmd_test_geo e sv args =
     (let answer = do { x \<leftarrow> get_relay_server sv; State_Monad.return (debug_str e x) } in
      case args of
        [] \<Rightarrow> State_Monad.return ''''
      | [a] \<Rightarrow> if console_ip e a \<noteq> None then answer else State_Monad.return ''''
      | a # b # _ \<Rightarrow> if console_ip e a \<noteq> None \<and> console_ip e b \<noteq> None then answer
                    else State_Monad.return '''')"

definition check_cmd :: "'e console_env_scheme \<Rightarrow> server \<Rightarrow> string \<Rightarrow> ('w hub_scheme, string) state" where
  "check_cmd e sv cmd = (
     let fds = split_on (CHR '' '') (trim cmd); c = hd fds; args = tl fds in
     if c = ''h'' then State_Monad.return console_help
     else if c = ''relay-servers'' \<or> c = ''rs'' then cmd_relay_servers sv args
     else if c = ''ip-blocker'' \<or> c = ''ib'' then cmd_ip_blocker e args
     else if c = ''ip-changes'' \<or> c = ''ic'' then cmd_ip_changes e args
     else if c = ''punch-requests'' \<or> c = ''pr'' then cmd_punch_requests e args
     else if c = ''always-use-relay'' \<or> c = ''aur'' then cmd_always_use_relay args
     else if c = ''test-geo'' \<or> c = ''tg'' then cmd_test_geo e sv args
     else State_Monad.return '''')"

text \<open>
  A connection on the second port: from the loopback it is the console, with the text of its first
  read (\<open>None\<close> when nothing came in a second or it is no UTF-8); otherwise its first frame is served.
\<close>

definition serve_listener2 ::
  "'e console_env_scheme \<Rightarrow> server \<Rightarrow> socket_addr \<Rightarrow> string option \<Rightarrow> message option
     \<Rightarrow> ('w hub_scheme, string option) state" where
  "serve_listener2 e sv addr input frame =
     (if is_loopback (sock_ip (try_into_v4 e addr)) then
        (case input of
           None \<Rightarrow> State_Monad.return None
         | Some data \<Rightarrow> do { res \<leftarrow> check_cmd e sv data; State_Monad.return (Some res) })
      else do { handle_listener2 e frame addr; State_Monad.return None })"


section \<open>Lemmas\<close>

text \<open>A listing prints the entries from \<open>start\<close> up to \<open>limit\<close>, a line each.\<close>

lemma page_from_lines:
  assumes "\<And>x s. P x (fst (run_state (show x) s))"
  shows "\<exists>lines. fst (run_state (page_from show i start limit xs) s) = concat lines \<and>
    list_all2 P (take (nat (limit - max i start)) (drop (nat (start - i)) xs)) lines"
proof (induction xs arbitrary: i s)
  case (Cons x xs)
  show ?case
  proof (cases "i < limit")
    case limit: True
    show ?thesis
    proof (cases "i < start")
      case True
      then have "nat (start - i) = Suc (nat (start - (i + 1)))" and "max i start = max (i + 1) start" by simp_all
      with Cons [of "i + 1" s] limit True show ?thesis by simp
    next
      case False
      obtain line s1 where x: "run_state (show x) s = (line, s1)" by (metis prod.collapse)
      obtain lines where l: "fst (run_state (page_from show (i + 1) start limit xs) s1) = concat lines"
        "list_all2 P (take (nat (limit - max (i + 1) start)) (drop (nat (start - (i + 1))) xs)) lines"
        using Cons [of "i + 1" s1] by blast
      have "nat (limit - max i start) = Suc (nat (limit - max (i + 1) start))" using limit False by simp
      moreover have "P x line" using assms [of x s] x by simp
      ultimately show ?thesis
        using l x limit False by (intro exI [of _ "line # lines"]) (simp add: exec_simps case_prod_unfold)
    qed
  qed (simp add: exec_simps)
qed (simp add: exec_simps)

text \<open>Retaining drops entries.\<close>

lemma retain_blocker_subset:
  "set (fst (run_state (retain_blocker e m) s)) \<subseteq> set m"
proof (induction e m arbitrary: s rule: retain_blocker.induct)
  case (2 e ip n t ids since m)
  then show ?case by (auto simp: exec_simps case_prod_unfold split: if_splits)
qed (simp add: exec_simps)

lemma retain_changes_subset:
  "set (fst (run_state (retain_changes e m) s)) \<subseteq> set m"
proof (induction e m arbitrary: s rule: retain_changes.induct)
  case (2 e dev tm ips m)
  then show ?case by (auto simp: exec_simps case_prod_unfold split: if_splits)
qed (simp add: exec_simps)

lemma preserves_retain:
  "tick_free I \<Longrightarrow> preserves I (retain_blocker e m)" "tick_free I \<Longrightarrow> preserves I (retain_changes e c)"
proof -
  show "preserves I (retain_blocker e m)" if "tick_free I"
    using that by (induction e m rule: retain_blocker.induct) (auto intro!: preserves_intros)
  show "preserves I (retain_changes e c)" if "tick_free I"
    using that by (induction e c rule: retain_changes.induct) (auto intro!: preserves_intros)
qed

lemma preserves_page: "(\<And>x. preserves I (show x)) \<Longrightarrow> preserves I (page_from show i start limit xs)"
  by (induction "show" i start limit xs rule: page_from.induct) (auto intro!: preserves_intros)

lemma preserves_all: "(\<And>x. preserves I (show x)) \<Longrightarrow> preserves I (show_all show xs)"
  by (induction "show" xs rule: show_all.induct) (auto intro!: preserves_intros)

lemma preserves_lines:
  assumes "tick_free I"
  shows "preserves I (show_blocker e v)" "preserves I (show_changes e' c)" "preserves I (show_punch e' r)"
    "preserves I (keyed_line (show_blocker e) x)" "preserves I (keyed_line (show_changes e') y)"
  unfolding show_blocker_def show_changes_def show_punch_def keyed_line_def
  using assms by (auto split: prod.splits intro!: preserves_intros)

text \<open>
  What no console command touches, and how far the others go: entries of the two tables only
  disappear, and only relay server lists are queued.
\<close>

definition console_frame :: "'w hub_scheme \<Rightarrow> 'w hub_scheme \<Rightarrow> bool" where
  "console_frame s0 s \<longleftrightarrow>
     accounts s = accounts s0 \<and> sessions s = sessions s0 \<and> tickets s = tickets s0 \<and>
     peer_rows s = peer_rows s0 \<and> pm_map s = pm_map s0 \<and> punch_sessions s = punch_sessions s0 \<and>
     tcp_peers s = tcp_peers s0 \<and> tcp_punch s = tcp_punch s0 \<and> sent s = sent s0 \<and>
     set (ip_blocker s) \<subseteq> set (ip_blocker s0) \<and> set (ip_changes s) \<subseteq> set (ip_changes s0) \<and>
     set (punch_reqs s) \<subseteq> set (punch_reqs s0) \<and>
     (\<exists>lists. queue s = queue s0 @ map RelayServers0 lists)"

lemma frame_free: "tick_free (console_frame s0)"
  by (simp add: tick_free_def console_frame_def)

lemma frame_refl [simp]: "console_frame s s"
  by (simp add: console_frame_def exI [of _ "[]"])

lemma frame_purge:
  "preserves (console_frame s0) (purge_blocker e)" "preserves (console_frame s0) (purge_changes e)"
proof -
  have "console_frame s0 (snd (run_state (purge_blocker e) s))" if ok: "console_frame s0 s" for s
    using preservesD [OF preserves_retain(1) [OF frame_free] ok, of e "ip_blocker s"] ok
      retain_blocker_subset [of e "ip_blocker s" s]
    by (auto simp: purge_blocker_def console_frame_def exec_simps case_prod_unfold)
  then show "preserves (console_frame s0) (purge_blocker e)" by (rule preservesI)
  have "console_frame s0 (snd (run_state (purge_changes e) s))" if ok: "console_frame s0 s" for s
    using preservesD [OF preserves_retain(2) [OF frame_free] ok, of e "ip_changes s"] ok
      retain_changes_subset [of e "ip_changes s" s]
    by (auto simp: purge_changes_def console_frame_def exec_simps case_prod_unfold)
  then show "preserves (console_frame s0) (purge_changes e)" by (rule preservesI)
qed

lemma frame_enqueue: "preserves (console_frame s0) (enqueue (RelayServers0 rs))"
proof (rule preservesI)
  fix s
  assume ok: "console_frame s0 s"
  then obtain lists where "queue s = queue s0 @ map RelayServers0 lists" by (auto simp: console_frame_def)
  then have "queue s @ [RelayServers0 rs] = queue s0 @ map RelayServers0 (lists @ [rs])" by simp
  with ok show "console_frame s0 (snd (run_state (enqueue (RelayServers0 rs)) s))"
    unfolding console_frame_def run_enqueue by (auto simp del: map_append)
qed

lemma frame_relay_server: "preserves (console_frame s0) (get_relay_server sv)"
  unfolding get_relay_server_def
  by (intro preserves_intros preserves_modify) (simp add: console_frame_def)

text \<open>All a command can do to the state, as the premises of a rule.\<close>

lemma preserves_check_cmd:
  assumes "tick_free I" and "preserves I (purge_blocker e)" and "preserves I (purge_changes e)"
    and "\<And>k. preserves I (modify (\<lambda>s. s\<lparr>ip_blocker := remove_key k (ip_blocker s)\<rparr>))"
    and "\<And>k. preserves I (modify (\<lambda>s. s\<lparr>ip_changes := remove_key k (ip_changes s)\<rparr>))"
    and "preserves I (modify (\<lambda>s. s\<lparr>punch_reqs := []\<rparr>))"
    and "\<And>b. preserves I (modify (\<lambda>s. s\<lparr>always_use_relay := b\<rparr>))"
    and "\<And>rs. preserves I (enqueue (RelayServers0 rs))" and "preserves I (get_relay_server sv)"
  shows "preserves I (check_cmd e sv cmd)"
proof -
  note steps = preserves_intros assms preserves_page preserves_all preserves_lines
  have "preserves I (cmd_relay_servers sv args)" "preserves I (cmd_always_use_relay args)"
    "preserves I (cmd_test_geo e sv args)" "preserves I (cmd_ip_blocker e args)"
    "preserves I (cmd_punch_requests e args)" "preserves I (cmd_ip_changes e args)" for args
    unfolding cmd_relay_servers_def cmd_always_use_relay_def cmd_test_geo_def Let_def
      cmd_ip_blocker_def cmd_punch_requests_def cmd_ip_changes_def
    by (auto split: list.splits intro!: steps)
  then show ?thesis
    unfolding check_cmd_def Let_def by (intro preserves_intros)
qed

lemma frame_check_cmd: "preserves (console_frame s0) (check_cmd e sv cmd)"
  by (rule preserves_check_cmd [OF frame_free frame_purge _ _ _ _ frame_enqueue frame_relay_server])
    (rule preserves_modify; auto simp: console_frame_def)+

section \<open>What the console cannot see\<close>

text \<open>
  An operation is blind to a change \<open>h\<close> of the state when it answers the same before and after the
  change, and leaves the changed part as it is.
\<close>

definition blind :: "('s \<Rightarrow> 's) \<Rightarrow> ('s, 'a) state \<Rightarrow> bool" where
  "blind h m \<longleftrightarrow> (\<forall>s. run_state m (h s) = (fst (run_state m s), h (snd (run_state m s))))"

lemma blindI: "(\<And>s. run_state m (h s) = (fst (run_state m s), h (snd (run_state m s)))) \<Longrightarrow> blind h m"
  by (simp add: blind_def)

lemma blindD: "blind h m \<Longrightarrow> run_state m s = (a, s') \<Longrightarrow> run_state m (h s) = (a, h s')"
  by (simp add: blind_def)

lemma blind_return: "blind h (State_Monad.return a)"
  by (simp add: blind_def)

lemma blind_bind: "blind h m \<Longrightarrow> (\<And>a. blind h (f a)) \<Longrightarrow> blind h (State_Monad.bind m f)"
  by (simp add: blind_def case_prod_unfold)

lemma blind_gets: "(\<And>s. f (h s) = f s) \<Longrightarrow> blind h (gets f)"
  by (simp add: blind_def exec_simps)

lemma blind_modify: "(\<And>s. f (h s) = h (f s)) \<Longrightarrow> blind h (modify f)"
  by (simp add: blind_def exec_simps)

lemma blind_if: "(b \<Longrightarrow> blind h m) \<Longrightarrow> (\<not> b \<Longrightarrow> blind h n) \<Longrightarrow> blind h (if b then m else n)"
  by simp

lemma blind_option: "(x = None \<Longrightarrow> blind h m) \<Longrightarrow> (\<And>y. x = Some y \<Longrightarrow> blind h (f y)) \<Longrightarrow>
    blind h (case x of None \<Rightarrow> m | Some y \<Rightarrow> f y)"
  by (simp split: option.splits)

lemma blind_prod: "(\<And>a b. x = (a, b) \<Longrightarrow> blind h (f a b)) \<Longrightarrow> blind h (case x of (a, b) \<Rightarrow> f a b)"
  by (simp split: prod.splits)

lemma blind_list: "(x = [] \<Longrightarrow> blind h m) \<Longrightarrow> (\<And>y ys. x = y # ys \<Longrightarrow> blind h (f y ys)) \<Longrightarrow>
    blind h (case x of [] \<Rightarrow> m | y # ys \<Rightarrow> f y ys)"
  by (simp split: list.splits)

lemma blind_let: "blind h (f x) \<Longrightarrow> blind h (let y = x in f y)"
  by simp

lemmas blind_rules = blind_return blind_bind blind_if blind_option blind_prod blind_list blind_let

text \<open>The state \<open>s\<close> with everything that is not the console's taken from another state \<open>z\<close>.\<close>

definition with_private :: "'v hub_scheme \<Rightarrow> 'w hub_scheme \<Rightarrow> 'w hub_scheme" where
  "with_private z s = s\<lparr>accounts := accounts z, sessions := sessions z, tickets := tickets z, devices := devices z,
     jobs := jobs z, audits := audits z, shared_open := shared_open z, peer_rows := peer_rows z, pm_map := pm_map z,
     punch_sessions := punch_sessions z, tcp_punch := tcp_punch z, tcp_peers := tcp_peers z, sent := sent z\<rparr>"

lemma private_elapsed: "blind (with_private z) (elapsed e t)" "blind (with_private z) tick"
  by (simp_all add: blind_def with_private_def exec_simps)

lemma private_retain:
  "blind (with_private z) (retain_blocker e m)" "blind (with_private z) (retain_changes e c)"
proof -
  show "blind (with_private z) (retain_blocker e m)"
    by (induction e m rule: retain_blocker.induct)
      (simp_all only: retain_blocker.simps, (intro blind_rules private_elapsed | assumption)+)
  show "blind (with_private z) (retain_changes e c)"
    by (induction e c rule: retain_changes.induct)
      (simp_all only: retain_changes.simps, (intro blind_rules private_elapsed | assumption)+)
qed

lemma private_page: "(\<And>x. blind (with_private z) (show x)) \<Longrightarrow> blind (with_private z) (page_from show i start limit xs)"
  by (induction "show" i start limit xs rule: page_from.induct)
    (simp_all only: page_from.simps, (intro blind_rules | assumption | blast)+)

lemma private_all: "(\<And>x. blind (with_private z) (show x)) \<Longrightarrow> blind (with_private z) (show_all show xs)"
  by (induction "show" xs rule: show_all.induct)
    (simp_all only: show_all.simps, (intro blind_rules | assumption | blast)+)

lemma private_lines:
  "blind (with_private z) (show_blocker e v)" "blind (with_private z) (show_changes e' c)"
  "blind (with_private z) (show_punch e' r)"
  "blind (with_private z) (keyed_line (show_blocker e) x)" "blind (with_private z) (keyed_line (show_changes e') y)"
  unfolding show_blocker_def show_changes_def show_punch_def keyed_line_def
  by (auto split: prod.splits intro!: blind_rules private_elapsed)

lemma private_tables:
  "blind (with_private z) (purge_blocker e)" "blind (with_private z) (purge_changes e)"
  "blind (with_private z) (get_relay_server sv)" "blind (with_private z) (enqueue d)"
  unfolding purge_blocker_def purge_changes_def get_relay_server_def enqueue_def
  by (intro blind_rules blind_gets blind_modify private_retain; simp add: with_private_def)+

lemma private_check_cmd: "blind (with_private z) (check_cmd e sv cmd)"
proof -
  note steps = blind_rules private_page private_all private_lines private_tables
  have "blind (with_private z) (cmd_relay_servers sv args)" "blind (with_private z) (cmd_always_use_relay args)"
    "blind (with_private z) (cmd_test_geo e sv args)" "blind (with_private z) (cmd_ip_blocker e args)"
    "blind (with_private z) (cmd_punch_requests e args)" "blind (with_private z) (cmd_ip_changes e args)" for args
    unfolding cmd_relay_servers_def cmd_always_use_relay_def cmd_test_geo_def Let_def
      cmd_ip_blocker_def cmd_punch_requests_def cmd_ip_changes_def
    by (intro steps blind_gets blind_modify; simp add: with_private_def)+
  then show ?thesis
    unfolding check_cmd_def Let_def by (intro blind_rules)
qed

section \<open>Properties\<close>

definition sample_console_env :: console_env where
  "sample_console_env = hub_env.extend (sample_hub_env\<lparr>to_socket_addrs := (\<lambda>h. if h = ''Y:0'' then Some [] else Some [SockV4 0 0])\<rparr>)
     \<lparr>console_ip = (\<lambda>_. None), debug_str = id, debug_counts = (\<lambda>_. ''{}''), event_time = (\<lambda>_ _. ''now'')\<rparr>"

lemmas sample_console = sample_console_env_def hub_env.extend_def sample_hub_env_def

text \<open>
  C34: The console answers the loopback only, and what it can do is bounded. It sees none of the
  accounts, sessions, tickets, devices, jobs, audit records, peers and connections: with all of them
  replaced by any others, every command gives the same answer and has the same effect, and leaves
  the others in place. Entries of the address tables and of the log can only disappear, and only
  relay server lists are queued. Everybody else's connection to that port gets no console answer and
  leaves the tables and the settings alone.
\<close>

theorem console_is_confined:
  assumes "run_state (serve_listener2 e sv addr input frame) s = (reply, s')"
  shows "if is_loopback (sock_ip (try_into_v4 e addr))
    then console_frame s s' \<and>
      (\<forall>z :: hub. run_state (serve_listener2 e sv addr input frame) (with_private z s) = (reply, with_private z s'))
    else reply = None \<and> queue s' = queue s \<and> ip_blocker s' = ip_blocker s \<and> ip_changes s' = ip_changes s \<and>
      punch_reqs s' = punch_reqs s \<and> always_use_relay s' = always_use_relay s"
proof (cases "is_loopback (sock_ip (try_into_v4 e addr))")
  case True
  have "preserves (console_frame s) (serve_listener2 e sv addr input frame)"
    using True unfolding serve_listener2_def by (auto split: option.splits intro!: preserves_intros frame_check_cmd)
  from preservesD_run [OF this assms] have "console_frame s s'" by simp
  moreover have "blind (with_private z) (serve_listener2 e sv addr input frame :: ('a hub_scheme, string option) state)" for z :: hub
    using True unfolding serve_listener2_def by (auto split: option.splits intro!: blind_rules private_check_cmd)
  from blindD [OF this assms] have "\<forall>z :: hub.
      run_state (serve_listener2 e sv addr input frame) (with_private z s) = (reply, with_private z s')" by blast
  ultimately show ?thesis using True by simp
next
  case False
  define I where "I = (\<lambda>t :: 'a hub_scheme. queue t = queue s \<and> ip_blocker t = ip_blocker s \<and>
    ip_changes t = ip_changes s \<and> punch_reqs t = punch_reqs s \<and> always_use_relay t = always_use_relay s)"
  have free: "tick_free I" by (simp add: tick_free_def I_def)
  have emit: "preserves I (emit d m)" for d m
    unfolding emit_def by (rule preserves_modify) (simp add: I_def)
  have states: "preserves I (online_states e devs i acc)" for devs i acc
    by (induction e devs i acc rule: online_states.induct)
      (auto simp: elapsed_ms_def get_in_memory_def split: option.splits intro!: preserves_intros free)
  have "preserves I (handle_listener2 e frame addr)"
    unfolding handle_listener2_def handle_online_request_def
    by (auto split: option.splits message.splits intro!: preserves_intros free emit states)
  then have "I (snd (run_state (handle_listener2 e frame addr) s))"
    by (rule preservesD) (simp add: I_def)
  with False assms show ?thesis by (auto simp: serve_listener2_def I_def exec_simps split: prod.splits)
qed

lemma console_is_confined_witness:
  "\<exists>reply s'. run_state (serve_listener2 sample_console_env sample_server (SockV4 2130706433 9) (Some ''ib'') None)
      sample_hub = (reply, s') \<and> console_frame sample_hub s'"
proof -
  obtain reply s' where r: "run_state (serve_listener2 sample_console_env sample_server (SockV4 2130706433 9)
      (Some ''ib'') None) sample_hub = (reply, s')"
    by (metis prod.collapse)
  from console_is_confined [OF r] r show ?thesis by (auto simp: sample_console)
qed

text \<open>
  \<open>ib n\<close> first drops the entries whose two windows have both passed, then answers their number
  and, from the \<open>n\<close>-th on, at most ten of them, one line each that starts with the address.
\<close>

theorem blocker_listing:
  fixes s :: "'w hub_scheme"
  assumes "parse_signed 32 arg = Some (int n)" and "n + 10 < 2 ^ 31"
    and "run_state (cmd_ip_blocker e (arg # rest)) s = (reply, s')"
  shows "\<exists>lines. reply = show_nat (length (ip_blocker s')) @ newline @ concat lines \<and>
    list_all2 (\<lambda>(ip, _) line. prefix (ip @ '': '') line) (take 10 (drop n (ip_blocker s'))) lines \<and>
    length lines \<le> 10 \<and> set (ip_blocker s') \<subseteq> set (ip_blocker s)"
proof -
  obtain kept s1 where p: "run_state (purge_blocker e) s = (kept, s1)" by (metis prod.collapse)
  have kept: "ip_blocker s1 = kept" using p by (auto simp: purge_blocker_def exec_simps split: prod.splits)
  have sub: "set kept \<subseteq> set (ip_blocker s)"
    using preservesD_run [OF frame_purge(1) p, of s] kept by (auto simp: console_frame_def)
  have wrap: "wrap32 (int n + 10) = int n + 10"
    using assms(2) by (simp add: wrap32_def signed_take_bit_int_eq_self)
  let ?page = "page_from (keyed_line (show_blocker e)) 0 (int n) (int n + 10) kept :: ('w hub_scheme, string) state"
  have run: "reply = show_nat (length kept) @ newline @ fst (run_state ?page s1)" "s' = snd (run_state ?page s1)"
    using assms(1,3) p wrap
    by (auto simp: cmd_ip_blocker_def start_of_def exec_simps Let_def case_prod_unfold)
  have "fst (run_state (keyed_line (show_blocker e) x) t) =
      fst x @ '': '' @ fst (run_state (show_blocker e (snd x)) t)" for x and t :: "'w hub_scheme"
    by (auto simp: keyed_line_def exec_simps split: prod.splits)
  then have "(\<lambda>(ip, _) line. prefix (ip @ '': '') line) x (fst (run_state (keyed_line (show_blocker e) x) t))"
    for x and t :: "'w hub_scheme"
    by (auto simp: prefix_def split: prod.splits)
  from page_from_lines [of "\<lambda>(ip, _) line. prefix (ip @ '': '') line" "keyed_line (show_blocker e)", OF this,
      of 0 "int n" "int n + 10" kept s1]
  obtain lines where l: "fst (run_state ?page s1) = concat lines"
    "list_all2 (\<lambda>(ip, _) line. prefix (ip @ '': '') line) (take 10 (drop n kept)) lines"
    by auto
  have "preserves (\<lambda>t. ip_blocker t = kept) ?page"
    by (intro preserves_page preserves_lines) (simp add: tick_free_def)
  then have "ip_blocker s' = kept" using kept by (auto simp: run(2) dest: preservesD)
  moreover have "length lines \<le> 10" using list_all2_lengthD [OF l(2)] by simp
  ultimately show ?thesis using run(1) l sub by auto
qed

lemma blocker_listing_witness:
  "\<exists>lines s'. run_state (cmd_ip_blocker sample_console_env [''1''])
      (sample_hub\<lparr>ip_blocker := [(''a'', ((1, 0), ([], 10000000000000))), (''b'', ((2, 0), ([], 10000000000000)))]\<rparr>)
      = (show_nat 2 @ newline @ concat lines, s') \<and> length lines = 1"
proof -
  let ?s = "sample_hub\<lparr>ip_blocker := [(''a'', ((1, 0), ([], 10000000000000))), (''b'', ((2, 0), ([], 10000000000000)))]\<rparr>"
  obtain reply s' where r: "run_state (cmd_ip_blocker sample_console_env [''1'']) ?s = (reply, s')"
    by (metis prod.collapse)
  have 1: "parse_signed 32 ''1'' = Some (int 1)" "(1 :: nat) + 10 < 2 ^ 31"
    by (simp_all add: parse_signed_def digit_of_def)
  have 2: "ip_blocker s' = ip_blocker ?s"
    using r by (auto simp: cmd_ip_blocker_def start_of_def 1 purge_blocker_def keyed_line_def show_blocker_def
        wrap32_def signed_take_bit_int_eq_self as_secs_def sample_console exec_simps)
  from blocker_listing [OF 1 r] obtain lines where
    "reply = show_nat (length (ip_blocker s')) @ newline @ concat lines"
    "list_all2 (\<lambda>(ip, _) line. prefix (ip @ '': '') line) (take 10 (drop 1 (ip_blocker s'))) lines" by blast
  with 2 r show ?thesis
    by (intro exI [of _ lines] exI [of _ s'] conjI) (auto simp: numeral_2_eq_2 dest: list_all2_lengthD)
qed

text \<open>
  \<open>always-use-relay Y\<close> also sends its argument to the main loop as a list of relay servers. When
  the main loop takes it, the relay servers are replaced by those of the argument that are valid
  hosts, of which \<open>Y\<close> is none: from then on no relay server is offered any more.
\<close>

theorem always_use_relay_replaces_servers:
  assumes "run_state (check_cmd e sv ''aur Y'') s = (reply, s1)" and "queue s = []"
    and "\<not> valid_server e ''Y''" and "run_state (main_recv e sv0) s1 = (sv1, s2)"
  shows "reply = '''' \<and> always_use_relay s2 \<and> relay_servers sv1 = [] \<and> relay_servers0 sv1 = [] \<and>
    fst (run_state (get_relay_server sv1) s3) = ''''"
proof -
  have "split_on (CHR '' '') (trim ''aur Y'') = [''aur'', ''Y'']"
    by (simp add: trim_ascii printing_def)
  then have "reply = ''''" "s1 = s\<lparr>always_use_relay := True, queue := [RelayServers0 ''Y'']\<rparr>"
    using assms(1,2) by (auto simp: check_cmd_def cmd_always_use_relay_def exec_simps)
  then show ?thesis
    using assms(3,4)
    by (auto simp: main_recv_def parse_relay_servers_def get_servers_def get_relay_server_def exec_simps Let_def)
qed

lemma always_use_relay_replaces_servers_witness:
  "\<exists>reply s1 sv1 s2. run_state (check_cmd sample_console_env sample_server ''aur Y'') sample_hub = (reply, s1) \<and>
     run_state (main_recv sample_console_env sample_server) s1 = (sv1, s2) \<and> relay_servers sv1 = []"
proof -
  obtain reply s1 where a: "run_state (check_cmd sample_console_env sample_server ''aur Y'') sample_hub = (reply, s1)"
    by (metis prod.collapse)
  obtain sv1 s2 where b: "run_state (main_recv sample_console_env sample_server) s1 = (sv1, s2)"
    by (metis prod.collapse)
  have "queue sample_hub = []" "\<not> valid_server sample_console_env ''Y''"
    by (simp_all add: sample_hub_def sample_console server_names)
  from always_use_relay_replaces_servers [OF a this b] a b show ?thesis by blast
qed

end
