(* ===== verification/Args.thy ===== *)
theory Args
  imports Text "HOL-Library.AList" "HOL-Library.Char_ord" "HOL-Library.List_Lexorder"
begin

text \<open>
  Settings by name: src/common/args.rs. Arguments, configuration files and environment variables all
  end in the process environment, a list of names and values as byte strings with distinct names.
  The standard library's case mappings are parameters, since only ASCII names are ever mapped by
  them in this program but any name may be compared; the two ini files and the matched arguments are
  given as the lists of pairs that the crates rust-ini and clap hand over.
\<close>

type_synonym environment = "(string \<times> string) list"

record case_env =
  uppercase :: "string \<Rightarrow> string"
  lowercase :: "string \<Rightarrow> string"

text \<open>\<open>str::from_utf8\<close>: the well-formed byte sequences.\<close>

definition continuation :: "char \<Rightarrow> bool" where
  "continuation c \<longleftrightarrow> 128 \<le> (of_char c :: nat) \<and> (of_char c :: nat) < 192"

fun utf8_step :: "string \<Rightarrow> string option" where
  "utf8_step [] = None"
| "utf8_step (a # t) =
     (let n = (of_char a :: nat); second = (case t of [] \<Rightarrow> 0 | b # _ \<Rightarrow> (of_char b :: nat)) in
      if n < 128 then Some t
      else if 194 \<le> n \<and> n < 224 then
        (if length t \<ge> 1 \<and> list_all continuation (take 1 t) then Some (drop 1 t) else None)
      else if 224 \<le> n \<and> n < 240 then
        (if length t \<ge> 2 \<and> list_all continuation (take 2 t) \<and> (n = 224 \<longrightarrow> 160 \<le> second) \<and>
            (n = 237 \<longrightarrow> second < 160) then Some (drop 2 t) else None)
      else if 240 \<le> n \<and> n < 245 then
        (if length t \<ge> 3 \<and> list_all continuation (take 3 t) \<and> (n = 240 \<longrightarrow> 144 \<le> second) \<and>
            (n = 244 \<longrightarrow> second < 144) then Some (drop 3 t) else None)
      else None)"

lemma utf8_step_shorter: "utf8_step t = Some rest \<Longrightarrow> length rest < length t"
  by (cases t) (auto simp: Let_def split: if_splits)

function valid_utf8 :: "string \<Rightarrow> bool" where
  "valid_utf8 t = (t = [] \<or> (case utf8_step t of None \<Rightarrow> False | Some rest \<Rightarrow> valid_utf8 rest))"
  by pat_completeness auto

termination
  by (relation "measure length") (auto dest: utf8_step_shorter)

declare valid_utf8.simps [simp del]

section \<open>Names\<close>

definition swap_char :: "char \<Rightarrow> char \<Rightarrow> string \<Rightarrow> string" where
  "swap_char a b t = map (\<lambda>c. if c = a then b else c) t"

definition arg_name :: "'c case_env_scheme \<Rightarrow> string \<Rightarrow> string" where
  "arg_name c name = swap_char (CHR ''_'') (CHR ''-'') (uppercase c name)"

section \<open>The environment\<close>

text \<open>\<open>std::env::set_var\<close> panics, \<open>None\<close>, on an empty name, one with \<open>=\<close>, and on any NUL.\<close>

definition set_var :: "string \<Rightarrow> string \<Rightarrow> environment \<Rightarrow> environment option" where
  "set_var name v en =
     (if name = [] \<or> CHR ''='' \<in> set name \<or> CHR 0x00 \<in> set name \<or> CHR 0x00 \<in> set v then None
      else Some (AList.update name v en))"

text \<open>\<open>std::env::var\<close>: an error when the variable is missing or its value is no UTF-8.\<close>

definition env_var :: "string \<Rightarrow> environment \<Rightarrow> string option" where
  "env_var name en = (case map_of en name of
       None \<Rightarrow> None
     | Some v \<Rightarrow> if valid_utf8 v then Some v else None)"

definition set_arg :: "'c case_env_scheme \<Rightarrow> string \<Rightarrow> string \<Rightarrow> environment \<Rightarrow> environment option" where
  "set_arg c name v en = set_var (arg_name c name) v en"

fun set_args :: "'c case_env_scheme \<Rightarrow> (string \<times> string) list \<Rightarrow> environment \<Rightarrow> environment option" where
  "set_args c [] en = Some en"
| "set_args c ((k, v) # kvs) en =
     (case set_arg c k v en of None \<Rightarrow> None | Some en' \<Rightarrow> set_args c kvs en')"

text \<open>
  \<open>init_args\<close>: the file \<open>.env\<close>, the file named by \<open>--config\<close>, then the arguments. A file that is not
  there, or has no general section, is \<open>None\<close>.
\<close>

definition init_args ::
  "'c case_env_scheme \<Rightarrow> (string \<times> string) list option \<Rightarrow> (string \<times> string) list option
     \<Rightarrow> (string \<times> string) list \<Rightarrow> environment \<Rightarrow> environment option" where
  "init_args c dotenv config args en =
     (case (case dotenv of None \<Rightarrow> Some en | Some kvs \<Rightarrow> set_args c kvs en) of
        None \<Rightarrow> None
      | Some en1 \<Rightarrow>
          (case (case config of None \<Rightarrow> Some en1 | Some kvs \<Rightarrow> set_args c kvs en1) of
             None \<Rightarrow> None
           | Some en2 \<Rightarrow> set_args c args en2))"

section \<open>Looking up\<close>

text \<open>Four spellings in turn, then the least name that means the same.\<close>

definition get_arg_opt :: "'c case_env_scheme \<Rightarrow> string \<Rightarrow> environment \<Rightarrow> string option" where
  "get_arg_opt c name en =
     (let dashed = arg_name c name;
          underscored = swap_char (CHR ''-'') (CHR ''_'') dashed;
          spellings = [dashed, underscored, lowercase c dashed, lowercase c underscored]
      in case List.find (\<lambda>a. env_var a en \<noteq> None) spellings of
           Some a \<Rightarrow> env_var a en
         | None \<Rightarrow>
             (case sort_key fst (filter (\<lambda>(k, v). valid_utf8 k \<and> arg_name c k = dashed \<and> valid_utf8 v) en) of
                [] \<Rightarrow> None
              | (k, v) # _ \<Rightarrow> Some v))"

definition get_arg_or :: "'c case_env_scheme \<Rightarrow> string \<Rightarrow> string \<Rightarrow> environment \<Rightarrow> string" where
  "get_arg_or c name d en = (case get_arg_opt c name en of Some v \<Rightarrow> v | None \<Rightarrow> d)"

definition get_arg :: "'c case_env_scheme \<Rightarrow> string \<Rightarrow> environment \<Rightarrow> string" where
  "get_arg c name en = get_arg_or c name '''' en"

section \<open>Lemmas\<close>

lemma set_args_append: "set_args c (xs @ ys) en = Option.bind (set_args c xs en) (set_args c ys)"
  by (induction c xs en rule: set_args.induct) (auto split: option.splits)

lemma init_args_set_args:
  "init_args c dotenv config args en =
     set_args c (concat (map (case_option [] id) [dotenv, config]) @ args) en"
  by (auto simp: init_args_def set_args_append split: option.splits Option.bind_splits)

lemma set_args_map_of:
  "set_args c kvs en = Some en' \<Longrightarrow>
     map_of en' n = (case map_of (rev (map (\<lambda>(k, v). (arg_name c k, v)) kvs)) n of Some v \<Rightarrow> Some v | None \<Rightarrow> map_of en n)"
  by (induction c kvs en rule: set_args.induct)
    (auto simp: set_arg_def set_var_def update_conv' map_add_def split: option.splits if_splits)

text \<open>The upper-case spelling with dashes comes first.\<close>

lemma get_arg_dashed: "env_var (arg_name c name) en = Some v \<Longrightarrow> get_arg_opt c name en = Some v"
  by (simp add: get_arg_opt_def)

section \<open>Properties\<close>

definition sample_case :: case_env where
  "sample_case = \<lparr>uppercase = map (\<lambda>c. let n = (of_char c :: nat) in if 97 \<le> n \<and> n \<le> 122 then char_of (n - 32) else c),
     lowercase = to_ascii_lowercase\<rparr>"

text \<open>
  A setting is found under every spelling of its name, and the last one given wins: command line
  over configuration file over \<open>.env\<close> file over whatever the environment had.
\<close>

theorem last_setting_wins:
  assumes "init_args c dotenv config args en = Some en'"
    and "concat (map (case_option [] id) [dotenv, config]) @ args = before @ (k, v) # after"
    and "\<forall>(k', v') \<in> set after. arg_name c k' \<noteq> arg_name c k"
    and "valid_utf8 v" and "arg_name c name = arg_name c k"
  shows "get_arg_opt c name en' = Some v \<and> get_arg_or c name d en' = v"
proof -
  let ?f = "\<lambda>(k, v). (arg_name c k, v)"
  have s: "set_args c (before @ (k, v) # after) en = Some en'"
    using assms(1,2) by (simp only: init_args_set_args)
  have "map_of (rev (map ?f after)) (arg_name c k) = None"
    using assms(3) by (force simp: map_of_eq_None_iff)
  then have "map_of en' (arg_name c name) = Some v"
    using set_args_map_of [OF s, of "arg_name c name"] assms(5) by (simp add: map_add_def)
  then have "get_arg_opt c name en' = Some v"
    using assms(4) by (intro get_arg_dashed) (simp add: env_var_def)
  then show ?thesis by (simp add: get_arg_or_def)
qed

lemma last_setting_wins_witness:
  "\<exists>en'. init_args sample_case (Some [(''relay_servers'', ''a'')]) None [(''relay-servers'', ''b'')] [] = Some en' \<and>
     get_arg_opt sample_case ''RELAY_SERVERS'' en' = Some ''b''"
proof -
  let ?c = sample_case
  have i: "init_args ?c (Some [(''relay_servers'', ''a'')]) None [(''relay-servers'', ''b'')] []
      = Some [(''RELAY-SERVERS'', ''b'')]"
    by code_simp
  have u: "valid_utf8 ''b''" by code_simp
  have n: "arg_name ?c ''RELAY_SERVERS'' = arg_name ?c ''relay-servers''" by code_simp
  from last_setting_wins [OF i, where before = "[(''relay_servers'', ''a'')]" and after = "[]",
      OF _ _ u n] i show ?thesis by simp
qed

end
