(* ===== verification/MainLoop.thy ===== *)
theory MainLoop
  imports HubConsole Args
begin

text \<open>
  The main task of hbbs: \<open>io_loop\<close> of src/rendezvous_server/io.rs, one event of its \<open>select!\<close> at a
  time, the supervision loop and the start of \<open>start_with_bind\<close> in mod.rs, and how src/main.rs and
  src/hbbr.rs read their arguments.

  The task owns its \<open>server\<close>; a connection task gets a copy when it is accepted. \<open>probes\<close> are the
  relay checks under way, each with the list it was started for. \<open>loop_env\<close> adds whether the sockets
  can be opened again, the version in a URL, and the parsers of networks and addresses.
\<close>

record loop_env = console_env +
  socket_ok :: "nat \<Rightarrow> bool"
  version_from_url :: "string \<Rightarrow> string"
  parse_network :: "string \<Rightarrow> (32 word \<times> nat) option"
  local_ip_text :: string
  rendezvous_port :: string
  relay_port :: nat

datatype port = Main_Port | Nat_Port | Ws_Port | Console_Port

datatype loop_failure = Udp_Socket | Listener port

datatype loop_event =
    Relay_Timer
  | Channel
  | Datagram "message option" socket_addr
  | Udp_Error
  | Accepted port socket_addr
  | Accept_Error port

record main_loop =
  sv :: server
  tick_count :: "32 word"
  probes :: "string list list"
  spawned :: "(port \<times> socket_addr \<times> server) list"

section \<open>The loop\<close>

definition on_relay_timer ::
  "'e hub_env_scheme \<Rightarrow> main_loop \<Rightarrow> ('w hub_scheme, main_loop) state" where
  "on_relay_timer e ml = do {
     let n = tick_count ml + 1;
     (if n mod 20 = 0 then do { _ \<leftarrow> peer_transport e; State_Monad.return () } else State_Monad.return ());
     State_Monad.return (ml\<lparr>tick_count := n,
       probes := probes ml @ (if length (relay_servers0 (sv ml)) > 1 then [relay_servers0 (sv ml)] else [])\<rparr>)
   }"

definition on_loop_event ::
  "'e hub_env_scheme \<Rightarrow> loop_event \<Rightarrow> main_loop \<Rightarrow> ('w hub_scheme, loop_failure + main_loop) state" where
  "on_loop_event e ev ml = (case ev of
       Relay_Timer \<Rightarrow> do { ml' \<leftarrow> on_relay_timer e ml; State_Monad.return (Inr ml') }
     | Channel \<Rightarrow> do { sv' \<leftarrow> main_recv e (sv ml); State_Monad.return (Inr (ml\<lparr>sv := sv'\<rparr>)) }
     | Datagram msg addr \<Rightarrow> do {
         r \<leftarrow> handle_udp e (sv ml) msg addr;
         State_Monad.return (case r of Inl err \<Rightarrow> Inl Udp_Socket | Inr sv' \<Rightarrow> Inr (ml\<lparr>sv := sv'\<rparr>))
       }
     | Udp_Error \<Rightarrow> State_Monad.return (Inl Udp_Socket)
     | Accepted p addr \<Rightarrow> State_Monad.return (Inr (ml\<lparr>spawned := spawned ml @ [(p, addr, sv ml)]\<rparr>))
     | Accept_Error p \<Rightarrow> State_Monad.return (Inl (Listener p)))"

text \<open>
  The supervision: the socket that failed is opened again, and the loop starts over with the same
  server. When that fails the program ends, with the failure.
\<close>

fun run_main ::
  "'e loop_env_scheme \<Rightarrow> loop_event list \<Rightarrow> main_loop \<Rightarrow> ('w hub_scheme, loop_failure + main_loop) state" where
  "run_main e [] ml = State_Monad.return (Inr ml)"
| "run_main e (ev # evs) ml = do {
     r \<leftarrow> on_loop_event e ev ml;
     case r of
       Inr ml' \<Rightarrow> run_main e evs ml'
     | Inl failed \<Rightarrow> do {
         k \<leftarrow> tick;
         if socket_ok e k then run_main e evs (ml\<lparr>tick_count := 0\<rparr>)
         else State_Monad.return (Inl failed)
       }
   }"

section \<open>Starting up\<close>

text \<open>\<open>common::parse_bind_address\<close>.\<close>

definition parse_bind_address :: "'e console_env_scheme \<Rightarrow> string \<Rightarrow> string + ip_addr option" where
  "parse_bind_address e t =
     (if trim t = '''' then Inr None
      else case console_ip e (trim t) of
          Some ip \<Rightarrow> Inr (Some ip)
        | None \<Rightarrow> Inl (''Invalid bind address: '' @ trim t))"

definition i32_or :: "string \<Rightarrow> int \<Rightarrow> int" where
  "i32_or t d = (case parse_signed 32 t of Some v \<Rightarrow> v | None \<Rightarrow> d)"

record hbbs_config =
  cf_port :: int
  cf_bind :: "ip_addr option"
  cf_rmem :: nat
  cf_serial :: int
  cf_key :: string

text \<open>\<open>main\<close> of hbbs, after \<open>init_args\<close>.\<close>

definition hbbs_main ::
  "'e loop_env_scheme \<Rightarrow> 'c case_env_scheme \<Rightarrow> environment \<Rightarrow> string + hbbs_config" where
  "hbbs_main e c en =
     (case parse_signed 32 (get_arg_or c ''port'' (rendezvous_port e) en) of
        None \<Rightarrow> Inl ''invalid number''
      | Some port \<Rightarrow>
          if port < 3 then Inl ''Invalid port''
          else (case parse_bind_address e (get_arg c ''bind'' en) of
              Inl err \<Rightarrow> Inl err
            | Inr ip \<Rightarrow> Inr \<lparr>cf_port = port, cf_bind = ip,
                cf_rmem = parse_usize (get_arg_opt c ''rmem'' en) 0,
                cf_serial = i32_or (get_arg c ''serial'' en) 0,
                cf_key = get_arg_or c ''key'' ''-'' en\<rparr>))"

text \<open>\<open>main\<close> of hbbr: its own options, else the environment.\<close>

definition show_int :: "int \<Rightarrow> string" where
  "show_int v = (if v < 0 then ''-'' @ show_nat (nat (- v)) else show_nat (nat v))"

definition hbbr_main ::
  "'e loop_env_scheme \<Rightarrow> 'c case_env_scheme \<Rightarrow> (string \<Rightarrow> string option) \<Rightarrow> environment
     \<Rightarrow> string + string \<times> ip_addr option \<times> string" where
  "hbbr_main e c opt en = (
     let port = (case get_arg_opt c ''PORT'' en of
           None \<Rightarrow> int (relay_port e)
         | Some v \<Rightarrow> if i32_or v 0 > 0 then wrap32 (i32_or v 0 + 1) else int (relay_port e));
       or_arg = (\<lambda>o_name name. case opt o_name of Some v \<Rightarrow> v | None \<Rightarrow> get_arg c name en)
     in case parse_bind_address e (or_arg ''bind'' ''BIND'') of
          Inl err \<Rightarrow> Inl err
        | Inr ip \<Rightarrow> Inr (case opt ''port'' of Some v \<Rightarrow> v | None \<Rightarrow> show_int port, ip, or_arg ''key'' ''KEY''))"

text \<open>
  The switch that forces relaying, then the \<open>RendezvousServer\<close> that \<open>start_with_bind\<close> builds, with the ports of the NAT test and of
  WebSocket; \<open>key\<close> is the private key \<open>get_server_sk\<close> gave.
\<close>

definition read_always_use_relay ::
  "'c case_env_scheme \<Rightarrow> environment \<Rightarrow> ('w hub_scheme, unit) state" where
  "read_always_use_relay c en =
     (if uppercase c (get_arg c ''ALWAYS_USE_RELAY'' en) = ''Y''
      then modify (\<lambda>s. s\<lparr>always_use_relay := True\<rparr>) else State_Monad.return ())"

definition start_server ::
  "'e loop_env_scheme \<Rightarrow> 'c case_env_scheme \<Rightarrow> environment \<Rightarrow> int \<Rightarrow> int \<Rightarrow> bytes option
     \<Rightarrow> ('w hub_scheme, main_loop \<times> int \<times> int) state" where
  "start_server e c en port ser key = do {
     let url = get_arg c ''software-url'' en;
     let net = parse_network e (get_arg c ''mask'' en);
     let sv0 = \<lparr>relay_servers = [], relay_servers0 = [],
       rendezvous_servers = get_servers e (get_arg c ''rendezvous-servers'' en),
       serial = ser, version = version_from_url e url, software_url = url, mask = net,
       local_ip = (if net = None then '''' else get_arg_or c ''local-ip'' (local_ip_text e) en), sk = key\<rparr>;
     let sv1 = parse_relay_servers e (get_arg c ''relay-servers'' en) sv0;
     read_always_use_relay c en;
     State_Monad.return (\<lparr>sv = sv1, tick_count = 0, probes = [], spawned = []\<rparr>,
       wrap32 (port - 1), wrap32 (port + 2))
   }"

section \<open>The loop and the relay checks\<close>

text \<open>
  A relay check ends whenever its connections do, with some of the servers it was started for, and
  queues them; the console queues lists, and the connection tasks queue messages (theory Dispatch).
\<close>

inductive loop_step ::
  "'e console_env_scheme \<Rightarrow> 'w hub_scheme \<times> main_loop \<Rightarrow> 'w hub_scheme \<times> main_loop \<Rightarrow> bool"
  for e :: "'e console_env_scheme" where
  loop_event: "run_state (on_loop_event e ev ml) h = (Inr ml', h') \<Longrightarrow> loop_step e (h, ml) (h', ml')"
| probe_done: "ps \<in> set (probes ml) \<Longrightarrow> set answered \<subseteq> set ps \<Longrightarrow>
    run_state (check_relay_servers answered) h = ((), h') \<Longrightarrow>
    loop_step e (h, ml) (h', ml\<lparr>probes := remove1 ps (probes ml)\<rparr>)"
| loop_console: "run_state (check_cmd e sv0 cmd) h = (reply, h') \<Longrightarrow> loop_step e (h, ml) (h', ml)"
| loop_message: "run_state (enqueue (Msg msg addr)) h = ((), h') \<Longrightarrow> loop_step e (h, ml) (h', ml)"

section \<open>Lemmas\<close>

lemma deliver_queue: "run_state (deliver e msg addr) h = (u, h') \<Longrightarrow> queue h' = queue h"
  by (auto simp: deliver_def exec_simps split: option.splits if_splits)

text \<open>A datagram changes nothing of the server but the rendezvous servers and their serial.\<close>

lemma handle_udp_server:
  assumes "run_state (handle_udp e sv0 msg addr) h = (r, h')"
  shows "queue h' = queue h" and "r = Inr sv' \<Longrightarrow> sv'\<lparr>serial := serial sv0, rendezvous_servers := rendezvous_servers sv0\<rparr> = sv0"
proof -
  have q: "queue h2 = queue h1" if "run_state (register_peer_response e dev addr) h1 = (m, h2)" for dev m h1 h2
    using net_same [OF net_is_register_peer_response that] by simp
  have q': "queue h2 = queue h1" if "run_state (register_pk_result e rk addr) h1 = (m, h2)" for rk m h1 h2
    using net_same [OF net_is_register_pk_result that] by simp
  show "queue h' = queue h" and "r = Inr sv' \<Longrightarrow> sv'\<lparr>serial := serial sv0, rendezvous_servers := rendezvous_servers sv0\<rparr> = sv0"
    using assms
    by (auto simp: handle_udp_def run_try_bind exec_simps dest: q q'
        split: option.splits message.splits if_splits prod.splits)
qed

text \<open>Every relay server in play is a host that resolved.\<close>

definition hosts_ok :: "'e hub_env_scheme \<Rightarrow> string list \<Rightarrow> bool" where
  "hosts_ok e rs \<longleftrightarrow> (\<forall>x \<in> set rs. x \<noteq> [] \<and> valid_server e x)"

definition lists_ok :: "'e hub_env_scheme \<Rightarrow> 'w hub_scheme \<times> main_loop \<Rightarrow> bool" where
  "lists_ok e = (\<lambda>(h, ml). hosts_ok e (relay_servers (sv ml)) \<and> hosts_ok e (relay_servers0 (sv ml)) \<and>
     (\<forall>ps \<in> set (probes ml). hosts_ok e ps) \<and> (\<forall>rs. RelayServers rs \<in> set (queue h) \<longrightarrow> hosts_ok e rs))"

lemma hosts_ok_get_servers [simp]: "hosts_ok e (get_servers e t)"
  by (auto simp: hosts_ok_def get_servers_def)

lemma hosts_ok_subset: "hosts_ok e ps \<Longrightarrow> set rs \<subseteq> set ps \<Longrightarrow> hosts_ok e rs"
  by (auto simp: hosts_ok_def)

lemma main_recv_lists:
  assumes "run_state (main_recv e (sv ml)) h = (sv', h')" and "lists_ok e (h, ml)"
  shows "lists_ok e (h', ml\<lparr>sv := sv'\<rparr>)"
  using assms
  by (auto simp: main_recv_def lists_ok_def parse_relay_servers_def Let_def exec_simps dest: deliver_queue
      split: list.splits data.splits prod.splits)

lemma relay_timer_run:
  "\<exists>h'. run_state (on_relay_timer e ml) h = (ml\<lparr>tick_count := tick_count ml + 1,
       probes := probes ml @ (if length (relay_servers0 (sv ml)) > 1 then [relay_servers0 (sv ml)] else [])\<rparr>, h') \<and>
     queue h' = queue (h :: 'a hub_scheme)"
proof -
  have count: "preserves (\<lambda>t :: 'a hub_scheme. queue t = queue h) (count_online e lim m)" for lim m
    by (induction e lim m rule: count_online.induct)
      (auto simp: elapsed_ms_def intro!: preserves_intros tick_freeI)
  have "queue (snd (run_state (peer_transport e) h)) = queue h"
    unfolding peer_transport_def online_count_def
    by (rule preservesD [where I = "\<lambda>t. queue t = queue h"])
      (auto intro!: preserves_intros tick_freeI count)
  then show ?thesis by (simp add: on_relay_timer_def exec_simps Let_def case_prod_unfold)
qed

lemma on_relay_timer_lists:
  assumes "run_state (on_relay_timer e ml) h = (ml', h')" and "lists_ok e (h, ml)"
  shows "lists_ok e (h', ml')"
  using relay_timer_run [of e ml h] assms by (auto simp: lists_ok_def split: if_splits)

lemma lists_ok_step:
  assumes "loop_step e s t" and ok: "lists_ok e s"
  shows "lists_ok e t"
  using assms(1)
proof cases
  case (loop_event ev ml h ml' h')
  have ok': "lists_ok e (h, ml)" using ok loop_event(1) by simp
  show ?thesis
  proof (cases ev)
    case Relay_Timer
    with loop_event(3) show ?thesis
      by (auto simp: loop_event(2) on_loop_event_def exec_simps split: prod.splits
          intro: on_relay_timer_lists [OF _ ok'])
  next
    case Channel
    with loop_event(3) show ?thesis
      by (auto simp: loop_event(2) on_loop_event_def exec_simps split: prod.splits
          intro: main_recv_lists [OF _ ok'])
  next
    case (Datagram msg addr)
    then obtain sv' where r: "run_state (handle_udp e (sv ml) msg addr) h = (Inr sv', h')" and ml': "ml' = ml\<lparr>sv := sv'\<rparr>"
      using loop_event(3) by (auto simp: on_loop_event_def exec_simps split: prod.splits sum.splits)
    have "relay_servers sv' = relay_servers (sv ml)" "relay_servers0 sv' = relay_servers0 (sv ml)"
      using handle_udp_server(2) [OF r refl] by (metis server.simps(13,14) server.ext_inject server.surjective server.update_convs(3,4))+
    with ok' handle_udp_server(1) [OF r] show ?thesis by (simp add: loop_event(2) ml' lists_ok_def)
  qed (use loop_event ok' in \<open>auto simp: on_loop_event_def lists_ok_def exec_simps\<close>)
next
  case (probe_done ps ml answered h h')
  have "hosts_ok e answered"
    using ok probe_done(3,4) by (auto simp: probe_done(1) lists_ok_def intro: hosts_ok_subset)
  with ok probe_done(5) show ?thesis
    by (auto simp: probe_done(1,2) lists_ok_def check_relay_servers_def exec_simps split: if_splits
        dest: set_remove1_subset [THEN subsetD])
next
  case (loop_console sv0 cmd h reply h' ml)
  obtain lists where "queue h' = queue h @ map RelayServers0 lists"
    using preservesD_run [OF frame_check_cmd loop_console(3) frame_refl] by (auto simp: console_frame_def)
  with ok show ?thesis by (auto simp: loop_console(1,2) lists_ok_def)
next
  case (loop_message msg addr h h' ml)
  with ok show ?thesis by (auto simp: lists_ok_def exec_simps)
qed

text \<open>The state in which the loop starts.\<close>

definition loop_start :: "'e loop_env_scheme \<Rightarrow> 'w hub_scheme \<times> main_loop \<Rightarrow> bool" where
  "loop_start e = (\<lambda>(h, ml). queue h = [] \<and>
     (\<exists>(c :: case_env) en port ser key h0 p q. run_state (start_server e c en port ser key) h0 = ((ml, p, q), h)))"

interpretation relay_list_machine: machine "loop_start e" "loop_step e" "lists_ok e"
  for e :: "'e loop_env_scheme"
proof unfold_locales
  show "lists_ok e s" if st: "loop_start e s" for s :: "'w hub_scheme \<times> main_loop"
  proof -
    obtain h ml where s: "s = (h, ml)" by fastforce
    obtain c :: case_env and en port ser key h0 p q where q: "queue h = []"
      and run: "run_state (start_server e c en port ser key) h0 = ((ml, p, q), h)"
      using st by (auto simp: s loop_start_def)
    let ?rs = "get_servers e (get_arg c ''relay-servers'' en)"
    have "relay_servers (sv ml) = ?rs \<and> relay_servers0 (sv ml) = ?rs \<and> probes ml = []"
      using arg_cong [OF run, of "\<lambda>r. fst (fst r)"]
      by (auto simp: start_server_def read_always_use_relay_def parse_relay_servers_def Let_def exec_simps case_prod_unfold)
    with q show ?thesis by (simp add: s lists_ok_def)
  qed
  show "lists_ok e t" if "lists_ok e s" and "loop_step e s t" for s t :: "'w hub_scheme \<times> main_loop"
    using that(2,1) by (rule lists_ok_step)
qed

section \<open>Properties\<close>

definition sample_loop_env :: loop_env where
  "sample_loop_env = console_env.extend sample_console_env
     \<lparr>socket_ok = (\<lambda>_. True), version_from_url = (\<lambda>_. ''''), parse_network = (\<lambda>_. None),
      local_ip_text = '''', rendezvous_port = ''21116'', relay_port = 21117\<rparr>"

lemmas sample_loop = sample_loop_env_def console_env.extend_def sample_console

definition sample_loop_state :: "server \<Rightarrow> main_loop" where
  "sample_loop_state s0 = \<lparr>sv = s0, tick_count = 0, probes = [], spawned = []\<rparr>"

text \<open>
  C29: Whatever the console sends, and however the relay checks overlap: a relay server that hbbs
  offers to a client is a host that resolved when its list was read, and no empty name; when there
  is none the client is told so by the empty text.
\<close>

theorem offered_relays_resolved:
  assumes "reach (loop_start e) (loop_step e) (h, ml)"
    and "run_state (get_relay_server (sv ml)) h = (rs, h')"
  shows "rs = '''' \<and> relay_servers (sv ml) = [] \<or> rs \<noteq> '''' \<and> valid_server e rs \<and> rs \<in> set (relay_servers (sv ml))"
proof -
  have "hosts_ok e (relay_servers (sv ml))"
    using relay_list_machine.reach_inv [OF assms(1)] by (simp add: lists_ok_def)
  moreover have "rs = '''' \<and> relay_servers (sv ml) = [] \<or> rs \<in> set (relay_servers (sv ml))"
    using assms(2) by (auto simp: get_relay_server_def exec_simps split: if_splits)
  ultimately show ?thesis by (auto simp: hosts_ok_def)
qed

lemma offered_relays_resolved_witness:
  "\<exists>h ml rs h'. reach (loop_start sample_loop_env) (loop_step sample_loop_env) ((h :: hub), ml) \<and>
     run_state (get_relay_server (sv ml)) h = (rs, h') \<and> rs = ''a''"
proof -
  let ?e = sample_loop_env and ?en = "[(''RELAY-SERVERS'', ''a,Y'')]"
  obtain ml p q h where st: "run_state (start_server ?e sample_case ?en 21116 0 None) sample_hub = ((ml, p, q), h)"
    by (metis prod.collapse)
  have arg: "get_arg sample_case ''relay-servers'' ?en = ''a,Y''" by code_simp
  have sv: "relay_servers (sv ml) = [''a'']" and q: "queue h = []"
    using st by (auto simp: start_server_def read_always_use_relay_def arg parse_relay_servers_def get_servers_def server_names sample_loop sample_hub_def
        Let_def exec_simps split: if_splits)
  have "loop_start ?e (h, ml)" using st q unfolding loop_start_def by blast
  then have r: "reach (loop_start ?e) (loop_step ?e) (h, ml)" by (rule reach_start)
  obtain rs h' where g: "run_state (get_relay_server (sv ml)) h = (rs, h')" by (metis prod.collapse)
  from offered_relays_resolved [OF r g] sv have "rs = ''a''" by auto
  with r g show ?thesis by blast
qed

text \<open>
  A relay check does not remember for which configuration it was started. When the operator
  replaces two servers by a single one while a check is under way, its result, a server that was just
  taken out of service, replaces the new list; with a single server configured no further check is
  started, so nothing corrects this: hbbs goes on offering the old server.
\<close>

theorem stale_probe_result_sticks:
  fixes h :: "'w hub_scheme"
  assumes "relay_servers0 (sv ml) = [old, other]" and "queue h = []" and "probes ml = []"
    and "trim (''rs '' @ new) = ''rs '' @ new" and "split_on (CHR '' '') (''rs '' @ new) = [''rs'', new]"
    and "get_servers e new = [new]"
  shows "\<exists>h' ml'. (loop_step e)\<^sup>*\<^sup>* (h, ml) (h', ml') \<and> relay_servers0 (sv ml') = [new] \<and>
    relay_servers (sv ml') = [old] \<and> probes ml' = [] \<and> queue h' = [] \<and>
    (\<forall>h1. \<exists>h2 n. run_state (on_loop_event e Relay_Timer ml') h1 = (Inr (ml'\<lparr>tick_count := n\<rparr>), h2))"
proof -

  let ?sv1 = "parse_relay_servers e new (sv ml)"
  obtain h1 where t: "run_state (on_loop_event e Relay_Timer ml) h =
      (Inr (ml\<lparr>tick_count := tick_count ml + 1, probes := [[old, other]]\<rparr>), h1)" (is "_ = (Inr ?ml1, _)")
    and q1: "queue h1 = []"
    using relay_timer_run [of e ml h] assms(1-3) by (auto simp: on_loop_event_def exec_simps)
  have rs: "run_state (check_cmd e (sv ml) (''rs '' @ new)) h1 = ('''', h1\<lparr>queue := [RelayServers0 new]\<rparr>)"
    using assms(4,5) q1 by (simp add: check_cmd_def cmd_relay_servers_def exec_simps)
  have rec0: "run_state (on_loop_event e Channel ?ml1) (h1\<lparr>queue := [RelayServers0 new]\<rparr>) =
      (Inr (?ml1\<lparr>sv := ?sv1\<rparr>), h1\<lparr>queue := []\<rparr>)"
    by (simp add: on_loop_event_def main_recv_def exec_simps)
  have ended: "run_state (check_relay_servers [old]) (h1\<lparr>queue := []\<rparr>) = ((), h1\<lparr>queue := [RelayServers [old]]\<rparr>)"
    by (simp add: check_relay_servers_def exec_simps)
  let ?ml3 = "?ml1\<lparr>sv := ?sv1\<rparr>\<lparr>probes := []\<rparr>"
  let ?ml4 = "?ml3\<lparr>sv := ?sv1\<lparr>relay_servers := [old]\<rparr>\<rparr>"
  have rec1: "run_state (on_loop_event e Channel ?ml3) (h1\<lparr>queue := [RelayServers [old]]\<rparr>) = (Inr ?ml4, h1\<lparr>queue := []\<rparr>)"
    by (simp add: on_loop_event_def main_recv_def exec_simps)
  have "(loop_step e)\<^sup>*\<^sup>* (h, ml) (h1, ?ml1)" using loop_event [OF t] by (rule r_into_rtranclp)
  also have "loop_step e (h1, ?ml1) (h1\<lparr>queue := [RelayServers0 new]\<rparr>, ?ml1)" using loop_console [OF rs] .
  also have "loop_step e (h1\<lparr>queue := [RelayServers0 new]\<rparr>, ?ml1) (h1\<lparr>queue := []\<rparr>, ?ml1\<lparr>sv := ?sv1\<rparr>)"
    using loop_event [OF rec0] .
  also have "loop_step e (h1\<lparr>queue := []\<rparr>, ?ml1\<lparr>sv := ?sv1\<rparr>) (h1\<lparr>queue := [RelayServers [old]]\<rparr>, ?ml3)"
    using probe_done [of "[old, other]" "?ml1\<lparr>sv := ?sv1\<rparr>" "[old]", OF _ _ ended] by simp
  also have "loop_step e (h1\<lparr>queue := [RelayServers [old]]\<rparr>, ?ml3) (h1\<lparr>queue := []\<rparr>, ?ml4)"
    using loop_event [OF rec1] .
  finally have steps: "(loop_step e)\<^sup>*\<^sup>* (h, ml) (h1\<lparr>queue := []\<rparr>, ?ml4)" .
  have stuck: "\<exists>h2 n. run_state (on_loop_event e Relay_Timer ?ml4) h3 = (Inr (?ml4\<lparr>tick_count := n\<rparr>), h2)" for h3
    using relay_timer_run [of e ?ml4 h3] assms(6)
    by (auto simp: on_loop_event_def parse_relay_servers_def Let_def exec_simps intro!: exI [of _ "2 + tick_count ml"])
  show ?thesis
  proof (rule exI [of _ "h1\<lparr>queue := []\<rparr>"], rule exI [of _ ?ml4], intro conjI)
    show "\<forall>h3. \<exists>h2 n. run_state (on_loop_event e Relay_Timer ?ml4) h3 = (Inr (?ml4\<lparr>tick_count := n\<rparr>), h2)"
      using stuck by (rule allI)
  qed (use steps assms(6) in \<open>simp_all add: parse_relay_servers_def Let_def\<close>)
qed

lemma stale_probe_result_sticks_witness:
  "\<exists>h' ml'. (loop_step sample_loop_env)\<^sup>*\<^sup>* (sample_hub :: hub, sample_loop_state (sample_server\<lparr>relay_servers0 := [''a'', ''b'']\<rparr>)) (h', ml') \<and>
     relay_servers0 (sv ml') = [''c''] \<and> relay_servers (sv ml') = [''a'']"
proof -
  have "relay_servers0 (sv (sample_loop_state (sample_server\<lparr>relay_servers0 := [''a'', ''b'']\<rparr>))) = [''a'', ''b'']"
    "queue sample_hub = []" "probes (sample_loop_state (sample_server\<lparr>relay_servers0 := [''a'', ''b'']\<rparr>)) = []"
    by (simp_all add: sample_loop_state_def sample_hub_def)
  moreover have "trim (''rs '' @ ''c'') = ''rs '' @ ''c''" "split_on (CHR '' '') (''rs '' @ ''c'') = [''rs'', ''c'']"
    by (simp_all add: trim_ascii printing_def)
  moreover have "get_servers sample_loop_env ''c'' = [''c'']" by (simp add: get_servers_def server_names sample_loop)
  ultimately show ?thesis
    using stale_probe_result_sticks [of "sample_loop_state (sample_server\<lparr>relay_servers0 := [''a'', ''b'']\<rparr>)"
        "''a''" "''b''" sample_hub "''c''" sample_loop_env] by blast
qed


text \<open>The connections a list of events accepts.\<close>

fun accepted :: "loop_event \<Rightarrow> (port \<times> socket_addr) option" where
  "accepted (Accepted p addr) = Some (p, addr)"
| "accepted ev = None"

text \<open>What a connection task needs of its server and nothing ever changes.\<close>

definition same_identity :: "server \<Rightarrow> server \<Rightarrow> bool" where
  "same_identity s t \<longleftrightarrow> sk s = sk t \<and> mask s = mask t \<and> local_ip s = local_ip t \<and>
     version s = version t \<and> software_url s = software_url t"

lemma on_loop_event_spawned:
  assumes "run_state (on_loop_event e ev ml) h = (Inr ml', h')"
  shows "spawned ml' = spawned ml @ (case accepted ev of None \<Rightarrow> [] | Some (p, addr) \<Rightarrow> [(p, addr, sv ml)])"
    and "same_identity (sv ml') (sv ml)"
proof -
  have udp: "same_identity sv' (sv ml)" if "run_state (handle_udp e (sv ml) msg addr) h = (Inr sv', h')" for sv' msg addr
    using handle_udp_server(2) [OF that refl] by (cases sv', cases "sv ml") (simp add: same_identity_def)
  have recv: "same_identity sv' (sv ml)" if "run_state (main_recv e (sv ml)) h = (sv', h')" for sv'
    using that
    by (auto simp: main_recv_def parse_relay_servers_def Let_def same_identity_def exec_simps
        split: list.splits data.splits prod.splits)
  show "spawned ml' = spawned ml @ (case accepted ev of None \<Rightarrow> [] | Some (p, addr) \<Rightarrow> [(p, addr, sv ml)])"
    and "same_identity (sv ml') (sv ml)"
    using assms udp recv relay_timer_run [of e ml h]
    by (cases ev; auto simp: on_loop_event_def same_identity_def exec_simps split: prod.splits sum.splits)+
qed

text \<open>
  Failing sockets cost no connection: however often one has to be opened again, every connection
  that was accepted is served, once and in order, by a task whose copy of the server has the key,
  the network and the version the program was started with.
\<close>

theorem accepted_connections_served:
  assumes "run_state (run_main e evs ml) h = (Inr ml', h')"
  shows "\<exists>new. spawned ml' = spawned ml @ new \<and>
    map (\<lambda>(p, addr, s). (p, addr)) new = List.map_filter accepted evs \<and>
    (\<forall>(p, addr, s) \<in> set new. same_identity s (sv ml)) \<and> same_identity (sv ml') (sv ml)"
  using assms
proof (induction evs arbitrary: ml h)
  case Nil
  then show ?case by (simp add: exec_simps List.map_filter_simps same_identity_def)
next
  case (Cons ev evs)
  obtain r h1 where ev: "run_state (on_loop_event e ev ml) h = (r, h1)" by (metis prod.collapse)
  show ?case
  proof (cases r)
    case (Inl failed)
    then have "accepted ev = None"
      using ev by (cases ev) (auto simp: on_loop_event_def exec_simps)
    moreover have "run_state (run_main e evs (ml\<lparr>tick_count := 0\<rparr>)) (h1\<lparr>ticks := Suc (ticks h1)\<rparr>) = (Inr ml', h')"
      using Cons.prems ev Inl by (auto simp: exec_simps split: if_splits)
    ultimately show ?thesis using Cons.IH by (fastforce simp: List.map_filter_simps)
  next
    case (Inr ml1)
    have "run_state (run_main e evs ml1) h1 = (Inr ml', h')" using Cons.prems ev Inr by (auto simp: exec_simps)
    from Cons.IH [OF this] obtain new where new: "spawned ml' = spawned ml1 @ new"
      "map (\<lambda>(p, addr, s). (p, addr)) new = List.map_filter accepted evs"
      "\<forall>(p, addr, s) \<in> set new. same_identity s (sv ml1)" "same_identity (sv ml') (sv ml1)" by blast
    have step: "spawned ml1 = spawned ml @ (case accepted ev of None \<Rightarrow> [] | Some (p, addr) \<Rightarrow> [(p, addr, sv ml)])"
      "same_identity (sv ml1) (sv ml)"
      using on_loop_event_spawned ev Inr by blast+
    show ?thesis
      by (rule exI [of _ "(case accepted ev of None \<Rightarrow> [] | Some (p, addr) \<Rightarrow> [(p, addr, sv ml)]) @ new"])
        (use new step in \<open>auto simp: List.map_filter_simps same_identity_def split: option.splits\<close>)
  qed
qed

lemma accepted_connections_served_witness:
  "\<exists>ml' h'. run_state (run_main sample_loop_env [Accepted Main_Port (SockV4 1 2), Accept_Error Ws_Port,
       Accepted Ws_Port (SockV4 3 4)] (sample_loop_state sample_server)) (sample_hub :: hub) = (Inr ml', h') \<and>
     map (\<lambda>(p, addr, s). (p, addr)) (spawned ml') = [(Main_Port, SockV4 1 2), (Ws_Port, SockV4 3 4)]"
proof -
  let ?evs = "[Accepted Main_Port (SockV4 1 2), Accept_Error Ws_Port, Accepted Ws_Port (SockV4 3 4)]"
  have "isl (fst (run_state (run_main sample_loop_env ?evs (sample_loop_state sample_server)) (sample_hub :: hub))) = False"
    by (simp add: on_loop_event_def sample_loop exec_simps)
  then obtain ml' h' where r: "run_state (run_main sample_loop_env ?evs (sample_loop_state sample_server)) (sample_hub :: hub) = (Inr ml', h')"
    by (metis prod.collapse sum.collapse(2))
  from accepted_connections_served [OF r] r show ?thesis
    by (auto simp: sample_loop_state_def List.map_filter_simps)
qed

end
