(* ===== verification/Proxy.thy ===== *)
theory Proxy
  imports Net
begin

text \<open>
  WebSocket clients behind a reverse proxy: the same callback in \<open>handle_listener_inner\<close> of
  src/rendezvous_server/io.rs and in \<open>make_pair\<close> of src/relay_server/connection.rs. The address of the
  client is taken from the headers the proxy sets, with port 0, when it parses. \<open>to_str\<close> is the check
  of the HTTP crate that a header is visible ASCII, \<open>parse\<close> is \<open>SocketAddr::from_str\<close>.
\<close>

definition forwarded_addr ::
  "(string \<Rightarrow> string option) \<Rightarrow> (string \<Rightarrow> socket_addr option) \<Rightarrow> (string \<Rightarrow> string option)
     \<Rightarrow> socket_addr \<Rightarrow> socket_addr" where
  "forwarded_addr to_str parse headers addr =
     (let value = (case headers ''X-Real-IP'' of Some v \<Rightarrow> Some v | None \<Rightarrow> headers ''X-Forwarded-For'')
      in case Option.bind value to_str of
          None \<Rightarrow> addr
        | Some ip \<Rightarrow>
            (case parse (if CHR ''.'' \<in> set ip then ip @ '':0'' else ''['' @ ip @ '']:0'') of
               None \<Rightarrow> addr
             | Some a \<Rightarrow> a))"

text \<open>With a header that parses, the connection's own address plays no part.\<close>

lemma forwarded_addr_cases:
  "(\<forall>addr. forwarded_addr to_str parse headers addr = addr) \<or>
   (\<exists>a. \<forall>addr. forwarded_addr to_str parse headers addr = a)"
  by (auto simp: forwarded_addr_def Let_def split: option.splits)

end
