(* ===== verification/Secure.thy ===== *)
theory Secure
  imports Dispatch Assoc Proxy
begin

text \<open>
  The \<open>secure_tcp\<close> handshake of hbbs: src/rendezvous_server/secure.rs and the read loops of
  \<open>handle_listener_inner\<close> in io.rs.

  A connection reads a list of frames; the list ends where the stream does, where it fails, or where
  nothing came for 30 seconds. Key generation, signing and opening boxes are functions of
  sodiumoxide. \<open>decrypt\<close> is hbb_common's \<open>Encrypt::dec\<close>: the key, the frames it has been given before
  (on which its counter depends) and the frame; \<open>parse_message\<close> is the protobuf parser, \<open>None\<close> when
  it fails.
\<close>

record secure_env = hub_env +
  box_keypair :: "nat \<Rightarrow> bytes \<times> bytes"
  sign_bytes :: "bytes \<Rightarrow> bytes \<Rightarrow> bytes"
  box_open :: "bytes \<Rightarrow> bytes \<Rightarrow> bytes \<Rightarrow> bytes option"
  decrypt :: "bytes \<Rightarrow> bytes list \<Rightarrow> bytes \<Rightarrow> bytes option"
  parse_message :: "bytes \<Rightarrow> message option"
  header_str :: "string \<Rightarrow> string option"
  parse_socket_addr :: "string \<Rightarrow> socket_addr option"

section \<open>The handshake\<close>

text \<open>
  What a TCP connection keeps: its sink slot, the box secret key of a pending offer, and once it is
  secured the symmetric key with the frames decrypted so far.
\<close>

record tcp_conn =
  slot :: "sink option"
  offer :: "bytes option"
  opened :: "(bytes \<times> bytes list) option"

text \<open>\<open>KeyOffer::accept\<close>: two keys, a public key of 32 bytes and a box that opens to 32 bytes.\<close>

definition accept_key :: "'e secure_env_scheme \<Rightarrow> bytes \<Rightarrow> bytes list \<Rightarrow> bytes option" where
  "accept_key e secret keys = (case keys of
       [their_pk, sealed] \<Rightarrow>
         if length their_pk \<noteq> 32 then None
         else (case box_open e sealed their_pk secret of
             None \<Rightarrow> None
           | Some key \<Rightarrow> if length key = 32 then Some key else None)
     | _ \<Rightarrow> None)"

text \<open>\<open>KeyOffer::new\<close>: a fresh key pair, the public half signed with the server's key.\<close>

definition new_offer :: "'e secure_env_scheme \<Rightarrow> bytes \<Rightarrow> ('w world_scheme, bytes \<times> message) state" where
  "new_offer e key = do {
     k \<leftarrow> tick;
     State_Monad.return (snd (box_keypair e k), KeyExchange [sign_bytes e (fst (box_keypair e k)) key])
   }"

definition open_tcp ::
  "'e secure_env_scheme \<Rightarrow> server \<Rightarrow> nat \<Rightarrow> ('w hub_scheme, tcp_conn) state" where
  "open_tcp e sv n = (case sk sv of
       None \<Rightarrow> State_Monad.return \<lparr>slot = Some (TcpStream n None), offer = None, opened = None\<rparr>
     | Some key \<Rightarrow> do {
         (secret, msg) \<leftarrow> new_offer e key;
         send_to_sink e (Some (TcpStream n None)) msg;
         State_Monad.return \<lparr>slot = Some (TcpStream n None), offer = Some secret, opened = None\<rparr>
       })"

text \<open>Installing the key in the sink, when the connection still owns it.\<close>

definition secure_slot :: "bytes \<Rightarrow> sink option \<Rightarrow> sink option" where
  "secure_slot k sl = (case sl of Some (TcpStream n _) \<Rightarrow> Some (TcpStream n (Some k)) | _ \<Rightarrow> sl)"

definition handle_frame ::
  "'e secure_env_scheme \<Rightarrow> server \<Rightarrow> string \<Rightarrow> socket_addr \<Rightarrow> bytes \<Rightarrow> tcp_conn
     \<Rightarrow> ('w hub_scheme, bool \<times> tcp_conn) state" where
  "handle_frame e sv key addr bytes c = do {
     r \<leftarrow> handle_tcp e sv (parse_message e bytes) (slot c) addr key False;
     State_Monad.return (fst r, c\<lparr>slot := snd r\<rparr>)
   }"

text \<open>One frame; \<open>False\<close> leaves the loop.\<close>

definition on_frame ::
  "'e secure_env_scheme \<Rightarrow> server \<Rightarrow> string \<Rightarrow> socket_addr \<Rightarrow> bytes \<Rightarrow> tcp_conn
     \<Rightarrow> ('w hub_scheme, bool \<times> tcp_conn) state" where
  "on_frame e sv key addr bytes c = (case opened c of
       Some (k, seen) \<Rightarrow>
         (case decrypt e k seen bytes of
            None \<Rightarrow> State_Monad.return (False, c)
          | Some plain \<Rightarrow> handle_frame e sv key addr plain (c\<lparr>opened := Some (k, seen @ [bytes])\<rparr>))
     | None \<Rightarrow>
         (case offer c of
            None \<Rightarrow> handle_frame e sv key addr bytes c
          | Some secret \<Rightarrow>
              (case parse_message e bytes of
                 Some (KeyExchange keys) \<Rightarrow>
                   (case accept_key e secret keys of
                      Some k \<Rightarrow> State_Monad.return
                        (True, \<lparr>slot = secure_slot k (slot c), offer = None, opened = Some (k, [])\<rparr>)
                    | None \<Rightarrow> State_Monad.return (False, c))
               | _ \<Rightarrow> handle_frame e sv key addr bytes (c\<lparr>offer := None\<rparr>))))"

fun read_loop ::
  "'e secure_env_scheme \<Rightarrow> server \<Rightarrow> string \<Rightarrow> socket_addr \<Rightarrow> bytes list \<Rightarrow> tcp_conn
     \<Rightarrow> ('w hub_scheme, tcp_conn) state" where
  "read_loop e sv key addr [] c = State_Monad.return c"
| "read_loop e sv key addr (f # fs) c = do {
     r \<leftarrow> on_frame e sv key addr f c;
     if fst r then read_loop e sv key addr fs (snd r) else State_Monad.return (snd r)
   }"

definition handle_tcp_connection ::
  "'e secure_env_scheme \<Rightarrow> server \<Rightarrow> string \<Rightarrow> socket_addr \<Rightarrow> nat \<Rightarrow> bytes list
     \<Rightarrow> ('w hub_scheme, tcp_conn) state" where
  "handle_tcp_connection e sv key addr n frames = do {
     c \<leftarrow> open_tcp e sv n;
     c' \<leftarrow> read_loop e sv key addr frames c;
     close_connection e (slot c') addr;
     State_Monad.return c'
   }"

section \<open>WebSocket connections\<close>

text \<open>Only binary frames are looked at; \<open>None\<close> is a frame of another type.\<close>

fun ws_loop ::
  "'e secure_env_scheme \<Rightarrow> server \<Rightarrow> string \<Rightarrow> socket_addr \<Rightarrow> bytes option list \<Rightarrow> sink option
     \<Rightarrow> ('w hub_scheme, sink option) state" where
  "ws_loop e sv key addr [] sl = State_Monad.return sl"
| "ws_loop e sv key addr (None # fs) sl = ws_loop e sv key addr fs sl"
| "ws_loop e sv key addr (Some bytes # fs) sl = do {
     r \<leftarrow> handle_tcp e sv (parse_message e bytes) sl addr key True;
     if fst r then ws_loop e sv key addr fs (snd r) else State_Monad.return (snd r)
   }"

definition handle_ws_connection ::
  "'e secure_env_scheme \<Rightarrow> server \<Rightarrow> string \<Rightarrow> (string \<Rightarrow> string option) \<Rightarrow> socket_addr \<Rightarrow> nat
     \<Rightarrow> bytes option list \<Rightarrow> ('w hub_scheme, unit) state" where
  "handle_ws_connection e sv key headers addr n frames = do {
     let client = forwarded_addr (header_str e) (parse_socket_addr e) headers addr;
     sl \<leftarrow> ws_loop e sv key client frames (Some (Ws n));
     close_connection e sl client
   }"

section \<open>Lemmas\<close>

text \<open>A handler returns the slot it was given, or an empty one.\<close>

lemma handle_tcp_slot:
  assumes "run_state (handle_tcp e sv msg sl addr key ws) s = ((b, sl'), s')"
  shows "sl' = sl \<or> sl' = None"
  using assms
  by (auto simp: handle_tcp_def tcp_punch_request_def tcp_request_relay_def handle_tcp_register_peer_def
      handle_tcp_register_pk_def run_try_bind Let_def
      split: option.splits message.splits if_splits prod.splits)

text \<open>
  A sink is fit when it is of another connection than \<open>n\<close>, or its key (none in clear text) is one of
  \<open>k\<close>. \<open>keyed\<close> says that every stored sink is fit, and every sink that something was written to after
  the first \<open>len\<close> messages.
\<close>

definition fit :: "nat \<Rightarrow> bytes option set \<Rightarrow> sink \<Rightarrow> bool" where
  "fit n k x \<longleftrightarrow> (\<forall>k'. x = TcpStream n k' \<longrightarrow> k' \<in> k)"

definition keyed :: "nat \<Rightarrow> bytes option set \<Rightarrow> nat \<Rightarrow> 'w hub_scheme \<Rightarrow> bool" where
  "keyed n k len s \<longleftrightarrow> len \<le> length (sent s) \<and>
     (\<forall>(a, x) \<in> set (tcp_peers s). fit n k x) \<and> (\<forall>(a, x) \<in> set (tcp_punch s). fit n k x) \<and>
     (\<forall>(d, m) \<in> set (drop len (sent s)). \<forall>x. d = OnSink x \<longrightarrow> fit n k x)"

lemma fit_closed [simp]: "fit n k SinkClosed" "fit n k (Ws c)"
  by (simp_all add: fit_def)

lemma keyed_tick_free: "tick_free (keyed n k len)"
  by (simp add: tick_free_def keyed_def)

lemma keyed_net:
  fixes m :: "('w hub_scheme, 'a) state"
  assumes "\<And>peers punch q out. preserves (net_is peers punch q out) m"
  shows "preserves (keyed n k len) m"
proof (rule preservesI)
  fix s :: "'w hub_scheme"
  assume "keyed n k len s"
  then show "keyed n k len (snd (run_state m s))"
    using net_same [OF assms, of s] by (cases "run_state m s") (simp add: keyed_def)
qed

lemma keyed_modify:
  "(\<And>s. tcp_peers (f s) = tcp_peers s \<and> tcp_punch (f s) = tcp_punch s \<and> sent (f s) = sent s) \<Longrightarrow>
     preserves (keyed n k len) (modify f)"
  by (rule preserves_modify) (simp add: keyed_def)

lemma keyed_emit: "(\<And>x. d = OnSink x \<Longrightarrow> fit n k x) \<Longrightarrow> preserves (keyed n k len) (emit d m)"
  unfolding emit_def by (rule preserves_modify) (auto simp: keyed_def)

lemma keyed_enqueue: "preserves (keyed n k len) (enqueue d)"
  unfolding enqueue_def by (rule keyed_modify) simp

lemma keyed_snoc:
  "keyed n k len s \<Longrightarrow> (\<And>x. d = OnSink x \<Longrightarrow> fit n k x) \<Longrightarrow> keyed n k len (s\<lparr>sent := sent s @ [(d, m)]\<rparr>)"
  by (auto simp: keyed_def)

lemma keyed_send_to_sink: "(\<And>x. sl = Some x \<Longrightarrow> fit n k x) \<Longrightarrow> preserves (keyed n k len) (send_to_sink e sl m)"
  by (rule preservesI) (auto simp: run_send_to_sink split: option.splits intro: keyed_snoc)

lemma keyed_peer: "keyed n k len s \<Longrightarrow> map_of (tcp_peers s) a = Some x \<Longrightarrow> fit n k x"
  by (auto simp: keyed_def dest: map_of_SomeD)

lemma keyed_punch: "keyed n k len s \<Longrightarrow> map_of (tcp_punch s) a = Some x \<Longrightarrow> fit n k x"
  by (auto simp: keyed_def dest: map_of_SomeD)

lemma keyed_send_to_tcp_peer: "preserves (keyed n k len) (send_to_tcp_peer e addr m)"
  by (rule preservesI)
    (auto simp: run_send_to_tcp_peer split: option.splits intro!: keyed_snoc dest: keyed_peer)

lemma keyed_store:
  assumes "keyed n k len s" and "fit n k x"
  shows "keyed n k len (s\<lparr>tcp_peers := AList.update a x (tcp_peers s)\<rparr>)"
    and "keyed n k len (s\<lparr>tcp_punch := AList.update a x (tcp_punch s)\<rparr>)"
proof -
  have upd: "\<forall>(b, y) \<in> set (AList.update a x m). fit n k y" if "\<forall>(b, y) \<in> set m. fit n k y"
    for m :: "(socket_addr \<times> sink) list"
    using that assms(2) set_update_subset [of a x m] by blast
  show "keyed n k len (s\<lparr>tcp_peers := AList.update a x (tcp_peers s)\<rparr>)"
    using assms(1) upd [of "tcp_peers s"] by (simp add: keyed_def)
  show "keyed n k len (s\<lparr>tcp_punch := AList.update a x (tcp_punch s)\<rparr>)"
    using assms(1) upd [of "tcp_punch s"] by (simp add: keyed_def)
qed

lemma keyed_drop:
  "keyed n k len s \<Longrightarrow> keyed n k len (s\<lparr>tcp_peers := remove_key a (tcp_peers s)\<rparr>)"
  "keyed n k len s \<Longrightarrow> keyed n k len (s\<lparr>tcp_punch := remove_key a (tcp_punch s)\<rparr>)"
  by (auto simp: keyed_def)

lemma keyed_adopt_sink: "(\<And>x. sl = Some x \<Longrightarrow> fit n k x) \<Longrightarrow> preserves (keyed n k len) (adopt_sink e a sl)"
  unfolding adopt_sink_def put_tcp_peer_def
  by (intro preserves_intros preserves_modify keyed_store) auto

lemma keyed_park_sink: "(\<And>x. sl = Some x \<Longrightarrow> fit n k x) \<Longrightarrow> preserves (keyed n k len) (park_sink e a sl)"
  unfolding park_sink_def by (intro preserves_intros preserves_modify keyed_store) auto

lemma keyed_punch_send:
  assumes "keyed n k len s"
  shows "keyed n k len (snd (run_state (send_to_tcp e msg a) s))"
    and "keyed n k len (snd (run_state (send_to_tcp_sync e msg a) s))"
proof -
  let ?k = "try_into_v4 e a"
  let ?s = "s\<lparr>tcp_punch := remove_key ?k (tcp_punch s)\<rparr>"
  have d: "keyed n k len ?s" using assms by (rule keyed_drop)
  have x: "keyed n k len (snd (run_state (send_to_sink e (Some x) msg) ?s))" if "map_of (tcp_punch s) ?k = Some x" for x
    using keyed_punch [OF assms that] d by (intro preservesD [OF keyed_send_to_sink]) auto
  have "run_state (send_to_tcp e msg a) s = run_state (send_to_tcp_sync e msg a) s"
    by (simp add: send_to_tcp_def send_to_tcp_sync_def)
  moreover show "keyed n k len (snd (run_state (send_to_tcp e msg a) s))"
    using preservesD [OF keyed_send_to_tcp_peer d, of e a msg] x
    by (cases "map_of (tcp_punch s) ?k")
      (auto simp: send_to_tcp_def take_punch_def run_gets run_modify split: prod.splits)
  ultimately show "keyed n k len (snd (run_state (send_to_tcp_sync e msg a) s))" by simp
qed

lemma keyed_send_to_punch:
  "preserves (keyed n k len) (send_to_tcp e msg a)" "preserves (keyed n k len) (send_to_tcp_sync e msg a)"
  using keyed_punch_send by (auto intro!: preservesI)

lemma keyed_retain_sessions: "preserves (keyed n k len) (retain_sessions e m)"
  by (induction e m rule: retain_sessions.induct) (auto intro!: preserves_intros keyed_tick_free)

lemma keyed_remember: "preserves (keyed n k len) (remember e a target token)"
  unfolding remember_def
  by (intro preserves_intros keyed_tick_free keyed_retain_sessions keyed_modify) simp

lemma keyed_token_for: "preserves (keyed n k len) (token_for e a target)"
  unfolding token_for_def by (intro preserves_intros keyed_tick_free)

lemma exec_stmt_net:
  "exec_stmt q s = Some (n, s') \<Longrightarrow> tcp_peers s' = tcp_peers s \<and> tcp_punch s' = tcp_punch s \<and> sent s' = sent s"
  by (cases q) (auto simp: exec_stmt.simps Let_def delete_where_def update_where_def split: option.splits)

lemma keyed_session_checks:
  "preserves (keyed n k len) (authorized e token)" "preserves (keyed n k len) (peer_ticket e token u)"
proof -
  have stmt: "preserves (keyed n k len) (execute e q)" for q
    unfolding execute_def
    by (rule preserves_sql [OF keyed_tick_free]) (drule exec_stmt_net, simp add: keyed_def)
  have sh: "preserves (keyed n k len) (shared e)"
  proof -
    have "preserves (keyed n k len) (run_all i e)" for i
      by (induction i) (auto intro!: preserves_intros keyed_tick_free)
    then show ?thesis
      unfolding shared_def by (intro preserves_intros keyed_modify) auto
  qed
  show "preserves (keyed n k len) (authorized e token)"
    unfolding authorized_def user_def by (intro preserves_intros keyed_tick_free sh)
  show "preserves (keyed n k len) (peer_ticket e token u)"
    unfolding peer_ticket_def ticket_def user_def random_token_def
    by (intro preserves_intros keyed_tick_free sh stmt)
qed


lemma keyed_get_pk: "preserves (keyed n k len) (get_pk e sv ver dev)"
  unfolding get_pk_def by (intro preserves_intros keyed_net [OF net_is_pm_get])

lemma keyed_get_relay_server: "preserves (keyed n k len) (get_relay_server sv)"
  unfolding get_relay_server_def by (intro preserves_intros keyed_modify) simp

lemma keyed_record_punch: "preserves (keyed n k len) (record_punch e from_ip to_ip dev)"
  unfolding record_punch_def by (intro preserves_intros keyed_tick_free keyed_modify) simp

lemma keyed_punch_request: "preserves (keyed n k len) (handle_punch_hole_request e sv a ph key ws)"
  unfolding handle_punch_hole_request_def elapsed_ms_def
  by (intro preserves_intros keyed_tick_free keyed_net [OF net_is_pm_get] keyed_record_punch
      keyed_get_relay_server)

lemma keyed_reply: "(\<And>x. sl = Some x \<Longrightarrow> fit n k x) \<Longrightarrow> preserves (keyed n k len) (reply_on_connection e sl a m)"
  unfolding reply_on_connection_def
  by (intro preserves_intros keyed_send_to_sink keyed_send_to_tcp_peer) auto

lemmas keyed_steps = preserves_intros keyed_tick_free keyed_send_to_punch keyed_get_pk keyed_remember
  keyed_token_for keyed_session_checks keyed_punch_request keyed_enqueue keyed_send_to_tcp_peer
  keyed_get_relay_server keyed_reply keyed_adopt_sink keyed_park_sink
  keyed_net [OF net_is_register_pk_result] keyed_net [OF net_is_register_peer_response]

text \<open>Every message of every connection, as long as its own slot is fit.\<close>

lemma keyed_handle_tcp:
  assumes "\<And>x. sl = Some x \<Longrightarrow> fit n k x"
  shows "preserves (keyed n k len) (handle_tcp e sv msg sl a key ws)"
proof -
  have hole: "preserves (keyed n k len) (handle_hole_sent e sv phs a False)"
    "preserves (keyed n k len) (handle_local_addr e sv la a False)" for phs la
    unfolding handle_hole_sent_def handle_local_addr_def by (simp, intro keyed_steps)+
  have punch: "preserves (keyed n k len) (tcp_punch_request e sv ph sl a key ws)" for ph
    unfolding tcp_punch_request_def handle_tcp_punch_hole_request_def
    by (intro keyed_steps assms)
  have relay: "preserves (keyed n k len) (tcp_request_relay e rf sl a)" for rf
    unfolding tcp_request_relay_def get_in_memory_def by (intro keyed_steps assms)
  have response: "preserves (keyed n k len) (tcp_relay_response e sv rr sl a)" for rr
    unfolding tcp_relay_response_def answer_peer_initiated_relay_def
    by (intro keyed_steps assms)
  have reg_peer: "preserves (keyed n k len) (handle_tcp_register_peer e sv dev i sl a)" for dev i
    unfolding handle_tcp_register_peer_def by (intro keyed_steps assms)
  have reg_pk: "preserves (keyed n k len) (handle_tcp_register_pk e rk sl a)" for rk
    unfolding handle_tcp_register_pk_def by (intro keyed_steps assms)
  have here: "preserves (keyed n k len) (is_tcp_peer e a)"
    unfolding is_tcp_peer_def by (intro keyed_steps)
  show ?thesis
    unfolding handle_tcp_def Let_def
    by (cases msg; (cases "the msg")?)
      (auto intro!: preserves_bind preserves_return here hole punch relay response reg_peer reg_pk keyed_reply assms)
qed


lemma keyed_handle_udp: "preserves (keyed n k len) (handle_udp e sv msg a)"
proof -
  have udp: "preserves (keyed n k len) (udp_send e a m)" for m
    unfolding udp_send_def by (intro keyed_steps keyed_emit) simp
  show ?thesis
    unfolding handle_udp_def
    by (cases msg; (cases "the msg")?)
      (auto intro!: preserves_try_bind preserves_bind preserves_return udp
        keyed_net [OF net_is_register_pk_result] keyed_net [OF net_is_register_peer_response])
qed

lemma keyed_main_recv: "preserves (keyed n k len) (main_recv e sv)"
proof -
  have "preserves (keyed n k len) (udp_send e a m)" for a m
    unfolding udp_send_def by (intro keyed_steps keyed_emit) simp
  then have "preserves (keyed n k len) (deliver e m a)" for a m
    unfolding deliver_def by (intro keyed_steps)
  then show ?thesis
    unfolding main_recv_def by (auto split: list.splits data.splits intro!: keyed_steps keyed_modify)
qed

lemma keyed_close_connection: "preserves (keyed n k len) (close_connection e sl a)"
  unfolding close_connection_def forget_tcp_peer_def by (intro keyed_steps preserves_modify keyed_drop)

lemma keyed_open_tcp: "m \<noteq> n \<Longrightarrow> preserves (keyed n k len) (open_tcp e sv m)"
  unfolding open_tcp_def new_offer_def by (intro keyed_steps keyed_send_to_sink) (auto simp: fit_def split: prod.splits intro!: keyed_steps keyed_send_to_sink)

lemma keyed_mono: "keyed n k len s \<Longrightarrow> k \<subseteq> k' \<Longrightarrow> keyed n k' len s"
  by (fastforce simp: keyed_def fit_def)


section \<open>A connection among the others\<close>

text \<open>
  One TCP connection, number \<open>n\<close>, in hbbs: its own frames, the messages, openings and ends of the
  other connections, datagrams, and what the main loop takes from its channel. Each step is the whole
  handler; theory Sinks has the interleavings inside a send.
\<close>

inductive secure_step ::
  "'e secure_env_scheme \<Rightarrow> nat \<Rightarrow> 'w hub_scheme \<times> tcp_conn \<Rightarrow> 'w hub_scheme \<times> tcp_conn \<Rightarrow> bool"
  for e :: "'e secure_env_scheme" and n :: nat where
  own_frame: "run_state (on_frame e sv key a f c) h = ((b, c'), h') \<Longrightarrow> secure_step e n (h, c) (h', c')"
| other_message: "run_state (handle_tcp e sv msg sl a key ws) h = (r, h') \<Longrightarrow>
    (\<And>k'. sl \<noteq> Some (TcpStream n k')) \<Longrightarrow> secure_step e n (h, c) (h', c)"
| other_open: "run_state (open_tcp e sv m) h = (c0, h') \<Longrightarrow> m \<noteq> n \<Longrightarrow> secure_step e n (h, c) (h', c)"
| other_close: "run_state (close_connection e sl a) h = ((), h') \<Longrightarrow> secure_step e n (h, c) (h', c)"
| datagram: "run_state (handle_udp e sv msg a) h = (res, h') \<Longrightarrow> secure_step e n (h, c) (h', c)"
| channel: "run_state (main_recv e sv) h = (sv', h') \<Longrightarrow> secure_step e n (h, c) (h', c)"

text \<open>
  A connection has just been opened with an offer when its number is new, i.e. no sink of it is
  stored; \<open>base\<close> is how much hbbs had sent by then, the offer included.
\<close>

definition just_opened ::
  "'e secure_env_scheme \<Rightarrow> nat \<Rightarrow> nat \<Rightarrow> 'w hub_scheme \<times> tcp_conn \<Rightarrow> bool" where
  "just_opened e n base = (\<lambda>(h, c). \<exists>sv h0. sk sv \<noteq> None \<and>
     (\<forall>(a, x) \<in> set (tcp_peers h0 @ tcp_punch h0). fit n {} x) \<and>
     run_state (open_tcp e sv n) h0 = (c, h) \<and> base = length (sent h))"

definition negotiation :: "nat \<Rightarrow> nat \<Rightarrow> 'w hub_scheme \<times> tcp_conn \<Rightarrow> bool" where
  "negotiation n base = (\<lambda>(h, c).
     (case opened c of
        Some (k, seen) \<Rightarrow> offer c = None \<and> keyed n {Some k} base h \<and> (\<forall>x. slot c = Some x \<longrightarrow> fit n {Some k} x)
      | None \<Rightarrow> offer c \<noteq> None \<longrightarrow> keyed n {} base h \<and> slot c = Some (TcpStream n None)))"

lemma negotiation_others:
  assumes "\<And>k. preserves (keyed n k base) m" and "run_state m h = (r, h')" and "negotiation n base (h, c)"
  shows "negotiation n base (h', c)"
  using assms(3) preservesD_run [OF assms(1,2)] by (auto simp: negotiation_def split: option.splits)

text \<open>The connection's own frames.\<close>

lemma negotiation_secured:
  assumes "opened c = Some (k, seen)" and "negotiation n base (h, c)"
    and "run_state (on_frame e sv key a f c) h = ((b, c'), h')"
  shows "negotiation n base (h', c')"
proof (cases "decrypt e k seen f")
  case None
  with assms show ?thesis by (simp add: on_frame_def exec_simps)
next
  case (Some plain)
  have fit: "\<And>x. slot c = Some x \<Longrightarrow> fit n {Some k} x" and ok: "keyed n {Some k} base h" and "offer c = None"
    using assms(1,2) by (auto simp: negotiation_def)
  obtain r where r: "run_state (handle_tcp e sv (parse_message e plain) (slot c) a key False) h = ((b, r), h')"
    and c': "c' = c\<lparr>slot := r, opened := Some (k, seen @ [f])\<rparr>"
    using assms(1,3) Some by (auto simp: on_frame_def handle_frame_def exec_simps split: prod.splits)
  from preservesD_run [OF keyed_handle_tcp r ok, OF fit] handle_tcp_slot [OF r] fit \<open>offer c = None\<close>
  show ?thesis by (auto simp: negotiation_def c')
qed

lemma negotiation_clear:
  assumes "opened c = None" and "negotiation n base (h, c)"
    and "run_state (on_frame e sv key a f c) h = ((b, c'), h')"
  shows "negotiation n base (h', c')"
proof -
  have "opened c' = None \<and> (offer c' = None \<or> c' = c \<and> h' = h) \<or>
    (\<exists>secret k. offer c = Some secret \<and> c' = \<lparr>slot = secure_slot k (slot c), offer = None, opened = Some (k, [])\<rparr> \<and> h' = h)"
    using assms(1,3)
    by (auto simp: on_frame_def handle_frame_def exec_simps split: option.splits message.splits prod.splits)
  with assms(2) show ?thesis
  proof (elim disjE exE conjE)
    fix secret k
    assume "offer c = Some secret" and c': "c' = \<lparr>slot = secure_slot k (slot c), offer = None, opened = Some (k, [])\<rparr>"
      and [simp]: "h' = h"
    with assms(1,2) have "keyed n {} base h" and sl: "slot c = Some (TcpStream n None)"
      by (auto simp: negotiation_def)
    then have "keyed n {Some k} base h" using keyed_mono by blast
    then show ?thesis by (simp add: negotiation_def c' sl secure_slot_def fit_def)
  qed (simp_all add: negotiation_def)
qed

lemma negotiation_step:
  assumes "secure_step e n s t" and ok: "negotiation n base s"
  shows "negotiation n base t"
  using assms(1)
proof cases
  case (own_frame sv key a f c h b c' h')
  then have "negotiation n base (h, c)" using ok by simp
  from negotiation_clear [OF _ this own_frame(3)] negotiation_secured [OF _ this own_frame(3)]
  show ?thesis by (cases "opened c") (auto simp: own_frame(2))
next
  case (other_message sv msg sl a key ws h r h' c)
  have "preserves (keyed n k base) (handle_tcp e sv msg sl a key ws)" for k
    by (rule keyed_handle_tcp) (use other_message(4) in \<open>auto simp: fit_def\<close>)
  from negotiation_others [OF this other_message(3)] ok show ?thesis by (simp add: other_message(1,2))
next
  case (other_open sv m h c0 h' c)
  from negotiation_others [OF keyed_open_tcp [OF other_open(4)] other_open(3)] ok
  show ?thesis by (simp add: other_open(1,2))
next
  case (other_close sl a h h' c)
  from negotiation_others [OF keyed_close_connection other_close(3)] ok
  show ?thesis by (simp add: other_close(1,2))
next
  case (datagram sv msg a h res h' c)
  from negotiation_others [OF keyed_handle_udp datagram(3)] ok show ?thesis by (simp add: datagram(1,2))
next
  case (channel sv h sv' h' c)
  from negotiation_others [OF keyed_main_recv channel(3)] ok show ?thesis by (simp add: channel(1,2))
qed

lemma just_opened_negotiation:
  assumes "just_opened e n base (h, c)"
  shows "negotiation n base (h, c)"
proof -
  obtain sv h0 key where key: "sk sv = Some key"
    and fit: "\<forall>(a, x) \<in> set (tcp_peers h0 @ tcp_punch h0). fit n {} x"
    and run: "run_state (open_tcp e sv n) h0 = (c, h)" and base: "base = length (sent h)"
    using assms by (auto simp: just_opened_def)
  have "c = \<lparr>slot = Some (TcpStream n None), offer = Some (snd (box_keypair e (ticks h0))), opened = None\<rparr>"
    and "tcp_peers h = tcp_peers h0" "tcp_punch h = tcp_punch h0"
    using run key by (auto simp: open_tcp_def new_offer_def run_send_to_sink exec_simps split: prod.splits)
  then show ?thesis using fit by (simp add: negotiation_def keyed_def base ball_Un)
qed

interpretation negotiation_machine: machine "just_opened e n base" "secure_step e n" "negotiation n base"
  for e :: "'e secure_env_scheme" and n base
proof unfold_locales
  show "negotiation n base s" if "just_opened e n base s" for s :: "'w hub_scheme \<times> tcp_conn"
    using that just_opened_negotiation by (cases s) auto
  show "negotiation n base t" if "negotiation n base s" and "secure_step e n s t"
    for s t :: "'w hub_scheme \<times> tcp_conn"
    using that(2,1) by (rule negotiation_step)
qed


section \<open>Secured frames and clear frames\<close>

text \<open>The frames up to the first that does not decrypt, in clear.\<close>

fun decrypted :: "'e secure_env_scheme \<Rightarrow> bytes \<Rightarrow> bytes list \<Rightarrow> bytes list \<Rightarrow> bytes list" where
  "decrypted e k seen [] = []"
| "decrypted e k seen (f # fs) =
     (case decrypt e k seen f of None \<Rightarrow> [] | Some plain \<Rightarrow> plain # decrypted e k (seen @ [f]) fs)"

definition clear_conn :: "sink option \<Rightarrow> tcp_conn" where
  "clear_conn sl = \<lparr>slot = sl, offer = None, opened = None\<rparr>"

text \<open>A secured connection does what a clear one does on the decrypted frames.\<close>

lemma read_loop_decrypted:
  "map_prod slot id (run_state (read_loop e sv key a fs \<lparr>slot = sl, offer = None, opened = Some (k, seen)\<rparr>) s) =
   map_prod slot id (run_state (read_loop e sv key a (decrypted e k seen fs) (clear_conn sl)) s)"
proof (induction fs arbitrary: seen sl s)
  case (Cons f fs)
  show ?case
  proof (cases "decrypt e k seen f")
    case (Some plain)
    obtain b r s' where "run_state (handle_tcp e sv (parse_message e plain) sl a key False) s = ((b, r), s')"
      by (metis prod.collapse)
    with Some Cons [of r "seen @ [f]" s'] show ?thesis
      by (simp add: on_frame_def handle_frame_def clear_conn_def exec_simps)
  qed (simp add: on_frame_def clear_conn_def exec_simps)
qed (simp add: clear_conn_def exec_simps)

lemma run_open_offer:
  assumes "sk sv = Some key" and "box_keypair e (ticks s) = (pk', secret)"
  shows "run_state (open_tcp e sv n) s =
    (\<lparr>slot = Some (TcpStream n None), offer = Some secret, opened = None\<rparr>,
     snd (run_state (send_to_sink e (Some (TcpStream n None)) (KeyExchange [sign_bytes e pk' key]))
       (s\<lparr>ticks := Suc (ticks s)\<rparr>)))"
  using assms by (simp add: open_tcp_def new_offer_def exec_simps)

section \<open>Properties\<close>

definition sample_secure_env :: secure_env where
  "sample_secure_env = hub_env.extend sample_hub_env
     \<lparr>box_keypair = (\<lambda>_. ([1], [2])), sign_bytes = (\<lambda>m key. m @ key),
      box_open = (\<lambda>sealed their_pk secret. if secret = [2] then Some (replicate 32 5) else None),
      decrypt = (\<lambda>k seen f. if f = [] then None else Some (tl f)),
      parse_message = (\<lambda>b. if b = [9] then Some (KeyExchange [replicate 32 3, [4]])
        else if b = [8] then Some (TestNatRequest 3) else None),
      header_str = Some, parse_socket_addr = (\<lambda>_. None)\<rparr>"

lemmas sample_secure = sample_secure_env_def hub_env.extend_def sample_hub_env_def

text \<open>
  C14: Whatever the other connections, the datagrams and the main loop do in between: once a
  connection has taken its key, everything hbbs wrote to it after the offer carries that key, no
  clear-text sink of it is stored, and its own slot writes with the key too.
\<close>

theorem only_offer_in_clear:
  assumes "reach (just_opened e n base) (secure_step e n) (h, c)" and "opened c = Some (k, seen)"
  shows "(\<forall>(d, m) \<in> set (drop base (sent h)). \<forall>k'. d = OnSink (TcpStream n k') \<longrightarrow> k' = Some k) \<and>
    (\<forall>(a, x) \<in> set (tcp_peers h @ tcp_punch h). \<forall>k'. x = TcpStream n k' \<longrightarrow> k' = Some k) \<and>
    (\<forall>k'. slot c = Some (TcpStream n k') \<longrightarrow> k' = Some k) \<and> offer c = None"
proof -
  have "offer c = None" and k: "keyed n {Some k} base h" and s: "\<And>x. slot c = Some x \<Longrightarrow> fit n {Some k} x"
    using negotiation_machine.reach_inv [OF assms(1)] assms(2) by (auto simp: negotiation_def)
  moreover have "\<forall>(a, x) \<in> set (tcp_peers h @ tcp_punch h). fit n {Some k} x"
    using k by (auto simp: keyed_def)
  moreover have "\<forall>(d, m) \<in> set (drop base (sent h)). \<forall>x. d = OnSink x \<longrightarrow> fit n {Some k} x"
    using k by (simp add: keyed_def)
  ultimately show ?thesis by (auto simp: fit_def)
qed

lemma only_offer_in_clear_witness:
  "\<exists>h c. opened (c :: tcp_conn) = Some (replicate 32 5, [[1, 8]]) \<and>
     sent h = [(OnSink (TcpStream 1 None), KeyExchange [[1, 42]]),
       (OnSink (TcpStream 1 (Some (replicate 32 5))), TestNatResponse 2 None)] \<and>
     (\<forall>(d, m) \<in> set (drop 1 (sent (h :: hub))). \<forall>k'. d = OnSink (TcpStream 1 k') \<longrightarrow> k' = Some (replicate 32 5))"
proof -
  let ?e = sample_secure_env and ?k = "replicate 32 (5 :: 8 word)"
  let ?c0 = "\<lparr>slot = Some (TcpStream 1 None), offer = Some [2], opened = None\<rparr>"
  let ?c1 = "\<lparr>slot = Some (TcpStream 1 (Some ?k)), offer = None, opened = Some (?k, [])\<rparr>"
  let ?c2 = "?c1\<lparr>opened := Some (?k, [[1, 8]])\<rparr>"
  let ?h0 = "sample_hub\<lparr>ticks := 1, sent := [(OnSink (TcpStream 1 None), KeyExchange [[1, 42]])]\<rparr>"
  let ?h2 = "?h0\<lparr>sent := sent ?h0 @ [(OnSink (TcpStream 1 (Some ?k)), TestNatResponse 2 None)]\<rparr>"
  have "run_state (open_tcp ?e sample_server 1) sample_hub = (?c0, ?h0)"
    by (simp add: open_tcp_def new_offer_def sample_secure sample_server_def sample_hub_def sendable_def exec_simps)
  then have "just_opened ?e 1 1 (?h0, ?c0)"
    unfolding just_opened_def by (auto simp: sample_hub_def sample_server_def intro!: exI [of _ sample_server] exI [of _ sample_hub])
  then have "reach (just_opened ?e 1 1) (secure_step ?e 1) (?h0, ?c0)" by (rule reach_start)
  then have "reach (just_opened ?e 1 1) (secure_step ?e 1) (?h0, ?c1)"
    by (rule reach_step) (rule own_frame [where f = "[9]" and b = True],
        simp add: on_frame_def sample_secure accept_key_def secure_slot_def exec_simps)
  then have r: "reach (just_opened ?e 1 1) (secure_step ?e 1) (?h2, ?c2)"
    by (rule reach_step) (rule own_frame [where f = "[1, 8]" and b = False and sv = sample_server and a = "SockV4 1 2"],
        simp add: on_frame_def handle_frame_def handle_tcp_def reply_on_connection_def test_nat_response_def
          sample_server_def is_tcp_peer_def sample_hub_def sample_secure sendable_def exec_simps)
  from only_offer_in_clear [OF r, of ?k "[[1, 8]]"] show ?thesis
    by - (rule exI [of _ ?h2], rule exI [of _ ?c2], simp)
qed

text \<open>
  C17: The first frame decides. An accepted key exchange makes the rest of the connection a clear one
  over the decrypted frames, up to the first that does not decrypt, with the key in the sink; a key
  exchange that is not accepted closes the connection; after any other frame the connection is
  served in clear for good, as if no offer had been made.
\<close>

theorem first_frame_decides:
  fixes s :: "'w hub_scheme"
  assumes "sk sv = Some key0" and "box_keypair e (ticks s) = (pk', secret)"
  shows "snd (run_state (handle_tcp_connection e sv key a n (f # fs)) s) =
    snd (run_state (case parse_message e f of
        Some (KeyExchange keys) \<Rightarrow>
          (case accept_key e secret keys of
             Some k \<Rightarrow> do {
               c \<leftarrow> read_loop e sv key a (decrypted e k [] fs) (clear_conn (Some (TcpStream n (Some k))));
               close_connection e (slot c) a
             }
           | None \<Rightarrow> close_connection e (Some (TcpStream n None)) a)
      | _ \<Rightarrow> do {
          c \<leftarrow> read_loop e sv key a (f # fs) (clear_conn (Some (TcpStream n None)));
          close_connection e (slot c) a
        }) (snd (run_state (open_tcp e sv n) s)))"
proof -
  let ?c = "\<lparr>slot = Some (TcpStream n None), offer = Some secret, opened = None\<rparr>"
  obtain s1 where o: "run_state (open_tcp e sv n) s = (?c, s1)"
    by (simp add: run_open_offer [OF assms])
  have closed: "snd (run_state (do { c \<leftarrow> m; _ \<leftarrow> close_connection e (slot c) a; State_Monad.return c }) s1) =
      snd (run_state (do { c \<leftarrow> m'; close_connection e (slot c) a }) s1)"
    if "map_prod slot id (run_state m s1) = map_prod slot id (run_state m' s1)" for m m' :: "('w hub_scheme, tcp_conn) state"
    using that by (cases "run_state m s1"; cases "run_state m' s1") (simp add: exec_simps split: prod.splits)
  show ?thesis
  proof (cases "\<exists>keys. parse_message e f = Some (KeyExchange keys)")
    case True
    then obtain keys where p: "parse_message e f = Some (KeyExchange keys)" by blast
    show ?thesis
    proof (cases "accept_key e secret keys")
      case None
      with p o show ?thesis
        by (simp add: handle_tcp_connection_def on_frame_def exec_simps split: prod.splits)
    next
      case (Some k)
      with p o closed [OF read_loop_decrypted [of e sv key a fs "Some (TcpStream n (Some k))" k "[]" s1]]
      show ?thesis
        by (simp add: handle_tcp_connection_def on_frame_def secure_slot_def exec_simps case_prod_unfold)
    qed
  next
    case False
    then have "on_frame e sv key a f ?c = (on_frame e sv key a f (clear_conn (slot ?c)) :: ('w hub_scheme, _) state)"
      by (auto simp: on_frame_def clear_conn_def split: option.splits message.splits)
    then have "read_loop e sv key a (f # fs) ?c =
        (read_loop e sv key a (f # fs) (clear_conn (slot ?c)) :: ('w hub_scheme, _) state)" by simp
    with False o show ?thesis
      by (simp add: handle_tcp_connection_def exec_simps case_prod_unfold del: read_loop.simps
          split: option.splits message.splits)
  qed
qed

lemma first_frame_decides_witness:
  "snd (run_state (handle_tcp_connection sample_secure_env sample_server '''' (SockV4 1 2) 1 [[9], [1, 8], []]) sample_hub) =
    snd (run_state (do {
      c \<leftarrow> read_loop sample_secure_env sample_server '''' (SockV4 1 2) [[8]]
        (clear_conn (Some (TcpStream 1 (Some (replicate 32 5)))));
      close_connection sample_secure_env (slot c) (SockV4 1 2)
    }) (snd (run_state (open_tcp sample_secure_env sample_server 1) sample_hub)))"
proof -
  have 1: "sk sample_server = Some [42]" "box_keypair sample_secure_env (ticks sample_hub) = ([1], [2])"
    by (simp_all add: sample_server_def sample_secure)
  have 2: "parse_message sample_secure_env [9] = Some (KeyExchange [replicate 32 3, [4]])"
    "accept_key sample_secure_env [2] [replicate 32 3, [4]] = Some (replicate 32 5)"
    "decrypted sample_secure_env (replicate 32 5) [] [[1, 8], []] = [[8]]"
    by (simp_all add: sample_secure accept_key_def)
  show ?thesis
    using first_frame_decides [OF 1, of "''''" "SockV4 1 2" 1 "[9]" "[[1, 8], []]"]
    by (simp only: 2 option.case message.case)
qed

end
