(* ===== verification/Internal.thy ===== *)
theory Internal
  imports AccountApi
begin

text \<open>
  src/account/internal.rs: the redeem endpoint for a relay on another host, behind a shared secret.
  \<open>memcmp\<close> of sodiumoxide is equality of byte strings in constant time.
\<close>

type_synonym secret = string

definition secret_new :: "string \<Rightarrow> secret option" where
  "secret_new v = (if length v < 16 then None else Some v)"

definition secret_from_env ::
  "(string \<Rightarrow> string option) \<Rightarrow> (string \<Rightarrow> string option) \<Rightarrow> secret option" where
  "secret_from_env var read_to_string =
     (case (case var ''OPENUU_INTERNAL_SECRET_FILE'' of
              Some path \<Rightarrow> read_to_string path
            | None \<Rightarrow> var ''OPENUU_INTERNAL_SECRET'') of
        None \<Rightarrow> None
      | Some v \<Rightarrow> secret_new (trim v))"

definition matches :: "secret \<Rightarrow> headers \<Rightarrow> bool" where
  "matches secret headers =
     (case map_of headers ''x-openuu-internal'' of None \<Rightarrow> False | Some v \<Rightarrow> v = secret)"

definition rejected :: "string \<Rightarrow> json" where
  "rejected reason = JObject [(''ok'', JBool False), (''reason'', JString reason)]"

definition internal_redeem ::
  "'e service_env_scheme \<Rightarrow> secret \<Rightarrow> headers \<Rightarrow> string \<Rightarrow> ('w service_scheme, response) state" where
  "internal_redeem e secret headers body =
     (if \<not> matches secret headers then State_Monad.return (Inl (error 401 ''Bad internal secret''))
      else (case parse_redeem e body of
          None \<Rightarrow> State_Monad.return (Inr (rejected ''malformed''))
        | Some (tk, relay_id) \<Rightarrow>
            if length tk \<noteq> 64 \<or> relay_id = [] \<or> length relay_id > 128
            then State_Monad.return (Inr (rejected ''malformed''))
            else do {
              r \<leftarrow> redeem e tk relay_id;
              case r of
                Inl err \<Rightarrow> State_Monad.return (Inl (error 500 ''Ticket store unavailable''))
              | Inr True \<Rightarrow> State_Monad.return (Inr (JObject [(''ok'', JBool True)]))
              | Inr False \<Rightarrow> do {
                  f \<leftarrow> ticket_failure e tk relay_id;
                  State_Monad.return
                    (Inr (rejected (case f of Inr reason \<Rightarrow> reason | Inl err \<Rightarrow> ''unknown'')))
                }
            }))"

text \<open>\<open>attach\<close>: the route exists only when a secret is configured; without it the answer is 404.\<close>

definition internal_route ::
  "'e service_env_scheme \<Rightarrow> secret option \<Rightarrow> headers \<Rightarrow> string \<Rightarrow> ('w service_scheme, response option) state" where
  "internal_route e configured headers body =
     (case configured of
        None \<Rightarrow> State_Monad.return None
      | Some secret \<Rightarrow> do { r \<leftarrow> internal_redeem e secret headers body; State_Monad.return (Some r) })"

section \<open>Lemmas\<close>

lemma secret_long: "secret_from_env var file = Some secret \<Longrightarrow> length secret \<ge> 16"
  by (auto simp: secret_from_env_def secret_new_def split: option.splits if_splits)

lemma ticket_failure_run:
  "\<exists>r k. run_state (ticket_failure e tk relay_id) s = (r, s\<lparr>ticks := k\<rparr>) \<and>
     (case r of Inl _ \<Rightarrow> True | Inr reason \<Rightarrow> reason \<in> {''unknown'', ''expired'', ''relay_mismatch''})"
  by (cases "select_first (filter (\<lambda>r. tic_hash r = digest e tk) (tickets s))")
    (auto simp: ticket_failure_def exec_simps simp del: select_first_None)

lemma rejected_neq [simp]: "rejected reason \<noteq> JObject [(''ok'', JBool True)]"
  by (simp add: rejected_def)

text \<open>What the endpoint does to the store is what \<open>redeem\<close> does, up to the request counter.\<close>

lemma internal_redeem_run:
  assumes "run_state (internal_redeem e secret headers body) s = (res, s')"
  shows "res = Inr (JObject [(''ok'', JBool True)]) \<and>
      (\<exists>tk relay_id. matches secret headers \<and> parse_redeem e body = Some (tk, relay_id) \<and>
         relay_id \<noteq> [] \<and> length relay_id \<le> 128 \<and>
         run_state (redeem e tk relay_id) s = (Inr True, s')) \<or>
    res \<noteq> Inr (JObject [(''ok'', JBool True)]) \<and>
      (\<exists>k. s' = s\<lparr>ticks := k\<rparr> \<or>
         (\<exists>tk relay_id r s1. run_state (redeem e tk relay_id) s = (r, s1) \<and> r \<noteq> Inr True \<and>
            parse_redeem e body = Some (tk, relay_id) \<and> matches secret headers \<and>
            s' = s1\<lparr>ticks := k\<rparr>))"
proof (cases "matches secret headers \<and> (\<exists>tk relay_id. parse_redeem e body = Some (tk, relay_id) \<and>
    length tk = 64 \<and> relay_id \<noteq> [] \<and> length relay_id \<le> 128)")
  case True
  then obtain tk relay_id where p: "matches secret headers" "parse_redeem e body = Some (tk, relay_id)"
    "length tk = 64" "relay_id \<noteq> []" "length relay_id \<le> 128" by blast
  obtain r s1 where red: "run_state (redeem e tk relay_id) s = (r, s1)" by (metis prod.collapse)
  show ?thesis
  proof (cases "r = Inr False")
    case True
    then show ?thesis using assms p red ticket_failure_run [of e tk relay_id s1]
      by (auto simp: internal_redeem_def exec_simps)
  next
    case False
    with assms p red show ?thesis
      by (auto simp: internal_redeem_def exec_simps split: sum.splits bool.splits
          intro!: exI [of _ "ticks s1"])
  qed
next
  case False
  then have "s' = s\<lparr>ticks := ticks s\<rparr> \<and> res \<noteq> Inr (JObject [(''ok'', JBool True)])"
    using assms by (auto simp: internal_redeem_def exec_simps split: if_splits option.splits)
  then show ?thesis by blast
qed

lemma redeem_false_unchanged:
  assumes "db_ok s" and "run_state (redeem e tk relay_id) s = (r, s')" and "r \<noteq> Inr True"
  shows "\<exists>k. s' = s\<lparr>ticks := k\<rparr>"
proof (cases "length tk = 64 \<and> sql_ok e (ticks s + 2)")
  case True
  let ?p = "redeemable (sha256 e tk) relay_id (clock_at e (ticks s)) (clock_at e (ticks s + 1)) s"
  have "length (filter ?p (tickets s)) \<noteq> 1"
    using assms(2,3) True by (auto simp: redeem_run Let_def)
  moreover have "(length (filter ?p (tickets s)) = 1) = (\<exists>r \<in> set (tickets s). ?p r)"
    using assms(1) by (intro count_keyed [where key = tic_hash and k = "sha256 e tk"])
      (simp_all add: db_ok_def redeemable_def)
  ultimately have "filter (\<lambda>r. \<not> ?p r) (tickets s) = tickets s"
    by (intro filter_True) blast
  then have "s' = s\<lparr>ticks := ticks s + 3\<rparr>"
    using assms(2) True by (simp add: redeem_run Let_def)
  then show ?thesis by blast
next
  case False
  then have "s' = s\<lparr>ticks := ticks s\<rparr> \<or> s' = s\<lparr>ticks := ticks s + 3\<rparr>"
    using assms(2) by (auto simp: redeem_run split: if_splits)
  then show ?thesis by blast
qed

section \<open>Properties\<close>

text \<open>
  The internal endpoint changes the store only for a request that carries the exact secret and
  is answered \<open>ok: true\<close>, and then all it does is remove the one ticket the body names. Every other
  request, without the secret, malformed, refused or failed, leaves every table as it was.
\<close>

theorem internal_redeem_effect:
  assumes "db_ok s" and "run_state (internal_redeem e secret headers body) s = (res, s')"
  shows "(\<exists>k. s' = s\<lparr>ticks := k\<rparr>) \<and> res \<noteq> Inr (JObject [(''ok'', JBool True)]) \<or>
    (\<exists>k tk relay_id r. map_of headers ''x-openuu-internal'' = Some secret \<and>
       parse_redeem e body = Some (tk, relay_id) \<and> length tk = 64 \<and>
       r \<in> set (tickets s) \<and> tic_hash r = sha256 e tk \<and> tic_relay r = relay_id \<and>
       s' = s\<lparr>ticks := k, tickets := remove1 r (tickets s)\<rparr> \<and>
       res = Inr (JObject [(''ok'', JBool True)]))"
  using internal_redeem_run [OF assms(2)]
proof (elim disjE conjE exE)
  fix tk relay_id
  assume ok: "res = Inr (JObject [(''ok'', JBool True)])" and m: "matches secret headers"
    and p: "parse_redeem e body = Some (tk, relay_id)"
    and red: "run_state (redeem e tk relay_id) s = (Inr True, s')"
  let ?p = "redeemable (sha256 e tk) relay_id (clock_at e (ticks s)) (clock_at e (ticks s + 1)) s"
  obtain r where r: "r \<in> set (tickets s)" "?p r"
    and s': "s' = s\<lparr>ticks := ticks s + 3, tickets := filter (\<lambda>r. \<not> ?p r) (tickets s)\<rparr>"
    and len: "length tk = 64"
    using red by (auto simp: redeem_run Let_def split: if_splits dest!: length_filter_one_ex)
  have d: "distinct (tickets s)"
    using assms(1) by (auto simp: db_ok_def unique_on_def distinct_map)
  have "?p x = (x = r)" if "x \<in> set (tickets s)" for x
    using assms(1) r that by (auto simp: db_ok_def redeemable_def intro: unique_onD)
  then have "filter (\<lambda>r. \<not> ?p r) (tickets s) = filter (\<lambda>x. r \<noteq> x) (tickets s)"
    by (intro filter_cong) auto
  also have "\<dots> = remove1 r (tickets s)"
    using d by (simp add: distinct_remove1_removeAll removeAll_filter_not_eq)
  finally show ?thesis
    using s' r ok m p len by (auto simp: matches_def redeemable_def split: option.splits)
next
  fix k tk relay_id r s1
  assume "res \<noteq> Inr (JObject [(''ok'', JBool True)])" and "run_state (redeem e tk relay_id) s = (r, s1)"
    and "r \<noteq> Inr True" and "s' = s1\<lparr>ticks := k\<rparr>"
  then show ?thesis using redeem_false_unchanged [OF assms(1)] by force
qed auto

lemma internal_redeem_effect_witness:
  "\<exists>s'. run_state (internal_redeem sample_service_env ''0123456789abcdef''
       [(''x-openuu-internal'', ''0123456789abcdef'')] ''redeem'') sample_service =
         (Inr (JObject [(''ok'', JBool True)]), s') \<and> tickets s' = []"
proof -
  have "fst (run_state (internal_redeem sample_service_env ''0123456789abcdef''
       [(''x-openuu-internal'', ''0123456789abcdef'')] ''redeem'') sample_service) =
         Inr (JObject [(''ok'', JBool True)])"
    by (simp add: internal_redeem_def matches_def sample_service_env_def redeem_run exec_simps Let_def
        sample_token_def sample_service_def sample_row_def redeemable_def session_live_def
        clock_at_def as_i64_def signed_take_bit_int_eq_self)
  then obtain s' where r: "run_state (internal_redeem sample_service_env ''0123456789abcdef''
       [(''x-openuu-internal'', ''0123456789abcdef'')] ''redeem'') sample_service =
         (Inr (JObject [(''ok'', JBool True)]), s')"
    by (metis prod.collapse)
  from internal_redeem_effect [OF sample_service_ok r] have "tickets s' = []"
    by (auto simp: sample_service_def)
  with r show ?thesis by blast
qed

text \<open>
  A ticket that the internal endpoint has accepted is spent everywhere: afterwards neither that
  endpoint, with any body naming it, nor \<open>account::redeem_ticket\<close> in this process accepts it.
\<close>

theorem internal_accept_spends:
  assumes "db_ok s" and "run_state (internal_redeem e secret headers body) s =
      (Inr (JObject [(''ok'', JBool True)]), s1)"
    and "parse_redeem e body = Some (tk, relay_id)"
    and "parse_redeem e body' = Some (tk, relay_id')" and "shared_open s1"
  shows "fst (run_state (internal_redeem e secret' headers' body') s1) \<noteq>
      Inr (JObject [(''ok'', JBool True)]) \<and>
    \<not> fst (run_state (redeem_ticket e tk relay_id'') s1)"
proof -
  have red: "run_state (redeem e tk relay_id) s = (Inr True, s1)"
    using internal_redeem_run [OF assms(2)] assms(3) by auto
  have ok1: "db_ok s1" using preservesD_run [OF redeem_db_ok red assms(1)] .
  have spent: "spent_ticket e tk s1" using spent_ticket_redeem(1) [OF assms(1) red] by simp
  obtain res s2 where r: "run_state (internal_redeem e secret' headers' body') s1 = (res, s2)"
    by (metis prod.collapse)
  have "res \<noteq> Inr (JObject [(''ok'', JBool True)])"
    using internal_redeem_run [OF r] spent_ticket_redeem(2) [OF ok1 _ spent] assms(4) by fastforce
  moreover have "\<not> fst (run_state (redeem_ticket e tk relay_id'') s1)"
    using local_desk.refuses [OF _ spent] ok1 assms(5) by (metis prod.collapse)
  ultimately show ?thesis using r by simp
qed

lemma internal_accept_spends_witness:
  "\<exists>s1. run_state (internal_redeem sample_service_env ''0123456789abcdef''
       [(''x-openuu-internal'', ''0123456789abcdef'')] ''redeem'') sample_service =
         (Inr (JObject [(''ok'', JBool True)]), s1) \<and>
     \<not> fst (run_state (redeem_ticket sample_service_env sample_token ''u'') s1)"
proof -
  have "\<exists>s1. run_state (internal_redeem sample_service_env ''0123456789abcdef''
       [(''x-openuu-internal'', ''0123456789abcdef'')] ''redeem'') sample_service =
         (Inr (JObject [(''ok'', JBool True)]), s1) \<and> shared_open s1"
    by (simp add: internal_redeem_def matches_def sample_service_env_def redeem_run exec_simps Let_def
        sample_token_def sample_service_def sample_row_def redeemable_def session_live_def
        clock_at_def as_i64_def signed_take_bit_int_eq_self)
  then obtain s1 where r: "run_state (internal_redeem sample_service_env ''0123456789abcdef''
       [(''x-openuu-internal'', ''0123456789abcdef'')] ''redeem'') sample_service =
         (Inr (JObject [(''ok'', JBool True)]), s1)" "shared_open s1"
    by blast
  have "parse_redeem sample_service_env ''redeem'' = Some (sample_token, ''u'')"
    by (simp add: sample_service_env_def)
  from internal_accept_spends [OF sample_service_ok r(1) this this r(2)] r show ?thesis by blast
qed

end
