(* ===== verification/AuditLog.thy ===== *)
theory AuditLog
  imports AccountApi
begin

text \<open>
  src/account/audit.rs: connection records posted by controlled peers without a session. A JSON
  object is the list of its members in the order serde_json keeps them, so removing a key is a
  filter. A response without a body is its status.
\<close>

definition text_field :: "'e service_env_scheme \<Rightarrow> json \<Rightarrow> string \<Rightarrow> string option" where
  "text_field e v key =
     (case json_get key v of
        None \<Rightarrow> None
      | Some (JString t) \<Rightarrow> Some (take_chars 256 t)
      | Some JNull \<Rightarrow> None
      | Some other \<Rightarrow> Some (take_chars 256 (json_text e other)))"

definition over_limit ::
  "'e env_scheme \<Rightarrow> ip_addr \<Rightarrow> ('w service_scheme, bool) state" where
  "over_limit e ip = do {
     m \<leftarrow> gets audit_rate;
     m' \<leftarrow> retain_fresh e m;
     modify (\<lambda>s. s\<lparr>audit_rate := m'\<rparr>);
     if table_full ip m' then State_Monad.return True
     else do {
       t \<leftarrow> unix_now e;
       modify (\<lambda>s. s\<lparr>audit_rate := snd (count_request 60 t ip m')\<rparr>);
       State_Monad.return (fst (count_request 60 t ip m'))
     }
   }"

definition registered :: "'e env_scheme \<Rightarrow> string \<Rightarrow> ('w service_scheme, bool) state" where
  "registered e dev = do {
     peers \<leftarrow> gets peers_attached;
     if \<not> peers then State_Monad.return False
     else do {
       row \<leftarrow> query e (\<lambda>s. list_ex (\<lambda>p. row_id p = dev) (peer_rows s));
       State_Monad.return (case row of Inr found \<Rightarrow> found | Inl err \<Rightarrow> False)
     }
   }"

text \<open>\<open>Value::get(0)\<close>, and \<open>as_object_mut\<close> followed by the removal of the whitelisted keys.\<close>

fun json_first :: "json \<Rightarrow> json option" where
  "json_first (JArray (v # _)) = Some v"
| "json_first _ = None"

fun remove_keys :: "string list \<Rightarrow> json \<Rightarrow> json" where
  "remove_keys keys (JObject members) = JObject (filter (\<lambda>(k, _). k \<notin> set keys) members)"
| "remove_keys keys v = v"

definition audit_peer_id :: "json \<Rightarrow> string option" where
  "audit_peer_id v =
     map_option (take_chars 256) (Option.bind (Option.bind (json_get ''peer'' v) json_first) as_str)"

definition nonempty :: "string option \<Rightarrow> string option" where
  "nonempty t = (case t of Some x \<Rightarrow> if x = [] then None else Some x | None \<Rightarrow> None)"

definition audit_record ::
  "'e service_env_scheme \<Rightarrow> json \<Rightarrow> string \<Rightarrow> string \<Rightarrow> ip_addr \<Rightarrow> int \<Rightarrow> audit_row" where
  "audit_record e v nonce dev ip t =
     \<lparr>aud_nonce = nonce, aud_id = dev, aud_peer_id = audit_peer_id v,
      aud_action = text_field e v ''action'',
      aud_conn_id = Option.bind (json_get ''conn_id'' v) json_i64,
      aud_session_id = Option.bind (json_get ''session_id'' v) json_i64,
      aud_note = json_text e
        (remove_keys [''nonce'', ''id'', ''ip'', ''action'', ''conn_id'', ''session_id''] v),
      aud_from_ip = show_ip ip, aud_received_at = t\<rparr>"

definition conn ::
  "'e service_env_scheme \<Rightarrow> ip_addr \<Rightarrow> string \<Rightarrow> ('w service_scheme, (nat \<times> json) + nat) state" where
  "conn e ip body = do {
     limited \<leftarrow> over_limit e ip;
     if limited then State_Monad.return (Inl (error 429 ''Try again later''))
     else if length body > 4096 then State_Monad.return (Inl (error 413 ''Audit record too large''))
     else (case parse_json e body of
         None \<Rightarrow> State_Monad.return (Inl (error 400 ''Invalid audit record''))
       | Some v \<Rightarrow>
           (case (nonempty (text_field e v ''nonce''), nonempty (text_field e v ''id'')) of
              (Some nonce, Some dev) \<Rightarrow> do {
                known \<leftarrow> registered e dev;
                if \<not> known then State_Monad.return (Inr 204)
                else do {
                  t \<leftarrow> unix_now e;
                  r \<leftarrow> execute e (InsertAudit (audit_record e v nonce dev ip t));
                  State_Monad.return (case r of
                      Inl err \<Rightarrow> Inl (error 503 ''Audit store unavailable'')
                    | Inr inserted \<Rightarrow> Inr 200)
                }
              }
            | _ \<Rightarrow> State_Monad.return (Inl (error 400 ''Missing nonce or id''))))
   }"

section \<open>Lemmas\<close>

lemma run_over_limit:
  "run_state (over_limit e ip) s = window_run e 60 audit_rate (\<lambda>m. audit_rate_update (\<lambda>_. m)) ip s"
proof -
  obtain m' where m': "run_state (retain_fresh e (audit_rate s)) s =
      (m', s\<lparr>ticks := ticks s + length (audit_rate s)\<rparr>)"
    using run_retain_fresh [of e "audit_rate s" s] by auto
  then show ?thesis
    by (simp add: over_limit_def window_run_def exec_simps Let_def split: prod.splits)
qed

interpretation audit_limiter: window_limiter "over_limit e" audit_rate ticks "clock_at e" 60
  for e :: "'e env_scheme"
  by (rule window_limiterI [where put = "\<lambda>m. audit_rate_update (\<lambda>_. m)"])
    (simp_all add: run_over_limit word_le_nat_alt)

lemma over_limit_outcome:
  "run_state (over_limit e ip) s = (b, s') \<Longrightarrow>
     peer_rows s' = peer_rows s \<and> audits s' = audits s \<and> peers_attached s' = peers_attached s \<and>
     ticks s \<le> ticks s'"
  using run_retain_fresh [of e "audit_rate s" s]
  by (auto simp: run_over_limit window_run_def Let_def split: if_splits prod.splits)

lemma registered_outcome:
  "run_state (registered e dev) s = (b, s') \<Longrightarrow>
     (\<exists>k \<ge> ticks s. s' = s\<lparr>ticks := k\<rparr>) \<and>
     (b \<longrightarrow> peers_attached s \<and> (\<exists>p \<in> set (peer_rows s). row_id p = dev))"
  by (auto simp: registered_def exec_simps list_ex_iff split: if_splits sum.splits
      intro: exI [of _ "ticks s"] exI [of _ "Suc (ticks s)"])

lemma aud_nonce_record [simp]: "aud_nonce (audit_record e v nonce dev ip t) = nonce"
  by (simp add: audit_record_def)

lemma text_field_short: "text_field e v key = Some t \<Longrightarrow> length t \<le> 1024"
  using length_take_chars [of 256]
  by (auto simp: text_field_def split: option.splits json.splits)

text \<open>Every way through the handler: the table is left alone, or the whole record was appended.\<close>

lemma conn_cases:
  assumes "run_state (conn e ip body) s = (res, s')"
  shows "audits s' = audits s \<or>
    (\<exists>v nonce dev n. res = Inr 200 \<and> length body \<le> 4096 \<and> parse_json e body = Some v \<and>
       text_field e v ''nonce'' = Some nonce \<and> nonce \<noteq> [] \<and>
       text_field e v ''id'' = Some dev \<and> dev \<noteq> [] \<and>
       peers_attached s \<and> (\<exists>p \<in> set (peer_rows s). row_id p = dev) \<and>
       ticks s \<le> n \<and> nonce \<notin> aud_nonce ` set (audits s) \<and>
       audits s' = audits s @ [audit_record e v nonce dev ip (clock_at e n)])"
proof -
  obtain b s1 where lim: "run_state (over_limit e ip) s = (b, s1)" by (metis prod.collapse)
  note same = over_limit_outcome [OF lim]
  show ?thesis
  proof (cases "b \<or> length body > 4096 \<or> parse_json e body = None")
    case True
    then show ?thesis using assms lim same by (auto simp: conn_def exec_simps split: if_splits)
  next
    case False
    then obtain v where v: "parse_json e body = Some v" by auto
    let ?n = "nonempty (text_field e v ''nonce'')" and ?i = "nonempty (text_field e v ''id'')"
    show ?thesis
    proof (cases "?n = None \<or> ?i = None")
      case True
      then show ?thesis using assms lim same False v
        by (auto simp: conn_def exec_simps split: option.splits)
    next
      case some: False
      then obtain nonce dev where ni: "?n = Some nonce" "?i = Some dev" by auto
      obtain known s2 where reg: "run_state (registered e dev) s1 = (known, s2)"
        by (metis prod.collapse)
      note k = registered_outcome [OF reg]
      show ?thesis using assms lim same False v ni reg k
        by (auto simp: conn_def exec_simps exec_stmt.simps insert_unique_def nonempty_def
            split: if_splits option.splits intro!: exI [of _ "ticks s2"])
    qed
  qed
qed

section \<open>Properties\<close>

text \<open>
  C37: Whatever an unauthenticated caller posts, the audit table either stays as it is or gains one
  row: of a peer that is registered with hbbs, under a nonce that was not there before (a retry
  stores nothing), with the source address and the time filled in by the server. The nonce, the id,
  the peer's id and the action are at most 1024 bytes (256 characters). The note is not cut: it is
  the text of the posted value without the members \<open>nonce\<close>, \<open>id\<close>, \<open>ip\<close>, \<open>action\<close>, \<open>conn_id\<close> and
  \<open>session_id\<close>, and the body it was parsed from is at most 4096 bytes.
\<close>

theorem audit_append_only:
  assumes "run_state (conn e ip body) s = (res, s')"
  shows "audits s' = audits s \<or>
    (\<exists>row n. audits s' = audits s @ [row] \<and> res = Inr 200 \<and> length body \<le> 4096 \<and>
       aud_nonce row \<notin> aud_nonce ` set (audits s) \<and> aud_id row \<in> row_id ` set (peer_rows s) \<and>
       aud_from_ip row = show_ip ip \<and> aud_received_at row = clock_at e n \<and> ticks s \<le> n \<and>
       0 < length (aud_nonce row) \<and> length (aud_nonce row) \<le> 1024 \<and> length (aud_id row) \<le> 1024 \<and>
       (\<forall>t. aud_peer_id row = Some t \<or> aud_action row = Some t \<longrightarrow> length t \<le> 1024) \<and>
       (\<exists>v. parse_json e body = Some v \<and> aud_note row = json_text e (case v of
          JObject members \<Rightarrow> JObject (filter (\<lambda>(k, _).
            k \<notin> {''nonce'', ''id'', ''ip'', ''action'', ''conn_id'', ''session_id''}) members)
        | other \<Rightarrow> other)))"
  using conn_cases [OF assms]
proof (elim disjE exE conjE)
  fix v nonce dev n
  assume n: "text_field e v ''nonce'' = Some nonce" "nonce \<noteq> []" "text_field e v ''id'' = Some dev"
    "\<exists>p \<in> set (peer_rows s). row_id p = dev" "nonce \<notin> aud_nonce ` set (audits s)"
    and a: "audits s' = audits s @ [audit_record e v nonce dev ip (clock_at e n)]"
    and r: "res = Inr 200" "length body \<le> 4096" "ticks s \<le> n" "parse_json e body = Some v"
  have "length t \<le> 1024" if "audit_peer_id v = Some t" for t
    using that length_take_chars [of 256] by (auto simp: audit_peer_id_def)
  moreover have "length t \<le> 1024" if "text_field e v ''action'' = Some t" for t
    using that by (rule text_field_short)
  ultimately have "0 < length nonce \<and> length nonce \<le> 1024 \<and> length dev \<le> 1024 \<and>
      (\<forall>t. audit_peer_id v = Some t \<or> text_field e v ''action'' = Some t \<longrightarrow> length t \<le> 1024)"
    using n text_field_short [OF n(1)] text_field_short [OF n(3)] by auto
  moreover have "remove_keys [''nonce'', ''id'', ''ip'', ''action'', ''conn_id'', ''session_id''] v = (case v of
      JObject members \<Rightarrow> JObject (filter (\<lambda>(k, _).
        k \<notin> {''nonce'', ''id'', ''ip'', ''action'', ''conn_id'', ''session_id''}) members)
    | other \<Rightarrow> other)"
    by (cases v) simp_all
  ultimately show ?thesis
    using n a r by (intro disjI2 exI [of _ "audit_record e v nonce dev ip (clock_at e n)"] exI [of _ n])
      (auto simp: audit_record_def)
qed simp

lemma audit_append_only_witness:
  "\<exists>res s' row. run_state (conn sample_service_env localhost_v4 ''record'')
       (sample_service\<lparr>peer_rows := [\<lparr>row_guid = [1], row_id = ''dev'', row_uuid = [], row_pk = [],
          row_user = None, row_info = '''', row_status = None\<rparr>]\<rparr>) = (res, s') \<and>
     audits s' = [row] \<and> aud_id row = ''dev''"
proof -
  let ?s = "sample_service\<lparr>peer_rows := [\<lparr>row_guid = [1], row_id = ''dev'', row_uuid = [], row_pk = [],
          row_user = None, row_info = '''', row_status = None\<rparr>]\<rparr>"
  obtain res s' where r: "run_state (conn sample_service_env localhost_v4 ''record'') ?s = (res, s')"
    by (metis prod.collapse)
  have p: "parse_json sample_service_env ''record'' = Some (JObject [(''nonce'', JString ''n1''),
         (''id'', JString ''dev''), (''conn_id'', JInt 7), (''extra'', JString ''x'')])"
    by (simp add: sample_service_env_def)
  have "audits (snd (run_state (conn sample_service_env localhost_v4 ''record'') ?s)) \<noteq> []"
    by (simp add: conn_def over_limit_def registered_def exec_simps exec_stmt.simps insert_unique_def
        text_field_def nonempty_def take_chars_def char_width_def p sample_service_def table_full_def
        count_request_def Let_def)
  then have "audits s' \<noteq> []" using r by simp
  with audit_append_only [OF r] r show ?thesis by (auto simp: sample_service_def)
qed

text \<open>
  The audit limiter: from a table without an entry for an address, at most 60 of its requests
  pass in any stretch of time shorter than a minute, and the table never exceeds 10000 entries.
\<close>

theorem audit_window:
  assumes "distinct (map fst (audit_rate s))" and "length (audit_rate s) \<le> 10000"
    and "map_of (audit_rate s) ip = None"
    and "\<And>m n. ticks s \<le> m \<Longrightarrow> ticks s \<le> n \<Longrightarrow> n < ticks (snd (admitted (over_limit e) ips s)) \<Longrightarrow>
      m < ticks (snd (admitted (over_limit e) ips s)) \<Longrightarrow> clock_at e n - clock_at e m < 60"
    and "length ips < 2 ^ 32"
  shows "count_list (fst (admitted (over_limit e) ips s)) ip \<le> 60 \<and>
    length (audit_rate (snd (admitted (over_limit e) ips s))) \<le> 10000"
  using audit_limiter.fresh_bound [OF assms(1,3,4,5)] audit_limiter.admitted_bounded [OF assms(2)]
  by simp

lemma audit_window_witness:
  "count_list (fst (admitted (over_limit sample_service_env) (replicate 90 localhost_v4)
     sample_service)) localhost_v4 \<le> 60"
  using audit_window [of sample_service localhost_v4 sample_service_env "replicate 90 localhost_v4"]
  by (simp add: sample_service_def)

end
