(* ===== verification/Wol.thy ===== *)
theory Wol
  imports AccountApi
begin

text \<open>
  Wake-on-LAN, src/account/wol.rs: devices of an account poll, a wake request is queued for a
  helper that has recently seen the target, and the helper's next poll leases it.
\<close>

definition wol_valid :: "string \<Rightarrow> bool" where
  "wol_valid dev \<longleftrightarrow> dev \<noteq> [] \<and> length dev \<le> 128 \<and>
     list_all (\<lambda>c. ascii_alphanumeric c \<or> c \<in> set ''._-'') dev"

definition unavailable :: "nat \<times> json" where
  "unavailable = error 503 ''Wake service unavailable''"

definition owner_of ::
  "'e service_env_scheme \<Rightarrow> headers \<Rightarrow> ('w service_scheme, (nat \<times> json) + string) state" where
  "owner_of e headers = do {
     r \<leftarrow> user e (bearer e headers);
     State_Monad.return (case r of
         Inl err \<Rightarrow> Inl (error 503 ''Authentication unavailable'')
       | Inr None \<Rightarrow> Inl (error 401 ''Login required'')
       | Inr (Some name) \<Rightarrow> Inr name)
   }"

text \<open>\<open>map_err\<close>\<close>

definition map_err :: "'b \<Rightarrow> ('s, 'e + 'a) state \<Rightarrow> ('s, 'b + 'a) state" where
  "map_err err m = do {
     r \<leftarrow> m;
     State_Monad.return (case r of Inl _ \<Rightarrow> Inl err | Inr a \<Rightarrow> Inr a)
   }"

text \<open>\<open>DELETE ... RETURNING\<close>: the statement's rows, from the table before it.\<close>

definition lease_jobs ::
  "'e env_scheme \<Rightarrow> string \<Rightarrow> string \<Rightarrow> ('w host_scheme, store_error + job_row list) state" where
  "lease_jobs e owner helper =
     sql e (\<lambda>s. map_option (\<lambda>(n, s').
         (filter (\<lambda>j. job_owner j = owner \<and> job_helper j = helper) (jobs s), s'))
       (exec_stmt (LeaseJobs owner helper) s))"

text \<open>The clock is read for every returned row.\<close>

fun live_jobs :: "'e env_scheme \<Rightarrow> job_row list \<Rightarrow> ('w world_scheme, job_row list) state" where
  "live_jobs e [] = State_Monad.return []"
| "live_jobs e (j # js) = do {
     t \<leftarrow> unix_now e;
     rest \<leftarrow> live_jobs e js;
     State_Monad.return (if job_expires j > t then j # rest else rest)
   }"

definition poll ::
  "'e service_env_scheme \<Rightarrow> headers \<Rightarrow> string \<Rightarrow> string list \<Rightarrow> ('w service_scheme, response) state" where
  "poll e headers dev peers =
     try_bind (owner_of e headers) (\<lambda>owner.
       if \<not> wol_valid dev \<or> length peers > 256 \<or> list_ex (\<lambda>p. \<not> wol_valid p) peers
       then State_Monad.return (Inl (error 400 ''Invalid device list''))
       else (case strings_text e peers of
           None \<Rightarrow> State_Monad.return (Inl (error 400 ''Invalid device list''))
         | Some text \<Rightarrow> do {
             t \<leftarrow> unix_now e;
             try_bind (map_err unavailable
                (execute e (UpsertDevice owner dev t (digest e (bearer e headers)) text))) (\<lambda>_.
             try_bind (map_err unavailable (lease_jobs e owner dev)) (\<lambda>leased. do {
               live \<leftarrow> live_jobs e leased;
               State_Monad.return (Inr (JObject [(''targets'', JArray (map JString
                 (filter (\<lambda>x. x \<in> set peers) (map job_target live))))]))
             }))
           }))"

definition devices_of :: "string \<Rightarrow> string \<Rightarrow> 'w host_scheme \<Rightarrow> device_row list" where
  "devices_of owner target s = filter (\<lambda>d. dev_owner d = owner \<and> dev_id d = target) (devices s)"

text \<open>
  The helpers: devices of the owner other than the target, seen since \<open>t1\<close>, whose session is one of
  the owner's and has not expired at \<open>t2\<close>, the most recently seen first (rows seen in the same
  second keep their order, which SQLite leaves open).
\<close>

definition helper_rows :: "string \<Rightarrow> string \<Rightarrow> int \<Rightarrow> int \<Rightarrow> 'w host_scheme \<Rightarrow> device_row list" where
  "helper_rows owner target t1 t2 s =
     sort_key (\<lambda>d. - dev_seen d) [d. d \<leftarrow> devices s, x \<leftarrow> sessions s,
       dev_session d = ses_hash x \<and> dev_owner d = owner \<and> dev_id d \<noteq> target \<and> dev_seen d \<ge> t1 \<and>
       ses_expires x > t2 \<and> ses_name x = dev_owner d]"

definition first_helper :: "'e service_env_scheme \<Rightarrow> string \<Rightarrow> device_row list \<Rightarrow> string option" where
  "first_helper e target rows =
     map_option dev_id (List.find (\<lambda>d.
       target \<in> set (case parse_strings e (dev_peers d) of Some ps \<Rightarrow> ps | None \<Rightarrow> [])) rows)"

definition availability ::
  "'e service_env_scheme \<Rightarrow> string \<Rightarrow> string
     \<Rightarrow> ('w service_scheme, (nat \<times> json) + (string \<times> string option)) state" where
  "availability e owner target =
     try_bind (map_err unavailable (query e (\<lambda>s. select_first (devices_of owner target s)))) (\<lambda>row.
       case row of
         None \<Rightarrow> State_Monad.return (Inr (''unregistered'', None))
       | Some d \<Rightarrow> do {
           t \<leftarrow> unix_now e;
           if dev_seen d \<ge> t - 30 then State_Monad.return (Inr (''online'', None))
           else do {
             t1 \<leftarrow> unix_now e;
             t2 \<leftarrow> unix_now e;
             try_bind (map_err unavailable (query e (helper_rows owner target (t1 - 30) t2))) (\<lambda>rows.
               State_Monad.return (Inr
                 (case first_helper e target rows of
                    Some helper \<Rightarrow> (''available'', Some helper)
                  | None \<Rightarrow> (''no_helper'', None))))
           }
         })"

definition status ::
  "'e service_env_scheme \<Rightarrow> headers \<Rightarrow> string \<Rightarrow> ('w service_scheme, response) state" where
  "status e headers target =
     try_bind (owner_of e headers) (\<lambda>owner.
     try_bind (availability e owner target) (\<lambda>(st, helper).
       State_Monad.return (Inr (JObject [(''state'', JString st)]))))"

definition wake ::
  "'e service_env_scheme \<Rightarrow> headers \<Rightarrow> string \<Rightarrow> ('w service_scheme, response) state" where
  "wake e headers target =
     try_bind (owner_of e headers) (\<lambda>owner.
     try_bind (availability e owner target) (\<lambda>(st, helper).
       case helper of
         None \<Rightarrow> State_Monad.return (Inl (error 409 st))
       | Some h \<Rightarrow> do {
           t \<leftarrow> unix_now e;
           t' \<leftarrow> unix_now e;
           try_bind (map_err unavailable (execute e (UpsertJob owner target h (t + 30) t'))) (\<lambda>n.
             State_Monad.return
               (if n = 0 then Inl (error 429 ''Wake request already queued'')
                else Inr (JObject [(''state'', JString ''queued'')])))
         }))"

section \<open>Lemmas\<close>

lemma run_map_err [exec_simps]:
  "run_state (map_err err m) s =
     (case run_state m s of (Inl _, s') \<Rightarrow> (Inl err, s') | (Inr a, s') \<Rightarrow> (Inr a, s'))"
  by (simp add: map_err_def split: prod.splits sum.splits)

lemma run_lease_jobs [exec_simps]:
  "run_state (lease_jobs e owner helper) s =
     (if sql_ok e (ticks s) then
        (Inr (filter (\<lambda>j. job_owner j = owner \<and> job_helper j = helper) (jobs s)),
         s\<lparr>ticks := Suc (ticks s),
           jobs := filter (\<lambda>j. \<not> (job_owner j = owner \<and> job_helper j = helper)) (jobs s)\<rparr>)
      else (Inl SqlFailed, s\<lparr>ticks := Suc (ticks s)\<rparr>))"
  by (simp add: lease_jobs_def run_sql exec_stmt.simps delete_where_def Let_def)

lemma run_live_jobs:
  "\<exists>js'. run_state (live_jobs e js) s = (js', s\<lparr>ticks := ticks s + length js\<rparr>) \<and>
     (\<forall>j \<in> set js'. j \<in> set js \<and> (\<exists>n. ticks s \<le> n \<and> n < ticks s + length js \<and> clock_at e n < job_expires j)) \<and>
     (\<forall>j \<in> set js. (\<forall>n. ticks s \<le> n \<and> n < ticks s + length js \<longrightarrow> clock_at e n < job_expires j) \<longrightarrow> j \<in> set js')"
proof (induction js arbitrary: s)
  case (Cons j js)
  from Cons [of "s\<lparr>ticks := Suc (ticks s)\<rparr>"] obtain js' where
    IH: "run_state (live_jobs e js) (s\<lparr>ticks := Suc (ticks s)\<rparr>) =
        (js', s\<lparr>ticks := Suc (ticks s) + length js\<rparr>)"
      "\<forall>j \<in> set js'. j \<in> set js \<and>
        (\<exists>n. Suc (ticks s) \<le> n \<and> n < Suc (ticks s) + length js \<and> clock_at e n < job_expires j)"
      "\<forall>j \<in> set js. (\<forall>n. Suc (ticks s) \<le> n \<and> n < Suc (ticks s) + length js \<longrightarrow>
        clock_at e n < job_expires j) \<longrightarrow> j \<in> set js'"
    by auto
  have later: "\<exists>n. ticks s \<le> n \<and> n < Suc (ticks s + length js) \<and> clock_at e n < job_expires x"
    if "x \<in> set js'" for x
    using IH(2) that by (metis Suc_leD add_Suc)
  show ?case
    using IH(1,2,3) later by (auto simp: exec_simps)
qed simp

lemma owner_of_ok:
  "run_state (owner_of e headers) s = (Inr name, s') \<Longrightarrow>
     s' = s\<lparr>ticks := ticks s + 2\<rparr> \<and> length (bearer e headers) = 64 \<and>
     session_user (digest e (bearer e headers)) (clock_at e (ticks s)) s = Some name"
  by (auto simp: owner_of_def exec_simps user_run digest_def split: if_splits option.splits)

lemma owner_of_err:
  "run_state (owner_of e headers) s = (Inl r, s') \<Longrightarrow>
     (\<exists>k. s' = s\<lparr>ticks := k\<rparr>) \<and> fst r \<in> {401, 503}"
  by (auto simp: owner_of_def exec_simps user_run error_def split: if_splits option.splits
      intro: exI [of _ "ticks s"])

text \<open>What \<open>availability\<close> promises when it names a helper.\<close>

lemma availability_helper:
  assumes "run_state (availability e owner target) s = (Inr (st, Some h), s')"
  shows "s' = s\<lparr>ticks := ticks s + 5\<rparr> \<and>
    (\<exists>d \<in> set (devices s). dev_owner d = owner \<and> dev_id d = target \<and>
       dev_seen d < clock_at e (ticks s + 1) - 30) \<and>
    (\<exists>d \<in> set (devices s). \<exists>x \<in> set (sessions s). \<exists>ps.
       dev_owner d = owner \<and> dev_id d = h \<and> h \<noteq> target \<and>
       clock_at e (ticks s + 2) - 30 \<le> dev_seen d \<and> dev_session d = ses_hash x \<and>
       ses_name x = owner \<and> clock_at e (ticks s + 3) < ses_expires x \<and>
       parse_strings e (dev_peers d) = Some ps \<and> target \<in> set ps)"
proof -
  let ?s1 = "s\<lparr>ticks := Suc (ticks s)\<rparr>"
  let ?rows = "helper_rows owner target (clock_at e (ticks s + 2) - 30) (clock_at e (ticks s + 3)) s"
  have dev: "devices_of owner target (s\<lparr>ticks := k\<rparr>) = devices_of owner target s"
    and hel: "helper_rows owner target t1 t2 (s\<lparr>ticks := k\<rparr>) = helper_rows owner target t1 t2 s"
    for k t1 t2 by (simp_all add: devices_of_def helper_rows_def)
  obtain d where d: "select_first (devices_of owner target s) = Some d"
    "dev_seen d < clock_at e (ticks s + 1) - 30" "first_helper e target ?rows = Some h"
    "s' = s\<lparr>ticks := ticks s + 5\<rparr>"
    using assms
    by (auto simp: availability_def exec_simps dev hel ticks_plus simp del: select_first_None
        split: if_splits option.splits)
  obtain r where "List.find (\<lambda>d. target \<in> set (case parse_strings e (dev_peers d) of Some ps \<Rightarrow> ps | None \<Rightarrow> []))
      ?rows = Some r" "dev_id r = h"
    using d(3) by (auto simp: first_helper_def)
  then have r: "r \<in> set ?rows" "dev_id r = h"
    "target \<in> set (case parse_strings e (dev_peers r) of Some ps \<Rightarrow> ps | None \<Rightarrow> [])"
    by (auto simp: find_Some_iff)
  have "d \<in> set (devices s) \<and> dev_owner d = owner \<and> dev_id d = target"
    using select_first_Some [OF d(1)] by (simp add: devices_of_def)
  moreover have "\<exists>ps. parse_strings e (dev_peers r) = Some ps \<and> target \<in> set ps"
    using r(3) by (cases "parse_strings e (dev_peers r)") auto
  moreover obtain x where "x \<in> set (sessions s)" "r \<in> set (devices s)" "dev_owner r = owner"
    "h \<noteq> target" "clock_at e (ticks s + 2) - 30 \<le> dev_seen r" "dev_session r = ses_hash x"
    "ses_name x = owner" "clock_at e (ticks s + 3) < ses_expires x"
    using r(1,2) by (auto simp: helper_rows_def)
  ultimately show ?thesis using d(2,4) r(2) by blast
qed

lemma availability_frame:
  "run_state (availability e owner target) s = (r, s') \<Longrightarrow> \<exists>k. s' = s\<lparr>ticks := k\<rparr>"
  by (auto simp: availability_def exec_simps simp del: select_first_None
      split: if_splits option.splits)

section \<open>Properties\<close>

text \<open>
  C36: A wake request is queued only when the token belongs to a live session of some account, the
  target is a device of that account not seen for more than 30 seconds, and the helper is another
  device of the same account that was seen within 30 seconds under a session that is still open and
  that lists the target among its peers. The queued job is then in the table, and no other
  account's job changes.
\<close>

theorem wake_queued:
  assumes "run_state (wake e headers target) s = (Inr answer, s')"
  shows "\<exists>owner h d x ps ex.
    session_user (digest e (bearer e headers)) (clock_at e (ticks s)) s = Some owner \<and>
    (\<exists>d0 \<in> set (devices s). dev_owner d0 = owner \<and> dev_id d0 = target \<and>
       dev_seen d0 < clock_at e (ticks s + 3) - 30) \<and>
    d \<in> set (devices s) \<and> dev_owner d = owner \<and> dev_id d = h \<and> h \<noteq> target \<and>
    clock_at e (ticks s + 4) - 30 \<le> dev_seen d \<and>
    x \<in> set (sessions s) \<and> dev_session d = ses_hash x \<and> ses_name x = owner \<and>
    clock_at e (ticks s + 5) < ses_expires x \<and>
    parse_strings e (dev_peers d) = Some ps \<and> target \<in> set ps \<and>
    \<lparr>job_owner = owner, job_target = target, job_helper = h, job_expires = ex\<rparr> \<in> set (jobs s') \<and>
    filter (\<lambda>j. job_owner j \<noteq> owner) (jobs s') = filter (\<lambda>j. job_owner j \<noteq> owner) (jobs s)"
proof -
  obtain owner s1 where o: "run_state (owner_of e headers) s = (Inr owner, s1)"
    using assms by (cases "run_state (owner_of e headers) s")
      (auto simp: wake_def exec_simps split: sum.splits)
  note own = owner_of_ok [OF o]
  obtain r s2 where a: "run_state (availability e owner target) s1 = (r, s2)" by (metis prod.collapse)
  obtain st h where r: "r = Inr (st, Some h)"
    using assms o a by (auto simp: wake_def exec_simps split: sum.splits option.splits)
  note av = availability_helper [OF a [unfolded r]]
  obtain n s3 where ex: "exec_stmt (UpsertJob owner target h (clock_at e (ticks s2) + 30)
      (clock_at e (Suc (ticks s2)))) (s2\<lparr>ticks := Suc (Suc (Suc (ticks s2)))\<rparr>) = Some (n, s')" "n \<noteq> 0"
    using assms o a r by (auto simp: wake_def exec_simps split: if_splits option.splits)
  have jobs2: "jobs s2 = jobs s" using av own by simp
  let ?new = "\<lparr>job_owner = owner, job_target = target, job_helper = h,
      job_expires = clock_at e (ticks s2) + 30\<rparr>"
  have "?new \<in> set (jobs s') \<and>
      filter (\<lambda>j. job_owner j \<noteq> owner) (jobs s') = filter (\<lambda>j. job_owner j \<noteq> owner) (jobs s)"
  proof (cases "(owner, target) \<in> (\<lambda>j. (job_owner j, job_target j)) ` set (jobs s)")
    case True
    let ?p = "\<lambda>j. job_owner j = owner \<and> job_target j = target \<and> job_expires j < clock_at e (Suc (ticks s2))"
    let ?f = "\<lambda>j. if ?p j then j\<lparr>job_helper := h, job_expires := clock_at e (ticks s2) + 30\<rparr> else j"
    have j': "jobs s' = map ?f (jobs s)" and n: "n = length (filter ?p (jobs s))"
      using True ex(1) jobs2 by (auto simp: exec_stmt.simps insert_unique_def update_where_def Let_def)
    obtain j where j: "j \<in> set (jobs s)" "?p j"
      using ex(2) n by (auto simp: filter_empty_conv)
    have "?f j = ?new" using j(2) by simp
    then have "?new \<in> ?f ` set (jobs s)" using j(1) by (intro rev_image_eqI) auto
    then have "?new \<in> set (jobs s')" by (simp only: j' set_map)
    moreover have "filter (\<lambda>j. job_owner j \<noteq> owner) (map ?f js) = filter (\<lambda>j. job_owner j \<noteq> owner) js" for js
      by (induction js) auto
    ultimately show ?thesis unfolding j' by blast
  qed (use ex(1) jobs2 in \<open>auto simp: exec_stmt.simps insert_unique_def Let_def\<close>)
  moreover have "\<exists>d0 \<in> set (devices s). dev_owner d0 = owner \<and> dev_id d0 = target \<and>
       dev_seen d0 < clock_at e (ticks s + 3) - 30"
    using av own by (simp add: ticks_plus)
  moreover obtain d x ps where "d \<in> set (devices s)" "dev_owner d = owner" "dev_id d = h" "h \<noteq> target"
    "clock_at e (ticks s + 4) - 30 \<le> dev_seen d" "x \<in> set (sessions s)" "dev_session d = ses_hash x"
    "ses_name x = owner" "clock_at e (ticks s + 5) < ses_expires x"
    "parse_strings e (dev_peers d) = Some ps" "target \<in> set ps"
    using av own by (auto simp: ticks_plus)
  ultimately show ?thesis using own by blast
qed

definition sample_fleet :: service where
  "sample_fleet = sample_service\<lparr>devices :=
     [\<lparr>dev_owner = ''alice'', dev_id = ''desk'', dev_seen = 900, dev_session = [84], dev_peers = ''''\<rparr>,
      \<lparr>dev_owner = ''alice'', dev_id = ''nas'', dev_seen = 990, dev_session = [84], dev_peers = ''desk''\<rparr>]\<rparr>"

lemma wake_queued_witness:
  "\<exists>answer s'. run_state (wake sample_service_env sample_headers ''desk'') sample_fleet = (Inr answer, s') \<and>
     jobs s' \<noteq> []"
proof -
  have "\<exists>answer s'. run_state (wake sample_service_env sample_headers ''desk'') sample_fleet = (Inr answer, s')"
    by (simp add: wake_def owner_of_def availability_def exec_simps exec_stmt.simps insert_unique_def
        user_run session_user_def sample_bearer sample_fleet_def sample_service_def sample_token_def
        devices_of_def helper_rows_def first_helper_def Let_def)
      (simp add: sample_service_env_def)
  then obtain answer s' where
    r: "run_state (wake sample_service_env sample_headers ''desk'') sample_fleet = (Inr answer, s')"
    by blast
  from wake_queued [OF r] r show ?thesis by force
qed

text \<open>
  A poll hands every job out at most once: the targets it returns were queued for this device
  by its own account, had not expired, and are peers the device has just announced; afterwards no
  job of that device is left, and the jobs of all others are as before.
\<close>

theorem poll_leases:
  assumes "run_state (poll e headers dev peers) s = (Inr answer, s')"
  shows "\<exists>owner targets.
    session_user (digest e (bearer e headers)) (clock_at e (ticks s)) s = Some owner \<and>
    json_get ''targets'' answer = Some (JArray (map JString targets)) \<and>
    (\<forall>t \<in> set targets. t \<in> set peers \<and> (\<exists>j \<in> set (jobs s). job_owner j = owner \<and> job_helper j = dev \<and>
       job_target j = t \<and> (\<exists>n \<ge> ticks s. clock_at e n < job_expires j))) \<and>
    jobs s' = filter (\<lambda>j. \<not> (job_owner j = owner \<and> job_helper j = dev)) (jobs s)"
proof -
  obtain owner s1 where o: "run_state (owner_of e headers) s = (Inr owner, s1)"
    using assms by (cases "run_state (owner_of e headers) s")
      (auto simp: poll_def exec_simps split: sum.splits)
  note own = owner_of_ok [OF o]
  let ?mine = "filter (\<lambda>j. job_owner j = owner \<and> job_helper j = dev) (jobs s)"
  obtain enc where enc: "strings_text e peers = Some enc"
    using assms o by (auto simp: poll_def exec_simps split: if_splits option.splits)
  obtain n s2 where up: "exec_stmt (UpsertDevice owner dev (clock_at e (ticks s1))
      (digest e (bearer e headers)) enc) (s1\<lparr>ticks := Suc (Suc (ticks s1))\<rparr>) = Some (n, s2)"
    using assms o enc by (auto simp: poll_def exec_simps split: if_splits option.splits)
  have s2: "jobs s2 = jobs s" "ticks s \<le> ticks s2"
    using up own by (auto simp: exec_stmt.simps Let_def)
  let ?s3 = "s2\<lparr>ticks := Suc (ticks s2),
       jobs := filter (\<lambda>j. \<not> (job_owner j = owner \<and> job_helper j = dev)) (jobs s2)\<rparr>"
  obtain js where js: "run_state (live_jobs e ?mine) ?s3 = (js, ?s3\<lparr>ticks := ticks ?s3 + length ?mine\<rparr>)"
    "\<forall>j \<in> set js. j \<in> set ?mine \<and> (\<exists>n. ticks ?s3 \<le> n \<and> n < ticks ?s3 + length ?mine \<and>
        clock_at e n < job_expires j)"
    using run_live_jobs [of e ?mine ?s3] by blast
  let ?targets = "filter (\<lambda>x. x \<in> set peers) (map job_target js)"
  have "sql_ok e (ticks s2)"
    using assms o enc up by (auto simp: poll_def exec_simps split: if_splits)
  then have ans: "answer = JObject [(''targets'', JArray (map JString ?targets))]"
    and s': "s' = ?s3\<lparr>ticks := ticks ?s3 + length ?mine\<rparr>"
    using assms o enc up js(1) s2 by (auto simp: poll_def exec_simps split: if_splits)
  have late: "\<forall>j \<in> set js. j \<in> set (jobs s) \<and> job_owner j = owner \<and> job_helper j = dev \<and>
      (\<exists>n \<ge> ticks s. clock_at e n < job_expires j)"
  proof
    fix j
    assume "j \<in> set js"
    with js(2) obtain n where "j \<in> set ?mine" "ticks ?s3 \<le> n" "clock_at e n < job_expires j" by blast
    then show "j \<in> set (jobs s) \<and> job_owner j = owner \<and> job_helper j = dev \<and>
        (\<exists>n \<ge> ticks s. clock_at e n < job_expires j)"
      using s2(2) by (auto intro!: exI [of _ n])
  qed
  have "\<forall>t \<in> set ?targets. t \<in> set peers \<and> (\<exists>j \<in> set (jobs s). job_owner j = owner \<and> job_helper j = dev \<and>
       job_target j = t \<and> (\<exists>n \<ge> ticks s. clock_at e n < job_expires j))"
    using late by auto
  then show ?thesis using own ans s' s2(1) by (intro exI [of _ owner] exI [of _ ?targets]) simp
qed

lemma poll_leases_witness:
  "\<exists>answer s'. run_state (poll sample_service_env sample_headers ''nas'' [''desk''])
      (sample_fleet\<lparr>jobs := [\<lparr>job_owner = ''alice'', job_target = ''desk'', job_helper = ''nas'',
         job_expires = 1030\<rparr>]\<rparr>) = (Inr answer, s') \<and> jobs s' = []"
proof -
  let ?s = "sample_fleet\<lparr>jobs := [\<lparr>job_owner = ''alice'', job_target = ''desk'', job_helper = ''nas'',
         job_expires = 1030\<rparr>]\<rparr>"
  have enc: "strings_text sample_service_env [''desk''] = Some ''desk''"
    by (simp add: sample_service_env_def)
  have "\<exists>answer s'. run_state (poll sample_service_env sample_headers ''nas'' [''desk'']) ?s = (Inr answer, s')"
    by (simp add: poll_def owner_of_def exec_simps exec_stmt.simps insert_unique_def wol_valid_def
        ascii_alphanumeric_def user_run session_user_def sample_bearer sample_fleet_def enc
        sample_service_def sample_token_def Let_def update_where_def)
  then obtain answer s' where
    r: "run_state (poll sample_service_env sample_headers ''nas'' [''desk'']) ?s = (Inr answer, s')"
    by blast
  from poll_leases [OF r] have "jobs s' = []"
    by (auto simp: sample_fleet_def sample_service_def session_user_def sample_bearer digest_def
        sample_token_def)
  with r show ?thesis by blast
qed

end
