(* ===== verification/Router.thy ===== *)
theory Router
  imports Internal AuditLog Wol
begin

text \<open>
  The HTTP surface as a whole (\<open>router_with_internal\<close> of src/account/mod.rs) and the commands of the
  administration tool (src/account_main.rs). A \<open>call\<close> is a request whose path and method matched a
  route and whose JSON body, where the handler takes one, was extracted by axum.
\<close>

datatype call =
    AuditConn string
  | WolPoll string "string list"
  | WolStatus string
  | WolWake string
  | AddressBook
  | Users
  | Peers
  | DeviceGroup
  | RelayTicket json
  | Login string
  | CurrentUser
  | Logout
  | LoginOptions
  | InternalRedeem string

fun reply :: "response \<Rightarrow> nat \<times> json option" where
  "reply (Inl (code, body)) = (code, Some body)"
| "reply (Inr body) = (200, Some body)"

fun reply_status :: "(nat \<times> json) + nat \<Rightarrow> nat \<times> json option" where
  "reply_status (Inl (code, body)) = (code, Some body)"
| "reply_status (Inr code) = (code, None)"

definition serve ::
  "'e service_env_scheme \<Rightarrow> secret option \<Rightarrow> ip_addr \<Rightarrow> headers \<Rightarrow> call
     \<Rightarrow> ('w service_scheme, nat \<times> json option) state" where
  "serve e secret ip headers c = (case c of
       AuditConn body \<Rightarrow> do { r \<leftarrow> conn e ip body; State_Monad.return (reply_status r) }
     | WolPoll dev peers \<Rightarrow> do { r \<leftarrow> poll e headers dev peers; State_Monad.return (reply r) }
     | WolStatus target \<Rightarrow> do { r \<leftarrow> status e headers target; State_Monad.return (reply r) }
     | WolWake target \<Rightarrow> do { r \<leftarrow> wake e headers target; State_Monad.return (reply r) }
     | AddressBook \<Rightarrow> do { r \<leftarrow> address_book e headers; State_Monad.return (reply r) }
     | Users \<Rightarrow> do { r \<leftarrow> empty_directory e headers; State_Monad.return (reply r) }
     | Peers \<Rightarrow> do { r \<leftarrow> empty_directory e headers; State_Monad.return (reply r) }
     | DeviceGroup \<Rightarrow> do { r \<leftarrow> empty_directory e headers; State_Monad.return (reply r) }
     | RelayTicket body \<Rightarrow> do { r \<leftarrow> relay_ticket e headers body; State_Monad.return (reply r) }
     | Login body \<Rightarrow> do { r \<leftarrow> login_handler e ip body; State_Monad.return (reply r) }
     | CurrentUser \<Rightarrow> do { r \<leftarrow> current e headers; State_Monad.return (reply r) }
     | Logout \<Rightarrow> do { r \<leftarrow> logout e headers; State_Monad.return (reply r) }
     | LoginOptions \<Rightarrow> State_Monad.return (200, Some (JArray []))
     | InternalRedeem body \<Rightarrow> do {
         r \<leftarrow> internal_route e secret headers body;
         State_Monad.return (case r of None \<Rightarrow> (404, None) | Some answer \<Rightarrow> reply answer)
       })"

fun needs_session :: "call \<Rightarrow> bool" where
  "needs_session (WolPoll _ _) = True"
| "needs_session (WolStatus _) = True"
| "needs_session (WolWake _) = True"
| "needs_session AddressBook = True"
| "needs_session Users = True"
| "needs_session Peers = True"
| "needs_session DeviceGroup = True"
| "needs_session (RelayTicket _) = True"
| "needs_session CurrentUser = True"
| "needs_session _ = False"

section \<open>The administration tool\<close>

text \<open>
  \<open>admin\<close>: the exit of a command is an error or the lines it prints; the password is taken from the
  environment variable \<open>OPENUU_NEW_PASSWORD\<close>, and only by the commands that need one.
\<close>

datatype admin_output =
    Printed string
  | Listed "(string \<times> bool \<times> nat) list"

definition new_password :: "string option \<Rightarrow> store_error + string" where
  "new_password var =
     (case var of
        None \<Rightarrow> Inl (Bail ''Set OPENUU_NEW_PASSWORD in the environment'')
      | Some p \<Rightarrow> Inr p)"

definition with_password ::
  "string option \<Rightarrow> (string \<Rightarrow> ('w host_scheme, store_error + 'a) state)
     \<Rightarrow> ('w host_scheme, store_error + 'a) state" where
  "with_password var f =
     (case new_password var of Inl err \<Rightarrow> State_Monad.return (Inl err) | Inr p \<Rightarrow> f p)"

definition print_done ::
  "('w host_scheme, store_error + unit) state \<Rightarrow> string \<Rightarrow> ('w host_scheme, store_error + admin_output) state" where
  "print_done m line = try_bind m (\<lambda>_. State_Monad.return (Inr (Printed line)))"

definition usage_error :: store_error where
  "usage_error = Bail ''Usage''"

definition admin ::
  "'e env_scheme \<Rightarrow> string option \<Rightarrow> string \<Rightarrow> string option
     \<Rightarrow> ('w host_scheme, store_error + admin_output) state" where
  "admin e var command arg =
     (if (command = ''list'') \<noteq> (arg = None) then State_Monad.return (Inl usage_error)
      else let name = (case arg of None \<Rightarrow> '''' | Some n \<Rightarrow> n) in
        if command = ''create'' then
          print_done (with_password var (create_user e name)) ''Account created''
        else if command = ''passwd'' then
          print_done (with_password var (set_password e name))
            ''Password changed; existing sessions revoked''
        else if command = ''disable'' then
          print_done (set_enabled e name False) ''Account disabled; existing sessions revoked''
        else if command = ''enable'' then
          print_done (set_enabled e name True) ''Account enabled''
        else if command = ''delete'' then
          print_done (delete_user e name) ''Account deleted''
        else if command = ''list'' then
          try_bind (list_users e) (\<lambda>rows. State_Monad.return (Inr (Listed rows)))
        else State_Monad.return (Inl usage_error))"

section \<open>Lemmas\<close>

text \<open>A request without a live session: \<open>user\<close> answers an error or nobody, and only counts.\<close>

definition signed_out :: "'e service_env_scheme \<Rightarrow> headers \<Rightarrow> 'w service_scheme \<Rightarrow> bool" where
  "signed_out e headers s \<longleftrightarrow>
     length (bearer e headers) \<noteq> 64 \<or>
     \<not> session_live (clock_at e (ticks s)) s (sha256 e (bearer e headers))"

lemma user_signed_out:
  assumes "signed_out e headers s"
  shows "\<exists>r k. run_state (user e (bearer e headers)) s = (r, s\<lparr>ticks := k\<rparr>) \<and>
     (r = Inl SqlFailed \<or> r = Inr None)"
proof (cases "length (bearer e headers) = 64")
  case True
  then have "session_user (sha256 e (bearer e headers)) (clock_at e (ticks s)) s = None"
    using assms by (simp add: signed_out_def session_user_live)
  with True show ?thesis by (auto simp: user_run)
next
  case False
  then show ?thesis by (auto simp: user_run intro: exI [of _ "ticks s"])
qed

lemma owner_signed_out:
  "signed_out e headers s \<Longrightarrow> \<exists>r k. run_state (owner_of e headers) s = (Inl r, s\<lparr>ticks := k\<rparr>) \<and>
     fst r \<in> {401, 503}"
  using user_signed_out [of e headers s] by (auto simp: owner_of_def exec_simps error_def)

lemma require_signed_out:
  "signed_out e headers s \<Longrightarrow> \<exists>r k. run_state (require_user e headers) s = (Inl r, s\<lparr>ticks := k\<rparr>) \<and>
     fst r \<in> {401, 503}"
  using user_signed_out [of e headers s] by (auto simp: require_user_def exec_simps error_def)

lemma ticket_signed_out:
  "signed_out e headers s \<Longrightarrow> \<exists>r k. run_state (ticket e (bearer e headers) uuid) s = (r, s\<lparr>ticks := k\<rparr>) \<and>
     (r = Inl SqlFailed \<or> r = Inr None)"
  using user_signed_out [of e headers s]
  by (cases "uuid = [] \<or> length uuid > 128")
    (auto simp: ticket_def exec_simps intro: exI [of _ "ticks s"])

section \<open>Properties\<close>

text \<open>
  C18: Every route that acts for a user is closed without a session: if the bearer token is not that
  of an unexpired session of an enabled account, the answer is 401 (or 503 when the store failed)
  and nothing in the service changes.
\<close>

theorem routes_need_session:
  assumes "needs_session c" and "signed_out e headers s"
    and "run_state (serve e secret ip headers c) s = (res, s')"
  shows "fst res \<in> {401, 503} \<and> (\<exists>k. s' = s\<lparr>ticks := k\<rparr>)"
proof -
  obtain r k where o: "run_state (owner_of e headers) s = (Inl r, s\<lparr>ticks := k\<rparr>)" "fst r \<in> {401, 503}"
    using owner_signed_out [OF assms(2)] by blast
  obtain r' k' where q: "run_state (require_user e headers) s = (Inl r', s\<lparr>ticks := k'\<rparr>)"
    "fst r' \<in> {401, 503}"
    using require_signed_out [OF assms(2)] by blast
  have d: "reply (Inl x) = (fst x, Some (snd x))" for x :: "nat \<times> json"
    by (cases x) simp
  show ?thesis
  proof (cases c)
    case (RelayTicket body)
    then show ?thesis using assms(3) ticket_signed_out [OF assms(2), of "relay_uuid body"]
      by (auto simp: serve_def relay_ticket_def exec_simps error_def)
  qed (use assms(1,3) o q in
      \<open>auto simp: serve_def poll_def status_def wake_def address_book_def empty_directory_def
        current_def exec_simps d\<close>)
qed

lemma routes_need_session_witness:
  "\<exists>res s'. run_state (serve sample_service_env None localhost_v4 [] CurrentUser) sample_service = (res, s') \<and>
     fst res \<in> {401, 503}"
proof -
  obtain res s' where
    r: "run_state (serve sample_service_env None localhost_v4 [] CurrentUser) sample_service = (res, s')"
    by (metis prod.collapse)
  have "signed_out sample_service_env [] sample_service"
    by (simp add: signed_out_def bearer_def)
  from routes_need_session [OF _ this r] r show ?thesis by auto
qed

text \<open>
  The administration tool: a command that prints success has done what it says. After
  \<open>create\<close> the account exists, enabled; after \<open>disable\<close>, \<open>passwd\<close> and \<open>delete\<close> no session of the name
  is left; after \<open>delete\<close> there is no account, device or job of that name either.
\<close>

theorem admin_done:
  assumes "run_state (admin e var command (Some name)) s = (Inr out, s')"
  shows "(command = ''create'' \<longrightarrow> valid_name name \<and> name \<notin> acc_name ` set (accounts s) \<and>
      (\<exists>a \<in> set (accounts s'). acc_name a = name \<and> acc_enabled a = 1)) \<and>
    (command \<in> {''disable'', ''passwd'', ''delete''} \<longrightarrow> name \<notin> ses_name ` set (sessions s')) \<and>
    (command = ''delete'' \<longrightarrow> name \<in> acc_name ` set (accounts s) \<and>
      name \<notin> acc_name ` set (accounts s') \<and> name \<notin> dev_owner ` set (devices s') \<and>
      name \<notin> job_owner ` set (jobs s')) \<and>
    command \<in> {''create'', ''passwd'', ''disable'', ''enable'', ''delete''}"
proof -
  consider "command = ''create''" | "command = ''passwd''" | "command = ''disable''"
    | "command = ''enable''" | "command = ''delete''"
    using assms by (auto simp: admin_def exec_simps split: if_splits)
  then show ?thesis
  proof cases
    case 1
    then show ?thesis using assms
      by (auto simp: admin_def print_done_def with_password_def new_password_def create_user_def
          hash_password_def exec_simps exec_stmt.simps insert_unique_def
          split: if_splits option.splits sum.splits)
  next
    case 2
    then show ?thesis using assms
      by (auto simp: admin_def print_done_def with_password_def new_password_def exec_simps
          dest!: set_password_outcome simp: revoked_def split: option.splits sum.splits prod.splits)
  next
    case 3
    then show ?thesis using assms
      by (auto simp: admin_def print_done_def exec_simps revoked_def
          dest!: set_enabled_False_outcome split: option.splits sum.splits prod.splits)
  next
    case 4
    then show ?thesis by simp
  next
    case 5
    then show ?thesis using assms
      by (auto simp: admin_def print_done_def delete_user_def revoke_user_def exec_simps
          exec_stmt.simps delete_where_def filter_empty_conv split: if_splits option.splits)
  qed
qed

lemma admin_done_witness:
  "\<exists>out s'. run_state (admin sample_env None ''delete'' (Some ''alice'')) sample_host = (Inr out, s') \<and>
     ''alice'' \<notin> acc_name ` set (accounts s')"
proof -
  have "\<exists>out s'. run_state (admin sample_env None ''delete'' (Some ''alice'')) sample_host = (Inr out, s')"
    by (simp add: admin_def print_done_def delete_user_def revoke_user_def exec_simps exec_stmt.simps
        delete_where_def sample_host_def)
  then obtain out s' where
    r: "run_state (admin sample_env None ''delete'' (Some ''alice'')) sample_host = (Inr out, s')"
    by blast
  from admin_done [OF r] r show ?thesis by simp
qed

end
