(* ===== verification/StoreFrame.thy ===== *)
theory StoreFrame
  imports Router
begin

text \<open>
  What the operations of the account service can do to its database, once for all invariants. The
  locale \<open>account_invariant\<close> asks that a predicate is kept by every SQL statement but the two that
  insert a ticket, which only \<open>ticket\<close> sends, and an audit record, which only \<open>conn\<close> sends; it carries
  the predicate through the other methods of src/account/store.rs and the administration tool.
  \<open>service_invariant\<close> adds the tables of the rate limiters and carries it through every HTTP route, given
  that the relay-ticket route and the audit route keep it.
  Both are interpreted on the primary keys, and on the origin of tickets: a row that is new was issued
  to a session that was open.
\<close>

fun issuing :: "stmt \<Rightarrow> bool" where
  "issuing (InsertTicket _ _ _ _) = True"
| "issuing (InsertAudit _) = True"
| "issuing _ = False"

locale account_invariant =
  fixes e :: "'e env_scheme" and I :: "'w host_scheme \<Rightarrow> bool"
  assumes free: "tick_free I"
    and keep_stmt: "\<not> issuing q \<Longrightarrow> preserves I (execute e q)"
begin

lemmas store_intros = preserves_intros free keep_stmt

lemma keep_user: "preserves I (user e token)"
  unfolding user_def by (intro store_intros)

lemma keep_login: "preserves I (login e name pw)"
  unfolding login_def random_token_def by (intro store_intros issuing.simps) simp_all

lemma keep_redeem: "preserves I (redeem e tk u)" "preserves I (ticket_failure e tk u)"
  unfolding redeem_def ticket_failure_def by (intro store_intros; simp)+

lemma keep_revoke: "preserves I (revoke e token)" "preserves I (revoke_user e name)"
  unfolding revoke_def revoke_user_def by (intro store_intros; simp)+

lemma keep_hash: "preserves I (hash_password e pw)"
  unfolding hash_password_def by (intro store_intros)

lemma keep_accounts:
  "preserves I (create_user e name pw)" "preserves I (set_password e name pw)"
  "preserves I (set_enabled e name b)" "preserves I (delete_user e name)" "preserves I (list_users e)"
  unfolding create_user_def set_password_def set_enabled_def delete_user_def list_users_def
  by (intro store_intros keep_hash keep_revoke; simp)+

lemma keep_admin: "preserves I (admin e var command arg)"
  unfolding admin_def print_done_def with_password_def Let_def by (intro store_intros keep_accounts)

end

locale service_invariant = account_invariant e I
  for e :: "'e service_env_scheme" and I :: "'w service_scheme \<Rightarrow> bool" +
  assumes keep_attempts: "I s \<Longrightarrow> I (s\<lparr>attempts := m\<rparr>)"
    and keep_audit_rate: "I s \<Longrightarrow> I (s\<lparr>audit_rate := m\<rparr>)"
begin

lemma keep_retain_fresh: "preserves I (retain_fresh e m)"
  by (induction e m rule: retain_fresh.induct) (auto intro!: store_intros)

lemma keep_limits: "preserves I (login_limited e ip)" "preserves I (over_limit e ip)"
  unfolding login_limited_def over_limit_def Let_def
  by (intro store_intros keep_retain_fresh preserves_modify keep_attempts keep_audit_rate; assumption)+

lemma keep_lease_jobs: "preserves I (lease_jobs e owner helper)"
proof (rule preservesI)
  fix s
  assume "I s"
  then have "I (snd (run_state (execute e (LeaseJobs owner helper)) s))" by (intro preservesD [OF keep_stmt]) simp_all
  moreover have "snd (run_state (execute e (LeaseJobs owner helper)) s) = snd (run_state (lease_jobs e owner helper) s)"
    by (simp add: lease_jobs_def exec_simps exec_stmt.simps Let_def delete_where_def)
  ultimately show "I (snd (run_state (lease_jobs e owner helper) s))" by simp
qed

lemma keep_live_jobs: "preserves I (live_jobs e js)"
  by (induction e js rule: live_jobs.induct) (auto intro!: store_intros)

lemma keep_wol:
  "preserves I (poll e headers dev peers)" "preserves I (status e headers target)" "preserves I (wake e headers target)"
  unfolding poll_def status_def wake_def availability_def owner_of_def map_err_def
  by (intro store_intros keep_user keep_lease_jobs keep_live_jobs; simp)+

lemma keep_conn:
  "(\<And>row. preserves I (execute e (InsertAudit row))) \<Longrightarrow> preserves I (conn e ip body)"
  unfolding conn_def registered_def
  by (auto split: option.splits intro!: preserves_intros free keep_limits)

lemma keep_internal: "preserves I (internal_route e secret headers body)"
  unfolding internal_route_def internal_redeem_def
  by (auto split: option.splits bool.splits intro!: store_intros keep_redeem)

theorem keep_serve:
  assumes "\<And>body. c = RelayTicket body \<Longrightarrow> preserves I (ticket e (bearer e headers) (relay_uuid body))"
    and conn: "\<And>body. c = AuditConn body \<Longrightarrow> preserves I (conn e ip body)"
  shows "preserves I (serve e secret ip headers c)"
proof -
  have bearer: "preserves I (require_user e headers)"
    unfolding require_user_def by (intro store_intros keep_user)
  then have routes: "preserves I (current e headers)" "preserves I (empty_directory e headers)"
    "preserves I (address_book e headers)" "preserves I (logout e headers)"
    unfolding current_def empty_directory_def address_book_def logout_def
    by (intro store_intros keep_revoke; assumption)+
  have issue: "preserves I (relay_ticket e headers body)" if "c = RelayTicket body" for body
    unfolding relay_ticket_def by (intro store_intros assms(1) that)
  have "preserves I (login_handler e ip body)" for body
    unfolding login_handler_def by (auto split: option.splits intro!: store_intros keep_limits keep_login)
  then show ?thesis
    unfolding serve_def
    by (cases c) (auto split: option.splits intro!: store_intros routes keep_wol conn keep_internal issue)
qed

end

section \<open>Primary keys\<close>

interpretation account_keys: account_invariant e db_ok for e :: "'e env_scheme"
  by unfold_locales (rule db_ok_tick_free preserves_execute)+

interpretation service_keys: service_invariant e db_ok for e :: "'e service_env_scheme"
  by unfold_locales (simp_all add: db_ok_def)

section \<open>Where tickets come from\<close>

text \<open>
  \<open>licensed T d row\<close>: the row's session was open in \<open>d\<close>, for an enabled account, at one of the times \<open>T\<close>.
  \<open>tickets_from T d s\<close>: every row of \<open>s\<close> was there in \<open>d\<close> or is licensed by it, and no session and no
  account has been added.
\<close>

definition licensed :: "int set \<Rightarrow> 'v host_scheme \<Rightarrow> ticket_row \<Rightarrow> bool" where
  "licensed T d row \<longleftrightarrow> (\<exists>t \<in> T. session_live t d (tic_session row))"

definition clock_readings :: "'e env_scheme \<Rightarrow> int set" where
  "clock_readings e = range (clock_at e)"

lemma clock_at_reading [simp]: "clock_at e k \<in> clock_readings e"
  by (simp add: clock_readings_def)

lemma ticket_rows:
  assumes "run_state (ticket e token u) s = (r, s')"
  shows "accounts s' = accounts s" and "sessions s' = sessions s" and "peer_rows s' = peer_rows s"
    and "shared_open s' = shared_open s"
    and "row \<in> set (tickets s') \<Longrightarrow> row \<in> set (tickets s) \<or> licensed (clock_readings e) s row"
proof -
  have unfolded: "accounts s' = accounts s \<and> sessions s' = sessions s \<and> peer_rows s' = peer_rows s \<and>
      shared_open s' = shared_open s \<and>
      (\<forall>row \<in> set (tickets s'). row \<in> set (tickets s) \<or> session_live (clock_at e (ticks s)) s (tic_session row))"
    using assms
    by (auto simp: ticket_def exec_simps user_run session_user_live [symmetric] exec_stmt.simps digest_def
        delete_where_def insert_unique_def simp del: not_None_eq split: if_splits option.splits sum.splits)
  then show "accounts s' = accounts s" "sessions s' = sessions s" "peer_rows s' = peer_rows s"
    "shared_open s' = shared_open s" by simp_all
  show "row \<in> set (tickets s') \<Longrightarrow> row \<in> set (tickets s) \<or> licensed (clock_readings e) s row"
    using unfolded by (auto simp: licensed_def)
qed

text \<open>\<open>ticket\<close> writes nothing but tickets.\<close>

lemma ticket_keeps:
  assumes "tick_free I" and "\<And>s ts. I s \<Longrightarrow> I (s\<lparr>tickets := ts\<rparr>)"
  shows "preserves I (ticket e token u)"
  unfolding ticket_def user_def random_token_def execute_def
  by (intro preserves_intros preserves_sql assms(1); auto simp: exec_stmt.simps delete_where_def insert_unique_def
      intro: assms(2) split: if_splits)

text \<open>Every other statement leaves no row that was not there.\<close>

lemma stmt_tickets: "(\<And>h u r t. q \<noteq> InsertTicket h u r t) \<Longrightarrow> exec_stmt q s = Some (n, s') \<Longrightarrow> set (tickets s') \<subseteq> set (tickets s)"
  by (cases q) (auto simp: exec_stmt.simps Let_def delete_where_def update_where_def insert_unique_def
      split: option.splits if_splits)

definition issued_by :: "int set \<Rightarrow> 'v host_scheme \<Rightarrow> 'w host_scheme \<Rightarrow> bool" where
  "issued_by T d s \<longleftrightarrow> (\<forall>row \<in> set (tickets s). row \<in> set (tickets d) \<or> licensed T d row)"

lemma issued_by_refl [simp]: "issued_by T d d"
  by (simp add: issued_by_def)

lemma issued_by_stmt:
  assumes "\<And>h u r t. q \<noteq> InsertTicket h u r t"
  shows "preserves (issued_by T d) (execute e q)"
  unfolding execute_def
  by (rule preserves_sql) (use stmt_tickets [OF assms] in \<open>fastforce simp: tick_free_def issued_by_def\<close>)+

interpretation store_origin: account_invariant e "issued_by T d"
  for e :: "'e env_scheme" and T and d :: "'v host_scheme"
proof unfold_locales
  show "tick_free (issued_by T d)" by (simp add: tick_free_def issued_by_def)
  show "preserves (issued_by T d) (execute e q)" if "\<not> issuing q" for q
    using that by (intro issued_by_stmt) auto
qed

interpretation service_origin: service_invariant e "issued_by T d"
  for e :: "'e service_env_scheme" and T and d :: "'v host_scheme"
  by unfold_locales (simp_all add: issued_by_def)

lemma serve_tickets:
  assumes "run_state (serve e secret ip headers c) s = (r, s')"
  shows "issued_by (clock_readings e) s s'"
proof (cases "\<exists>body. c = RelayTicket body")
  case True
  then obtain r' where "run_state (ticket e (bearer e headers) (relay_uuid (case c of RelayTicket body \<Rightarrow> body))) s = (r', s')"
    using assms by (auto simp: serve_def relay_ticket_def exec_simps split: prod.splits)
  from ticket_rows(5) [OF this] show ?thesis by (auto simp: issued_by_def)
next
  case False
  then have "preserves (issued_by (clock_readings e) s) (serve e secret ip headers c)"
    by (intro service_origin.keep_serve service_origin.keep_conn issued_by_stmt) auto
  from preservesD_run [OF this assms] show ?thesis by simp
qed

lemma admin_tickets: "run_state (admin e var command arg) s = (r, s') \<Longrightarrow> issued_by T s s'"
  by (erule preservesD_run [OF store_origin.keep_admin]) (rule issued_by_refl)

lemma serve_db_ok: "preserves db_ok (serve e secret ip headers c)"
  by (rule service_keys.keep_serve) (rule ticket_db_ok service_keys.keep_conn preserves_execute)+

lemma admin_db_ok: "preserves db_ok (admin e var command arg)"
  by (rule account_keys.keep_admin)

end
