(* ===== verification/HubFrame.thy ===== *)
theory HubFrame
  imports MainLoop Secure StoreFrame
begin

text \<open>
  What a handler of hbbs can do to the shared state, once for all invariants. The locale
  \<open>hub_invariant\<close> asks that a predicate is kept by the elementary operations of src/rendezvous_server and
  src/peer.rs; its lemmas then carry it through every handler: the messages of TCP connections and
  their openings and ends, datagrams, the channel and the timers of the main loop, the console and
  the second port. It is interpreted below on the well-formedness of the server's tables and on the
  frame of the account database.
\<close>

lemma online_states_keep: "tick_free I \<Longrightarrow> preserves I (online_states e i devs st)"
  by (induction e i devs st rule: online_states.induct)
    (auto simp: elapsed_ms_def get_in_memory_def split: option.splits intro!: preserves_intros)

lemma count_online_keep: "tick_free I \<Longrightarrow> preserves I (count_online e lim m)"
  by (induction e lim m rule: count_online.induct) (auto simp: elapsed_ms_def intro!: preserves_intros)

locale hub_invariant =
  fixes e :: "'e console_env_scheme" and I :: "'w hub_scheme \<Rightarrow> bool"
  assumes free: "tick_free I"
    and keep_pm_get: "preserves I (pm_get e dev)"
    and keep_heartbeat: "preserves I (register_peer_response e dev addr)"
    and keep_registration: "preserves I (register_pk_result e rk addr)"
    and keep_remember: "preserves I (remember e addr target token)"
    and keep_record_punch: "preserves I (record_punch e from_ip to_ip dev)"
    and keep_put_sink: "preserves I (put_tcp_peer (try_into_v4 e addr) x)"
    and keep_forget: "preserves I (forget_tcp_peer e addr)"
    and keep_park: "preserves I (park_sink e addr sl)"
    and keep_unpark: "I s \<Longrightarrow> I (s\<lparr>tcp_punch := remove_key (try_into_v4 e addr) (tcp_punch s)\<rparr>)"
    and keep_emit: "preserves I (emit d msg)"
    and keep_enqueue: "preserves I (enqueue q)"
    and keep_dequeue: "I s \<Longrightarrow> queue s = q # rest \<Longrightarrow> I (s\<lparr>queue := rest\<rparr>)"
    and keep_rotation: "I s \<Longrightarrow> I (s\<lparr>rotation := r\<rparr>)"
    and keep_authorized: "preserves I (authorized e token)"
    and keep_peer_ticket: "preserves I (peer_ticket e token u)"
    and keep_check_cmd: "preserves I (check_cmd e srv cmd)"
begin

lemmas keep_intros = preserves_intros free keep_pm_get keep_heartbeat keep_registration keep_remember
  keep_record_punch keep_put_sink keep_forget keep_park keep_emit keep_enqueue keep_authorized
  keep_peer_ticket keep_check_cmd online_states_keep [OF free] count_online_keep [OF free]

lemma keep_send_to_sink: "preserves I (send_to_sink e' sl msg)"
  unfolding send_to_sink_def by (auto split: option.splits sink.splits intro!: keep_intros)

lemma keep_send_to_tcp_peer: "preserves I (send_to_tcp_peer e addr msg)"
  unfolding send_to_tcp_peer_def take_sink_def give_back_def Let_def
  by (intro keep_intros keep_send_to_sink)

lemma keep_take_punch: "preserves I (take_punch e addr)"
  unfolding take_punch_def by (intro keep_intros preserves_modify keep_unpark)

lemma keep_answers:
  "preserves I (send_to_tcp e msg addr)" "preserves I (send_to_tcp_sync e msg addr)"
  "preserves I (reply_on_connection e sl addr msg)"
  unfolding send_to_tcp_def send_to_tcp_sync_def reply_on_connection_def
  by (intro keep_intros keep_take_punch keep_send_to_tcp_peer keep_send_to_sink)+

lemma keep_udp_send: "preserves I (udp_send e addr msg)"
  unfolding udp_send_def by (intro keep_intros)

lemma keep_deliver: "preserves I (deliver e msg addr)"
  unfolding deliver_def by (intro keep_intros keep_send_to_tcp_peer keep_udp_send)

lemma keep_relay_server: "preserves I (get_relay_server srv)"
  unfolding get_relay_server_def by (intro keep_intros preserves_modify keep_rotation)

lemma keep_get_pk: "preserves I (get_pk e srv ver dev)"
  unfolding get_pk_def by (intro keep_intros)

lemma keep_token_for: "preserves I (token_for e addr target)"
  unfolding token_for_def by (intro keep_intros)

lemma keep_punch_request: "preserves I (handle_punch_hole_request e srv addr ph key ws)"
  unfolding handle_punch_hole_request_def elapsed_ms_def by (intro keep_intros keep_relay_server)

lemmas keep_sends = keep_intros keep_send_to_tcp_peer keep_answers keep_udp_send keep_deliver keep_relay_server
  keep_get_pk keep_token_for keep_punch_request

lemma keep_hole_answers:
  "preserves I (handle_hole_sent e srv phs addr over_udp)" "preserves I (handle_local_addr e srv la addr over_udp)"
  unfolding handle_hole_sent_def handle_local_addr_def Let_def by (intro keep_sends)+

lemma keep_requests:
  "preserves I (tcp_punch_request e srv ph sl addr key ws)" "preserves I (tcp_request_relay e rf sl addr)"
  "preserves I (tcp_relay_response e srv rr sl addr)"
  unfolding tcp_punch_request_def handle_tcp_punch_hole_request_def tcp_request_relay_def get_in_memory_def
    tcp_relay_response_def answer_peer_initiated_relay_def Let_def
  by (intro keep_sends)+

lemma keep_tcp_registration:
  "preserves I (handle_tcp_register_peer e srv dev n sl addr)" "preserves I (handle_tcp_register_pk e rk sl addr)"
  unfolding handle_tcp_register_peer_def handle_tcp_register_pk_def adopt_sink_def by (intro keep_sends)+

theorem keep_handle_tcp: "preserves I (handle_tcp e srv msg sl addr key ws)"
proof -
  have "preserves I (is_tcp_peer e addr)" unfolding is_tcp_peer_def by (intro keep_intros)
  then show ?thesis
    unfolding handle_tcp_def Let_def
    by (cases msg; (cases "the msg")?)
      (auto intro!: preserves_bind preserves_return keep_requests keep_hole_answers keep_tcp_registration keep_answers)
qed

theorem keep_handle_udp: "preserves I (handle_udp e srv msg addr)"
  unfolding handle_udp_def
  by (cases msg; (cases "the msg")?)
    (auto intro!: preserves_try_bind preserves_bind preserves_return keep_udp_send keep_heartbeat keep_registration)

theorem keep_main_recv: "preserves I (main_recv e srv)"
proof (rule preservesI)
  fix s
  assume "I s"
  then show "I (snd (run_state (main_recv e srv) s))"
    using preservesD [OF keep_deliver keep_dequeue [of s]]
    by (auto simp: main_recv_def exec_simps case_prod_unfold keep_dequeue split: list.splits data.splits)
qed

theorem keep_loop_event: "preserves I (on_loop_event e ev ml)"
  unfolding on_loop_event_def on_relay_timer_def peer_transport_def online_count_def Let_def
  by (cases ev) (auto intro!: keep_intros keep_handle_udp keep_main_recv)

theorem keep_listener2: "preserves I (serve_listener2 e srv addr input frame)"
  unfolding serve_listener2_def handle_listener2_def handle_online_request_def
  by (auto split: option.splits message.splits intro!: keep_intros)

theorem keep_close: "preserves I (close_connection e sl addr)"
  unfolding close_connection_def by (intro keep_intros preserves_modify keep_unpark)

theorem keep_open: "preserves I (open_tcp w srv n)"
  unfolding open_tcp_def new_offer_def by (auto split: option.splits prod.splits intro!: keep_intros keep_send_to_sink)

theorem keep_probe: "preserves I (check_relay_servers answered)"
  unfolding check_relay_servers_def by (intro keep_intros)

end

section \<open>Predicates of a part of the state\<close>

text \<open>
  A predicate that reads only the part \<open>view\<close> of the state, which has none of the fields that the
  handlers write by themselves, is kept when registration and the account database keep it.
\<close>

lemma hub_invariant_view:
  fixes e :: "'e console_env_scheme" and I :: "'w hub_scheme \<Rightarrow> bool" and view :: "'w hub_scheme \<Rightarrow> 'v"
  assumes same: "\<And>s t. view s = view t \<Longrightarrow> I s = I t"
    and blind: "\<And>s x. view (s\<lparr>ticks := x\<rparr>) = view s" "\<And>s x. view (s\<lparr>ip_blocker := x\<rparr>) = view s"
      "\<And>s x. view (s\<lparr>ip_changes := x\<rparr>) = view s" "\<And>s x. view (s\<lparr>punch_reqs := x\<rparr>) = view s"
      "\<And>s x. view (s\<lparr>punch_sessions := x\<rparr>) = view s" "\<And>s x. view (s\<lparr>tcp_punch := x\<rparr>) = view s"
      "\<And>s x. view (s\<lparr>tcp_peers := x\<rparr>) = view s" "\<And>s x. view (s\<lparr>queue := x\<rparr>) = view s"
      "\<And>s x. view (s\<lparr>rotation := x\<rparr>) = view s" "\<And>s x. view (s\<lparr>always_use_relay := x\<rparr>) = view s"
      "\<And>s x. view (s\<lparr>sent := x\<rparr>) = view s"
    and peers: "\<And>dev. preserves I (pm_get e dev)" "\<And>dev addr. preserves I (register_peer_response e dev addr)"
      "\<And>rk addr. preserves I (register_pk_result e rk addr)"
    and store: "\<And>token. preserves I (authorized e token)" "\<And>token u. preserves I (peer_ticket e token u)"
  shows "hub_invariant e I"
proof -
  have keep: "I t" if "I s" "view t = view s" for s t
    using same [OF that(2)] that(1) by simp
  have modify: "preserves I (modify f)" if "\<And>s. view (f s) = view s" for f
    by (rule preserves_modify) (rule keep [OF _ that])
  have free: "tick_free I" by (rule tick_freeI, rule same) (rule blind)
  have sessions: "preserves I (retain_sessions e m)" for m
    by (induction e m rule: retain_sessions.induct) (auto intro!: preserves_intros free)
  show ?thesis
  proof unfold_locales
    show "preserves I (remember e addr target token)" for addr target token
      unfolding remember_def by (intro preserves_intros free sessions modify) (simp add: blind)
    show "preserves I (record_punch e a b dev)" for a b dev
      unfolding record_punch_def by (intro preserves_intros free modify) (simp add: blind)
    show "preserves I (park_sink e addr sl)" for addr sl
      unfolding park_sink_def by (intro preserves_intros modify) (simp add: blind)
    show "preserves I (check_cmd e srv cmd)" for srv cmd
    proof (rule preserves_check_cmd [OF free])
      show "preserves I (purge_blocker e)" "preserves I (purge_changes e)"
        unfolding purge_blocker_def purge_changes_def
        by (intro preserves_intros preserves_retain free modify; simp add: blind)+
      show "preserves I (get_relay_server srv)"
        unfolding get_relay_server_def by (intro preserves_intros modify) (simp add: blind)
    qed (unfold enqueue_def, (rule modify, simp add: blind)+)
    show "preserves I (put_tcp_peer (try_into_v4 e addr) x)" for addr x
      unfolding put_tcp_peer_def by (rule modify) (simp add: blind)
    show "preserves I (forget_tcp_peer e addr)" for addr
      unfolding forget_tcp_peer_def by (rule modify) (simp add: blind)
    show "preserves I (emit d msg)" "preserves I (enqueue q)" for d msg q
      unfolding emit_def enqueue_def by (rule modify, simp add: blind)+
    show "I (s\<lparr>tcp_punch := remove_key (try_into_v4 e addr) (tcp_punch s)\<rparr>)" "I (s\<lparr>rotation := r\<rparr>)"
      "I (s\<lparr>queue := rest\<rparr>)" if "I s" for s addr r rest
      by (rule keep [OF that], simp add: blind)+
  qed (rule free peers store)+
qed

text \<open>Entry points of the account database, for a predicate that survives opening it and \<open>ticket\<close>.\<close>

lemma keep_store_calls:
  assumes "tick_free I" and "\<And>s. I s \<Longrightarrow> I (s\<lparr>shared_open := True\<rparr>)" and "\<And>token u. preserves I (ticket e token u)"
  shows "preserves I (authorized e token)" and "preserves I (peer_ticket e token u)"
proof -
  have all: "preserves I (run_all n e)" for n
    by (induction n) (auto intro!: preserves_intros assms(1))
  have shared: "preserves I (shared e)"
    unfolding shared_def by (intro preserves_intros all preserves_modify assms(2))
  show "preserves I (authorized e token)"
    unfolding authorized_def user_def by (intro preserves_intros assms(1) shared)
  show "preserves I (peer_ticket e token u)"
    unfolding peer_ticket_def by (intro preserves_intros shared assms(3))
qed

section \<open>The account database\<close>

text \<open>A predicate that reads only the tables of the account database and survives \<open>ticket\<close>.\<close>

definition store_of ::
  "'w host_scheme \<Rightarrow> account_row list \<times> session_row list \<times> ticket_row list \<times> device_row list \<times> job_row list \<times>
     audit_row list \<times> bool" where
  "store_of s = (accounts s, sessions s, tickets s, devices s, jobs s, audits s, shared_open s)"

lemma hub_invariant_store:
  fixes e :: "'e console_env_scheme" and I :: "'w hub_scheme \<Rightarrow> bool"
  assumes same: "\<And>s t. store_of s = store_of t \<Longrightarrow> I s = I t"
    and opened: "\<And>s. I s \<Longrightarrow> I (s\<lparr>shared_open := True\<rparr>)"
    and ticket: "\<And>token u. preserves I (ticket e token u)"
  shows "hub_invariant e I"
proof -
  have keep: "I t" if "I s" "store_of t = store_of s" for s t
    using same [OF that(2)] that(1) by simp
  have free: "tick_free I" by (rule tick_freeI, rule same) (simp add: store_of_def)
  have reg: "registration_frame e I (\<lambda>_. True)"
  proof unfold_locales
    show "preserves I (put_peer dev p)" for dev p
      unfolding put_peer_def by (rule preserves_modify, erule keep) (simp add: store_of_def)
    show "I (s\<lparr>peer_rows := rows\<rparr>)" if "I s" for s rows
      by (rule keep [OF that]) (simp add: store_of_def)
    show "preserves I (check_ip_blocker e ip dev)" for ip dev
      by (rule limit_keeps [OF free], erule keep) (simp add: store_of_def)
    show "preserves I (record_ip_change e dev ip)" for ip dev
      by (rule change_keeps [OF free], erule keep) (simp add: store_of_def)
  qed (rule free TrueI)+
  show ?thesis
    by (rule hub_invariant_view [where view = store_of])
      (rule same registration_frame.frame_pm_get [OF reg] registration_frame.frame_heartbeat [OF reg]
        registration_frame.frame_register_pk [OF reg] keep_store_calls [OF free opened ticket]
        | assumption | simp add: store_of_def)+
qed

interpretation keys_hub: hub_invariant e db_ok for e :: "'e console_env_scheme"
  by (rule hub_invariant_store) (auto simp: store_of_def db_ok_def ticket_db_ok)

text \<open>hbbs adds no account and no session, and every ticket it adds belongs to an open session.\<close>

definition office_frame :: "int set \<Rightarrow> 'v host_scheme \<Rightarrow> 'w host_scheme \<Rightarrow> bool" where
  "office_frame T d s \<longleftrightarrow> accounts s = accounts d \<and> sessions s = sessions d \<and> issued_by T d s"

lemma office_frame_refl [simp]: "office_frame T d d"
  by (simp add: office_frame_def)

lemma ticket_office_frame: "clock_readings e \<subseteq> T \<Longrightarrow> preserves (office_frame T d) (ticket e token u)"
proof (rule preservesI)
  fix s
  assume T: "clock_readings e \<subseteq> T" and s: "office_frame T d s"
  obtain r s' where run: "run_state (ticket e token u) s = (r, s')" by (metis prod.collapse)
  have "licensed T d row" if "licensed (clock_readings e) s row" for row
    using that s T by (auto simp: licensed_def office_frame_def session_live_iff)
  then have "office_frame T d s'"
    using s ticket_rows [OF run] by (auto simp: office_frame_def issued_by_def)
  then show "office_frame T d (snd (run_state (ticket e token u) s))" by (simp add: run)
qed

interpretation office_hub: hub_invariant e "office_frame (clock_readings e) d"
  for e :: "'e console_env_scheme" and d :: "'v host_scheme"
  by (rule hub_invariant_store)
    (auto simp: store_of_def office_frame_def issued_by_def intro!: ticket_office_frame)

text \<open>The database stays open.\<close>

interpretation open_hub: hub_invariant e shared_open for e :: "'e console_env_scheme"
  by (rule hub_invariant_store) (auto simp: store_of_def tick_free_def intro!: ticket_keeps)

section \<open>The peers\<close>

definition peers_of :: "'w hub_scheme \<Rightarrow> (string \<times> peer) list \<times> peer_row list" where
  "peers_of s = (pm_map s, peer_rows s)"

interpretation linked_hub: hub_invariant e linked for e :: "'e console_env_scheme"
proof -
  have same: "linked s = linked t" if "peers_of s = peers_of t" for s t :: "'w hub_scheme"
    using that by (simp add: linked_def peers_of_def)
  show "hub_invariant e (linked :: 'w hub_scheme \<Rightarrow> bool)"
  proof (rule hub_invariant_view [where view = peers_of])
    show "preserves linked (authorized e token)" "preserves linked (peer_ticket e token u)" for token u
      by (rule keep_store_calls [OF linked_tick_free _ ticket_keeps [OF linked_tick_free]]; simp add: linked_def)+
  qed (rule same pm_get_linked register_peer_response_linked register_pk_result_linked | assumption
      | simp add: peers_of_def)+
qed

end
