(* ===== verification/Tables.thy ===== *)
theory Tables
  imports HubFrame
begin

text \<open>
  The well-formedness of hbbs's state: every hash map has distinct keys, a registration counter is at
  most 3, an address entry counts at most 31 requests and 301 ids, an entry of the address changes
  names at least one address, and connections are filed under the IPv4 form of their address.
  \<open>office_step\<close> is whatever happens to the state the programs of one installation share: messages of
  connections, datagrams, the main loop, the console, requests to the account service and commands of
  the administration tool. \<open>hub_well_formed\<close> says that the type is preserved by all of it.
\<close>

section \<open>Hash maps with well-formed entries\<close>

definition map_ok :: "('k \<Rightarrow> 'v \<Rightarrow> bool) \<Rightarrow> ('k \<times> 'v) list \<Rightarrow> bool" where
  "map_ok ok m \<longleftrightarrow> distinct (map fst m) \<and> (\<forall>(k, v) \<in> set m. ok k v)"

lemma map_ok_Nil [simp]: "map_ok ok []"
  by (simp add: map_ok_def)

lemma map_ok_entry: "map_ok ok m \<Longrightarrow> map_of m k = Some v \<Longrightarrow> ok k v"
  by (auto simp: map_ok_def dest: map_of_SomeD)

lemma map_ok_update: "map_ok ok m \<Longrightarrow> ok k v \<Longrightarrow> map_ok ok (AList.update k v m)"
  using set_update_subset [of k v m] by (fastforce simp: map_ok_def distinct_update)

lemma map_ok_remove: "map_ok ok m \<Longrightarrow> map_ok ok (remove_key k m)"
  by (auto simp: map_ok_def distinct_remove_key)

lemma map_ok_subseq:
  assumes "subseq m' m" and "map_ok ok m"
  shows "map_ok ok m'"
proof -
  have "map fst m' \<in> set (subseqs (map fst m))" using subseq_map [OF assms(1), of fst] by simp
  then have "distinct (map fst m')" using assms(2) subseqs_distinctD by (auto simp: map_ok_def)
  with assms show ?thesis by (auto simp: map_ok_def elim: list_emb_set)
qed

lemmas map_ok_intros = map_ok_update map_ok_remove

text \<open>\<open>retain\<close> leaves a subsequence.\<close>

lemma retain_subseq:
  "subseq (fst (run_state (retain_blocker e m1) s)) m1"
  "subseq (fst (run_state (retain_changes e m2) s)) m2"
  "subseq (fst (run_state (retain_sessions e m3) s)) m3"
proof -
  show "subseq (fst (run_state (retain_blocker e m1) s)) m1"
    by (induction e m1 arbitrary: s rule: retain_blocker.induct) (auto simp: exec_simps case_prod_unfold)
  show "subseq (fst (run_state (retain_changes e m2) s)) m2"
    by (induction e m2 arbitrary: s rule: retain_changes.induct) (auto simp: exec_simps case_prod_unfold)
  show "subseq (fst (run_state (retain_sessions e m3) s)) m3"
    by (induction e m3 arbitrary: s rule: retain_sessions.induct) (auto simp: exec_simps case_prod_unfold)
qed

section \<open>The type of the shared state\<close>

definition canonical :: "'e hub_env_scheme \<Rightarrow> socket_addr \<Rightarrow> bool" where
  "canonical e k \<longleftrightarrow> (\<exists>a. k = try_into_v4 e a)"

lemma canonical_v4 [simp]: "canonical e (try_into_v4 e a)"
  by (auto simp: canonical_def)

definition sane_counter :: "32 word \<times> int \<Rightarrow> bool" where
  "sane_counter r \<longleftrightarrow> fst r \<le> 3"

definition blocker_entry_ok :: "(32 word \<times> int) \<times> (string list \<times> int) \<Rightarrow> bool" where
  "blocker_entry_ok = (\<lambda>((n, t), (ids, since)). n \<le> 31 \<and> distinct ids \<and> length ids \<le> 301)"

definition change_entry_ok :: "int \<times> (string \<times> 32 word) list \<Rightarrow> bool" where
  "change_entry_ok = (\<lambda>(tm, ips). ips \<noteq> [] \<and> distinct (map fst ips))"

definition tables_ok :: "'e hub_env_scheme \<Rightarrow> 'w hub_scheme \<Rightarrow> bool" where
  "tables_ok e s \<longleftrightarrow>
     map_ok (\<lambda>_ p. sane_counter (reg_pk p)) (pm_map s) \<and>
     map_ok (\<lambda>_. blocker_entry_ok) (ip_blocker s) \<and>
     map_ok (\<lambda>_. change_entry_ok) (ip_changes s) \<and>
     map_ok (\<lambda>k _. canonical e (fst k)) (punch_sessions s) \<and>
     map_ok (\<lambda>k _. canonical e k) (tcp_punch s) \<and>
     map_ok (\<lambda>k _. canonical e k) (tcp_peers s)"

lemma tables_free: "tick_free (tables_ok e)"
  by (simp add: tick_free_def tables_ok_def)

lemma small_count: "(n :: 32 word) \<le> 30 \<Longrightarrow> n + 1 \<le> 31"
  by (simp add: word_le_nat_alt unat_word_ariths)

lemma check_ids_tables:
  "n \<le> 31 \<Longrightarrow> distinct ids \<Longrightarrow> length ids \<le> 301 \<Longrightarrow>
     preserves (tables_ok e) (check_ids e' ip dev now (n, now) ids since)"
  by (rule preservesI)
    (auto simp: check_ids_def tables_ok_def exec_simps Let_def blocker_entry_ok_def intro!: map_ok_update)

lemma check_ip_blocker_tables: "preserves (tables_ok e) (check_ip_blocker e' ip dev)"
proof (rule preservesI)
  fix s :: "'w hub_scheme"
  assume s: "tables_ok e s"
  show "tables_ok e (snd (run_state (check_ip_blocker e' ip dev) s))"
  proof (cases "map_of (ip_blocker s) ip")
    case None
    with s show ?thesis
      by (auto simp: check_ip_blocker_def exec_simps tables_ok_def blocker_entry_ok_def intro: map_ok_update)
  next
    case (Some v)
    obtain n t ids since where v: "v = ((n, t), (ids, since))" by (metis prod.collapse)
    have entry: "n \<le> 31" "distinct ids" "length ids \<le> 301"
      using s Some v map_ok_entry [of _ "ip_blocker s" ip v] by (auto simp: tables_ok_def blocker_entry_ok_def)
    let ?s = "s\<lparr>ticks := Suc (Suc (ticks s))\<rparr>" and ?el = "as_secs (nat (instant e' (Suc (ticks s)) - t))"
    let ?c = "(if ?el > 60 then 0 else n) + 1"
    have ok: "tables_ok e ?s" using s by (simp add: tables_ok_def)
    have run: "run_state (check_ip_blocker e' ip dev) s =
        (if ?el \<le> 60 \<and> n > 30 then (False, ?s)
         else run_state (check_ids e' ip dev (instant e' (ticks s)) (?c, instant e' (ticks s)) ids since) ?s)"
      using Some v by (simp add: check_ip_blocker_def exec_simps)
    show ?thesis
    proof (cases "?el \<le> 60 \<and> n > 30")
      case False
      then have "?c \<le> 31" using small_count [of n] small_count [of 0] by (auto simp: not_less)
      from preservesD [OF check_ids_tables [OF this entry(2,3)] ok] show ?thesis
        unfolding run using False by (simp only: if_False)
    qed (use ok run in simp)
  qed
qed


lemma record_ip_change_tables: "preserves (tables_ok e) (record_ip_change e' dev ip)"
proof (rule preservesI)
  fix s :: "'w hub_scheme"
  assume s: "tables_ok e s"
  have entry: "change_entry_ok (tm, ips)" if "map_of (ip_changes s) dev = Some (tm, ips)" for tm ips
    using s that map_ok_entry [of "\<lambda>_. change_entry_ok" "ip_changes s" dev] by (simp add: tables_ok_def)
  have keep: "AList.update ip v ips \<noteq> []" for ips :: "(string \<times> 32 word) list" and v
    by (cases ips) auto
  show "tables_ok e (snd (run_state (record_ip_change e' dev ip) s))"
    using s
    by (auto simp: record_ip_change_def exec_simps tables_ok_def change_entry_ok_def keep distinct_update
        dest!: entry intro!: map_ok_update split: option.splits)
qed

lemma put_peer_tables: "sane_counter (reg_pk p) \<Longrightarrow> preserves (tables_ok e) (put_peer dev p)"
  unfolding put_peer_def by (rule preserves_modify) (auto simp: tables_ok_def intro: map_ok_update)

interpretation table_frame: registration_frame e "tables_ok e" sane_counter for e :: "'e hub_env_scheme"
  by unfold_locales
    (simp_all add: tables_free put_peer_tables check_ip_blocker_tables record_ip_change_tables,
      auto simp: tables_ok_def sane_counter_def dest: map_ok_entry)

lemma remember_tables: "preserves (tables_ok e) (remember e addr target token)"
proof (rule preservesI)
  fix s :: "'w hub_scheme"
  assume s: "tables_ok e s"
  obtain m' s1 where r: "run_state (retain_sessions e (punch_sessions s)) s = (m', s1)" by (metis prod.collapse)
  have "map_ok (\<lambda>k _. canonical e (fst k)) m'"
    using map_ok_subseq [OF retain_subseq(3) [of e "punch_sessions s" s]] r s by (simp add: tables_ok_def)
  moreover have "tables_ok e s1"
  proof -
    have "preserves (tables_ok e) (retain_sessions e m)" for m
      by (induction e m rule: retain_sessions.induct) (auto intro!: preserves_intros tables_free)
    from preservesD_run [OF this r s] show ?thesis .
  qed
  ultimately show "tables_ok e (snd (run_state (remember e addr target token) s))"
    using r by (auto simp: remember_def exec_simps tables_ok_def intro: map_ok_update)
qed

lemma console_tables: "preserves (tables_ok e) (check_cmd e' srv cmd)"
proof (rule preserves_check_cmd [OF tables_free])
  show "preserves (tables_ok e) (purge_blocker e')" "preserves (tables_ok e) (purge_changes e')"
  proof -
    have "tables_ok e (snd (run_state (purge_blocker e') s))" "tables_ok e (snd (run_state (purge_changes e') s))"
      if s: "tables_ok e s" for s
      using preservesD [OF preserves_retain(1) [OF tables_free] s, of e' "ip_blocker s"]
        preservesD [OF preserves_retain(2) [OF tables_free] s, of e' "ip_changes s"] s
        map_ok_subseq [OF retain_subseq(1) [of e' "ip_blocker s" s]]
        map_ok_subseq [OF retain_subseq(2) [of e' "ip_changes s" s]]
      by (auto simp: purge_blocker_def purge_changes_def tables_ok_def exec_simps case_prod_unfold)
    then show "preserves (tables_ok e) (purge_blocker e')" "preserves (tables_ok e) (purge_changes e')"
      by (auto intro: preservesI)
  qed
  show "preserves (tables_ok e) (get_relay_server srv)"
    unfolding get_relay_server_def by (intro preserves_intros preserves_modify) (simp add: tables_ok_def)
qed (unfold enqueue_def, (rule preserves_modify, auto simp: tables_ok_def intro: map_ok_remove)+)


text \<open>All of it is kept by every handler.\<close>

interpretation table_hub: hub_invariant e "tables_ok e" for e :: "'e console_env_scheme"
proof -
  have modify: "preserves (tables_ok e) (modify f)" if "\<And>s. tables_ok e s \<Longrightarrow> tables_ok e (f s)" for f
    using that by (rule preserves_modify)
  have ticket: "preserves (tables_ok e) (ticket e token u)" for token u
    by (rule ticket_keeps [OF tables_free]) (simp add: tables_ok_def)
  show "hub_invariant e (tables_ok e)"
  proof unfold_locales
    show "tick_free (tables_ok e)" by (rule tables_free)
    show "preserves (tables_ok e) (pm_get e dev)" for dev by (rule table_frame.frame_pm_get)
    show "preserves (tables_ok e) (register_peer_response e dev addr)" for dev addr by (rule table_frame.frame_heartbeat)
    show "preserves (tables_ok e) (register_pk_result e rk addr)" for rk addr by (rule table_frame.frame_register_pk)
    show "preserves (tables_ok e) (remember e addr target token)" for addr target token by (rule remember_tables)
    show "preserves (tables_ok e) (record_punch e a b dev)" for a b dev
      unfolding record_punch_def by (intro preserves_intros tables_free modify) (simp add: tables_ok_def)
    show "preserves (tables_ok e) (put_tcp_peer (try_into_v4 e addr) x)" for addr x
      unfolding put_tcp_peer_def by (rule modify) (auto simp: tables_ok_def intro: map_ok_update)
    show "preserves (tables_ok e) (forget_tcp_peer e addr)" for addr
      unfolding forget_tcp_peer_def by (rule modify) (auto simp: tables_ok_def intro: map_ok_remove)
    show "preserves (tables_ok e) (park_sink e addr sl)" for addr sl
      unfolding park_sink_def by (intro preserves_intros modify) (auto simp: tables_ok_def intro: map_ok_update)
    show "preserves (tables_ok e) (emit d msg)" "preserves (tables_ok e) (enqueue q)" for d msg q
      unfolding emit_def enqueue_def by (rule modify, simp add: tables_ok_def)+
    show "preserves (tables_ok e) (authorized e token)" "preserves (tables_ok e) (peer_ticket e token u)" for token u
      by (rule keep_store_calls [OF tables_free _ ticket], simp add: tables_ok_def)+
    show "preserves (tables_ok e) (check_cmd e srv cmd)" for srv cmd by (rule console_tables)
  qed (auto simp: tables_ok_def intro: map_ok_remove)
qed


section \<open>Everything that happens to the shared state\<close>

text \<open>
  The account service is a process of its own that works on the same database: it has the tables of
  the rate limiters beside it, and \<open>with_store\<close> is hbbs's state after the service has written.
\<close>

definition with_store :: "'v host_scheme \<Rightarrow> 'w hub_scheme \<Rightarrow> 'w hub_scheme" where
  "with_store t h = host.extend (host.truncate t) (host.more h)"

lemma with_store_simps [simp]:
  "accounts (with_store t h) = accounts t" "sessions (with_store t h) = sessions t" "tickets (with_store t h) = tickets t"
  "devices (with_store t h) = devices t" "jobs (with_store t h) = jobs t" "audits (with_store t h) = audits t"
  "peer_rows (with_store t h) = peer_rows t" "shared_open (with_store t h) = shared_open t"
  "pm_map (with_store t h) = pm_map h" "ip_blocker (with_store t h) = ip_blocker h" "ip_changes (with_store t h) = ip_changes h"
  "punch_sessions (with_store t h) = punch_sessions h" "tcp_punch (with_store t h) = tcp_punch h"
  "tcp_peers (with_store t h) = tcp_peers h"
  by (cases t, cases h, simp add: with_store_def host.extend_def host.truncate_def)+

inductive hub_step :: "'e console_env_scheme \<Rightarrow> 'x secure_env_scheme \<Rightarrow> 'w hub_scheme \<Rightarrow> 'w hub_scheme \<Rightarrow> bool"
  for e :: "'e console_env_scheme" and x :: "'x secure_env_scheme" where
  hub_tcp: "run_state (handle_tcp e srv msg sl addr key ws) h = (r1, h') \<Longrightarrow> hub_step e x h h'"
| hub_open: "run_state (open_tcp x srv n) h = (r2, h') \<Longrightarrow> hub_step e x h h'"
| hub_close: "run_state (close_connection e sl addr) h = (u, h') \<Longrightarrow> hub_step e x h h'"
| hub_port2: "run_state (serve_listener2 e srv addr input frame) h = (r3, h') \<Longrightarrow> hub_step e x h h'"
| hub_event: "run_state (on_loop_event e ev ml) h = (r4, h') \<Longrightarrow> hub_step e x h h'"
| hub_probe: "run_state (check_relay_servers answered) h = (u, h') \<Longrightarrow> hub_step e x h h'"

inductive office_step ::
  "'e console_env_scheme \<Rightarrow> 'x secure_env_scheme \<Rightarrow> 'y service_env_scheme \<Rightarrow> 'w hub_scheme \<Rightarrow> 'w hub_scheme \<Rightarrow> bool"
  for e :: "'e console_env_scheme" and x :: "'x secure_env_scheme" and y :: "'y service_env_scheme" where
  office_hbbs: "hub_step e x h h' \<Longrightarrow> office_step e x y h h'"
| office_service: "run_state (serve y secret ip headers c) t = (r, t') \<Longrightarrow> host.truncate (t :: service) = host.truncate h \<Longrightarrow>
    office_step e x y h (with_store t' h)"
| office_admin: "run_state (admin y var command arg) h = (r, h') \<Longrightarrow> office_step e x y h h'"

inductive_cases hub_stepE: "hub_step e x h h'"
inductive_cases office_stepE: "office_step e x y h h'"

context hub_invariant begin

lemma keep_hub_step: "hub_step e x h h' \<Longrightarrow> I h \<Longrightarrow> I h'"
  by (erule hub_stepE)
    (auto dest: preservesD_run [OF keep_handle_tcp] preservesD_run [OF keep_open] preservesD_run [OF keep_close]
      preservesD_run [OF keep_listener2] preservesD_run [OF keep_loop_event] preservesD_run [OF keep_probe])

text \<open>With the two other programs, which have to keep the predicate too.\<close>

lemma keep_office:
  assumes "office_step e x y h h'" and "I h"
    and service: "\<And>secret ip headers c t r t'. run_state (serve y secret ip headers c) t = (r, t') \<Longrightarrow>
      host.truncate (t :: service) = host.truncate h \<Longrightarrow> I (with_store t' h)"
    and admin: "\<And>var command arg. preserves I (admin y var command arg)"
  shows "I h'"
  using assms(1)
  by (cases rule: office_stepE)
    (use service assms(2) in \<open>auto dest: keep_hub_step preservesD_run [OF admin]\<close>)

end

text \<open>The account service and the administration tool leave the peers alone, and the database open.\<close>

definition apart :: "peer_row list \<Rightarrow> bool \<Rightarrow> 'w host_scheme \<Rightarrow> bool" where
  "apart rows b s \<longleftrightarrow> peer_rows s = rows \<and> shared_open s = b"

lemma apart_free: "tick_free (apart rows b)"
  by (simp add: tick_free_def apart_def)

lemma apart_ticket: "preserves (apart rows b) (ticket e token u)"
  by (rule ticket_keeps [OF apart_free]) (simp add: apart_def)

lemma apart_stmt: "preserves (apart rows b) (execute e q)"
proof -
  have "apart rows b s'" if "exec_stmt q s = Some (n, s')" and "apart rows b s" for n and s s' :: "'w host_scheme"
    using that by (cases q) (auto simp: apart_def exec_stmt.simps Let_def delete_where_def update_where_def
        insert_unique_def split: option.splits if_splits)
  then show ?thesis unfolding execute_def by (intro preserves_sql apart_free)
qed

interpretation store_apart: account_invariant e "apart rows b" for e :: "'e env_scheme" and rows b
  by unfold_locales (rule apart_free apart_stmt)+

interpretation service_apart: service_invariant e "apart rows b" for e :: "'e service_env_scheme" and rows b
  by unfold_locales (simp_all add: apart_def)

lemma truncate_store:
  assumes "host.truncate (t :: 'v host_scheme) = host.truncate (h :: 'w host_scheme)"
  shows "accounts t = accounts h" "sessions t = sessions h" "tickets t = tickets h" "devices t = devices h"
    "jobs t = jobs h" "audits t = audits h" "peer_rows t = peer_rows h" "shared_open t = shared_open h"
  using assms by (simp_all add: host.truncate_def)

lemma service_apart_run:
  assumes "run_state (serve y secret ip headers c) t = (r, t')" and "host.truncate t = host.truncate h"
  shows "peer_rows (with_store t' h) = peer_rows h" and "shared_open (with_store t' h) = shared_open h"
  using preservesD_run [OF service_apart.keep_serve [OF apart_ticket service_apart.keep_conn [OF apart_stmt]] assms(1),
      of "peer_rows h" "shared_open h"]
    truncate_store [OF assms(2)] by (simp_all add: apart_def)

lemma exec_stmt_hub:
  fixes s :: "'w hub_scheme"
  assumes "exec_stmt q s = Some (n, s')"
  shows "pm_map s' = pm_map s" "ip_blocker s' = ip_blocker s" "ip_changes s' = ip_changes s"
    "punch_sessions s' = punch_sessions s" "tcp_punch s' = tcp_punch s" "tcp_peers s' = tcp_peers s"
    "peer_rows s' = peer_rows s"
  using assms
  by (cases q; auto simp: exec_stmt.simps Let_def delete_where_def update_where_def split: option.splits)+

interpretation store_linked: account_invariant e linked for e :: "'e env_scheme"
  by unfold_locales
    (auto simp: linked_tick_free execute_def linked_def exec_stmt_hub intro!: preserves_sql)

interpretation store_tables: account_invariant e' "tables_ok e" for e' :: "'e env_scheme" and e :: "'x hub_env_scheme"
  by unfold_locales
    (auto simp: tables_free execute_def tables_ok_def exec_stmt_hub intro!: preserves_sql)

section \<open>The type is preserved\<close>

definition hub_typed :: "'e hub_env_scheme \<Rightarrow> 'w hub_scheme \<Rightarrow> bool" where
  "hub_typed e s \<longleftrightarrow> db_ok s \<and> linked s \<and> tables_ok e s"

text \<open>hbbs starts on a well-formed database, with empty tables.\<close>

definition hub_start :: "'w hub_scheme \<Rightarrow> bool" where
  "hub_start s \<longleftrightarrow> db_ok s \<and> peer_rows_ok (peer_rows s) \<and> pm_map s = [] \<and> ip_blocker s = [] \<and> ip_changes s = [] \<and>
     punch_sessions s = [] \<and> tcp_punch s = [] \<and> tcp_peers s = []"

lemma office_step_typed:
  assumes step: "office_step e x y h h'" and ok: "hub_typed e h"
  shows "hub_typed e h'"
proof -
  have service: "db_ok (with_store t' h)" "linked (with_store t' h)" "tables_ok e (with_store t' h)"
    if run: "run_state (serve y secret ip headers c) t = (r, t')" and same: "host.truncate (t :: service) = host.truncate h"
    for secret ip headers c t r t'
  proof -
    have "db_ok t" using ok truncate_store [OF same] by (simp add: hub_typed_def db_ok_def)
    then have "db_ok t'" by (rule preservesD_run [OF serve_db_ok run])
    then show "db_ok (with_store t' h)" by (simp add: db_ok_def)
    show "linked (with_store t' h)" "tables_ok e (with_store t' h)"
      using ok service_apart_run [OF run same] by (simp_all add: hub_typed_def linked_def tables_ok_def)
  qed
  note I = ok [unfolded hub_typed_def]
  show ?thesis unfolding hub_typed_def
  proof (intro conjI)
    show "db_ok h'" by (rule keys_hub.keep_office [OF step]) (use I service(1) in \<open>auto intro: admin_db_ok\<close>)
    show "linked h'" by (rule linked_hub.keep_office [OF step]) (use I service(2) in \<open>auto intro: store_linked.keep_admin\<close>)
    show "tables_ok e h'" by (rule table_hub.keep_office [OF step]) (use I service(3) in \<open>auto intro: store_tables.keep_admin\<close>)
  qed
qed

interpretation typed_office: machine hub_start "office_step e x y" "hub_typed e"
  for e :: "'e console_env_scheme" and x :: "'x secure_env_scheme" and y :: "'y service_env_scheme"
proof unfold_locales
  show "hub_typed e s" if "hub_start s" for s :: "'w hub_scheme"
    using that by (simp add: hub_start_def hub_typed_def linked_def tables_ok_def)
qed (rule office_step_typed)


section \<open>Properties\<close>

text \<open>
  C6: Whatever messages, datagrams, timers, console commands, service requests and administration
  commands arrive in whatever order: the state of hbbs and the database stay well typed. Primary keys
  hold, a cached peer that has a row is filed under the id of that row, every hash map has distinct keys,
  a registration counter never passes 3, an address counts at most 31 requests and 301 ids, an
  address change names an address, and connections and controller sessions are filed under canonical addresses.
\<close>

theorem hub_well_formed:
  assumes "reach hub_start (office_step e x y) h"
  shows "hub_typed e h"
  using typed_office.reach_inv [OF assms] .

definition sample_hub0 :: hub where
  "sample_hub0 = sample_hub\<lparr>pm_map := []\<rparr>"

lemma sample_hub0_start: "hub_start sample_hub0"
  using sample_hub_linked
  by (simp add: hub_start_def sample_hub0_def linked_def) (simp add: sample_hub_def db_ok_def unique_on_def)

lemma hub_well_formed_witness:
  "\<exists>h :: hub. reach hub_start (office_step sample_console_env sample_secure_env sample_service_env) h \<and>
     tcp_peers h = [(SockV4 1 2, Ws 7)] \<and> hub_typed sample_console_env h"
proof -
  let ?step = "office_step sample_console_env sample_secure_env sample_service_env :: hub \<Rightarrow> hub \<Rightarrow> bool"
  let ?m = "handle_tcp sample_console_env sample_server (Some (RegisterPeer ''desk01'' 0)) (Some (Ws 7)) (SockV4 1 2) '''' False"
  obtain r h where run: "run_state ?m sample_hub0 = (r, h)" by (metis prod.collapse)
  have "reach hub_start ?step sample_hub0" by (rule reach_start) (rule sample_hub0_start)
  then have reach: "reach hub_start ?step h" by (rule reach_step) (rule office_hbbs [OF hub_tcp [OF run]])
  have "tcp_peers h = [(SockV4 1 2, Ws 7)]"
    using arg_cong [OF run, of snd]
    by (auto simp: handle_tcp_def handle_tcp_register_peer_def adopt_sink_def put_tcp_peer_def register_peer_response_def
        run_send_to_tcp_peer exec_simps sample_console sample_hub0_def sample_hub_def sample_server_def split: if_splits)
  with reach hub_well_formed [OF reach] show ?thesis by blast
qed

end
