(* ===== verification/RelayTicket.thy ===== *)
theory RelayTicket
  imports Router
begin

text \<open>
  How the relay hbbr validates a ticket: src/relay_server/ticket.rs. \<open>Local\<close> opens the account
  database in the process, \<open>Http\<close> asks the internal endpoint of the account service.

  \<open>post\<close> stands for one request of the reqwest client: it never connects, fails later, or returns a
  status and the body (\<open>None\<close> when reading it failed). \<open>parse_url\<close> is the crate url (scheme and
  host), \<open>parse_ip\<close> the standard library's parser of addresses, and \<open>client_ok\<close> tells whether
  reqwest could build its client. \<open>relay_v4\<close> is hbb_common's \<open>try_into_v4\<close>, and \<open>stream_ok\<close> tells
  whether a send on a stream succeeds; the relay itself uses them.
\<close>

datatype redeemer = Local | Http string secret

datatype http_result = HttpNoConnection | HttpFailed | HttpResponse nat "string option"

datatype net_outcome = NoConnect | RequestLost | ReplyLost | Delivered

record relay_env = service_env +
  parse_url :: "string \<Rightarrow> (string \<times> string option) option"
  parse_ip :: "string \<Rightarrow> ip_addr option"
  client_ok :: bool
  relay_v4 :: "socket_addr \<Rightarrow> socket_addr"
  stream_ok :: "nat \<Rightarrow> bool"
  net :: "nat \<Rightarrow> net_outcome"

section \<open>Configuration\<close>

definition trim_end_matches :: "char \<Rightarrow> string \<Rightarrow> string" where
  "trim_end_matches c t = rev (dropWhile (\<lambda>x. x = c) (rev t))"

definition trim_brackets :: "string \<Rightarrow> string" where
  "trim_brackets t =
     (let p = (\<lambda>x. x = CHR ''['' \<or> x = CHR '']'') in rev (dropWhile p (rev (dropWhile p t))))"

fun is_private :: "ip_addr \<Rightarrow> bool" where
  "is_private (V4 a) = (is_loopback (V4 a) \<or> is_private_v4 a)"
| "is_private (V6 a) = (is_loopback (V6 a) \<or> drop_bit 112 a AND 65024 = 64512)"

definition check_url :: "'e relay_env_scheme \<Rightarrow> string \<Rightarrow> string + unit" where
  "check_url e url =
     (case parse_url e url of
        None \<Rightarrow> Inl ''invalid URL''
      | Some (scheme, host) \<Rightarrow>
          if scheme = ''https'' then Inr ()
          else if scheme = ''http'' then
            (case parse_ip e (trim_brackets (case host of Some h \<Rightarrow> h | None \<Rightarrow> '''')) of
               None \<Rightarrow> Inl ''plain http is only allowed to a loopback or private IP address''
             | Some ip \<Rightarrow>
                 if is_private ip then Inr () else Inl ''plain http to a public address is not allowed'')
          else Inl ''unsupported scheme'')"

definition internal_path :: string where
  "internal_path = ''/api/internal/relay-ticket/redeem''"

definition redeemer_http :: "'e relay_env_scheme \<Rightarrow> string \<Rightarrow> secret \<Rightarrow> string + redeemer" where
  "redeemer_http e url secret =
     (case check_url e url of
        Inl err \<Rightarrow> Inl err
      | Inr _ \<Rightarrow>
          if length secret < 16 then Inl ''OPENUU_INTERNAL_SECRET must be set''
          else if \<not> client_ok e then Inl ''cannot build the client''
          else Inr (Http (trim_end_matches (CHR ''/'') url @ internal_path) secret))"

definition redeemer_from_env ::
  "'e relay_env_scheme \<Rightarrow> (string \<Rightarrow> string option) \<Rightarrow> (string \<Rightarrow> string option) \<Rightarrow> string + redeemer" where
  "redeemer_from_env e var read_to_string =
     (case var ''OPENUU_ACCOUNT_URL'' of
        None \<Rightarrow> Inr Local
      | Some raw \<Rightarrow>
          if trim raw = [] then Inr Local
          else
            let url = trim_end_matches (CHR ''/'') (trim raw) in
            (case (case var ''OPENUU_INTERNAL_SECRET_FILE'' of
                     Some path \<Rightarrow> (case read_to_string path of
                         None \<Rightarrow> Inl ''cannot read OPENUU_INTERNAL_SECRET_FILE''
                       | Some v \<Rightarrow> Inr v)
                   | None \<Rightarrow> Inr (case var ''OPENUU_INTERNAL_SECRET'' of Some v \<Rightarrow> v | None \<Rightarrow> '''')) of
               Inl err \<Rightarrow> Inl err
             | Inr secret \<Rightarrow> redeemer_http e url (trim secret)))"

section \<open>Redeeming\<close>

definition redeem_body :: "string \<Rightarrow> string \<Rightarrow> json" where
  "redeem_body tk relay_id = JObject [(''ticket'', JString tk), (''relay_id'', JString relay_id)]"

definition accept :: "'e service_env_scheme \<Rightarrow> nat \<Rightarrow> string option \<Rightarrow> bool" where
  "accept e code body =
     (if \<not> (200 \<le> code \<and> code < 300) then False
      else (case Option.bind body (parse_json e) of
          None \<Rightarrow> False
        | Some v \<Rightarrow> json_get ''ok'' v = Some (JBool True)))"

text \<open>The loop \<open>for attempt in 1..=2\<close>.\<close>

fun http_attempts ::
  "'e service_env_scheme \<Rightarrow> ('s, http_result) state \<Rightarrow> nat list \<Rightarrow> ('s, bool) state" where
  "http_attempts e request [] = State_Monad.return False"
| "http_attempts e request (attempt # rest) = do {
     r \<leftarrow> request;
     case r of
       HttpNoConnection \<Rightarrow>
         if attempt = 1 then http_attempts e request rest else State_Monad.return False
     | HttpFailed \<Rightarrow> State_Monad.return False
     | HttpResponse code body \<Rightarrow> State_Monad.return (accept e code body)
   }"

definition redeemer_redeem ::
  "'e service_env_scheme \<Rightarrow> (string \<Rightarrow> headers \<Rightarrow> string \<Rightarrow> ('w host_scheme, http_result) state)
     \<Rightarrow> redeemer \<Rightarrow> string \<Rightarrow> string \<Rightarrow> ('w host_scheme, bool) state" where
  "redeemer_redeem e post r tk relay_id =
     (case r of
        Local \<Rightarrow> redeem_ticket e tk relay_id
      | Http url secret \<Rightarrow>
          http_attempts e
            (post url [(''x-openuu-internal'', secret)] (json_text e (redeem_body tk relay_id))) [1, 2])"

text \<open>\<open>ticket::redeem\<close>: the process-wide redeemer, \<open>Local\<close> before \<open>init\<close>.\<close>

definition relay_redeem ::
  "'e service_env_scheme \<Rightarrow> (string \<Rightarrow> headers \<Rightarrow> string \<Rightarrow> ('w host_scheme, http_result) state)
     \<Rightarrow> redeemer option \<Rightarrow> string \<Rightarrow> string \<Rightarrow> ('w host_scheme, bool) state" where
  "relay_redeem e post cell tk relay_id =
     redeemer_redeem e post (case cell of Some r \<Rightarrow> r | None \<Rightarrow> Local) tk relay_id"

section \<open>The account service at the other end\<close>

text \<open>
  A request to the model of the account service itself over a network that may refuse the
  connection, lose the request, or lose the answer after the service has acted.
\<close>

definition http_network ::
  "'e relay_env_scheme \<Rightarrow> secret option \<Rightarrow> ip_addr \<Rightarrow> string \<Rightarrow> headers \<Rightarrow> string
     \<Rightarrow> ('w service_scheme, http_result) state" where
  "http_network e configured ip url headers body = do {
     k \<leftarrow> tick;
     case net e k of
       NoConnect \<Rightarrow> State_Monad.return HttpNoConnection
     | RequestLost \<Rightarrow> State_Monad.return HttpFailed
     | ReplyLost \<Rightarrow> do {
         _ \<leftarrow> serve e configured ip headers (InternalRedeem body);
         State_Monad.return HttpFailed
       }
     | Delivered \<Rightarrow> do {
         r \<leftarrow> serve e configured ip headers (InternalRedeem body);
         State_Monad.return (HttpResponse (fst r) (map_option (json_text e) (snd r)))
       }
   }"

text \<open>
  What serde_json promises: a request body is read back as the struct it was written from, and the
  two kinds of answers are read back as themselves.
\<close>

definition wire_ok :: "'e service_env_scheme \<Rightarrow> bool" where
  "wire_ok e \<longleftrightarrow>
     (\<forall>tk relay_id. parse_redeem e (json_text e (redeem_body tk relay_id)) = Some (tk, relay_id)) \<and>
     (\<forall>reason. parse_json e (json_text e (rejected reason)) = Some (rejected reason)) \<and>
     parse_json e (json_text e (JObject [(''ok'', JBool True)])) = Some (JObject [(''ok'', JBool True)])"

section \<open>Lemmas\<close>

lemma secret_http:
  "redeemer_http e url secret = Inr r \<Longrightarrow>
     check_url e url = Inr () \<and> length secret \<ge> 16 \<and>
     r = Http (trim_end_matches (CHR ''/'') url @ internal_path) secret"
  by (auto simp: redeemer_http_def split: sum.splits if_splits)

lemma internal_redeem_answers:
  assumes "run_state (internal_redeem e secret headers body) s = (res, s')"
  shows "res = Inr (JObject [(''ok'', JBool True)]) \<or> (\<exists>reason. res = Inr (rejected reason)) \<or>
    (\<exists>msg. res = Inl (error 401 msg) \<or> res = Inl (error 500 msg))"
  using assms
  by (auto simp: internal_redeem_def exec_simps split: if_splits option.splits sum.splits bool.splits
      prod.splits)

lemma accept_rejected: "wire_ok e \<Longrightarrow> \<not> accept e code (Some (json_text e (rejected reason)))"
  by (simp add: accept_def wire_ok_def) (simp add: rejected_def)

lemma accept_ok: "wire_ok e \<Longrightarrow> accept e 200 (Some (json_text e (JObject [(''ok'', JBool True)])))"
  by (simp add: accept_def wire_ok_def)

lemma accept_error: "code \<ge> 300 \<Longrightarrow> \<not> accept e code body"
  by (simp add: accept_def)

lemma db_ok_ticks [simp]: "db_ok (s\<lparr>ticks := k\<rparr>) = db_ok s"
  by (simp add: db_ok_def)

lemma internal_refused_unchanged:
  assumes "db_ok s" and "run_state (internal_redeem e secret headers body) s = (res, s')"
    and no: "res \<noteq> Inr (JObject [(''ok'', JBool True)])"
  shows "\<exists>k. s' = s\<lparr>ticks := k\<rparr>"
  using internal_redeem_run [OF assms(2)]
proof (elim disjE conjE exE)
  fix k tk relay_id r s1
  assume "run_state (redeem e tk relay_id) s = (r, s1)" "r \<noteq> Inr True" "s' = s1\<lparr>ticks := k\<rparr>"
  moreover obtain k' where "s1 = s\<lparr>ticks := k'\<rparr>"
    using redeem_false_unchanged [OF assms(1) calculation(1,2)] by blast
  ultimately have "s' = s\<lparr>ticks := k\<rparr>" by simp
  then show ?thesis by blast
qed (use no in blast)+

lemma serve_internal:
  assumes ok: "db_ok s" "wire_ok e" and p: "parse_redeem e body = Some (tk, relay_id)"
    and r: "run_state (serve e configured ip headers (InternalRedeem body)) s = ((code, answer), s')"
  shows "accept e code (map_option (json_text e) answer) \<and>
      run_state (redeem e tk relay_id) s = (Inr True, s') \<or>
    \<not> accept e code (map_option (json_text e) answer) \<and> (\<exists>k. s' = s\<lparr>ticks := k\<rparr>)"
proof (cases configured)
  case None
  then show ?thesis using r by (auto simp: serve_def internal_route_def accept_def intro: exI [of _ "ticks s"])
next
  case (Some secret)
  obtain res where i: "run_state (internal_redeem e secret headers body) s = (res, s')"
    and res: "(code, answer) = reply res"
    using r Some by (cases "run_state (internal_redeem e secret headers body) s")
      (simp add: serve_def internal_route_def exec_simps)
  show ?thesis
  proof (cases "res = Inr (JObject [(''ok'', JBool True)])")
    case True
    then have "run_state (redeem e tk relay_id) s = (Inr True, s')"
      using internal_redeem_run [OF i] p by auto
    with True res accept_ok [OF ok(2)] show ?thesis by simp
  next
    case False
    then have "(\<exists>reason. res = Inr (rejected reason)) \<or> (\<exists>msg. res = Inl (error 401 msg) \<or> res = Inl (error 500 msg))"
      using internal_redeem_answers [OF i] by blast
    then have "\<not> accept e code (map_option (json_text e) answer)"
    proof (elim disjE exE)
      fix reason
      assume "res = Inr (rejected reason)"
      with res accept_rejected [OF ok(2)] show ?thesis by simp
    qed (use res in \<open>simp_all add: error_def accept_error\<close>)
    with internal_refused_unchanged [OF ok(1) i False] show ?thesis by blast
  qed
qed

text \<open>One request over the network: accepted, answered otherwise, or carried out with the answer lost.\<close>

lemma http_network_run:
  assumes "db_ok s" "wire_ok e" and "parse_redeem e body = Some (tk, relay_id)"
    and "run_state (http_network e configured ip url headers body) s = (r, s')"
  shows "(\<exists>k. run_state (redeem e tk relay_id) (s\<lparr>ticks := k\<rparr>) = (Inr True, s') \<and>
        (r = HttpFailed \<and> net e (ticks s) = ReplyLost \<or> (\<exists>code body. r = HttpResponse code body \<and> accept e code body))) \<or>
    (\<exists>k. s' = s\<lparr>ticks := k\<rparr> \<and> (case r of HttpResponse code body \<Rightarrow> \<not> accept e code body | _ \<Rightarrow> True))"
proof -
  let ?s = "s\<lparr>ticks := Suc (ticks s)\<rparr>"
  obtain code answer s1 where
    v: "run_state (serve e configured ip headers (InternalRedeem body)) ?s = ((code, answer), s1)"
    by (metis prod.collapse)
  have "db_ok ?s" using assms(1) by simp
  from serve_internal [OF this assms(2,3) v] assms(4) v show ?thesis
    by (auto simp: http_network_def exec_simps split: net_outcome.splits)
qed

lemma ticks_twice: "(s\<lparr>ticks := k\<rparr>)\<lparr>ticks := j\<rparr> = s\<lparr>ticks := j\<rparr>"
  by simp

lemma http_redeem_run:
  assumes ok: "db_ok s" "wire_ok e"
    and r: "run_state (redeemer_redeem e (http_network e configured ip) (Http url secret) tk relay_id) s = (b, s')"
  shows "(\<exists>k. run_state (redeem e tk relay_id) (s\<lparr>ticks := k\<rparr>) = (Inr True, s')) \<and>
      (b \<or> (\<exists>j. net e j = ReplyLost)) \<or>
    \<not> b \<and> (\<exists>k. s' = s\<lparr>ticks := k\<rparr>)"
proof -
  let ?m = "http_network e configured ip url [(''x-openuu-internal'', secret)]
      (json_text e (redeem_body tk relay_id))"
  have p: "parse_redeem e (json_text e (redeem_body tk relay_id)) = Some (tk, relay_id)"
    using ok(2) by (simp add: wire_ok_def)
  obtain r1 s1 where m1: "run_state ?m s = (r1, s1)" by (metis prod.collapse)
  note first = http_network_run [OF ok p m1]
  show ?thesis
  proof (cases r1)
    case HttpNoConnection
    then obtain k where s1: "s1 = s\<lparr>ticks := k\<rparr>" using first by auto
    then have ok1: "db_ok s1" using ok(1) by simp
    obtain r2 s2 where m2: "run_state ?m s1 = (r2, s2)" by (metis prod.collapse)
    have "b = (case r2 of HttpResponse code body \<Rightarrow> accept e code body | _ \<Rightarrow> False) \<and> s' = s2"
      using r m1 m2 HttpNoConnection by (auto simp: redeemer_redeem_def exec_simps split: http_result.splits)
    with http_network_run [OF ok1 ok(2) p m2] show ?thesis
      by (auto simp: s1 split: http_result.splits)
  next
    case HttpFailed
    then show ?thesis using r m1 first by (auto simp: redeemer_redeem_def exec_simps)
  next
    case (HttpResponse code body)
    then show ?thesis using r m1 first by (auto simp: redeemer_redeem_def exec_simps)
  qed
qed

text \<open>The account service across the network is a ticket desk as well.\<close>

lemma spent_ticks [simp]: "spent_ticket e tk (s\<lparr>ticks := k\<rparr>) = spent_ticket e tk s"
  by (simp add: spent_ticket_def)

interpretation remote_desk: ticket_desk
    "redeemer_redeem e (http_network e configured ip) (Http url secret)"
    "\<lambda>s. db_ok s \<and> wire_ok e" "spent_ticket e"
  for e :: "'e relay_env_scheme" and configured ip url secret
proof unfold_locales
  fix s s' :: "'w service_scheme" and tk tk' u b
  let ?present = "redeemer_redeem e (http_network e configured ip) (Http url secret)"
  assume good: "db_ok s \<and> wire_ok e"
  have okt: "db_ok (s\<lparr>ticks := k\<rparr>)" for k
    using good by simp
  note run = http_redeem_run [of s e configured ip url secret]
  show "db_ok s' \<and> wire_ok e" if "run_state (?present tk u) s = (b, s')"
    using run [OF _ _ that] good okt preservesD_run [OF redeem_db_ok] by (fastforce intro: okt)
  show "spent_ticket e tk s'" if "run_state (?present tk u) s = (True, s')"
    using run [OF _ _ that] good spent_ticket_redeem(1) [OF okt] by blast
  show "\<not> b" if "spent_ticket e tk s" "run_state (?present tk u) s = (b, s')"
    using run [OF _ _ that(2)] good that(1) spent_ticket_redeem(2) [OF okt] by (metis spent_ticks)
  show "spent_ticket e tk s'" if "spent_ticket e tk s" "run_state (?present tk' u) s = (b, s')"
    using run [OF _ _ that(2)] good that(1) spent_ticket_redeem(3) [OF okt] by (metis spent_ticks)
qed

text \<open>What an accepted ticket does to the tables.\<close>

lemma redeem_true_effect:
  assumes "db_ok s" and "run_state (redeem e tk relay_id) s = (Inr True, s')"
  shows "\<exists>r k. r \<in> set (tickets s) \<and> tic_hash r = sha256 e tk \<and> tic_relay r = relay_id \<and>
    s' = s\<lparr>ticks := k, tickets := remove1 r (tickets s)\<rparr>"
proof -
  let ?p = "redeemable (sha256 e tk) relay_id (clock_at e (ticks s)) (clock_at e (ticks s + 1)) s"
  obtain r where r: "r \<in> set (tickets s)" "?p r"
    and s': "s' = s\<lparr>ticks := ticks s + 3, tickets := filter (\<lambda>r. \<not> ?p r) (tickets s)\<rparr>"
    using assms(2) by (auto simp: redeem_run Let_def split: if_splits dest!: length_filter_one_ex)
  have d: "distinct (tickets s)"
    using assms(1) by (auto simp: db_ok_def unique_on_def distinct_map)
  have "?p x = (x = r)" if "x \<in> set (tickets s)" for x
    using assms(1) r that by (auto simp: db_ok_def redeemable_def intro: unique_onD)
  then have "filter (\<lambda>r. \<not> ?p r) (tickets s) = filter (\<lambda>x. r \<noteq> x) (tickets s)"
    by (intro filter_cong) auto
  also have "\<dots> = remove1 r (tickets s)"
    using d by (simp add: distinct_remove1_removeAll removeAll_filter_not_eq)
  finally show ?thesis using s' r by (auto simp: redeemable_def)
qed

section \<open>A concrete relay\<close>

definition sample_json_text :: "json \<Rightarrow> string" where
  "sample_json_text v = (case v of
       JObject [(k, JBool b)] \<Rightarrow> ''T''
     | JObject [(k, JBool b), (k', JString reason)] \<Rightarrow> ''F'' @ reason
     | JObject [(k, JString tk), (k', JString relay_id)] \<Rightarrow>
         ''R'' @ replicate (length tk) (CHR ''x'') @ '' '' @ tk @ relay_id
     | _ \<Rightarrow> ''?'')"

definition sample_parse_json :: "string \<Rightarrow> json option" where
  "sample_parse_json t = (case t of
       [] \<Rightarrow> None
     | c # cs \<Rightarrow> if c = CHR ''T'' then Some (JObject [(''ok'', JBool True)])
         else if c = CHR ''F'' then Some (rejected cs) else None)"

definition sample_parse_redeem :: "string \<Rightarrow> (string \<times> string) option" where
  "sample_parse_redeem t = (case t of
       [] \<Rightarrow> None
     | c # cs \<Rightarrow> if c = CHR ''R'' then
           (let n = length (takeWhile (\<lambda>x. x = CHR ''x'') cs); rest = drop (n + 1) cs
            in Some (take n rest, drop n rest))
         else None)"

definition sample_relay_env :: relay_env where
  "sample_relay_env = \<lparr>system_time = (\<lambda>_. 1000), instant = (\<lambda>k. 10000000000000 + int k), instant_min = 0,
     sql_ok = (\<lambda>_. True), uuid_v4 = uuid_v4 sample_env, uuid_simple = uuid_simple sample_env,
     sha256 = sha256 sample_env, bcrypt_hash = bcrypt_hash sample_env,
     bcrypt_verify = bcrypt_verify sample_env, header_to_str = Some,
     parse_json = sample_parse_json, parse_credentials = (\<lambda>_. None), parse_redeem = sample_parse_redeem,
     json_text = sample_json_text, strings_text = (\<lambda>_. None), parse_strings = (\<lambda>_. None),
     parse_url = (\<lambda>u. if u = ''http://10.0.0.1'' then Some (''http'', Some ''10.0.0.1'') else None),
     parse_ip = (\<lambda>t. if t = ''10.0.0.1'' then Some (V4 167772161) else None),
     client_ok = True, relay_v4 = (\<lambda>a. a), stream_ok = (\<lambda>_. True), net = (\<lambda>k. if k = 0 then NoConnect else Delivered)\<rparr>"

lemma sample_wire: "wire_ok sample_relay_env"
  by (simp add: wire_ok_def sample_relay_env_def sample_json_text_def sample_parse_redeem_def
      sample_parse_json_def redeem_body_def rejected_def takeWhile_append)

lemma sample_relay_clock [simp]: "clock_at sample_relay_env k = 1000"
  by (simp add: clock_at_def sample_relay_env_def as_i64_def signed_take_bit_int_eq_self)

lemma sample_relay_env_simps [simp]:
  "sql_ok sample_relay_env k" "sha256 sample_relay_env = sha256 sample_env"
  "net sample_relay_env k = (if k = 0 then NoConnect else Delivered)"
  by (simp_all add: sample_relay_env_def)

text \<open>On the concrete relay the first attempt does not connect and the second one is answered.\<close>

lemma sample_redeem:
  "\<exists>s'. run_state (redeem sample_relay_env sample_token ''u'') (sample_service\<lparr>ticks := k\<rparr>) = (Inr True, s')"
  by (simp add: redeem_run Let_def sample_token_def sample_service_def sample_row_def redeemable_def
      session_live_def)

lemma sample_serve:
  "\<exists>s'. run_state (serve sample_relay_env (Some secret) ip [(''x-openuu-internal'', secret)]
       (InternalRedeem (json_text sample_relay_env (redeem_body sample_token ''u'')))) (sample_service\<lparr>ticks := k\<rparr>) =
     ((200, Some (JObject [(''ok'', JBool True)])), s')"
proof -
  have "length sample_token = 64" by (simp add: sample_token_def)
  with sample_wire sample_redeem [of k] show ?thesis
    by (auto simp: serve_def internal_route_def internal_redeem_def matches_def wire_ok_def exec_simps)
qed

lemma sample_http_redeem:
  "fst (run_state (redeemer_redeem sample_relay_env (http_network sample_relay_env (Some secret) ip)
     (Http url secret) sample_token ''u'') sample_service)"
proof -
  have t: "ticks sample_service = 0" by (simp add: sample_service_def)
  obtain s' where "run_state (serve sample_relay_env (Some secret) ip [(''x-openuu-internal'', secret)]
       (InternalRedeem (json_text sample_relay_env (redeem_body sample_token ''u'')))) (sample_service\<lparr>ticks := 2\<rparr>) =
     ((200, Some (JObject [(''ok'', JBool True)])), s')"
    using sample_serve by blast
  with accept_ok [OF sample_wire] show ?thesis
    by (simp add: redeemer_redeem_def http_network_def exec_simps t numeral_2_eq_2)
qed

section \<open>Properties\<close>

text \<open>
  The relay's secret never crosses a public network in clear text: when \<open>from_env\<close> selects the
  HTTP redeemer, the secret has at least 16 bytes and the URL is https, or http to a literal address
  that is loopback or private. A URL that is set but not acceptable is an error, never the local
  redeemer.
\<close>

theorem secret_stays_private:
  assumes "redeemer_from_env e var file = res" and "var ''OPENUU_ACCOUNT_URL'' = Some raw" and "trim raw \<noteq> []"
  shows "res \<noteq> Inr Local \<and> (\<forall>url secret. res = Inr (Http url secret) \<longrightarrow>
    length secret \<ge> 16 \<and> (\<exists>scheme host.
      parse_url e (trim_end_matches (CHR ''/'') (trim raw)) = Some (scheme, host) \<and>
      (scheme = ''https'' \<or> scheme = ''http'' \<and>
         (\<exists>ip. parse_ip e (trim_brackets (case host of Some h \<Rightarrow> h | None \<Rightarrow> '''')) = Some ip \<and> is_private ip))))"
proof -
  let ?url = "trim_end_matches (CHR ''/'') (trim raw)"
  have from_http: "\<exists>secret. redeemer_http e ?url secret = Inr r" if "res = Inr r" for r
    using assms that by (auto simp: redeemer_from_env_def Let_def split: option.splits sum.splits)
  show ?thesis
  proof (intro conjI allI impI)
    show "res \<noteq> Inr Local"
      using from_http secret_http by blast
  next
    fix url secret
    assume "res = Inr (Http url secret)"
    then obtain secret' where h: "redeemer_http e ?url secret' = Inr (Http url secret)"
      using from_http by blast
    then show "length secret \<ge> 16"
      using secret_http [OF h] by simp
    from secret_http [OF h] have u: "check_url e ?url = Inr ()" by simp
    then obtain scheme host where p: "parse_url e ?url = Some (scheme, host)"
      by (auto simp: check_url_def split: option.splits)
    with u have "scheme = ''https'' \<or> scheme = ''http'' \<and>
       (\<exists>ip. parse_ip e (trim_brackets (case host of Some h \<Rightarrow> h | None \<Rightarrow> '''')) = Some ip \<and> is_private ip)"
      unfolding check_url_def p
      by (cases "parse_ip e (trim_brackets (case host of Some h \<Rightarrow> h | None \<Rightarrow> ''''))") (auto split: if_splits)
    with p show "\<exists>scheme host. parse_url e ?url = Some (scheme, host) \<and>
      (scheme = ''https'' \<or> scheme = ''http'' \<and>
         (\<exists>ip. parse_ip e (trim_brackets (case host of Some h \<Rightarrow> h | None \<Rightarrow> '''')) = Some ip \<and> is_private ip))"
      by blast
  qed
qed

lemma secret_stays_private_witness:
  "redeemer_from_env sample_relay_env [''OPENUU_ACCOUNT_URL'' \<mapsto> ''http://10.0.0.1'',
     ''OPENUU_INTERNAL_SECRET'' \<mapsto> ''0123456789abcdef''] (\<lambda>_. None) \<noteq> Inr Local"
proof -
  have "trim ''http://10.0.0.1'' \<noteq> []"
    by (simp add: trim_ascii printing_def)
  moreover have "[''OPENUU_ACCOUNT_URL'' \<mapsto> ''http://10.0.0.1'', ''OPENUU_INTERNAL_SECRET'' \<mapsto> ''0123456789abcdef'']
      ''OPENUU_ACCOUNT_URL'' = Some ''http://10.0.0.1''"
    by simp
  ultimately show ?thesis
    using secret_stays_private [OF refl] by blast
qed

text \<open>
  Over HTTP the relay fails closed. If \<open>redeem\<close> answers true, the service has removed the one
  ticket presented, for this relay id. If it answers false nothing was removed, except when the
  service had accepted the ticket and its answer was lost; nothing else ever changes at the service.
\<close>

theorem http_redeem_effect:
  assumes "db_ok s" and "wire_ok e"
    and "run_state (redeemer_redeem e (http_network e configured ip) (Http url secret) tk relay_id) s = (b, s')"
  shows "\<not> b \<and> (\<exists>k. s' = s\<lparr>ticks := k\<rparr>) \<or>
    (b \<or> (\<exists>k. net e k = ReplyLost)) \<and>
    (\<exists>r k. r \<in> set (tickets s) \<and> tic_hash r = sha256 e tk \<and> tic_relay r = relay_id \<and>
       s' = s\<lparr>ticks := k, tickets := remove1 r (tickets s)\<rparr>)"
  using http_redeem_run [OF assms]
proof (elim disjE)
  assume *: "(\<exists>k. run_state (redeem e tk relay_id) (s\<lparr>ticks := k\<rparr>) = (Inr True, s')) \<and>
      (b \<or> (\<exists>j. net e j = ReplyLost))"
  then obtain k where red: "run_state (redeem e tk relay_id) (s\<lparr>ticks := k\<rparr>) = (Inr True, s')" by blast
  obtain r j where "r \<in> set (tickets s)" "tic_hash r = sha256 e tk" "tic_relay r = relay_id"
    and s': "s' = s\<lparr>ticks := k\<rparr>\<lparr>ticks := j, tickets := remove1 r (tickets (s\<lparr>ticks := k\<rparr>))\<rparr>"
    using redeem_true_effect [OF _ red] assms(1) by auto
  moreover from s' have "s' = s\<lparr>ticks := j, tickets := remove1 r (tickets s)\<rparr>" by simp
  ultimately show ?thesis using * by blast
qed blast

lemma http_redeem_effect_witness:
  "\<exists>s'. run_state (redeemer_redeem sample_relay_env
     (http_network sample_relay_env (Some ''0123456789abcdef'') localhost_v4)
     (Http ''http://10.0.0.1'' ''0123456789abcdef'') sample_token ''u'') sample_service = (True, s') \<and>
     tickets s' = []"
proof -
  obtain s' where r: "run_state (redeemer_redeem sample_relay_env
     (http_network sample_relay_env (Some ''0123456789abcdef'') localhost_v4)
     (Http ''http://10.0.0.1'' ''0123456789abcdef'') sample_token ''u'') sample_service = (True, s')"
    using sample_http_redeem [of "''0123456789abcdef''" localhost_v4 "''http://10.0.0.1''"]
    by (cases "run_state (redeemer_redeem sample_relay_env
       (http_network sample_relay_env (Some ''0123456789abcdef'') localhost_v4)
       (Http ''http://10.0.0.1'' ''0123456789abcdef'') sample_token ''u'') sample_service") simp
  from http_redeem_effect [OF sample_service_ok sample_wire r] have "tickets s' = []"
    by (auto simp: sample_service_def)
  with r show ?thesis by blast
qed

text \<open>
  C21: Over HTTP too no ticket is accepted twice, whatever is presented in whatever order, whichever
  connections fail and whichever answers are lost, retries included.
\<close>

theorem http_accepts_once:
  assumes "db_ok s" and "wire_ok e"
  shows "distinct (map fst (fst (accept_all
    (redeemer_redeem e (http_network e configured ip) (Http url secret)) presentations s)))"
  using remote_desk.accepted_once [of s e] assms by simp

lemma http_accepts_once_witness:
  "distinct (map fst (fst (accept_all (redeemer_redeem sample_relay_env
     (http_network sample_relay_env (Some ''0123456789abcdef'') localhost_v4)
     (Http ''http://10.0.0.1'' ''0123456789abcdef'')) [(sample_token, ''u''), (sample_token, ''u'')] sample_service)))"
  by (rule http_accepts_once [OF sample_service_ok sample_wire])

end
