(* ===== verification/Relay.thy ===== *)
theory Relay
  imports RelayTicket Assoc
begin

text \<open>
  The relay hbbr: \<open>handle_connection\<close> and \<open>make_pair_\<close> of src/relay_server/connection.rs. A connection
  presents a ticket for a relay uuid; the first one to do so waits in \<open>PEERS\<close> for 30 seconds, the
  second one is paired with it.

  The handler keeps no lock from one access to \<open>PEERS\<close> to the next, so other connections run in
  between. \<open>make_pair\<close> is the handler run by itself up to the point where it relays or sleeps;
  \<open>pair_step\<close> has one step per access, and its runs are all interleavings of any number of
  connections with each other and with whatever else uses the ticket store.
\<close>

record stream =
  st_no :: nat
  st_ws :: bool
  st_raw :: bool

type_synonym usage_row = "64 word \<times> 64 word \<times> 64 word \<times> 64 word"

datatype limiter = Single_Limiter | Blacklist_Limiter | Total_Limiter

datatype side = To_Stream | To_Peer

record relay = world +
  waiting :: "(string \<times> stream) list"
  usage :: "(string \<times> usage_row) list"
  blacklist :: "string list"
  blocklist :: "string list"
  downgrade_threshold_100 :: "64 word"
  downgrade_start_check :: "64 word"
  limit_speed :: "64 word"
  total_bandwidth :: "64 word"
  single_bandwidth :: "64 word"
  relayed :: "(string \<times> side \<times> bytes) list"
  charged :: "(string \<times> limiter \<times> 64 word) list"

section \<open>Connections\<close>

text \<open>
  \<open>handle_connection\<close>: loopback connections that are not WebSocket reach the console, blocked
  addresses are dropped, the rest is paired.
\<close>

datatype route = To_Console | Blocked_Address | To_Pair

definition handle_connection ::
  "'e relay_env_scheme \<Rightarrow> socket_addr \<Rightarrow> bool \<Rightarrow> ('w relay_scheme, route) state" where
  "handle_connection e addr ws = (
     let ip = sock_ip (relay_v4 e addr) in
     if \<not> ws \<and> is_loopback ip then State_Monad.return To_Console
     else do {
       blocked \<leftarrow> gets blocklist;
       State_Monad.return (if show_ip ip \<in> set blocked then Blocked_Address else To_Pair)
     })"

text \<open>The checks of a request: the ticket is redeemed first, then the key and the uuid are looked at.\<close>

definition admission ::
  "(string \<Rightarrow> string \<Rightarrow> ('s, bool) state) \<Rightarrow> string \<Rightarrow> message option \<Rightarrow> ('s, string option) state" where
  "admission present key msg = (case msg of
       Some (RequestRelay rf) \<Rightarrow> do {
         ok \<leftarrow> present (rf_token rf) (rf_uuid rf);
         State_Monad.return
           (if \<not> ok then None
            else if key \<noteq> [] \<and> rf_licence_key rf \<noteq> key then None
            else if rf_uuid rf = [] then None
            else Some (rf_uuid rf))
       }
     | _ \<Rightarrow> State_Monad.return None)"

text \<open>The accesses to \<open>PEERS\<close> and \<open>USAGE\<close>.\<close>

definition take_waiting :: "string \<Rightarrow> ('w relay_scheme, stream option) state" where
  "take_waiting u = State (\<lambda>s. (map_of (waiting s) u, s\<lparr>waiting := remove_key u (waiting s)\<rparr>))"

definition park :: "string \<Rightarrow> stream \<Rightarrow> ('w relay_scheme, unit) state" where
  "park u st = modify (\<lambda>s. s\<lparr>waiting := AList.update u st (waiting s)\<rparr>)"

definition expire_waiting :: "string \<Rightarrow> ('w relay_scheme, unit) state" where
  "expire_waiting u = modify (\<lambda>s. s\<lparr>waiting := remove_key u (waiting s)\<rparr>)"

definition session_name :: "socket_addr \<Rightarrow> string" where
  "session_name addr = show_ip (sock_ip addr) @ '':'' @ show_nat (unat (sock_port addr))"

definition open_usage :: "string \<Rightarrow> ('w relay_scheme, unit) state" where
  "open_usage name = modify (\<lambda>s. s\<lparr>usage := AList.update name (0, 0, 0, 0) (usage s)\<rparr>)"

definition close_usage :: "string \<Rightarrow> ('w relay_scheme, unit) state" where
  "close_usage name = modify (\<lambda>s. s\<lparr>usage := remove_key name (usage s)\<rparr>)"

text \<open>\<open>set_raw\<close> does nothing on a WebSocket.\<close>

definition set_raw :: "stream \<Rightarrow> stream" where
  "set_raw st = (if st_ws st then st else st\<lparr>st_raw := True\<rparr>)"

datatype pairing = Dropped | Parked string | Paired stream stream

definition join :: "string \<Rightarrow> stream \<Rightarrow> socket_addr \<Rightarrow> ('w relay_scheme, pairing) state" where
  "join u st addr = do {
     found \<leftarrow> take_waiting u;
     case found of
       Some peer \<Rightarrow> do {
         open_usage (session_name addr);
         State_Monad.return
           (if \<not> st_ws st \<and> \<not> st_ws peer then Paired (set_raw peer) (set_raw st) else Paired peer st)
       }
     | None \<Rightarrow> do { park u st; State_Monad.return (Parked u) }
   }"

text \<open>An operation of the ticket desk, or of the relay, on the state of both.\<close>

definition on_desk :: "('d, 'a) state \<Rightarrow> ('d \<times> 'r, 'a) state" where
  "on_desk m = State (\<lambda>(d, r). let (a, d') = run_state m d in (a, (d', r)))"

definition on_relay :: "('r, 'a) state \<Rightarrow> ('d \<times> 'r, 'a) state" where
  "on_relay m = State (\<lambda>(d, r). let (a, r') = run_state m r in (a, (d, r')))"

definition make_pair ::
  "(string \<Rightarrow> string \<Rightarrow> ('d, bool) state) \<Rightarrow> string \<Rightarrow> stream \<Rightarrow> socket_addr \<Rightarrow> message option
     \<Rightarrow> ('d \<times> 'w relay_scheme, pairing) state" where
  "make_pair present key st addr msg = do {
     admitted \<leftarrow> on_desk (admission present key msg);
     case admitted of
       None \<Rightarrow> State_Monad.return Dropped
     | Some u \<Rightarrow> on_relay (join u st addr)
   }"

section \<open>Any number of connections\<close>

text \<open>
  Where the task of a connection stands. \<open>Ready\<close> has been admitted, \<open>Parking\<close> found nobody waiting,
  \<open>Sleeping\<close> has stored its stream and waits for its 30 seconds, \<open>Relaying\<close> holds the stream of the
  other connection.
\<close>

datatype task = Fresh | Ready string | Parking string | Sleeping string | Relaying string nat | Ended

record 'd system =
  desk :: 'd
  hbbr :: relay
  tasks :: "nat \<Rightarrow> task"
  admitted_log :: "(nat \<times> string \<times> string) list"
  pairs :: "(nat \<times> nat \<times> string) list"

text \<open>
  \<open>admitted_log\<close> and \<open>pairs\<close> only record what happened: a connection with the ticket and the uuid it
  was admitted with, and two connections whose bytes are copied to each other. \<open>other\<close> is any step
  that others make on the ticket store; it may issue tickets, but not bring an accepted one back.
\<close>

inductive pair_step ::
  "(string \<Rightarrow> string \<Rightarrow> ('d, bool) state) \<Rightarrow> (string \<Rightarrow> 'd \<Rightarrow> bool) \<Rightarrow> ('d \<Rightarrow> 'd \<Rightarrow> bool) \<Rightarrow> string
     \<Rightarrow> 'd system \<Rightarrow> 'd system \<Rightarrow> bool"
  for present :: "string \<Rightarrow> string \<Rightarrow> ('d, bool) state" and spent :: "string \<Rightarrow> 'd \<Rightarrow> bool"
    and other :: "'d \<Rightarrow> 'd \<Rightarrow> bool" and key :: string where
  pair_other: "other (desk s) d' \<Longrightarrow> (\<forall>(c, tk, u) \<in> set (admitted_log s). spent tk d') \<Longrightarrow>
    pair_step present spent other key s (s\<lparr>desk := d'\<rparr>)"
| pair_refuse: "tasks s c = Fresh \<Longrightarrow> run_state (admission present key msg) (desk s) = (None, d') \<Longrightarrow>
    pair_step present spent other key s (s\<lparr>desk := d', tasks := (tasks s)(c := Ended)\<rparr>)"
| pair_admit: "tasks s c = Fresh \<Longrightarrow>
    run_state (admission present key (Some (RequestRelay rf))) (desk s) = (Some u, d') \<Longrightarrow>
    pair_step present spent other key s
      (s\<lparr>desk := d', tasks := (tasks s)(c := Ready u), admitted_log := (c, rf_token rf, u) # admitted_log s\<rparr>)"
| pair_join: "tasks s c = Ready u \<Longrightarrow> run_state (take_waiting u) (hbbr s) = (Some peer, r') \<Longrightarrow>
    pair_step present spent other key s
      (s\<lparr>hbbr := r', tasks := (tasks s)(c := Relaying u (st_no peer)), pairs := (c, st_no peer, u) # pairs s\<rparr>)"
| pair_alone: "tasks s c = Ready u \<Longrightarrow> run_state (take_waiting u) (hbbr s) = (None, r') \<Longrightarrow>
    pair_step present spent other key s (s\<lparr>hbbr := r', tasks := (tasks s)(c := Parking u)\<rparr>)"
| pair_park: "tasks s (st_no st) = Parking u \<Longrightarrow> run_state (park u st) (hbbr s) = ((), r') \<Longrightarrow>
    pair_step present spent other key s (s\<lparr>hbbr := r', tasks := (tasks s)(st_no st := Sleeping u)\<rparr>)"
| pair_expire: "tasks s c = Sleeping u \<Longrightarrow> run_state (expire_waiting u) (hbbr s) = ((), r') \<Longrightarrow>
    pair_step present spent other key s (s\<lparr>hbbr := r', tasks := (tasks s)(c := Ended)\<rparr>)"
| pair_finish: "tasks s c = Relaying u p \<Longrightarrow>
    pair_step present spent other key s (s\<lparr>tasks := (tasks s)(c := Ended)\<rparr>)"

definition no_connections :: "('d \<Rightarrow> bool) \<Rightarrow> 'd system \<Rightarrow> bool" where
  "no_connections good s \<longleftrightarrow> good (desk s) \<and> waiting (hbbr s) = [] \<and> (\<forall>c. tasks s c = Fresh) \<and>
     admitted_log s = [] \<and> pairs s = []"

text \<open>The uuid a task was admitted for, while it is on its way.\<close>

fun task_uuid :: "task \<Rightarrow> string option" where
  "task_uuid (Ready u) = Some u"
| "task_uuid (Parking u) = Some u"
| "task_uuid (Sleeping u) = Some u"
| "task_uuid (Relaying u p) = Some u"
| "task_uuid Fresh = None"
| "task_uuid Ended = None"

fun in_pairs :: "(nat \<times> nat \<times> string) list \<Rightarrow> nat list" where
  "in_pairs [] = []"
| "in_pairs ((c, p, u) # ps) = c # p # in_pairs ps"

definition admitted_for :: "'d system \<Rightarrow> nat \<Rightarrow> string \<Rightarrow> bool" where
  "admitted_for s c u \<longleftrightarrow> (\<exists>tk. (c, tk, u) \<in> set (admitted_log s))"

definition system_ok :: "('d \<Rightarrow> bool) \<Rightarrow> (string \<Rightarrow> 'd \<Rightarrow> bool) \<Rightarrow> 'd system \<Rightarrow> bool" where
  "system_ok good spent s \<longleftrightarrow>
     good (desk s) \<and>
     distinct (map fst (admitted_log s)) \<and> distinct (map (fst \<circ> snd) (admitted_log s)) \<and>
     (\<forall>(c, tk, u) \<in> set (admitted_log s). spent tk (desk s) \<and> tasks s c \<noteq> Fresh) \<and>
     (\<forall>c u. task_uuid (tasks s c) = Some u \<longrightarrow> admitted_for s c u) \<and>
     distinct (map fst (waiting (hbbr s))) \<and>
     (\<forall>(u, st) \<in> set (waiting (hbbr s)). tasks s (st_no st) = Sleeping u \<and> st_no st \<notin> set (in_pairs (pairs s))) \<and>
     distinct (in_pairs (pairs s)) \<and>
     (\<forall>(c, p, u) \<in> set (pairs s). admitted_for s c u \<and> admitted_for s p u) \<and>
     (\<forall>c \<in> set (in_pairs (pairs s)). tasks s c = Ended \<or> (\<exists>u p. tasks s c \<in> {Sleeping u, Relaying u p}))"

section \<open>Lemmas\<close>

lemma run_relay_maps [exec_simps]:
  "run_state (take_waiting u) r = (map_of (waiting r) u, r\<lparr>waiting := remove_key u (waiting r)\<rparr>)"
  "run_state (park u st) r = ((), r\<lparr>waiting := AList.update u st (waiting r)\<rparr>)"
  "run_state (expire_waiting u) r = ((), r\<lparr>waiting := remove_key u (waiting r)\<rparr>)"
  "run_state (open_usage name) r = ((), r\<lparr>usage := AList.update name (0, 0, 0, 0) (usage r)\<rparr>)"
  "run_state (close_usage name) r = ((), r\<lparr>usage := remove_key name (usage r)\<rparr>)"
  by (simp_all add: take_waiting_def park_def expire_waiting_def open_usage_def close_usage_def exec_simps)

lemma run_on_desk [exec_simps]:
  "run_state (on_desk m) (d, r) = (let (a, d') = run_state m d in (a, (d', r)))"
  by (simp add: on_desk_def)

lemma run_on_relay [exec_simps]:
  "run_state (on_relay m) (d, r) = (let (a, r') = run_state m r in (a, (d, r')))"
  by (simp add: on_relay_def)

lemma in_pairs_members: "(c, p, u) \<in> set ps \<Longrightarrow> c \<in> set (in_pairs ps) \<and> p \<in> set (in_pairs ps)"
  by (induction ps rule: in_pairs.induct) auto

lemma in_pairs_distinct: "distinct (in_pairs ps) \<Longrightarrow> (c, p, u) \<in> set ps \<Longrightarrow> c \<noteq> p"
  by (induction ps rule: in_pairs.induct) auto

lemma admitted_for_frame [simp]:
  "admitted_for (s\<lparr>hbbr := r\<rparr>) = admitted_for s" "admitted_for (s\<lparr>tasks := f\<rparr>) = admitted_for s"
  "admitted_for (s\<lparr>desk := d\<rparr>) = admitted_for s" "admitted_for (s\<lparr>pairs := ps\<rparr>) = admitted_for s"
  by (rule ext, rule ext, simp add: admitted_for_def)+

lemma system_okD:
  assumes "system_ok good spent s"
  shows "good (desk s)" and "distinct (map fst (admitted_log s))"
    and "distinct (map (fst \<circ> snd) (admitted_log s))"
    and "\<And>c tk u. (c, tk, u) \<in> set (admitted_log s) \<Longrightarrow> spent tk (desk s) \<and> tasks s c \<noteq> Fresh"
    and "\<And>c u. task_uuid (tasks s c) = Some u \<Longrightarrow> admitted_for s c u"
    and "distinct (map fst (waiting (hbbr s)))"
    and "\<And>u st. (u, st) \<in> set (waiting (hbbr s)) \<Longrightarrow>
      tasks s (st_no st) = Sleeping u \<and> st_no st \<notin> set (in_pairs (pairs s))"
    and "distinct (in_pairs (pairs s))"
    and "\<And>c p u. (c, p, u) \<in> set (pairs s) \<Longrightarrow> admitted_for s c u \<and> admitted_for s p u"
    and "\<And>c. c \<in> set (in_pairs (pairs s)) \<Longrightarrow>
      tasks s c = Ended \<or> (\<exists>u p. tasks s c \<in> {Sleeping u, Relaying u p})"
  using assms by (auto simp: system_ok_def)

lemma system_okI:
  assumes "good (desk s)" and "distinct (map fst (admitted_log s))"
    and "distinct (map (fst \<circ> snd) (admitted_log s))"
    and "\<And>c tk u. (c, tk, u) \<in> set (admitted_log s) \<Longrightarrow> spent tk (desk s) \<and> tasks s c \<noteq> Fresh"
    and "\<And>c u. task_uuid (tasks s c) = Some u \<Longrightarrow> admitted_for s c u"
    and "distinct (map fst (waiting (hbbr s)))"
    and "\<And>u st. (u, st) \<in> set (waiting (hbbr s)) \<Longrightarrow>
      tasks s (st_no st) = Sleeping u \<and> st_no st \<notin> set (in_pairs (pairs s))"
    and "distinct (in_pairs (pairs s))"
    and "\<And>c p u. (c, p, u) \<in> set (pairs s) \<Longrightarrow> admitted_for s c u \<and> admitted_for s p u"
    and "\<And>c. c \<in> set (in_pairs (pairs s)) \<Longrightarrow>
      tasks s c = Ended \<or> (\<exists>u p. tasks s c \<in> {Sleeping u, Relaying u p})"
  shows "system_ok good spent s"
  using assms unfolding system_ok_def by blast

text \<open>
  A step that only moves one task on, keeping its uuid or ending it, and does not touch the map of
  waiting streams or leaves fewer of them.
\<close>

lemma system_ok_move:
  assumes ok: "system_ok good spent s" and "tasks s c \<noteq> Fresh \<or> t = Ended"
    and "task_uuid t = task_uuid (tasks s c) \<or> t = Ended" and "t \<noteq> Fresh"
    and "distinct (map fst w)" and "\<And>u st. (u, st) \<in> set w \<Longrightarrow> (u, st) \<in> set (waiting (hbbr s)) \<and> st_no st \<noteq> c"
    and "c \<in> set (in_pairs (pairs s)) \<Longrightarrow> t = Ended \<or> (\<exists>u p. t \<in> {Sleeping u, Relaying u p})"
    and "r' = (hbbr s)\<lparr>waiting := w\<rparr>"
  shows "system_ok good spent (s\<lparr>hbbr := r', tasks := (tasks s)(c := t)\<rparr>)"
proof -
  note D = system_okD [OF ok]
  show ?thesis
  proof (rule system_okI)
    show "spent tk (desk (s\<lparr>hbbr := r', tasks := (tasks s)(c := t)\<rparr>)) \<and>
        tasks (s\<lparr>hbbr := r', tasks := (tasks s)(c := t)\<rparr>) x \<noteq> Fresh"
      if "(x, tk, u) \<in> set (admitted_log (s\<lparr>hbbr := r', tasks := (tasks s)(c := t)\<rparr>))" for x tk u
      using D(4) [of x tk u] that assms(4) by simp
    show "admitted_for (s\<lparr>hbbr := r', tasks := (tasks s)(c := t)\<rparr>) x u"
      if "task_uuid (tasks (s\<lparr>hbbr := r', tasks := (tasks s)(c := t)\<rparr>) x) = Some u" for x u
      using D(5) [of x u] that assms(3) by (auto split: if_splits)
    show "tasks (s\<lparr>hbbr := r', tasks := (tasks s)(c := t)\<rparr>) x = Ended \<or>
        (\<exists>u p. tasks (s\<lparr>hbbr := r', tasks := (tasks s)(c := t)\<rparr>) x \<in> {Sleeping u, Relaying u p})"
      if "x \<in> set (in_pairs (pairs (s\<lparr>hbbr := r', tasks := (tasks s)(c := t)\<rparr>)))" for x
      using D(10) [of x] that assms(7) by auto
    show "tasks (s\<lparr>hbbr := r', tasks := (tasks s)(c := t)\<rparr>) (st_no st) = Sleeping u \<and>
        st_no st \<notin> set (in_pairs (pairs (s\<lparr>hbbr := r', tasks := (tasks s)(c := t)\<rparr>)))"
      if "(u, st) \<in> set (waiting (hbbr (s\<lparr>hbbr := r', tasks := (tasks s)(c := t)\<rparr>)))" for u st
      using D(7) [of u st] assms(6) [of u st] that assms(8) by simp
    show "admitted_for (s\<lparr>hbbr := r', tasks := (tasks s)(c := t)\<rparr>) x u \<and>
        admitted_for (s\<lparr>hbbr := r', tasks := (tasks s)(c := t)\<rparr>) p u"
      if "(x, p, u) \<in> set (pairs (s\<lparr>hbbr := r', tasks := (tasks s)(c := t)\<rparr>))" for x p u
      using D(9) [of x p u] that by simp
  qed (use D(1,2,3,6,8) assms(5,8) in simp_all)
qed


text \<open>What admitting a connection does to the desk.\<close>

lemma admission_cases:
  assumes "run_state (admission present key msg) d = (res, d')"
  shows "res = None \<and> d' = d \<or>
    (\<exists>rf b. msg = Some (RequestRelay rf) \<and> run_state (present (rf_token rf) (rf_uuid rf)) d = (b, d') \<and>
       res = (if b \<and> (key = [] \<or> rf_licence_key rf = key) \<and> rf_uuid rf \<noteq> [] then Some (rf_uuid rf) else None))"
  using assms
  by (auto simp: admission_def exec_simps split: option.splits message.splits prod.splits if_splits)

locale relay_desk = ticket_desk present good spent
  for present :: "string \<Rightarrow> string \<Rightarrow> ('d, bool) state" and good and spent +
  fixes other :: "'d \<Rightarrow> 'd \<Rightarrow> bool"
  assumes others: "good d \<Longrightarrow> other d d' \<Longrightarrow> good d'"
begin

lemma admission_run:
  assumes "good d" and "run_state (admission present key msg) d = (res, d')"
  shows "good d'" and "spent tk d \<Longrightarrow> spent tk d'"
    and "res = Some u \<Longrightarrow> \<exists>rf. msg = Some (RequestRelay rf) \<and> u = rf_uuid rf \<and>
      spent (rf_token rf) d' \<and> \<not> spent (rf_token rf) d \<and> (key = [] \<or> rf_licence_key rf = key) \<and> u \<noteq> []"
proof -
  note cases = admission_cases [OF assms(2)]
  show "good d'" using cases assms(1) keeps by blast
  show "spent tk d \<Longrightarrow> spent tk d'" using cases assms(1) stays by blast
  show "\<exists>rf. msg = Some (RequestRelay rf) \<and> u = rf_uuid rf \<and>
      spent (rf_token rf) d' \<and> \<not> spent (rf_token rf) d \<and> (key = [] \<or> rf_licence_key rf = key) \<and> u \<noteq> []"
    if some: "res = Some u"
  proof -
    obtain rf b where rf: "msg = Some (RequestRelay rf)"
      and p: "run_state (present (rf_token rf) (rf_uuid rf)) d = (b, d')"
      and b: "b" "u = rf_uuid rf" "u \<noteq> []" "key = [] \<or> rf_licence_key rf = key"
      using cases some by (auto split: if_splits)
    with accepts [OF assms(1), of _ _ d'] refuses [OF assms(1) _ p] show ?thesis by auto
  qed
qed

lemma system_ok_admit:
  assumes ok: "system_ok good spent s" and "tasks s c = Fresh"
    and "run_state (admission present key (Some (RequestRelay rf))) (desk s) = (Some u, d')"
  shows "system_ok good spent
    (s\<lparr>desk := d', tasks := (tasks s)(c := Ready u), admitted_log := (c, rf_token rf, u) # admitted_log s\<rparr>)"
    (is "system_ok good spent ?t")
proof -
  note D = system_okD [OF ok]
  note A = admission_run [OF D(1) assms(3)]
  have tk: "spent (rf_token rf) d'" "\<not> spent (rf_token rf) (desk s)" using A(3) by auto
  have log: "c \<noteq> x \<and> rf_token rf \<noteq> tk \<and> spent tk d' \<and> tasks s x \<noteq> Fresh"
    if "(x, tk, v) \<in> set (admitted_log s)" for x tk v
    using D(4) [OF that] tk A(2) [of tk] assms(2) by auto
  have more: "admitted_for s x v \<Longrightarrow> admitted_for ?t x v" and own: "admitted_for ?t c u" for x v
    by (auto simp: admitted_for_def)
  have not_paired: "c \<notin> set (in_pairs (pairs s))" using D(10) [of c] assms(2) by auto
  show ?thesis
  proof (rule system_okI)
    show "good (desk ?t)" using A(1) by simp
    show "distinct (map fst (admitted_log ?t))" "distinct (map (fst \<circ> snd) (admitted_log ?t))"
      using D(2,3) log by (auto simp: image_iff) force+
    show "spent tk (desk ?t) \<and> tasks ?t x \<noteq> Fresh" if "(x, tk, v) \<in> set (admitted_log ?t)" for x tk v
      using that tk log [of x tk v] by auto
    show "admitted_for ?t x v" if "task_uuid (tasks ?t x) = Some v" for x v
      using that own more D(5) [of x v] by (auto split: if_splits)
    show "tasks ?t (st_no st) = Sleeping v \<and> st_no st \<notin> set (in_pairs (pairs ?t))"
      if "(v, st) \<in> set (waiting (hbbr ?t))" for v st
      using D(7) [of v st] that assms(2) by auto
    show "admitted_for ?t x v \<and> admitted_for ?t p v" if "(x, p, v) \<in> set (pairs ?t)" for x p v
      using D(9) [of x p v] that more by auto
    show "tasks ?t x = Ended \<or> (\<exists>u p. tasks ?t x \<in> {Sleeping u, Relaying u p})"
      if "x \<in> set (in_pairs (pairs ?t))" for x
      using D(10) [of x] that not_paired by auto
  qed (use D(6,8) in simp_all)
qed

lemma system_ok_join:
  assumes ok: "system_ok good spent s" and r: "tasks s c = Ready u"
    and "map_of (waiting (hbbr s)) u = Some peer"
  shows "system_ok good spent
    (s\<lparr>hbbr := (hbbr s)\<lparr>waiting := remove_key u (waiting (hbbr s))\<rparr>,
       tasks := (tasks s)(c := Relaying u (st_no peer)), pairs := (c, st_no peer, u) # pairs s\<rparr>)"
    (is "system_ok good spent ?t")
proof -
  note D = system_okD [OF ok]
  have peer: "tasks s (st_no peer) = Sleeping u" "st_no peer \<notin> set (in_pairs (pairs s))"
    using D(7) [of u peer] assms(3) by (auto dest: map_of_SomeD)
  then have "st_no peer \<noteq> c" using r by auto
  have c: "c \<notin> set (in_pairs (pairs s))" using D(10) [of c] r by auto
  have adm: "admitted_for s c u" "admitted_for s (st_no peer) u"
    using D(5) [of c u] D(5) [of "st_no peer" u] r peer(1) by simp_all
  show ?thesis
  proof (rule system_okI)
    show "spent tk (desk ?t) \<and> tasks ?t x \<noteq> Fresh" if "(x, tk, v) \<in> set (admitted_log ?t)" for x tk v
      using D(4) [of x tk v] that by auto
    show "admitted_for ?t x v" if "task_uuid (tasks ?t x) = Some v" for x v
      using D(5) [of x v] adm that by (auto split: if_splits)
    show "distinct (map fst (waiting (hbbr ?t)))" using D(6) by (simp add: distinct_remove_key)
    show "tasks ?t (st_no st) = Sleeping v \<and> st_no st \<notin> set (in_pairs (pairs ?t))"
      if "(v, st) \<in> set (waiting (hbbr ?t))" for v st
    proof -
      have "tasks s (st_no st) = Sleeping v" "st_no st \<notin> set (in_pairs (pairs s))" "v \<noteq> u"
        using D(7) [of v st] that by auto
      with r peer show ?thesis by auto
    qed
    show "distinct (in_pairs (pairs ?t))" using D(8) c peer(2) \<open>st_no peer \<noteq> c\<close> by auto
    show "admitted_for ?t x v \<and> admitted_for ?t p v" if "(x, p, v) \<in> set (pairs ?t)" for x p v
      using D(9) [of x p v] adm that by auto
    show "tasks ?t x = Ended \<or> (\<exists>u p. tasks ?t x \<in> {Sleeping u, Relaying u p})"
      if "x \<in> set (in_pairs (pairs ?t))" for x
      using D(10) [of x] that peer(1) \<open>st_no peer \<noteq> c\<close> by auto
  qed (use D(1,2,3) in simp_all)
qed

lemma system_ok_park:
  assumes ok: "system_ok good spent s" and r: "tasks s (st_no st) = Parking u"
  shows "system_ok good spent
    (s\<lparr>hbbr := (hbbr s)\<lparr>waiting := AList.update u st (waiting (hbbr s))\<rparr>,
       tasks := (tasks s)(st_no st := Sleeping u)\<rparr>)" (is "system_ok good spent ?t")
proof -
  note D = system_okD [OF ok]
  have c: "st_no st \<notin> set (in_pairs (pairs s))" using D(10) [of "st_no st"] r by auto
  show ?thesis
  proof (rule system_okI)
    show "spent tk (desk ?t) \<and> tasks ?t x \<noteq> Fresh" if "(x, tk, v) \<in> set (admitted_log ?t)" for x tk v
      using D(4) [of x tk v] that by auto
    show "admitted_for ?t x v" if "task_uuid (tasks ?t x) = Some v" for x v
      using D(5) [of x v] D(5) [of "st_no st" u] r that by (auto split: if_splits)
    show "distinct (map fst (waiting (hbbr ?t)))" using D(6) by (simp add: distinct_update)
    show "tasks ?t (st_no st') = Sleeping v \<and> st_no st' \<notin> set (in_pairs (pairs ?t))"
      if "(v, st') \<in> set (waiting (hbbr ?t))" for v st'
      using set_update_distinct [OF D(6), of v st' u st] that D(7) [of v st'] c r by auto
    show "admitted_for ?t x v \<and> admitted_for ?t p v" if "(x, p, v) \<in> set (pairs ?t)" for x p v
      using D(9) [of x p v] that by auto
    show "tasks ?t x = Ended \<or> (\<exists>u p. tasks ?t x \<in> {Sleeping u, Relaying u p})"
      if "x \<in> set (in_pairs (pairs ?t))" for x
      using D(10) [of x] that by auto
  qed (use D(1,2,3,8) in simp_all)
qed

lemma system_ok_step:
  assumes "pair_step present spent other key s t" and ok: "system_ok good spent s"
  shows "system_ok good spent t"
  using assms(1)
proof cases
  case (pair_other d')
  then have "good d'" using others system_okD(1) [OF ok] by blast
  then show ?thesis using ok pair_other(1,3) by (auto simp: system_ok_def)
next
  case (pair_refuse c msg d')
  note A = admission_run [OF system_okD(1) [OF ok] pair_refuse(3)]
  have "system_ok good spent (s\<lparr>desk := d'\<rparr>)"
    using ok A(1,2) by (auto simp: system_ok_def)
  then have "system_ok good spent (s\<lparr>desk := d'\<rparr>\<lparr>hbbr := hbbr s, tasks := (tasks s)(c := Ended)\<rparr>)"
    using system_okD(6,7) [OF ok] pair_refuse(2)
    by (intro system_ok_move [where w = "waiting (hbbr s)" and c = c and s = "s\<lparr>desk := d'\<rparr>", simplified]) auto
  then show ?thesis by (simp add: pair_refuse(1))
next
  case (pair_admit c rf u d')
  with system_ok_admit [OF ok pair_admit(2,3)] show ?thesis by simp
next
  case (pair_join c u peer r')
  with system_ok_join [OF ok pair_join(2), of peer] show ?thesis by (auto simp: exec_simps)
next
  case (pair_alone c u r')
  have "u \<notin> fst ` set (waiting (hbbr s))"
    using pair_alone(3) by (auto simp: run_relay_maps map_of_eq_None_iff)
  then have r': "r' = (hbbr s)\<lparr>waiting := remove_key u (waiting (hbbr s))\<rparr>"
    using pair_alone(3) by (simp add: exec_simps)
  have "c \<notin> set (in_pairs (pairs s))"
    using system_okD(10) [OF ok, of c] pair_alone(2) by auto
  then show ?thesis unfolding pair_alone(1)
    using pair_alone(2) r' system_okD(6,7) [OF ok]
    by (intro system_ok_move [OF ok, where w = "remove_key u (waiting (hbbr s))"])
      (auto intro: distinct_remove_key)
next
  case (pair_park st u r')
  with system_ok_park [OF ok pair_park(2)] show ?thesis by (auto simp: exec_simps)
next
  case (pair_expire c u r')
  show ?thesis unfolding pair_expire(1)
    using pair_expire(2,3) system_okD(6,7) [OF ok]
    by (intro system_ok_move [OF ok, where w = "remove_key u (waiting (hbbr s))"])
      (auto simp: exec_simps intro: distinct_remove_key)
next
  case (pair_finish c u p)
  have "system_ok good spent (s\<lparr>hbbr := hbbr s, tasks := (tasks s)(c := Ended)\<rparr>)"
    using pair_finish(2) system_okD(6,7) [OF ok]
    by (intro system_ok_move [OF ok, where w = "waiting (hbbr s)"]) auto
  then show ?thesis by (simp add: pair_finish(1))
qed

sublocale pairing: machine "no_connections good" "pair_step present spent other key" "system_ok good spent" for key
proof unfold_locales
  show "system_ok good spent s" if "no_connections good s" for s
    using that by (auto simp: no_connections_def system_ok_def)
  show "system_ok good spent t" if "system_ok good spent s" and "pair_step present spent other key s t" for s t
    using that(2,1) by (rule system_ok_step)
qed

text \<open>The two ends of a relay hold two different tickets, both accepted for its uuid.\<close>

lemma two_tickets:
  assumes "reach (no_connections good) (pair_step present spent other key) s" and "(c, p, u) \<in> set (pairs s)"
  shows "c \<noteq> p \<and> (\<exists>tk tk'. tk \<noteq> tk' \<and> (c, tk, u) \<in> set (admitted_log s) \<and> (p, tk', u) \<in> set (admitted_log s))"
proof -
  note D = system_okD [OF pairing.reach_inv [OF assms(1)]]
  have ne: "c \<noteq> p" using in_pairs_distinct D(8) assms(2) by blast
  obtain tk tk' where t: "(c, tk, u) \<in> set (admitted_log s)" "(p, tk', u) \<in> set (admitted_log s)"
    using D(9) [OF assms(2)] by (auto simp: admitted_for_def)
  have "tk \<noteq> tk'"
  proof
    assume "tk = tk'"
    then have "(c, tk, u) = (p, tk', u)"
      using D(3) t by (intro inj_onD [OF distinct_map [THEN iffD1, THEN conjunct2], of "fst \<circ> snd"]) auto
    with ne show False by simp
  qed
  with ne t show ?thesis by blast
qed

end


section \<open>The two deployments\<close>

lemma stmt_step_keeps:
  "db_ok d \<Longrightarrow> stmt_step d d' \<Longrightarrow> db_ok d' \<and> shared_open d' = shared_open d"
  by (auto elim!: stmt_step.cases dest: exec_stmt_frame intro: exec_stmt_db_ok)

interpretation local_relay: relay_desk "redeem_ticket e" "\<lambda>s. db_ok s \<and> shared_open s" "spent_ticket e" stmt_step
  for e :: "'e env_scheme"
  by unfold_locales (use stmt_step_keeps in blast)

interpretation remote_relay: relay_desk
    "redeemer_redeem e (http_network e configured ip) (Http url secret)"
    "\<lambda>s. db_ok s \<and> wire_ok e" "spent_ticket e" stmt_step
  for e :: "'e relay_env_scheme" and configured ip url secret
  by unfold_locales (use stmt_step_keeps in blast)

text \<open>The same with the account service across the network.\<close>

lemma relay_needs_two_tickets_http:
  assumes "reach (no_connections (\<lambda>s. db_ok s \<and> wire_ok e))
      (pair_step (redeemer_redeem e (http_network e configured ip) (Http url secret)) (spent_ticket e) stmt_step key) s"
    and "(c, p, u) \<in> set (pairs s)"
  shows "c \<noteq> p \<and> (\<exists>tk tk'. tk \<noteq> tk' \<and> (c, tk, u) \<in> set (admitted_log s) \<and> (p, tk', u) \<in> set (admitted_log s))"
  using remote_relay.two_tickets [OF assms] .

text \<open>
  The clean-up after 30 seconds goes by the uuid alone: when another connection has come to wait
  under the same uuid in the meantime, it is that one's stream which is dropped.
\<close>

lemma expire_drops_later_stream:
  assumes "tasks s c = Sleeping u" and "map_of (waiting (hbbr s)) u = Some st" and "st_no st \<noteq> c"
  shows "\<exists>t. pair_step present spent other key s t \<and> map_of (waiting (hbbr t)) u = None \<and>
    tasks t (st_no st) = tasks s (st_no st)"
proof (intro exI conjI)
  let ?r = "(hbbr s)\<lparr>waiting := remove_key u (waiting (hbbr s))\<rparr>"
  show "pair_step present spent other key s (s\<lparr>hbbr := ?r, tasks := (tasks s)(c := Ended)\<rparr>)"
    by (rule pair_expire [OF assms(1)]) (simp add: exec_simps)
  show "map_of (waiting (hbbr (s\<lparr>hbbr := ?r, tasks := (tasks s)(c := Ended)\<rparr>))) u = None" by simp
  show "tasks (s\<lparr>hbbr := ?r, tasks := (tasks s)(c := Ended)\<rparr>) (st_no st) = tasks s (st_no st)"
    using assms(3) by simp
qed

section \<open>A concrete relay\<close>

definition sample_relay :: relay where
  "sample_relay = \<lparr>ticks = 0, waiting = [], usage = [], blacklist = [], blocklist = [],
     downgrade_threshold_100 = 66, downgrade_start_check = 1800000, limit_speed = 33554432,
     total_bandwidth = 1073741824, single_bandwidth = 134217728, relayed = [], charged = []\<rparr>"

definition other_token :: string where
  "other_token = replicate 63 (CHR ''0'') @ ''U''"

definition two_ticket_host :: host where
  "two_ticket_host = sample_host\<lparr>tickets := [sample_row, sample_row\<lparr>tic_hash := [85]\<rparr>]\<rparr>"

definition relay_request :: "string \<Rightarrow> request_relay" where
  "relay_request tk = request_relay0\<lparr>rf_uuid := ''u'', rf_token := tk\<rparr>"

lemma relay_request_simps [simp]:
  "rf_uuid (relay_request tk) = ''u''" "rf_token (relay_request tk) = tk"
  by (simp_all add: relay_request_def)

lemma two_ticket_host_ok: "db_ok two_ticket_host" "shared_open two_ticket_host"
  by (simp_all add: two_ticket_host_def db_ok_def sample_host_def sample_row_def unique_on_def)

lemma two_ticket_digests: "length sample_token = 64" "length other_token = 64"
  "sha256 sample_env sample_token = [84]" "sha256 sample_env other_token = [85]"
  by (simp_all add: sample_token_def other_token_def)

lemma two_tickets_redeemed:
  "\<exists>d1 d2. run_state (redeem_ticket sample_env sample_token ''u'') two_ticket_host = (True, d1) \<and>
     run_state (redeem_ticket sample_env other_token ''u'') d1 = (True, d2)"
proof (intro exI conjI)
  let ?d1 = "two_ticket_host\<lparr>ticks := 3, tickets := [sample_row\<lparr>tic_hash := [85]\<rparr>]\<rparr>"
  show "run_state (redeem_ticket sample_env sample_token ''u'') two_ticket_host = (True, ?d1)"
    by (simp add: run_redeem_ticket two_ticket_host_ok redeem_run Let_def two_ticket_digests
        redeemable_def session_live_def two_ticket_host_def sample_host_def sample_row_def
        del: sample_env_simps(6))
  show "run_state (redeem_ticket sample_env other_token ''u'') ?d1 =
      (True, two_ticket_host\<lparr>ticks := 6, tickets := []\<rparr>)"
    by (simp add: run_redeem_ticket two_ticket_host_ok redeem_run Let_def two_ticket_digests
        redeemable_def session_live_def two_ticket_host_def sample_host_def sample_row_def
        del: sample_env_simps(6))
qed

text \<open>Two accepted tickets for one relay join the connections that present them.\<close>

lemma two_admissions_run:
  assumes "run_state (present tk1 ''u'') d0 = (True, d1)" and "run_state (present tk2 ''u'') d1 = (True, d2)"
  shows "\<exists>r t. (pair_step present spent other '''')\<^sup>*\<^sup>*
    \<lparr>desk = d0, hbbr = sample_relay, tasks = (\<lambda>_. Fresh), admitted_log = [], pairs = []\<rparr>
    \<lparr>desk = d2, hbbr = r, tasks = t, admitted_log = [(2, tk2, ''u''), (1, tk1, ''u'')], pairs = [(2, 1, ''u'')]\<rparr>"
proof -
  let ?st = "\<lparr>st_no = 1, st_ws = False, st_raw = False\<rparr>"
  let ?s = "\<lambda>d w t a p. \<lparr>desk = d, hbbr = sample_relay\<lparr>waiting := w\<rparr>, tasks = t, admitted_log = a, pairs = p\<rparr>"
  let ?step = "pair_step present spent other ''''"
  let ?t1 = "(\<lambda>_. Fresh)(1 := Sleeping ''u'')"
  have "?step\<^sup>*\<^sup>* (?s d0 [] (\<lambda>_. Fresh) [] []) (?s d1 [] ((\<lambda>_. Fresh)(1 := Ready ''u'')) [(1, tk1, ''u'')] [])"
    using pair_admit [of "?s d0 [] (\<lambda>_. Fresh) [] []" 1 present "''''" "relay_request tk1" "''u''" d1] assms(1)
    by (intro r_into_rtranclp) (simp add: admission_def exec_simps)
  also have "?step \<dots> (?s d1 [] ((\<lambda>_. Fresh)(1 := Parking ''u'')) [(1, tk1, ''u'')] [])"
    using pair_alone [of "?s d1 [] ((\<lambda>_. Fresh)(1 := Ready ''u'')) [(1, tk1, ''u'')] []" 1 "''u''" "sample_relay\<lparr>waiting := []\<rparr>"]
    by (simp add: exec_simps remove_key_def)
  also have "?step \<dots> (?s d1 [(''u'', ?st)] ?t1 [(1, tk1, ''u'')] [])"
    using pair_park [of "?s d1 [] ((\<lambda>_. Fresh)(1 := Parking ''u'')) [(1, tk1, ''u'')] []" ?st "''u''"
      "sample_relay\<lparr>waiting := [(''u'', ?st)]\<rparr>"] by (simp add: exec_simps)
  also have "?step \<dots> (?s d2 [(''u'', ?st)] (?t1(2 := Ready ''u'')) [(2, tk2, ''u''), (1, tk1, ''u'')] [])"
    using pair_admit [of "?s d1 [(''u'', ?st)] ?t1 [(1, tk1, ''u'')] []" 2 present "''''" "relay_request tk2" "''u''" d2] assms(2)
    by (simp add: admission_def exec_simps)
  also have "?step \<dots> (?s d2 [] (?t1(2 := Relaying ''u'' 1)) [(2, tk2, ''u''), (1, tk1, ''u'')] [(2, 1, ''u'')])"
    using pair_join [of "?s d2 [(''u'', ?st)] (?t1(2 := Ready ''u'')) [(2, tk2, ''u''), (1, tk1, ''u'')] []" 2 "''u''" ?st
      "sample_relay\<lparr>waiting := []\<rparr>"] by (simp add: exec_simps remove_key_def)
  finally show ?thesis by (auto simp: sample_relay_def)
qed

section \<open>Properties\<close>

text \<open>
  C1: No byte is relayed without two accepted tickets. In every interleaving of connections, clean-ups
  and other users of the ticket store, two connections whose streams are joined are different, and
  each was admitted with a ticket of its own for the common uuid; no stream is part of two relays,
  and no ticket ever admits two connections.
\<close>

theorem relay_needs_two_tickets:
  assumes "reach (no_connections (\<lambda>s. db_ok s \<and> shared_open s))
      (pair_step (redeem_ticket e) (spent_ticket e) stmt_step key) s"
  shows "(\<forall>(c, p, u) \<in> set (pairs s). c \<noteq> p \<and> (\<exists>tk tk'. tk \<noteq> tk' \<and>
        (c, tk, u) \<in> set (admitted_log s) \<and> (p, tk', u) \<in> set (admitted_log s))) \<and>
    distinct (in_pairs (pairs s)) \<and> distinct (map (\<lambda>(c, tk, u). tk) (admitted_log s))"
proof -
  have tickets: "(\<lambda>(c, tk, u). tk) = fst \<circ> snd" by (auto simp: fun_eq_iff)
  show ?thesis
    using local_relay.two_tickets [OF assms] system_okD(3,8) [OF local_relay.pairing.reach_inv [OF assms]]
    unfolding tickets by blast
qed

lemma relay_needs_two_tickets_witness:
  "\<exists>s :: host system. reach (no_connections (\<lambda>s. db_ok s \<and> shared_open s))
      (pair_step (redeem_ticket sample_env) (spent_ticket sample_env) stmt_step '''') s \<and>
     pairs s = [(2, 1, ''u'')] \<and> distinct (in_pairs (pairs s))"
proof -
  let ?start = "no_connections (\<lambda>s. db_ok s \<and> shared_open s) :: host system \<Rightarrow> bool"
  let ?step = "pair_step (redeem_ticket sample_env) (spent_ticket sample_env) stmt_step ''''"
  obtain d1 d2 where d: "run_state (redeem_ticket sample_env sample_token ''u'') two_ticket_host = (True, d1)"
    "run_state (redeem_ticket sample_env other_token ''u'') d1 = (True, d2)"
    using two_tickets_redeemed by blast
  let ?s = "\<lparr>desk = two_ticket_host, hbbr = sample_relay, tasks = \<lambda>_. Fresh, admitted_log = [], pairs = []\<rparr>"
  obtain t where run: "?step\<^sup>*\<^sup>* ?s t" and t: "pairs t = [(2, 1, ''u'')]"
    using two_admissions_run [of "redeem_ticket sample_env", OF d, of "spent_ticket sample_env" stmt_step] by force
  have "reach ?start ?step ?s"
    by (rule reach_start) (simp add: no_connections_def two_ticket_host_ok sample_relay_def)
  with run have r: "reach ?start ?step t" by (induction rule: rtranclp_induct) (auto intro: reach_step)
  show ?thesis using r t relay_needs_two_tickets [OF r] by blast
qed


text \<open>
  What one connection gets. It is dropped, and then nothing changes at the relay, unless its first
  message is a relay request whose ticket the desk accepts, with the right key and a uuid; then it
  waits under that uuid if nobody does, and otherwise is joined to the stream that waited, which
  leaves the map; both streams turn raw exactly when neither is a WebSocket. The ticket is redeemed
  before the key is looked at: a request with the wrong key uses its ticket up.
\<close>

theorem make_pair_outcomes:
  assumes "run_state (make_pair present key st addr msg) (d, r) = (res, (d', r'))"
  shows "(res = Dropped \<longrightarrow> r' = r) \<and>
    (res \<noteq> Dropped \<longrightarrow> (\<exists>rf. msg = Some (RequestRelay rf) \<and> rf_uuid rf \<noteq> [] \<and>
       (key = [] \<or> rf_licence_key rf = key) \<and>
       run_state (present (rf_token rf) (rf_uuid rf)) d = (True, d') \<and>
       (case map_of (waiting r) (rf_uuid rf) of
          None \<Rightarrow> res = Parked (rf_uuid rf) \<and> map_of (waiting r') = (map_of (waiting r))(rf_uuid rf \<mapsto> st) \<and>
            usage r' = usage r
        | Some peer \<Rightarrow> res = (if st_ws st \<or> st_ws peer then Paired peer st
              else Paired (peer\<lparr>st_raw := True\<rparr>) (st\<lparr>st_raw := True\<rparr>)) \<and>
            map_of (waiting r') = (map_of (waiting r))(rf_uuid rf := None) \<and>
            map_of (usage r') (session_name addr) = Some (0, 0, 0, 0)))) \<and>
    (\<forall>rf b d1. msg = Some (RequestRelay rf) \<and> key \<noteq> [] \<and> rf_licence_key rf \<noteq> key \<and>
       run_state (present (rf_token rf) (rf_uuid rf)) d = (b, d1) \<longrightarrow> res = Dropped \<and> d' = d1)"
proof -
  obtain a d1 where adm: "run_state (admission present key msg) d = (a, d1)" by (metis prod.collapse)
  have m: "map_of (remove_key u w) = (map_of w)(u := None)" for u and w :: "(string \<times> stream) list"
    by (auto simp: fun_eq_iff)
  show ?thesis
  proof (cases a)
    case None
    then have "res = Dropped \<and> r' = r \<and> d' = d1"
      using assms adm by (simp add: make_pair_def exec_simps)
    moreover have "d1 = d2" if "msg = Some (RequestRelay rf)"
      "run_state (present (rf_token rf) (rf_uuid rf)) d = (b, d2)" for rf b d2
      using adm that by (simp add: admission_def exec_simps)
    ultimately show ?thesis by blast
  next
    case (Some u)
    then obtain rf where rf: "msg = Some (RequestRelay rf)" "u = rf_uuid rf" "rf_uuid rf \<noteq> []"
      "key = [] \<or> rf_licence_key rf = key" "run_state (present (rf_token rf) (rf_uuid rf)) d = (True, d1)"
      using admission_cases [OF adm] by (auto split: if_splits)
    then show ?thesis using assms adm Some
      by (auto simp: make_pair_def join_def set_raw_def exec_simps m update_conv' split: option.splits if_splits)
  qed
qed

lemma make_pair_outcomes_witness:
  "\<exists>r'. run_state (make_pair (\<lambda>tk u. State_Monad.return True) ''k'' \<lparr>st_no = 1, st_ws = False, st_raw = False\<rparr>
       (SockV4 1 2) (Some (RequestRelay ((relay_request ''t'')\<lparr>rf_licence_key := ''k''\<rparr>)))) ((), sample_relay) =
     (Parked ''u'', ((), r')) \<and> map_of (waiting r') ''u'' \<noteq> None"
proof -
  let ?m = "make_pair (\<lambda>tk u. State_Monad.return True) ''k'' \<lparr>st_no = 1, st_ws = False, st_raw = False\<rparr>
       (SockV4 1 2) (Some (RequestRelay ((relay_request ''t'')\<lparr>rf_licence_key := ''k''\<rparr>)))"
  obtain r' where r: "run_state ?m ((), sample_relay) = (Parked ''u'', ((), r'))"
    by (simp add: make_pair_def admission_def join_def exec_simps sample_relay_def relay_request_def)
  from make_pair_outcomes [OF r] r show ?thesis
    by (auto simp: sample_relay_def)
qed

end
