(* ===== verification/Deployment.thy ===== *)
theory Deployment
  imports Tables Relay
begin

text \<open>
  An installation as a whole: hbbs, the account service and the administration tool on one database
  (\<open>office_step\<close>), and hbbr with any number of connections (\<open>pair_step\<close>) redeeming tickets in it. Two
  logs record the rows that came into the ticket table and those that a relay took out, each with the
  account its session belongs to at that moment.

  The specification is injective agreement: a claim, the hash of a ticket with its relay uuid and its
  session, is promised at most once and committed at most once, and only after it was promised.
  The locale \<open>simulation\<close> states what a refinement is; it is interpreted on the installation.
\<close>

section \<open>Refinement\<close>

locale simulation =
  fixes cstart :: "'c \<Rightarrow> bool" and cstep :: "'c \<Rightarrow> 'c \<Rightarrow> bool"
    and astart :: "'a \<Rightarrow> bool" and astep :: "'a \<Rightarrow> 'a \<Rightarrow> bool" and abst :: "'c \<Rightarrow> 'a"
  assumes sim_start: "cstart c \<Longrightarrow> astart (abst c)"
    and sim_step: "reach cstart cstep c \<Longrightarrow> cstep c c' \<Longrightarrow> astep\<^sup>*\<^sup>* (abst c) (abst c')"
begin

lemma sim_reach: "reach cstart cstep c \<Longrightarrow> reach astart astep (abst c)"
  by (induction rule: reach.induct) (auto intro: reach_start sim_start reach_steps sim_step)

end

section \<open>Injective agreement\<close>

type_synonym claim = "bytes \<times> string \<times> bytes"

record agreement =
  promised :: "claim set"
  committed :: "claim set"

inductive agree_step :: "agreement \<Rightarrow> agreement \<Rightarrow> bool" where
  agree_promise: "fst c \<notin> fst ` promised a \<Longrightarrow> agree_step a (a\<lparr>promised := insert c (promised a)\<rparr>)"
| agree_commit: "c \<in> promised a \<Longrightarrow> c \<notin> committed a \<Longrightarrow> agree_step a (a\<lparr>committed := insert c (committed a)\<rparr>)"

definition agree_start :: "agreement \<Rightarrow> bool" where
  "agree_start a \<longleftrightarrow> promised a = {} \<and> committed a = {}"

definition agreement_ok :: "agreement \<Rightarrow> bool" where
  "agreement_ok a \<longleftrightarrow> committed a \<subseteq> promised a \<and> inj_on fst (promised a)"

interpretation agreeing: machine agree_start agree_step agreement_ok
proof unfold_locales
  show "agreement_ok b" if "agreement_ok a" and "agree_step a b" for a b
    using that(2,1) by cases (auto simp: agreement_ok_def inj_on_def image_iff)
qed (simp add: agree_start_def agreement_ok_def)

section \<open>The installation\<close>

type_synonym ticket_log = "(ticket_row \<times> account_row option) list"

record deployment =
  site :: "hub system"
  issued :: ticket_log
  used :: ticket_log

text \<open>The account that the session of a ticket belongs to.\<close>

definition holder :: "'w host_scheme \<Rightarrow> bytes \<Rightarrow> account_row option" where
  "holder d h = Option.bind (select_first (filter (\<lambda>x. ses_hash x = h) (sessions d)))
     (\<lambda>x. select_first (filter (\<lambda>a. acc_name a = ses_name x) (accounts d)))"

text \<open>The tickets of \<open>d\<close> that \<open>d'\<close> has not, with the holders that \<open>d0\<close> knows.\<close>

definition rows_beyond :: "'w host_scheme \<Rightarrow> 'v host_scheme \<Rightarrow> 'u host_scheme \<Rightarrow> ticket_log" where
  "rows_beyond d0 d d' = map (\<lambda>r. (r, holder d0 (tic_session r))) (filter (\<lambda>r. r \<notin> set (tickets d')) (tickets d))"

definition hashes :: "ticket_log \<Rightarrow> bytes set" where
  "hashes l = (tic_hash \<circ> fst) ` set l"

text \<open>
  A ticket is 256 random bits and stored by its SHA-256: a new row has a hash that no earlier row had.
\<close>

definition fresh_hashes :: "ticket_log \<Rightarrow> 'w host_scheme \<Rightarrow> 'v host_scheme \<Rightarrow> bool" where
  "fresh_hashes l d d' \<longleftrightarrow> (\<forall>r \<in> set (tickets d'). r \<in> set (tickets d) \<or> tic_hash r \<notin> hashes l)"

inductive deploy_step ::
  "'e console_env_scheme \<Rightarrow> 'x secure_env_scheme \<Rightarrow> 'y service_env_scheme \<Rightarrow> 'z env_scheme \<Rightarrow> string
     \<Rightarrow> deployment \<Rightarrow> deployment \<Rightarrow> bool"
  for e :: "'e console_env_scheme" and x :: "'x secure_env_scheme" and y :: "'y service_env_scheme"
    and z :: "'z env_scheme" and key :: string where
  deploy_office: "office_step e x y (desk (site s)) d' \<Longrightarrow> fresh_hashes (issued s) (desk (site s)) d' \<Longrightarrow>
    deploy_step e x y z key s (s\<lparr>site := (site s)\<lparr>desk := d'\<rparr>,
      issued := issued s @ rows_beyond (desk (site s)) d' (desk (site s))\<rparr>)"
| deploy_relay: "pair_step (redeem_ticket z) (spent_ticket z) (\<lambda>_ _. False) key (site s) n \<Longrightarrow>
    deploy_step e x y z key s (s\<lparr>site := n, used := used s @ rows_beyond (desk (site s)) (desk (site s)) (desk n)\<rparr>)"

definition deploy_start :: "deployment \<Rightarrow> bool" where
  "deploy_start s \<longleftrightarrow> no_connections (\<lambda>d. db_ok d \<and> shared_open d) (site s) \<and> tickets (desk (site s)) = [] \<and>
     issued s = [] \<and> used s = []"

definition all_held :: "ticket_log \<Rightarrow> bool" where
  "all_held l \<longleftrightarrow> (\<forall>(r, a) \<in> set l. \<exists>acc. a = Some acc \<and> acc_enabled acc = 1)"

definition deploy_ok :: "'z env_scheme \<Rightarrow> deployment \<Rightarrow> bool" where
  "deploy_ok z s \<longleftrightarrow>
     system_ok (\<lambda>d. db_ok d \<and> shared_open d) (spent_ticket z) (site s) \<and>
     fst ` set (used s) \<subseteq> fst ` set (issued s) \<and> set (tickets (desk (site s))) \<subseteq> fst ` set (issued s) \<and>
     distinct (map (tic_hash \<circ> fst) (issued s)) \<and> distinct (map (tic_hash \<circ> fst) (used s)) \<and>
     (\<forall>r \<in> set (tickets (desk (site s))). tic_hash r \<notin> hashes (used s)) \<and> all_held (issued s) \<and> all_held (used s) \<and>
     (\<forall>(c, tk, u) \<in> set (admitted_log (site s)). \<exists>r \<in> fst ` set (used s). tic_hash r = sha256 z tk \<and> tic_relay r = u) \<and>
     distinct (map (\<lambda>(c, tk, u). sha256 z tk) (admitted_log (site s)))"

section \<open>Lemmas\<close>

lemma holder_live:
  assumes "db_ok d" and "session_live t d h"
  shows "\<exists>a. holder d h = Some a \<and> acc_enabled a = 1"
proof -
  obtain x a where x: "x \<in> set (sessions d)" "ses_hash x = h" and a: "a \<in> set (accounts d)" "acc_name a = ses_name x" "acc_enabled a = 1"
    using assms(2) by (auto simp: session_live_def list_ex_iff)
  have "select_first (filter (\<lambda>x. ses_hash x = h) (sessions d)) = Some x"
    "select_first (filter (\<lambda>a. acc_name a = ses_name x) (accounts d)) = Some a"
    using assms(1) x a(1,2) by (auto simp: db_ok_def intro!: select_by_key)
  with a(3) show ?thesis by (simp add: holder_def)
qed

lemma rows_beyond_log:
  "fst ` set (rows_beyond d0 d d') = set (tickets d) - set (tickets d')"
  "db_ok d \<Longrightarrow> distinct (map (tic_hash \<circ> fst) (rows_beyond d0 d d'))"
  by (auto simp: rows_beyond_def image_iff, auto simp: rows_beyond_def db_ok_def unique_on_def comp_def distinct_map_filter)

lemma hashes_simps [simp]: "hashes [] = {}" "hashes (l @ l') = hashes l \<union> hashes l'"
  by (auto simp: hashes_def)

lemma hashes_rows: "hashes l = tic_hash ` fst ` set l"
  by (auto simp: hashes_def)

lemma all_held_append [simp]: "all_held [] \<and> (all_held (l @ l') \<longleftrightarrow> all_held l \<and> all_held l')"
  by (simp add: all_held_def ball_Un)

lemma held_rows:
  assumes "db_ok d0" and "\<And>r. r \<in> set (tickets d) \<Longrightarrow> r \<notin> set (tickets d') \<Longrightarrow> \<exists>t. session_live t d0 (tic_session r)"
  shows "all_held (rows_beyond d0 d d')"
  using assms holder_live by (fastforce simp: all_held_def rows_beyond_def)

text \<open>Every step of the office issues tickets to live sessions only, and keeps the database fit.\<close>

lemma office_issues:
  assumes "office_step e x y h h'"
  shows "issued_by (clock_readings e \<union> clock_readings y) h h'"
proof -
  have mono: "issued_by (clock_readings e \<union> clock_readings y) d s" if "issued_by T d s" "T \<subseteq> clock_readings e \<union> clock_readings y" for T d s
    using that by (fastforce simp: issued_by_def licensed_def)
  show ?thesis using assms
  proof (cases rule: office_step.cases)
    case office_hbbs
    have "office_frame (clock_readings e) h h" by simp
    with office_hbbs have "office_frame (clock_readings e) h h'" by (rule office_hub.keep_hub_step)
    then show ?thesis by (intro mono [of "clock_readings e"]) (auto simp: office_frame_def)
  next
    case (office_service secret ip headers c t r t')
    note same = truncate_store [OF office_service(3)]
    have "issued_by (clock_readings y) t t'" by (rule serve_tickets [OF office_service(2)])
    then have "issued_by (clock_readings y) h (with_store t' h)"
      using same by (auto simp: issued_by_def licensed_def session_live_iff)
    then show ?thesis unfolding office_service(1) by (rule mono) simp
  next
    case (office_admin var command arg r)
    then show ?thesis by (intro mono [of "{}"] admin_tickets) simp_all
  qed
qed


lemma office_good:
  assumes step: "office_step e x y h h'" and ok: "db_ok h \<and> shared_open h"
  shows "db_ok h' \<and> shared_open h'"
proof
  show "db_ok h'"
  proof (rule keys_hub.keep_office [OF step])
    show "db_ok (with_store t' h)" if "run_state (serve y secret ip headers c) t = (r, t')" "host.truncate (t :: service) = host.truncate h"
      for secret ip headers c t r t'
      using preservesD_run [OF serve_db_ok that(1)] truncate_store [OF that(2)] ok by (simp add: db_ok_def)
  qed (use ok admin_db_ok in auto)
  show "shared_open h'"
  proof (rule open_hub.keep_office [OF step])
    show "shared_open (with_store t' h)" if "run_state (serve y secret ip headers c) t = (r, t')" "host.truncate (t :: service) = host.truncate h"
      for secret ip headers c t r t'
      using service_apart_run(2) [OF that] ok by simp
    show "preserves shared_open (admin y var command arg :: ('w hub_scheme, _) state)" for var command arg
    proof (rule preservesI)
      fix s :: "'w hub_scheme"
      assume "shared_open s"
      then have "apart (peer_rows s) True s" by (simp add: apart_def)
      from preservesD [OF store_apart.keep_admin this, of y var command arg]
      show "shared_open (snd (run_state (admin y var command arg) s))" by (simp add: apart_def)
    qed
  qed (use ok in simp)
qed

interpretation deployed_relay: relay_desk "redeem_ticket z" "\<lambda>d :: hub. db_ok d \<and> shared_open d" "spent_ticket z"
    "office_step e x y"
  for z :: "'z env_scheme" and e :: "'e console_env_scheme" and x :: "'x secure_env_scheme" and y :: "'y service_env_scheme"
  by unfold_locales (rule office_good)

lemma pair_step_other:
  "pair_step present spent (\<lambda>_ _. False) key s t \<Longrightarrow> pair_step present spent other key s t"
  by (erule pair_step.cases) (auto intro: pair_step.intros)


text \<open>What redeeming, and thus a step of the relay, takes out of the ticket table.\<close>

definition takes :: "'w host_scheme \<Rightarrow> 'w host_scheme \<Rightarrow> bool" where
  "takes d d' \<longleftrightarrow> set (tickets d') \<subseteq> set (tickets d) \<and>
     (\<forall>r \<in> set (tickets d) - set (tickets d'). \<exists>t. session_live t d (tic_session r))"

lemma takes_refl [simp]: "takes d d"
  by (simp add: takes_def)

lemma redeem_takes:
  assumes "db_ok d \<and> shared_open d" and "run_state (redeem_ticket z tk u) d = (b, d')"
  shows "takes d d'" and "b \<Longrightarrow> \<exists>r \<in> set (tickets d) - set (tickets d'). tic_hash r = sha256 z tk \<and> tic_relay r = u"
proof -
  obtain res where red: "run_state (redeem z tk u) d = (res, d')" and b: "b = (res = Inr True)"
    using assms by (auto simp: run_redeem_ticket split: prod.splits)
  show "takes d d'"
    using red by (auto simp: takes_def redeem_run redeemable_def Let_def split: if_splits)
  show "\<exists>r \<in> set (tickets d) - set (tickets d'). tic_hash r = sha256 z tk \<and> tic_relay r = u" if b
  proof -
    have true: "run_state (redeem z tk u) d = (Inr True, d')" using red b that by simp
    obtain r where r: "r \<in> set (tickets d)" "tic_hash r = sha256 z tk" "tic_relay r = u"
      using redeem_true_effect [OF _ true] assms(1) by blast
    moreover have "r \<notin> set (tickets d')"
      using redeem_true_removes [OF _ true] assms(1) r(2) by (auto simp: image_iff)
    ultimately show ?thesis by blast
  qed
qed

lemma relay_takes:
  assumes step: "pair_step (redeem_ticket z) (spent_ticket z) (\<lambda>_ _. False) key s t"
    and ok: "db_ok (desk s) \<and> shared_open (desk s)"
  shows "takes (desk s) (desk t)"
    and "admitted_log t = admitted_log s \<or> (\<exists>c tk u. admitted_log t = (c, tk, u) # admitted_log s \<and>
      (\<exists>r \<in> set (tickets (desk s)) - set (tickets (desk t)). tic_hash r = sha256 z tk \<and> tic_relay r = u))"
proof -
  have adm: "takes (desk s) d' \<and> (\<forall>u rf. msg = Some (RequestRelay rf) \<and> res = Some u \<longrightarrow>
      (\<exists>r \<in> set (tickets (desk s)) - set (tickets d'). tic_hash r = sha256 z (rf_token rf) \<and> tic_relay r = u))"
    if "run_state (admission (redeem_ticket z) key msg) (desk s) = (res, d')" for msg res d'
    using admission_cases [OF that] redeem_takes [OF ok] by (auto split: if_splits)
  show "takes (desk s) (desk t)" using step adm by cases auto
  show "admitted_log t = admitted_log s \<or> (\<exists>c tk u. admitted_log t = (c, tk, u) # admitted_log s \<and>
      (\<exists>r \<in> set (tickets (desk s)) - set (tickets (desk t)). tic_hash r = sha256 z tk \<and> tic_relay r = u))"
    using step by cases (auto dest!: adm)
qed

section \<open>The invariant\<close>

lemma deploy_okD:
  assumes "deploy_ok z s"
  shows "system_ok (\<lambda>d. db_ok d \<and> shared_open d) (spent_ticket z) (site s)"
    and "fst ` set (used s) \<subseteq> fst ` set (issued s)" and "set (tickets (desk (site s))) \<subseteq> fst ` set (issued s)"
    and "distinct (map (tic_hash \<circ> fst) (issued s))" and "distinct (map (tic_hash \<circ> fst) (used s))"
    and "r \<in> set (tickets (desk (site s))) \<Longrightarrow> tic_hash r \<notin> hashes (used s)"
    and "all_held (issued s)" and "all_held (used s)"
    and "(c, tk, u) \<in> set (admitted_log (site s)) \<Longrightarrow> \<exists>r \<in> fst ` set (used s). tic_hash r = sha256 z tk \<and> tic_relay r = u"
    and "distinct (map (\<lambda>(c, tk, u). sha256 z tk) (admitted_log (site s)))"
  using assms unfolding deploy_ok_def by - (elim conjE, (assumption | (drule (1) bspec, simp)))+

lemma deploy_ok_known:
  assumes "deploy_ok z s"
  shows "db_ok (desk (site s)) \<and> shared_open (desk (site s))"
    and "(c, tk, u) \<in> set (admitted_log (site s)) \<Longrightarrow> sha256 z tk \<in> hashes (used s)"
    and "hashes (used s) \<subseteq> hashes (issued s)"
    and "r \<in> set (tickets (desk (site s))) \<Longrightarrow> tic_hash r \<in> hashes (issued s)"
proof -
  note D = deploy_okD [OF assms]
  show "db_ok (desk (site s)) \<and> shared_open (desk (site s))" by (rule system_okD(1) [OF D(1)])
  show "hashes (used s) \<subseteq> hashes (issued s)" unfolding hashes_rows by (rule image_mono [OF D(2)])
  show "sha256 z tk \<in> hashes (used s)" if "(c, tk, u) \<in> set (admitted_log (site s))"
    using D(9) [OF that] unfolding hashes_rows by (metis imageI)
  show "tic_hash r \<in> hashes (issued s)" if "r \<in> set (tickets (desk (site s)))"
    using D(3) that unfolding hashes_rows by blast
qed

lemma distinct_log_append:
  "distinct (map (tic_hash \<circ> fst) (l @ l')) \<longleftrightarrow> distinct (map (tic_hash \<circ> fst) l) \<and>
     distinct (map (tic_hash \<circ> fst) l') \<and> hashes l \<inter> hashes l' = {}"
  by (simp add: hashes_def)

lemma deploy_ok_office:
  assumes ok: "deploy_ok z s" and step: "office_step e x y (desk (site s)) d'"
    and fresh: "fresh_hashes (issued s) (desk (site s)) d'"
  shows "deploy_ok z (s\<lparr>site := (site s)\<lparr>desk := d'\<rparr>, issued := issued s @ rows_beyond (desk (site s)) d' (desk (site s))\<rparr>)"
proof -
  let ?d = "desk (site s)" and ?new = "rows_beyond (desk (site s)) d' (desk (site s))"
  note D = deploy_okD [OF ok] and K = deploy_ok_known [OF ok]
  have d': "db_ok d' \<and> shared_open d'" using office_good [OF step K(1)] .
  have new: "fst ` set ?new = set (tickets d') - set (tickets ?d)" by (rule rows_beyond_log)
  have unseen: "hashes (issued s) \<inter> hashes ?new = {}"
    using fresh by (auto simp: fresh_hashes_def hashes_rows [of ?new] new)
  have unused: "tic_hash r \<notin> hashes (used s)" if "r \<in> set (tickets d')" for r
    using that D(6) K(3) fresh unfolding fresh_hashes_def by blast
  have "pair_step (redeem_ticket z) (spent_ticket z) (office_step e x y) '''' (site s) ((site s)\<lparr>desk := d'\<rparr>)"
    using unused K(2) by (intro pair_other step) (force simp: spent_ticket_def)
  from deployed_relay.system_ok_step [OF this D(1)]
  have sys: "system_ok (\<lambda>d. db_ok d \<and> shared_open d) (spent_ticket z) ((site s)\<lparr>desk := d'\<rparr>)" .
  have h: "all_held ?new"
    using office_issues [OF step] K(1) by (intro held_rows) (auto simp: issued_by_def licensed_def)
  have "distinct (map (tic_hash \<circ> fst) (issued s @ ?new))"
    using D(4) unseen rows_beyond_log(2) d' unfolding distinct_log_append by blast
  moreover have "set (tickets d') \<subseteq> fst ` set (issued s) \<union> fst ` set ?new" using D(3) new by blast
  moreover have "fst ` set (used s) \<subseteq> fst ` set (issued s) \<union> fst ` set ?new" using D(2) by blast
  ultimately show ?thesis
    unfolding deploy_ok_def using sys h unused D(5,7,8,10) D(9) by (auto simp: image_Un)
qed


lemma deploy_ok_relay:
  assumes ok: "deploy_ok z s" and step: "pair_step (redeem_ticket z) (spent_ticket z) (\<lambda>_ _. False) key (site s) n"
  shows "deploy_ok z (s\<lparr>site := n, used := used s @ rows_beyond (desk (site s)) (desk (site s)) (desk n)\<rparr>)"
proof -
  let ?d = "desk (site s)" and ?gone = "rows_beyond (desk (site s)) (desk (site s)) (desk n)"
  note D = deploy_okD [OF ok] and K = deploy_ok_known [OF ok]
  have T: "takes ?d (desk n)" by (rule relay_takes(1) [OF step K(1)])
  have gone: "fst ` set ?gone = set (tickets ?d) - set (tickets (desk n))" by (rule rows_beyond_log)
  have sys: "system_ok (\<lambda>d. db_ok d \<and> shared_open d) (spent_ticket z) n"
    by (rule deployed_relay.system_ok_step [OF pair_step_other [OF step] D(1)])
  have apart: "tic_hash r \<notin> hashes ?gone" if "r \<in> set (tickets (desk n))" for r
  proof
    assume "tic_hash r \<in> hashes ?gone"
    then obtain q where "q \<in> set (tickets ?d)" "q \<notin> set (tickets (desk n))" "tic_hash q = tic_hash r"
      by (auto simp: hashes_rows gone)
    moreover have "r \<in> set (tickets ?d)" using T that by (auto simp: takes_def)
    ultimately show False using K(1) that by (auto simp: db_ok_def dest: unique_onD)
  qed
  have new: "hashes (used s) \<inter> hashes ?gone = {}"
    using D(6) by (auto simp: hashes_rows [of ?gone] gone)
  have h: "all_held ?gone" using T K(1) by (intro held_rows) (auto simp: takes_def)
  have dist: "distinct (map (tic_hash \<circ> fst) (used s @ ?gone))"
    using D(5) new rows_beyond_log(2) K(1) unfolding distinct_log_append by blast
  have unused: "tic_hash r \<notin> hashes (used s @ ?gone)" if "r \<in> set (tickets (desk n))" for r
    using that apart [OF that] D(6) [of r] T by (auto simp: takes_def)
  have log: "(\<forall>(c, tk, u) \<in> set (admitted_log n). \<exists>r \<in> fst ` set (used s @ ?gone). tic_hash r = sha256 z tk \<and> tic_relay r = u) \<and>
      distinct (map (\<lambda>(c, tk, u). sha256 z tk) (admitted_log n))"
    using relay_takes(2) [OF step K(1)]
  proof (elim disjE exE conjE bexE)
    assume "admitted_log n = admitted_log (site s)"
    note same = this
    have "\<exists>r \<in> fst ` set (used s @ ?gone). tic_hash r = sha256 z tk \<and> tic_relay r = u"
      if "(c, tk, u) \<in> set (admitted_log (site s))" for c tk u
      using D(9) [OF that] unfolding set_append image_Un by blast
    with D(10) show ?thesis unfolding same by blast
  next
    fix c tk u r
    assume n: "admitted_log n = (c, tk, u) # admitted_log (site s)"
      and r: "r \<in> set (tickets ?d) - set (tickets (desk n))" "tic_hash r = sha256 z tk" "tic_relay r = u"
    have "sha256 z tk' \<noteq> sha256 z tk" if "(c', tk', u') \<in> set (admitted_log (site s))" for c' tk' u'
      using K(2) [OF that] D(6) [of r] r by auto
    then have "sha256 z tk \<notin> set (map (\<lambda>(c, tk, u). sha256 z tk) (admitted_log (site s)))" by force
    then have "distinct (map (\<lambda>(c, tk, u). sha256 z tk) (admitted_log n))" using D(10) by (simp add: n)
    moreover have "\<exists>r \<in> fst ` set (used s @ ?gone). tic_hash r = sha256 z tk' \<and> tic_relay r = u'"
      if "(c', tk', u') \<in> set (admitted_log n)" for c' tk' u'
    proof (cases "(c', tk', u') = (c, tk, u)")
      case True
      have "r \<in> fst ` set (used s @ ?gone)" unfolding set_append image_Un gone using r(1) by (rule UnI2)
      with r(2,3) True show ?thesis by blast
    next
      case False
      then have "(c', tk', u') \<in> set (admitted_log (site s))" using that n by auto
      from D(9) [OF this] show ?thesis unfolding set_append image_Un by blast
    qed
    ultimately show ?thesis by blast
  qed
  have "set (tickets ?d) - set (tickets (desk n)) \<subseteq> fst ` set (issued s)" using D(3) by blast
  then have sub: "fst ` set (used s @ ?gone) \<subseteq> fst ` set (issued s)"
    unfolding set_append image_Un gone using D(2) by (rule Un_least [rotated])
  have table: "set (tickets (desk n)) \<subseteq> fst ` set (issued s)" using D(3) T unfolding takes_def by blast
  let ?t = "s\<lparr>site := n, used := used s @ ?gone\<rparr>"
  have t: "site ?t = n" "issued ?t = issued s" "used ?t = used s @ ?gone" by simp_all
  show ?thesis
    unfolding deploy_ok_def t
    by (intro conjI sys sub table D(4,7) dist log [THEN conjunct1] log [THEN conjunct2] ballI unused) (use h D(8) in simp_all)
qed

interpretation installation: machine deploy_start "deploy_step e x y z key" "deploy_ok z"
  for e :: "'e console_env_scheme" and x :: "'x secure_env_scheme" and y :: "'y service_env_scheme"
    and z :: "'z env_scheme" and key
proof unfold_locales
  show "deploy_ok z s" if "deploy_start s" for s
    using that by (auto simp: deploy_start_def deploy_ok_def no_connections_def system_ok_def)
  show "deploy_ok z t" if "deploy_ok z s" and "deploy_step e x y z key s t" for s t
    using that(2,1) by cases (simp_all add: deploy_ok_office deploy_ok_relay)
qed

section \<open>The refinement\<close>

definition claim_of :: "ticket_row \<Rightarrow> claim" where
  "claim_of r = (tic_hash r, tic_relay r, tic_session r)"

definition agreement_of :: "deployment \<Rightarrow> agreement" where
  "agreement_of s = \<lparr>promised = claim_of ` fst ` set (issued s), committed = claim_of ` fst ` set (used s)\<rparr>"

lemma promises:
  "distinct (map (tic_hash \<circ> fst) l) \<Longrightarrow> hashes l \<inter> fst ` promised a = {} \<Longrightarrow>
     agree_step\<^sup>*\<^sup>* a (a\<lparr>promised := promised a \<union> claim_of ` fst ` set l\<rparr>)"
proof (induction l arbitrary: a)
  case (Cons q l)
  let ?b = "a\<lparr>promised := insert (claim_of (fst q)) (promised a)\<rparr>"
  have "agree_step a ?b"
    using Cons.prems(2) by (intro agree_promise) (auto simp: claim_of_def hashes_def)
  moreover have "agree_step\<^sup>*\<^sup>* ?b (?b\<lparr>promised := promised ?b \<union> claim_of ` fst ` set l\<rparr>)"
    using Cons.prems by (intro Cons.IH) (auto simp: claim_of_def hashes_def)
  ultimately have "agree_step\<^sup>*\<^sup>* a (?b\<lparr>promised := promised ?b \<union> claim_of ` fst ` set l\<rparr>)"
    by (rule converse_rtranclp_into_rtranclp)
  then show ?case by simp
qed simp

lemma commits:
  "distinct (map (tic_hash \<circ> fst) l) \<Longrightarrow> claim_of ` fst ` set l \<subseteq> promised a \<Longrightarrow> hashes l \<inter> fst ` committed a = {} \<Longrightarrow>
     agree_step\<^sup>*\<^sup>* a (a\<lparr>committed := committed a \<union> claim_of ` fst ` set l\<rparr>)"
proof (induction l arbitrary: a)
  case (Cons q l)
  let ?b = "a\<lparr>committed := insert (claim_of (fst q)) (committed a)\<rparr>"
  have "agree_step a ?b"
    using Cons.prems(2,3) by (intro agree_commit) (auto simp: claim_of_def hashes_def image_iff)
  moreover have "agree_step\<^sup>*\<^sup>* ?b (?b\<lparr>committed := committed ?b \<union> claim_of ` fst ` set l\<rparr>)"
    using Cons.prems by (intro Cons.IH) (auto simp: claim_of_def hashes_def)
  ultimately have "agree_step\<^sup>*\<^sup>* a (?b\<lparr>committed := committed ?b \<union> claim_of ` fst ` set l\<rparr>)"
    by (rule converse_rtranclp_into_rtranclp)
  then show ?case by simp
qed simp

lemma hashes_claims: "fst ` claim_of ` fst ` set l = hashes l"
  by (force simp: claim_of_def hashes_def image_iff)

lemma deploy_step_agrees:
  assumes ok: "deploy_ok z s" and ok': "deploy_ok z t" and "deploy_step e x y z key s t"
  shows "agree_step\<^sup>*\<^sup>* (agreement_of s) (agreement_of t)"
  using assms(3)
proof cases
  case (deploy_office d')
  let ?new = "rows_beyond (desk (site s)) d' (desk (site s))"
  have "distinct (map (tic_hash \<circ> fst) (issued s @ ?new))" using deploy_okD(4) [OF ok'] deploy_office(1) by simp
  then have "agree_step\<^sup>*\<^sup>* (agreement_of s)
      ((agreement_of s)\<lparr>promised := promised (agreement_of s) \<union> claim_of ` fst ` set ?new\<rparr>)"
    unfolding distinct_log_append by (intro promises) (auto simp: agreement_of_def hashes_claims)
  then show ?thesis by (simp add: deploy_office(1) agreement_of_def image_Un)
next
  case (deploy_relay n)
  let ?gone = "rows_beyond (desk (site s)) (desk (site s)) (desk n)"
  have "distinct (map (tic_hash \<circ> fst) (used s @ ?gone))" using deploy_okD(5) [OF ok'] deploy_relay(1) by simp
  moreover have "claim_of ` fst ` set ?gone \<subseteq> promised (agreement_of s)"
    using deploy_okD(3) [OF ok] by (auto simp: agreement_of_def rows_beyond_def)
  ultimately have "agree_step\<^sup>*\<^sup>* (agreement_of s)
      ((agreement_of s)\<lparr>committed := committed (agreement_of s) \<union> claim_of ` fst ` set ?gone\<rparr>)"
    unfolding distinct_log_append by (intro commits) (auto simp: agreement_of_def hashes_claims)
  then show ?thesis by (simp add: deploy_relay(1) agreement_of_def image_Un)
qed

interpretation agreed: simulation deploy_start "deploy_step e x y z key" agree_start agree_step agreement_of
  for e :: "'e console_env_scheme" and x :: "'x secure_env_scheme" and y :: "'y service_env_scheme"
    and z :: "'z env_scheme" and key
proof unfold_locales
  show "agree_step\<^sup>*\<^sup>* (agreement_of s) (agreement_of t)"
    if "reach deploy_start (deploy_step e x y z key) s" and "deploy_step e x y z key s t" for s t
    by (rule deploy_step_agrees [OF _ _ that(2)]) (use that in \<open>auto intro: installation.reach_inv reach_step\<close>)
qed (simp add: deploy_start_def agree_start_def agreement_of_def)


section \<open>Properties\<close>

lemma agreement_simps: "promised (agreement_of s) = claim_of ` fst ` set (issued s)"
  "committed (agreement_of s) = claim_of ` fst ` set (used s)"
  by (simp_all add: agreement_of_def)

text \<open>
  C5: The installation refines injective agreement. Each of its steps is a sequence of promises or of
  commitments, so what it does with tickets is a run of the specification; and each connection that hbbr
  admits commits a claim, to the uuid it is admitted for, which had been promised and not been committed.
\<close>

theorem deployment_refines_agreement:
  assumes "reach deploy_start (deploy_step e x y z key) s" and "deploy_step e x y z key s t"
  shows "agree_step\<^sup>*\<^sup>* (agreement_of s) (agreement_of t) \<and> reach agree_start agree_step (agreement_of t) \<and>
    (\<forall>c tk u. admitted_log (site t) = (c, tk, u) # admitted_log (site s) \<longrightarrow>
      (\<exists>h. (sha256 z tk, u, h) \<in> promised (agreement_of s) - committed (agreement_of s) \<and>
        (sha256 z tk, u, h) \<in> committed (agreement_of t)))"
proof (intro conjI allI impI)
  show "agree_step\<^sup>*\<^sup>* (agreement_of s) (agreement_of t)" by (rule agreed.sim_step [OF assms])
  show "reach agree_start agree_step (agreement_of t)" by (rule agreed.sim_reach [OF reach_step [OF assms]])
  show "\<exists>h. (sha256 z tk, u, h) \<in> promised (agreement_of s) - committed (agreement_of s) \<and>
        (sha256 z tk, u, h) \<in> committed (agreement_of t)"
    if adm: "admitted_log (site t) = (c, tk, u) # admitted_log (site s)" for c tk u
    using assms(2)
  proof cases
    case (deploy_relay n)
    note ok = installation.reach_inv [OF assms(1)]
    obtain r where r: "r \<in> set (tickets (desk (site s))) - set (tickets (desk n))" "tic_hash r = sha256 z tk" "tic_relay r = u"
      using relay_takes(2) [OF deploy_relay(2) deploy_ok_known(1) [OF ok]] adm by (auto simp: deploy_relay(1))
    have "claim_of r \<in> promised (agreement_of s)" "claim_of r \<notin> committed (agreement_of s)"
      using deploy_okD(3) [OF ok] deploy_okD(6) [OF ok, of r] r(1)
      by (auto simp: agreement_simps claim_of_def hashes_rows image_iff)
    moreover have "claim_of r \<in> committed (agreement_of t)"
      using r(1) unfolding agreement_simps deploy_relay(1) by (simp add: image_Un rows_beyond_log(1))
    ultimately show ?thesis using r(2,3) unfolding claim_of_def by (intro exI [of _ "tic_session r"]) simp
  qed (use adm in simp)
qed


text \<open>
  The connection \<open>c\<close> has presented the ticket \<open>r\<close>, for \<open>u\<close>, and the account of its session was enabled
  when the ticket was issued and when it was taken.
\<close>

definition entitled :: "'z env_scheme \<Rightarrow> deployment \<Rightarrow> nat \<Rightarrow> string \<Rightarrow> ticket_row \<Rightarrow> bool" where
  "entitled z s c u r \<longleftrightarrow> tic_relay r = u \<and> (\<exists>tk. (c, tk, u) \<in> set (admitted_log (site s)) \<and> tic_hash r = sha256 z tk) \<and>
     (\<exists>a. (r, Some a) \<in> set (issued s) \<and> acc_enabled a = 1) \<and> (\<exists>a. (r, Some a) \<in> set (used s) \<and> acc_enabled a = 1)"

lemma admitted_entitled:
  assumes ok: "deploy_ok z s" and "(c, tk, u) \<in> set (admitted_log (site s))"
  shows "\<exists>r. entitled z s c u r \<and> tic_hash r = sha256 z tk"
proof -
  note D = deploy_okD [OF ok]
  obtain r a where r: "(r, a) \<in> set (used s)" "tic_hash r = sha256 z tk" "tic_relay r = u" using D(9) [OF assms(2)] by force
  moreover obtain b where "(r, b) \<in> set (issued s)" using D(2) r(1) by force
  ultimately show ?thesis using D(7,8) assms(2) by (fastforce simp: all_held_def entitled_def)
qed

text \<open>
  C4: Both ends of a relay are entitled to it: whoever has issued tickets, at hbbs or at the account
  service, whatever else happened to the database and however the connections interleave, the two
  connections hbbr copies between presented two different tickets, each issued for that relay to a
  session of an account that was enabled then, and still was when the ticket was taken.
\<close>

theorem relay_ends_entitled:
  assumes "reach deploy_start (deploy_step e x y z key) s" and "(c, p, u) \<in> set (pairs (site s))"
  shows "c \<noteq> p \<and> (\<exists>r r'. tic_hash r \<noteq> tic_hash r' \<and> entitled z s c u r \<and> entitled z s p u r')"
proof -
  note ok = installation.reach_inv [OF assms(1)]
  note S = system_okD [OF deploy_okD(1) [OF ok]]
  have ne: "c \<noteq> p" using in_pairs_distinct S(8) assms(2) by blast
  obtain tk tk' where t: "(c, tk, u) \<in> set (admitted_log (site s))" "(p, tk', u) \<in> set (admitted_log (site s))"
    using S(9) [OF assms(2)] by (auto simp: admitted_for_def)
  have "sha256 z tk \<noteq> sha256 z tk'"
  proof
    assume "sha256 z tk = sha256 z tk'"
    then have "(c, tk, u) = (p, tk', u)"
      using deploy_okD(10) [OF ok] t
      by (intro inj_onD [of "\<lambda>(c, tk, u). sha256 z tk" "set (admitted_log (site s))"]) (auto simp: distinct_map)
    with ne show False by simp
  qed
  with ne admitted_entitled [OF ok t(1)] admitted_entitled [OF ok t(2)] show ?thesis by metis
qed


section \<open>A run of an installation\<close>

text \<open>Two controllers ask hbbs for the same relay, and hbbr joins the two tickets.\<close>

definition sample_request :: request_relay where
  "sample_request = request_relay0\<lparr>rf_id := ''desk01'', rf_uuid := ''u'', rf_token := sample_token\<rparr>"

definition sample_ask :: "(hub, bool \<times> sink option) state" where
  "sample_ask = handle_tcp sample_console_env sample_server (Some (RequestRelay sample_request)) (Some (Ws 1))
     (SockV4 1 2) '''' False"

definition sample_asked1 :: hub where
  "sample_asked1 = snd (run_state sample_ask sample_hub)"

definition sample_asked2 :: hub where
  "sample_asked2 = snd (run_state sample_ask sample_asked1)"

lemma sample_console_clock [simp]: "clock_at sample_console_env k = 1000"
  by (simp add: clock_at_def sample_console as_i64_def signed_take_bit_int_eq_self)

lemma sample_console_simps [simp]:
  "sql_ok sample_console_env k" "uuid_v4 sample_console_env = uuid_v4 sample_env"
  "uuid_simple sample_console_env = uuid_simple sample_env" "sha256 sample_console_env = sha256 sample_env"
  "try_into_v4 sample_console_env a = a" "encodable sample_console_env msg"
  by (simp_all add: sample_console)

lemma sample_asked_tables:
  "tickets sample_asked1 = [\<lparr>tic_hash = [102], tic_session = [84], tic_relay = ''u'', tic_expires = 1060\<rparr>]"
  "accounts sample_asked1 = accounts sample_hub" "sessions sample_asked1 = sessions sample_hub" "shared_open sample_asked1"
  by (simp_all add: sample_asked1_def sample_ask_def handle_tcp_def tcp_request_relay_def authorized_def peer_ticket_def exec_simps user_run
      session_user_def ticket_def exec_stmt.simps delete_where_def insert_unique_def digest_def
      sample_hub_def sample_token_def request_relay0_def sample_request_def get_in_memory_def)


lemma sample_asked2_tables:
  "tickets sample_asked2 = tickets sample_asked1 @ [\<lparr>tic_hash = [112], tic_session = [84], tic_relay = ''u'', tic_expires = 1060\<rparr>]"
  "accounts sample_asked2 = accounts sample_hub" "sessions sample_asked2 = sessions sample_hub" "shared_open sample_asked2"
  by (simp_all add: sample_asked2_def sample_asked1_def sample_ask_def handle_tcp_def tcp_request_relay_def authorized_def peer_ticket_def exec_simps user_run
      session_user_def ticket_def exec_stmt.simps delete_where_def insert_unique_def digest_def image_iff
      sample_hub_def sample_token_def request_relay0_def sample_request_def get_in_memory_def)

definition sample_ticket1 :: string where
  "sample_ticket1 = replicate 63 (CHR ''0'') @ ''f''"

definition sample_ticket2 :: string where
  "sample_ticket2 = replicate 63 (CHR ''0'') @ ''p''"

lemma sample_ticket_hashes: "sha256 sample_env sample_ticket1 = [102]" "sha256 sample_env sample_ticket2 = [112]"
  "length sample_ticket1 = 64" "length sample_ticket2 = 64"
  by (simp_all add: sample_ticket1_def sample_ticket2_def)

lemma sample_redeemed:
  "\<exists>d1 d2. run_state (redeem_ticket sample_env sample_ticket1 ''u'') sample_asked2 = (True, d1) \<and>
     run_state (redeem_ticket sample_env sample_ticket2 ''u'') d1 = (True, d2)"
proof -
  let ?d1 = "sample_asked2\<lparr>ticks := ticks sample_asked2 + 3,
    tickets := [\<lparr>tic_hash = [112], tic_session = [84], tic_relay = ''u'', tic_expires = 1060\<rparr>]\<rparr>"
  note tables = sample_asked2_tables sample_asked_tables(1) sample_ticket_hashes
  have live: "session_live 1000 sample_asked2 [84]" "session_live 1000 ?d1 [84]"
    by (simp_all add: session_live_def tables sample_hub_def)
  have "run_state (redeem_ticket sample_env sample_ticket1 ''u'') sample_asked2 = (True, ?d1)"
    by (simp add: run_redeem_ticket redeem_run Let_def redeemable_def tables live del: sample_env_simps(6))
  moreover obtain b d2 where r2: "run_state (redeem_ticket sample_env sample_ticket2 ''u'') ?d1 = (b, d2)"
    by (rule prod.exhaust)
  moreover have b
    using live(2) arg_cong [OF r2, of fst]
    by (simp add: run_redeem_ticket redeem_run Let_def redeemable_def tables del: sample_env_simps(6))
  ultimately show ?thesis by (intro exI conjI) simp_all
qed

lemma deploy_relay_steps:
  assumes "(pair_step (redeem_ticket z) (spent_ticket z) (\<lambda>_ _. False) key)\<^sup>*\<^sup>* n n'"
    and "reach deploy_start (deploy_step e x y z key) s" and "site s = n"
  shows "\<exists>t. reach deploy_start (deploy_step e x y z key) t \<and> site t = n'"
  using assms
proof (induction rule: rtranclp_induct)
  case (step n1 n2)
  then obtain t where t: "reach deploy_start (deploy_step e x y z key) t" "site t = n1" by blast
  have "pair_step (redeem_ticket z) (spent_ticket z) (\<lambda>_ _. False) key (site t) n2" using step.hyps(2) t(2) by simp
  let ?t = "t\<lparr>site := n2, used := used t @ rows_beyond (desk (site t)) (desk (site t)) (desk n2)\<rparr>"
  have "reach deploy_start (deploy_step e x y z key) ?t" by (rule reach_step [OF t(1) deploy_relay]) fact
  moreover have "site ?t = n2" by simp
  ultimately show ?case by blast
qed blast

lemma sample_deployment:
  "\<exists>s. reach deploy_start (deploy_step sample_console_env sample_secure_env sample_service_env sample_env '''') s \<and>
     site s = \<lparr>desk = sample_asked2, hbbr = sample_relay, tasks = (\<lambda>_. Fresh), admitted_log = [], pairs = []\<rparr>"
proof -
  let ?step = "deploy_step sample_console_env sample_secure_env sample_service_env sample_env ''''"
  let ?s = "\<lambda>d l. \<lparr>site = \<lparr>desk = d, hbbr = sample_relay, tasks = (\<lambda>_. Fresh), admitted_log = [], pairs = []\<rparr>, issued = l, used = []\<rparr>"
  have asks: "office_step sample_console_env sample_secure_env sample_service_env d (snd (run_state sample_ask d))" for d
    unfolding sample_ask_def by (rule office_hbbs, rule hub_tcp) (rule prod.collapse [symmetric])
  have "deploy_start (?s sample_hub [])"
    by (simp add: deploy_start_def no_connections_def sample_relay_def) (simp add: sample_hub_def db_ok_def unique_on_def)
  then have start: "reach deploy_start ?step (?s sample_hub [])" by (rule reach_start)
  have one: "reach deploy_start ?step (?s sample_asked1 (rows_beyond sample_hub sample_asked1 sample_hub))"
    by (rule reach_step [OF start])
      (use deploy_office [of sample_console_env sample_secure_env sample_service_env "?s sample_hub []" sample_asked1] asks [of sample_hub]
        in \<open>simp add: fresh_hashes_def flip: sample_asked1_def\<close>)
  have "hashes (rows_beyond sample_hub sample_asked1 sample_hub) = {[102]}"
    by (auto simp: hashes_def rows_beyond_def sample_asked_tables) (simp_all add: sample_hub_def)
  then have "fresh_hashes (rows_beyond sample_hub sample_asked1 sample_hub) sample_asked1 sample_asked2"
    by (simp add: fresh_hashes_def sample_asked2_tables)
  with deploy_office [of sample_console_env sample_secure_env sample_service_env
      "?s sample_asked1 (rows_beyond sample_hub sample_asked1 sample_hub)" sample_asked2] asks [of sample_asked1]
  have "?step (?s sample_asked1 (rows_beyond sample_hub sample_asked1 sample_hub))
      (?s sample_asked2 (rows_beyond sample_hub sample_asked1 sample_hub @ rows_beyond sample_asked1 sample_asked2 sample_asked1))"
    by (simp flip: sample_asked2_def)
  from reach_step [OF one this] show ?thesis by (metis deployment.select_convs(1))
qed


lemma sample_paired:
  "\<exists>s. reach deploy_start (deploy_step sample_console_env sample_secure_env sample_service_env sample_env '''') s \<and>
     pairs (site s) = [(2, 1, ''u'')]"
proof -
  obtain s where s: "reach deploy_start (deploy_step sample_console_env sample_secure_env sample_service_env sample_env '''') s"
    "site s = \<lparr>desk = sample_asked2, hbbr = sample_relay, tasks = (\<lambda>_. Fresh), admitted_log = [], pairs = []\<rparr>"
    using sample_deployment by blast
  obtain d1 d2 where d: "run_state (redeem_ticket sample_env sample_ticket1 ''u'') sample_asked2 = (True, d1)"
    "run_state (redeem_ticket sample_env sample_ticket2 ''u'') d1 = (True, d2)"
    using sample_redeemed by blast
  obtain n where run: "(pair_step (redeem_ticket sample_env) (spent_ticket sample_env) (\<lambda>_ _. False) '''')\<^sup>*\<^sup>* (site s) n"
    and n: "pairs n = [(2, 1, ''u'')]"
    unfolding s(2) using two_admissions_run [of "redeem_ticket sample_env", OF d, of "spent_ticket sample_env" "\<lambda>_ _. False"]
    by force
  from deploy_relay_steps [OF run s(1) refl] n show ?thesis by metis
qed

lemma relay_ends_entitled_witness:
  "\<exists>s r r'. reach deploy_start (deploy_step sample_console_env sample_secure_env sample_service_env sample_env '''') s \<and>
     (2, 1, ''u'') \<in> set (pairs (site s)) \<and> tic_hash r \<noteq> tic_hash r' \<and>
     entitled sample_env s 2 ''u'' r \<and> entitled sample_env s 1 ''u'' r'"
proof -
  obtain s where s: "reach deploy_start (deploy_step sample_console_env sample_secure_env sample_service_env sample_env '''') s"
    "(2, 1, ''u'') \<in> set (pairs (site s))"
    using sample_paired by auto
  from relay_ends_entitled [OF s] s show ?thesis by blast
qed

lemma deployment_refines_agreement_witness:
  "\<exists>s t. admitted_log (site t) = (1, sample_ticket1, ''u'') # admitted_log (site s) \<and>
     agree_step\<^sup>*\<^sup>* (agreement_of s) (agreement_of t) \<and>
     (\<exists>h. (sha256 sample_env sample_ticket1, ''u'', h) \<in> committed (agreement_of t) - committed (agreement_of s))"
proof -
  obtain s where s: "reach deploy_start (deploy_step sample_console_env sample_secure_env sample_service_env sample_env '''') s"
    "site s = \<lparr>desk = sample_asked2, hbbr = sample_relay, tasks = (\<lambda>_. Fresh), admitted_log = [], pairs = []\<rparr>"
    using sample_deployment by blast
  obtain d1 where d: "run_state (redeem_ticket sample_env sample_ticket1 ''u'') sample_asked2 = (True, d1)"
    using sample_redeemed by blast
  let ?n = "(site s)\<lparr>desk := d1, tasks := (tasks (site s))(1 := Ready ''u''),
    admitted_log := (1, rf_token (relay_request sample_ticket1), ''u'') # admitted_log (site s)\<rparr>"
  have "pair_step (redeem_ticket sample_env) (spent_ticket sample_env) (\<lambda>_ _. False) '''' (site s) ?n"
    by (rule pair_admit) (simp_all add: s(2) admission_def exec_simps d)
  from deploy_relay [OF this] obtain t where step: "deploy_step sample_console_env sample_secure_env sample_service_env sample_env '''' s t"
    and log: "admitted_log (site t) = (1, sample_ticket1, ''u'') # admitted_log (site s)" by force
  show ?thesis using deployment_refines_agreement [OF s(1) step] log by blast
qed

end
