(* ===== verification/SelfTest.thy ===== *)
theory SelfTest
  imports Dispatch Args
begin

text \<open>
  The self test of hbbs: \<open>test_hbbs\<close> of src/rendezvous_server/relay.rs, and the task of
  \<open>start_with_bind\<close> (mod.rs) that ends the program when it fails.

  The test is a client of its own server: it registers the id \<open>(:test_hbbs:)\<close> every second and gives up
  when no message has come back for more than 12 seconds. What its \<open>select!\<close> sees is a list of events:
  a tick of the timer, or a datagram with what the protobuf parser made of it. \<open>probed\<close> records what
  was sent. \<open>probe_socket k\<close> tells whether the socket opened as the \<open>k\<close>-th request is obtained,
  \<open>probe_sent k\<close> whether a send succeeds.
\<close>

record probe_env = env +
  probe_socket :: "nat \<Rightarrow> bool"
  probe_sent :: "nat \<Rightarrow> bool"
  parse_probe_addr :: "string \<Rightarrow> socket_addr option"

record probe_world = world +
  probed :: "(socket_addr \<times> message) list"

datatype probe_event = Probe_Tick | Probe_Datagram "message option"

section \<open>The client\<close>

definition probe_message :: message where
  "probe_message = RegisterPeer ''(:test_hbbs:)'' 0"

fun set_ip :: "ip_addr \<Rightarrow> socket_addr \<Rightarrow> socket_addr" where
  "set_ip (V4 a) (SockV6 b p f s) = SockV4 a p"
| "set_ip (V6 a) (SockV6 b p f s) = SockV6 a p f s"
| "set_ip ip (SockV4 b p) = socket_addr_new ip p"

fun is_ipv6 :: "ip_addr \<Rightarrow> bool" where
  "is_ipv6 (V6 a) = True"
| "is_ipv6 (V4 a) = False"

definition test_target :: "socket_addr \<Rightarrow> socket_addr" where
  "test_target addr =
     (if is_unspecified (sock_ip addr)
      then set_ip (if is_ipv6 (sock_ip addr) then V6 1 else localhost_v4) addr else addr)"

text \<open>\<open>None\<close>: the events are used up and the test goes on; otherwise the error it ended with.\<close>

fun probe_loop ::
  "'e probe_env_scheme \<Rightarrow> socket_addr \<Rightarrow> probe_event list \<Rightarrow> int \<Rightarrow> ('w probe_world_scheme, string option) state" where
  "probe_loop e addr [] seen = State_Monad.return None"
| "probe_loop e addr (Probe_Tick # evs) seen = do {
     el \<leftarrow> elapsed e seen;
     if as_secs el > 12 then State_Monad.return (Some ''Timeout of test_hbbs'')
     else do {
       k \<leftarrow> tick;
       if probe_sent e k then do {
         modify (\<lambda>s. s\<lparr>probed := probed s @ [(addr, probe_message)]\<rparr>);
         probe_loop e addr evs seen
       } else State_Monad.return (Some ''send failed'')
     }
   }"
| "probe_loop e addr (Probe_Datagram m # evs) seen =
     (if m = None then probe_loop e addr evs seen
      else do { now \<leftarrow> instant_now e; probe_loop e addr evs now })"

definition test_hbbs ::
  "'e probe_env_scheme \<Rightarrow> socket_addr \<Rightarrow> probe_event list \<Rightarrow> ('w probe_world_scheme, string option) state" where
  "test_hbbs e addr evs = do {
     k \<leftarrow> tick;
     if probe_socket e k then do {
       now \<leftarrow> instant_now e;
       probe_loop e (test_target addr) evs now
     } else State_Monad.return (Some ''no socket'')
   }"

section \<open>The task that watches it\<close>

text \<open>
  \<open>Bad_Test_Address\<close> is the error of \<open>start_with_bind\<close>, \<open>Exit_Program\<close> is \<open>process::exit(1)\<close>. A second
  attempt is made over IPv4 when the wildcard IPv6 address failed; its events are \<open>evs2\<close>.
\<close>

datatype self_test = Not_Tested | Bad_Test_Address | Testing | Exit_Program

definition test_address ::
  "'e probe_env_scheme \<Rightarrow> 'c case_env_scheme \<Rightarrow> environment \<Rightarrow> socket_addr \<Rightarrow> socket_addr option option" where
  "test_address e c en local =
     (let t = get_arg c ''TEST_HBBS'' en in
      if lowercase c t = ''no'' then None
      else Some (if t = [] then Some local else parse_probe_addr e t))"

definition watch_test ::
  "'e probe_env_scheme \<Rightarrow> socket_addr \<Rightarrow> probe_event list \<Rightarrow> probe_event list
     \<Rightarrow> ('w probe_world_scheme, self_test) state" where
  "watch_test e addr evs evs2 = do {
     r \<leftarrow> test_hbbs e addr evs;
     if r = None then State_Monad.return Testing
     else if is_ipv6 (sock_ip addr) \<and> is_unspecified (sock_ip addr) then do {
       r2 \<leftarrow> test_hbbs e (set_ip (V4 0) addr) evs2;
       State_Monad.return (if r2 = None then Testing else Exit_Program)
     } else State_Monad.return Exit_Program
   }"

definition start_test ::
  "'e probe_env_scheme \<Rightarrow> 'c case_env_scheme \<Rightarrow> environment \<Rightarrow> socket_addr \<Rightarrow> probe_event list \<Rightarrow> probe_event list
     \<Rightarrow> ('w probe_world_scheme, self_test) state" where
  "start_test e c en local evs evs2 = (case test_address e c en local of
       None \<Rightarrow> State_Monad.return Not_Tested
     | Some None \<Rightarrow> State_Monad.return Bad_Test_Address
     | Some (Some addr) \<Rightarrow> watch_test e addr evs evs2)"

section \<open>Lemmas\<close>

text \<open>Events that bring no message, and how many ticks of the timer they hold.\<close>

definition silent :: "probe_event list \<Rightarrow> bool" where
  "silent evs \<longleftrightarrow> set evs \<subseteq> {Probe_Tick, Probe_Datagram None}"

definition timer_ticks :: "probe_event list \<Rightarrow> nat" where
  "timer_ticks evs = count_list evs Probe_Tick"

text \<open>From the \<open>n\<close>-th request on, the clock is more than 12 seconds past \<open>seen\<close>.\<close>

definition overdue :: "'e env_scheme \<Rightarrow> nat \<Rightarrow> int \<Rightarrow> bool" where
  "overdue e n seen \<longleftrightarrow> (\<forall>k \<ge> n. instant e k \<ge> seen + 13000000000)"

lemma overdue_mono: "overdue e n seen \<Longrightarrow> n \<le> m \<Longrightarrow> overdue e m seen"
  by (simp add: overdue_def)

lemma overdue_late: "overdue e n seen \<Longrightarrow> n \<le> k \<Longrightarrow> as_secs (nat (instant e k - seen)) > 12"
  by (force simp: overdue_def as_secs_def intro: less_le_trans [OF _ div_le_mono])

lemma probe_loop_silent:
  assumes "silent evs" and "overdue e (ticks s + n) seen" and "timer_ticks evs > n"
  shows "fst (run_state (probe_loop e addr evs seen) s) \<noteq> None"
  using assms
proof (induction e addr evs seen arbitrary: s n rule: probe_loop.induct)
  case (2 e addr evs seen)
  show ?case
  proof (cases "as_secs (nat (instant e (ticks s) - seen)) > 12")
    case True
    then show ?thesis by (simp add: exec_simps)
  next
    case False
    then have "n \<noteq> 0" using overdue_late [OF 2(3), of "ticks s"] by auto
    then obtain m where n: "n = Suc m" by (cases n) auto
    have "overdue e (Suc (Suc (ticks s)) + m) seen" using 2(3) by (rule overdue_mono) (simp add: n)
    with 2 False n show ?thesis by (simp add: exec_simps silent_def timer_ticks_def)
  qed
next
  case (3 e addr m evs seen)
  then show ?case by (auto simp: silent_def timer_ticks_def)
qed (simp add: timer_ticks_def)

text \<open>
  The time of the last answer is a reading of the clock that the test has made, whatever came before.
\<close>

lemma probe_loop_falls_silent:
  assumes clock: "\<forall>k. overdue e (k + n) (instant e k)" and quiet: "silent quiet" "timer_ticks quiet > n"
    and "\<exists>j < ticks s. seen = instant e j"
  shows "fst (run_state (probe_loop e addr (evs @ quiet) seen) s) \<noteq> None"
  using assms(4)
proof (induction evs arbitrary: seen s)
  case Nil
  then obtain j where j: "j < ticks s" "seen = instant e j" by blast
  have "overdue e (ticks s + n) seen"
    using clock [rule_format, of j] j by (auto intro: overdue_mono)
  then show ?case using probe_loop_silent [OF quiet(1) _ quiet(2)] by simp
next
  case (Cons ev evs)
  obtain j where j: "j < ticks s" "seen = instant e j" using Cons.prems by blast
  show ?case
  proof (cases ev)
    case Probe_Tick
    have "fst (run_state (probe_loop e addr (evs @ quiet) seen)
        (s\<lparr>ticks := Suc (Suc (ticks s)), probed := probed s @ [(addr, probe_message)]\<rparr>)) \<noteq> None"
      using j by (intro Cons.IH exI [of _ j]) simp
    then show ?thesis using Probe_Tick by (simp add: exec_simps)
  next
    case (Probe_Datagram m)
    have "fst (run_state (probe_loop e addr (evs @ quiet) (instant e (ticks s))) (s\<lparr>ticks := Suc (ticks s)\<rparr>)) \<noteq> None"
      by (intro Cons.IH exI [of _ "ticks s"]) simp
    then show ?thesis using Probe_Datagram Cons by (simp add: exec_simps)
  qed
qed

lemma test_hbbs_falls_silent:
  assumes "\<forall>k. overdue e (k + n) (instant e k)" and "silent quiet" and "timer_ticks quiet > n"
  shows "fst (run_state (test_hbbs e addr (evs @ quiet)) s) \<noteq> None"
proof -
  let ?s = "s\<lparr>ticks := Suc (Suc (ticks s))\<rparr>"
  have "\<exists>j < ticks ?s. instant e (Suc (ticks s)) = instant e j" by (intro exI [of _ "Suc (ticks s)"]) simp
  from probe_loop_falls_silent [OF assms this] show ?thesis by (simp add: test_hbbs_def exec_simps)
qed

section \<open>Properties\<close>

definition sample_probe_env :: probe_env where
  "sample_probe_env = env.extend (sample_env\<lparr>instant := (\<lambda>k. int k * 1000000000)\<rparr>)
     \<lparr>probe_socket = (\<lambda>_. True), probe_sent = (\<lambda>_. True), parse_probe_addr = (\<lambda>_. None)\<rparr>"

lemmas sample_probe = sample_probe_env_def env.extend_def sample_env_def

text \<open>
  C30: A server that stops answering ends its program: whatever has come before, answers included,
  when no message comes back any more while the timer goes on ticking and the clock passes 13
  seconds, the self test gives up, at a wildcard IPv6 address after one more attempt over IPv4 that
  falls silent in the same way, and the process exits. It cannot hang.
\<close>

theorem unanswered_test_ends_program:
  assumes "\<forall>k. overdue e (k + n) (instant e k)"
    and "silent quiet" and "timer_ticks quiet > n" and "silent quiet2" and "timer_ticks quiet2 > n"
    and "test_address e c en local = Some (Some addr)"
  shows "fst (run_state (start_test e c en local (evs @ quiet) (evs2 @ quiet2)) s) = Exit_Program"
proof -
  obtain r s1 where r: "run_state (test_hbbs e addr (evs @ quiet)) s = (r, s1)" "r \<noteq> None"
    using test_hbbs_falls_silent [OF assms(1-3), of addr evs s] by (metis prod.collapse)
  moreover obtain r2 s2 where "run_state (test_hbbs e (set_ip (V4 0) addr) (evs2 @ quiet2)) s1 = (r2, s2)" "r2 \<noteq> None"
    using test_hbbs_falls_silent [OF assms(1,4,5), of "set_ip (V4 0) addr" evs2 s1] by (metis prod.collapse)
  ultimately show ?thesis using assms(6) by (auto simp: start_test_def watch_test_def exec_simps)
qed

lemma unanswered_test_ends_program_witness:
  "fst (run_state (start_test sample_probe_env sample_case [] (SockV6 0 21116 0 0)
     ([Probe_Tick, Probe_Datagram (Some (RegisterPeerResponse True))] @ replicate 20 Probe_Tick)
     ([] @ replicate 20 Probe_Tick)) \<lparr>ticks = 0, probed = []\<rparr>) = Exit_Program"
proof -
  have "\<forall>k. overdue sample_probe_env (k + 13) (instant sample_probe_env k)"
    by (simp add: overdue_def sample_probe)
  moreover have "silent (replicate 20 Probe_Tick)" "timer_ticks (replicate 20 Probe_Tick) > 13"
    by (simp_all add: silent_def timer_ticks_def eval_nat_numeral)
  moreover have "test_address sample_probe_env sample_case [] (SockV6 0 21116 0 0) = Some (Some (SockV6 0 21116 0 0))"
    by code_simp
  ultimately show ?thesis using unanswered_test_ends_program by blast
qed

text \<open>
  A server whose main loop runs answers its own test: the registration of the test's id gets its
  answer at once, with the configuration when there is a newer one than the test's, and leaves no
  trace, neither a peer in memory nor a row in the database.
\<close>

theorem self_test_answered:
  assumes "map_of (pm_map s) ''(:test_hbbs:)'' = None"
    and "run_state (handle_udp e sv (Some probe_message) addr) s = (Inr sv', s')"
  shows "sv' = sv \<and> (\<exists>k. s' = s\<lparr>ticks := k, sent := sent s @ (Udp addr, RegisterPeerResponse True) #
    (if serial sv > 0 then [(Udp addr, config_update sv)] else [])\<rparr>)"
  using assms
  by (auto simp: handle_udp_def probe_message_def register_peer_response_def get_in_memory_def exec_simps
      split: if_splits)

lemma self_test_answered_witness:
  "\<exists>sv' s'. run_state (handle_udp sample_hub_env sample_server (Some probe_message) (SockV4 1 2)) sample_hub = (Inr sv', s') \<and>
     (Udp (SockV4 1 2), RegisterPeerResponse True) \<in> set (sent s')"
proof -
  let ?m = "handle_udp sample_hub_env sample_server (Some probe_message) (SockV4 1 2)"
  have none: "map_of (pm_map sample_hub) ''(:test_hbbs:)'' = None" by (simp add: sample_hub_def)
  have "\<exists>sv' s'. run_state ?m sample_hub = (Inr sv', s')"
    by (simp add: handle_udp_def probe_message_def register_peer_response_def get_in_memory_def exec_simps none)
  then obtain sv' s' where r: "run_state ?m sample_hub = (Inr sv', s')" by blast
  from self_test_answered [OF none r] r show ?thesis by auto
qed

end
