(* ===== verification/Keys.thy ===== *)
theory Keys
  imports Sample Args
begin

text \<open>
  The server's key pair: \<open>gen_sk\<close> of src/common/keys.rs and the two \<open>get_server_sk\<close>, of hbbs
  (src/rendezvous_server/tcp.rs) and of hbbr (src/relay_server/mod.rs), and \<open>validate_keypair\<close> of
  src/utils.rs. base64 and sodiumoxide are parameters; \<open>sign_keypair k\<close> is the pair drawn at request
  \<open>k\<close>. A file operation is a request too, and \<open>fs_ok\<close> says whether it succeeds.
\<close>

record key_env = env +
  b64_encode :: "bytes \<Rightarrow> string"
  b64_decode :: "string \<Rightarrow> bytes option"
  sign_keypair :: "nat \<Rightarrow> bytes \<times> bytes"
  sign_with :: "bytes \<Rightarrow> bytes \<Rightarrow> bytes"
  verify_with :: "bytes \<Rightarrow> bytes \<Rightarrow> bytes option"
  fs_ok :: "nat \<Rightarrow> bool"

record file_world = world +
  files :: "(string \<times> string) list"

section \<open>Files\<close>

definition sk_file :: string where
  "sk_file = ''id_ed25519''"

definition pub_file :: string where
  "pub_file = ''id_ed25519.pub''"

definition open_file :: "'e key_env_scheme \<Rightarrow> string \<Rightarrow> ('w file_world_scheme, string option) state" where
  "open_file e name = do {
     k \<leftarrow> tick;
     fs \<leftarrow> gets files;
     State_Monad.return (if fs_ok e k then map_of fs name else None)
   }"

text \<open>\<open>File::create\<close> empties the file; \<open>write_all\<close> follows.\<close>

definition create_file :: "'e key_env_scheme \<Rightarrow> string \<Rightarrow> ('w file_world_scheme, bool) state" where
  "create_file e name = do {
     k \<leftarrow> tick;
     if fs_ok e k then do {
       modify (\<lambda>s. s\<lparr>files := AList.update name '''' (files s)\<rparr>);
       State_Monad.return True
     } else State_Monad.return False
   }"

definition write_all :: "'e key_env_scheme \<Rightarrow> string \<Rightarrow> string \<Rightarrow> ('w file_world_scheme, bool) state" where
  "write_all e name t = do {
     k \<leftarrow> tick;
     if fs_ok e k then do {
       modify (\<lambda>s. s\<lparr>files := AList.update name t (files s)\<rparr>);
       State_Monad.return True
     } else State_Monad.return False
   }"

section \<open>The key file\<close>

text \<open>\<open>Fatal\<close> is \<open>process::exit(1)\<close>.\<close>

datatype key_result = Fatal | Keys string "bytes option"

definition clean :: "string \<Rightarrow> bool" where
  "clean t \<longleftrightarrow> CHR ''/'' \<notin> set t \<and> CHR '':'' \<notin> set t"

definition gen_func :: "'e key_env_scheme \<Rightarrow> ('w world_scheme, string \<times> bytes) state" where
  "gen_func e = do {
     k \<leftarrow> tick;
     State_Monad.return (b64_encode e (fst (sign_keypair e k)), snd (sign_keypair e k))
   }"

text \<open>Up to \<open>tries\<close> new pairs until the public key's text has neither a slash nor a colon.\<close>

fun regenerate :: "'e key_env_scheme \<Rightarrow> nat \<Rightarrow> string \<times> bytes \<Rightarrow> ('w world_scheme, string \<times> bytes) state" where
  "regenerate e 0 p = State_Monad.return p"
| "regenerate e (Suc tries) p =
     (if clean (fst p) then State_Monad.return p
      else do { p' \<leftarrow> gen_func e; regenerate e tries p' })"

definition read_key :: "'e key_env_scheme \<Rightarrow> string \<Rightarrow> ('w world_scheme, key_result) state" where
  "read_key e contents = do {
     k \<leftarrow> tick;
     if fs_ok e k \<and> valid_utf8 contents then
       (let sk' = (case b64_decode e (trim contents) of Some b \<Rightarrow> b | None \<Rightarrow> [])
        in State_Monad.return
          (if length sk' = 64 then Keys (b64_encode e (drop 32 sk')) (Some sk') else Fatal))
     else State_Monad.return (Keys '''' None)
   }"

definition gen_sk :: "'e key_env_scheme \<Rightarrow> ('w file_world_scheme, key_result) state" where
  "gen_sk e = do {
     opened \<leftarrow> open_file e sk_file;
     case opened of
       Some contents \<Rightarrow> read_key e contents
     | None \<Rightarrow> do {
         first \<leftarrow> gen_func e;
         p \<leftarrow> regenerate e 300 first;
         created \<leftarrow> create_file e pub_file;
         if created then do {
           _ \<leftarrow> write_all e pub_file (fst p);
           created' \<leftarrow> create_file e sk_file;
           if created' then do {
             written \<leftarrow> write_all e sk_file (b64_encode e (snd p));
             State_Monad.return (if written then Keys (fst p) (Some (snd p)) else Keys '''' None)
           } else State_Monad.return (Keys '''' None)
         } else State_Monad.return (Keys '''' None)
       }
   }"

section \<open>The key argument\<close>

text \<open>A private key given as the argument: the public half and the key itself.\<close>

definition private_key_of :: "'e key_env_scheme \<Rightarrow> string \<Rightarrow> (string \<times> bytes) option" where
  "private_key_of e key = (case b64_decode e key of
       Some sk' \<Rightarrow> if length sk' = 64 then Some (b64_encode e (drop 32 sk'), sk') else None
     | None \<Rightarrow> None)"

definition hbbs_server_sk ::
  "'e key_env_scheme \<Rightarrow> string \<Rightarrow> ('w file_world_scheme, key_result) state" where
  "hbbs_server_sk e key0 = (
     let (key, out_sk) = (case private_key_of e key0 of
         Some (pk', sk') \<Rightarrow> (pk', Some sk') | None \<Rightarrow> (key0, None))
     in if key = '''' \<or> key = ''-'' \<or> key = ''_'' then do {
          r \<leftarrow> gen_sk e;
          State_Monad.return (case r of
              Fatal \<Rightarrow> Fatal
            | Keys pk' sk' \<Rightarrow> Keys (if key = '''' then '''' else pk') sk')
        } else State_Monad.return (Keys key out_sk))"

definition hbbr_server_sk ::
  "'e key_env_scheme \<Rightarrow> string \<Rightarrow> ('w file_world_scheme, key_result) state" where
  "hbbr_server_sk e key0 = (
     let key = (case private_key_of e key0 of Some (pk', sk') \<Rightarrow> pk' | None \<Rightarrow> key0)
     in if key = ''-'' \<or> key = ''_'' then do {
          r \<leftarrow> gen_sk e;
          State_Monad.return (case r of Fatal \<Rightarrow> Fatal | Keys pk' sk' \<Rightarrow> Keys pk' None)
        } else State_Monad.return (Keys key None))"

text \<open>\<open>validate_keypair\<close>: the message of the error, if any.\<close>

definition validate_keypair :: "'e key_env_scheme \<Rightarrow> string \<Rightarrow> string \<Rightarrow> string + unit" where
  "validate_keypair e pk_text sk_text =
     (case b64_decode e sk_text of
        None \<Rightarrow> Inl ''Invalid secret key''
      | Some sk' \<Rightarrow>
          if length sk' \<noteq> 64 then Inl ''Invalid Secret key''
          else (case b64_decode e pk_text of
              None \<Rightarrow> Inl ''Invalid public key''
            | Some pk' \<Rightarrow>
                if length pk' \<noteq> 32 then Inl ''Invalid Public key''
                else (let sample = map of_char ''This is meh.'' in
                  case verify_with e (sign_with e sample sk') pk' of
                    None \<Rightarrow> Inl ''Key pair is INVALID''
                  | Some back \<Rightarrow> if sample \<noteq> back then Inl ''Key pair is INVALID'' else Inr ())))"

section \<open>Lemmas\<close>

text \<open>What the crates document: base64 text decodes to what was encoded and is plain ASCII without
  blanks, and libsodium's secret key is the seed followed by the public key.\<close>

definition crypto_ok :: "'e key_env_scheme \<Rightarrow> bool" where
  "crypto_ok e \<longleftrightarrow> (\<forall>b. b64_decode e (b64_encode e b) = Some b) \<and>
     (\<forall>b. trim (b64_encode e b) = b64_encode e b \<and> valid_utf8 (b64_encode e b)) \<and>
     (\<forall>k. length (snd (sign_keypair e k)) = 64 \<and> drop 32 (snd (sign_keypair e k)) = fst (sign_keypair e k))"

text \<open>Every pair that is generated is one of \<open>sign_keypair\<close>'s.\<close>

definition drawn :: "'e key_env_scheme \<Rightarrow> string \<times> bytes \<Rightarrow> bool" where
  "drawn e p \<longleftrightarrow> (\<exists>k. p = (b64_encode e (fst (sign_keypair e k)), snd (sign_keypair e k)))"

lemma gen_func_drawn: "run_state (gen_func e) s = (p, s') \<Longrightarrow> drawn e p \<and> s' = s\<lparr>ticks := Suc (ticks s)\<rparr>"
  by (auto simp: gen_func_def drawn_def exec_simps)

lemma regenerate_drawn: "drawn e p \<Longrightarrow> run_state (regenerate e n p) s = (p', s') \<Longrightarrow> drawn e p'"
proof (induction e n p arbitrary: s rule: regenerate.induct)
  case (2 e tries p)
  then show ?case
    by (auto simp: exec_simps split: if_splits prod.splits dest: gen_func_drawn)
qed (auto simp: exec_simps)

text \<open>Whether it was read or generated: a key that is returned is the one in the file.\<close>

definition stored :: "'e key_env_scheme \<Rightarrow> string \<Rightarrow> bytes \<Rightarrow> string \<Rightarrow> bool" where
  "stored e pk' sk' contents \<longleftrightarrow> valid_utf8 contents \<and> b64_decode e (trim contents) = Some sk' \<and>
     length sk' = 64 \<and> pk' = b64_encode e (drop 32 sk')"

lemma read_key_stored:
  "run_state (read_key e contents) s = (Keys pk' (Some sk'), s') \<Longrightarrow> stored e pk' sk' contents"
  "stored e pk' sk' contents \<Longrightarrow> fs_ok e (ticks s) \<Longrightarrow>
     fst (run_state (read_key e contents) s) = Keys pk' (Some sk')"
  by (auto simp: read_key_def stored_def exec_simps Let_def split: if_splits option.splits)

lemma drawn_stored: "crypto_ok e \<Longrightarrow> drawn e p \<Longrightarrow> stored e (fst p) (snd p) (b64_encode e (snd p))"
  by (auto simp: crypto_ok_def drawn_def stored_def)

lemma gen_sk_stored:
  assumes "crypto_ok e" and "run_state (gen_sk e) s = (Keys pk' (Some sk'), s')"
  shows "\<exists>contents. map_of (files s') sk_file = Some contents \<and> stored e pk' sk' contents"
proof (cases "fs_ok e (ticks s) \<and> map_of (files s) sk_file \<noteq> None")
  case True
  then obtain contents where c: "map_of (files s) sk_file = Some contents" by blast
  let ?s = "s\<lparr>ticks := Suc (ticks s)\<rparr>"
  have "run_state (read_key e contents) ?s = (Keys pk' (Some sk'), s')"
    using assms(2) True c by (simp add: gen_sk_def open_file_def exec_simps)
  moreover from this have "files s' = files s" by (auto simp: read_key_def exec_simps Let_def split: if_splits)
  ultimately show ?thesis using c read_key_stored(1) by metis
next
  case False
  let ?s = "s\<lparr>ticks := Suc (ticks s)\<rparr>"
  obtain q s1 where q: "run_state (gen_func e) ?s = (q, s1)" by (metis prod.collapse)
  obtain p s2 where p: "run_state (regenerate e 300 q) s1 = (p, s2)" by (metis prod.collapse)
  have d: "drawn e p" using gen_func_drawn [OF q] regenerate_drawn [OF _ p] by blast
  have "(if fs_ok e (ticks s) then map_of (files s) sk_file else None) = None" using False by auto
  then have "Keys pk' (Some sk') = Keys (fst p) (Some (snd p)) \<and> map_of (files s') sk_file = Some (b64_encode e (snd p))"
    using assms(2) q p
    by (auto simp: gen_sk_def open_file_def create_file_def write_all_def update_conv' exec_simps
        simp del: if_split split: if_splits)
  with drawn_stored [OF assms(1) d] show ?thesis by auto
qed

lemma gen_sk_reads:
  assumes "map_of (files s) sk_file = Some contents" and "stored e pk' sk' contents"
    and "fs_ok e (ticks s)" "fs_ok e (Suc (ticks s))"
  shows "fst (run_state (gen_sk e) s) = Keys pk' (Some sk')"
  using assms read_key_stored(2) [OF assms(2), of "s\<lparr>ticks := Suc (ticks s)\<rparr>"]
  by (simp add: gen_sk_def open_file_def exec_simps)

section \<open>Properties\<close>

text \<open>Hexadecimal in place of base64, and a key pair whose secret half is the public one twice.\<close>

definition sample_hex :: "bytes \<Rightarrow> string" where
  "sample_hex b = concat (map (\<lambda>x. [char_of (65 + unat x div 16), char_of (65 + unat x mod 16)]) b)"

fun sample_unhex :: "string \<Rightarrow> bytes option" where
  "sample_unhex [] = Some []"
| "sample_unhex (a # b # t) = map_option ((#) (of_nat (((of_char a :: nat) - 65) * 16 + ((of_char b :: nat) - 65)))) (sample_unhex t)"
| "sample_unhex [a] = None"

definition sample_key_env :: key_env where
  "sample_key_env = env.extend sample_env
     \<lparr>b64_encode = sample_hex, b64_decode = sample_unhex, sign_keypair = (\<lambda>k. (replicate 32 7, replicate 64 7)),
      sign_with = (\<lambda>m k. m), verify_with = (\<lambda>m k. Some m), fs_ok = (\<lambda>_. True)\<rparr>"


definition plain :: "string \<Rightarrow> bool" where
  "plain t \<longleftrightarrow> list_all (\<lambda>c. 32 < (of_char c :: nat) \<and> (of_char c :: nat) < 127) t"

lemma plain_utf8: "plain t \<Longrightarrow> valid_utf8 t"
  by (induction t) (auto simp: plain_def valid_utf8.simps)

lemma plain_chars: "plain t \<Longrightarrow> chars t = map (\<lambda>c. [c]) t"
  by (induction t) (auto simp: plain_def char_width_def)

lemma plain_trim: "plain t \<Longrightarrow> trim t = t"
proof (cases "t = []")
  case False
  assume "plain t"
  then have p: "\<forall>c \<in> set t. printing c" by (auto simp: plain_def printing_def list_all_iff)
  with False show ?thesis by (intro trim_ascii) (auto simp: printing_def list_all_iff)
qed (simp add: trim_def)

lemma sample_nibble:
  fixes x :: "8 word"
  shows "unat x div 16 < 16" "(of_char (char_of (65 + unat x div 16) :: char) :: nat) = 65 + unat x div 16"
    "(of_char (char_of (65 + unat x mod 16) :: char) :: nat) = 65 + unat x mod 16"
proof -
  have "unat x < 256" using unsigned_less [of x] by simp
  then show b: "unat x div 16 < 16" by simp
  then have "65 + unat x div 16 < 256" "65 + unat x mod 16 < 256" by simp_all
  then show "(of_char (char_of (65 + unat x div 16) :: char) :: nat) = 65 + unat x div 16"
    "(of_char (char_of (65 + unat x mod 16) :: char) :: nat) = 65 + unat x mod 16"
    by (simp_all only: of_char_of mod_less)
qed

lemma sample_hex_length: "length (sample_hex b) = 2 * length b"
  by (induction b) (simp_all add: sample_hex_def)

lemma sample_hex_plain: "plain (sample_hex b)"
proof (induction b)
  case (Cons x b)
  have "32 < 65 + unat x div 16 \<and> 65 + unat x div 16 < 127 \<and> 32 < 65 + unat x mod 16 \<and> 65 + unat x mod 16 < 127"
    using sample_nibble(1) [of x] by simp
  with Cons show ?case by (simp add: sample_hex_def plain_def sample_nibble del: of_char_of)
qed (simp add: sample_hex_def plain_def)

lemma sample_crypto: "crypto_ok sample_key_env"
proof -
  have "sample_unhex (sample_hex b) = Some b" for b
  proof (induction b)
    case (Cons x b)
    show ?case using Cons by (simp add: sample_hex_def sample_nibble del: of_char_of)
  qed (simp add: sample_hex_def)
  then show ?thesis
    using plain_trim [OF sample_hex_plain] plain_utf8 [OF sample_hex_plain]
    by (simp add: crypto_ok_def sample_key_env_def env.extend_def)
qed

lemma sample_key_simps:
  "b64_encode sample_key_env = sample_hex" "b64_decode sample_key_env = sample_unhex"
  "sign_keypair sample_key_env k = (replicate 32 7, replicate 64 7)" "fs_ok sample_key_env k = True"
  by (simp_all only: sample_key_env_def env.extend_def key_env.simps)

lemma regenerate_clean: "clean (fst p) \<Longrightarrow> regenerate e n p = State_Monad.return p"
  by (cases n) simp_all

lemma gen_sk_first:
  assumes "map_of (files s) sk_file = None" and "\<And>k. fs_ok e k = True"
    and "clean (b64_encode e (fst (sign_keypair e (Suc (ticks s)))))"
  shows "fst (run_state (gen_sk e) s) =
    Keys (b64_encode e (fst (sign_keypair e (Suc (ticks s))))) (Some (snd (sign_keypair e (Suc (ticks s)))))"
  using assms by (simp add: gen_sk_def gen_func_def open_file_def create_file_def write_all_def regenerate_clean exec_simps)

definition sample_files :: file_world where
  "sample_files = \<lparr>ticks = 0, files = []\<rparr>"

text \<open>
  C26: A server that has a private key, generated or read, finds the same pair at its next start, as
  long as the key file is left alone and can be read.
\<close>

theorem keys_survive_restart:
  assumes "crypto_ok e" and "run_state (gen_sk e) s = (Keys pk' (Some sk'), s1)"
    and "map_of (files s2) sk_file = map_of (files s1) sk_file"
    and "fs_ok e (ticks s2)" and "fs_ok e (Suc (ticks s2))"
  shows "fst (run_state (gen_sk e) s2) = Keys pk' (Some sk')"
  using gen_sk_stored [OF assms(1,2)] gen_sk_reads [of s2] assms(3-5) by metis

lemma keys_survive_restart_witness:
  "\<exists>pk' sk' s1. run_state (gen_sk sample_key_env) sample_files = (Keys pk' (Some sk'), s1) \<and>
     fst (run_state (gen_sk sample_key_env) s1) = Keys pk' (Some sk')"
proof -
  have "fst (run_state (gen_sk sample_key_env) sample_files) = Keys (sample_hex (replicate 32 7)) (Some (replicate 64 7))"
  proof -
    have "clean (sample_hex (replicate 32 7))" by code_simp
    moreover have "map_of (files sample_files) sk_file = None" by (simp add: sample_files_def)
    ultimately show ?thesis
      using gen_sk_first [of sample_files sample_key_env] by (simp only: sample_key_simps fst_conv snd_conv)
  qed
  then obtain s1 where r: "run_state (gen_sk sample_key_env) sample_files = (Keys (sample_hex (replicate 32 7)) (Some (replicate 64 7)), s1)"
    by (metis prod.collapse)
  from keys_survive_restart [OF sample_crypto r refl] r show ?thesis
    by (simp add: sample_key_env_def env.extend_def)
qed

text \<open>
  C27: hbbs and hbbr agree. When hbbs was started with a key argument that gave it a private key, then
  hbbr, started with the same non-empty argument beside the same key file, requires the same key.
\<close>

theorem servers_agree_on_key:
  assumes "crypto_ok e" and "key0 \<noteq> ''''"
    and "run_state (hbbs_server_sk e key0) s = (Keys k (Some sk'), s1)" and "k \<noteq> ''''"
    and "map_of (files s2) sk_file = map_of (files s1) sk_file"
    and "fs_ok e (ticks s2)" and "fs_ok e (Suc (ticks s2))"
  shows "fst (run_state (hbbr_server_sk e key0) s2) = Keys k None"
proof -
  let ?p = "private_key_of e key0"
  let ?key = "case ?p of Some (pk', sk') \<Rightarrow> pk' | None \<Rightarrow> key0"
  show ?thesis
  proof (cases "?key = ''-'' \<or> ?key = ''_''")
    case True
    obtain r s1' where r: "run_state (gen_sk e) s = (r, s1')" by (metis prod.collapse)
    have "r = Keys k (Some sk') \<and> s1' = s1"
      using assms(3) True r by (auto simp: hbbs_server_sk_def exec_simps split: option.splits key_result.splits)
    with r have "run_state (gen_sk e) s = (Keys k (Some sk'), s1)" by simp
    then have "fst (run_state (gen_sk e) s2) = Keys k (Some sk')"
      using gen_sk_stored [OF assms(1)] gen_sk_reads [of s2] assms(5-7) by metis
    with True show ?thesis
      by (auto simp: hbbr_server_sk_def exec_simps split: option.splits prod.splits)
  next
    case False
    have "?key \<noteq> ''''"
      using assms(2-4) by (auto simp: hbbs_server_sk_def exec_simps split: option.splits key_result.splits prod.splits)
    with False have "k = ?key"
      using assms(3) by (auto simp: hbbs_server_sk_def exec_simps split: option.splits)
    with False show ?thesis by (auto simp: hbbr_server_sk_def exec_simps split: option.splits)
  qed
qed

lemma servers_agree_on_key_witness:
  "fst (run_state (hbbr_server_sk sample_key_env (sample_hex (replicate 64 7))) sample_files) =
     Keys (sample_hex (replicate 32 7)) None"
proof -
  let ?key = "sample_hex (replicate 64 7)"
  have p: "private_key_of sample_key_env ?key = Some (sample_hex (replicate 32 7), replicate 64 7)"
    using sample_crypto by (simp add: private_key_of_def crypto_ok_def sample_key_env_def env.extend_def)
  have n: "?key \<noteq> ''''" "sample_hex (replicate 32 7) \<noteq> ''''" "sample_hex (replicate 32 7) \<noteq> ''-''"
    "sample_hex (replicate 32 7) \<noteq> ''_''"
    using sample_hex_length [of "replicate 64 7"] sample_hex_length [of "replicate 32 7"] by auto
  then have "run_state (hbbs_server_sk sample_key_env ?key) sample_files =
      (Keys (sample_hex (replicate 32 7)) (Some (replicate 64 7)), sample_files)"
    by (simp add: hbbs_server_sk_def p exec_simps)
  from servers_agree_on_key [OF sample_crypto n(1) this n(2) refl] show ?thesis
    by (simp add: sample_key_env_def env.extend_def)
qed

end
