(* ===== verification/Float64.thy ===== *)
theory Float64
  imports Complex_Main Text "HOL-Library.Word"
begin

text \<open>
  The \<open>f64\<close> operations that hbbr's settings go through: decimal text to \<open>f64\<close>, \<open>usize\<close> to \<open>f64\<close>,
  products, quotients and the saturating cast back to \<open>usize\<close>. A finite value is the rational number
  it stands for; the two zeros are one, since the source never tells them apart. Results are
  rounded to the nearest representable value, ties to even, with gradual underflow.
\<close>

datatype f64 = Finite rat | Infinity | Neg_Infinity | Not_A_Number

definition pow2 :: "int \<Rightarrow> rat" where
  "pow2 k = (if 0 \<le> k then 2 ^ nat k else 1 / 2 ^ nat (- k))"

definition round_even :: "rat \<Rightarrow> int" where
  "round_even x =
     (let f = \<lfloor>x\<rfloor>; d = x - of_int f
      in if d < 1 / 2 then f else if 1 / 2 < d then f + 1 else if even f then f else f + 1)"

fun bit_length :: "nat \<Rightarrow> nat" where
  "bit_length n = (if n = 0 then 0 else Suc (bit_length (n div 2)))"

declare bit_length.simps [simp del]

text \<open>The exponent \<open>k\<close> with \<open>2 ^ k \<le> r < 2 ^ (k + 1)\<close>, for positive \<open>r\<close>.\<close>

definition exponent :: "rat \<Rightarrow> int" where
  "exponent r =
     (let (p, q) = quotient_of r; k = int (bit_length (nat p)) - int (bit_length (nat q))
      in if pow2 k \<le> r then k else k - 1)"

definition round_positive :: "rat \<Rightarrow> f64" where
  "round_positive r =
     (let k = max (exponent r - 52) (- 1074); v = of_int (round_even (r / pow2 k)) * pow2 k
      in if 2 ^ 1024 \<le> v then Infinity else Finite v)"

fun negate :: "f64 \<Rightarrow> f64" where
  "negate (Finite r) = Finite (- r)"
| "negate Infinity = Neg_Infinity"
| "negate Neg_Infinity = Infinity"
| "negate Not_A_Number = Not_A_Number"

definition round64 :: "rat \<Rightarrow> f64" where
  "round64 r =
     (if r = 0 then Finite 0 else if 0 < r then round_positive r else negate (round_positive (- r)))"

definition f64_of_usize :: "64 word \<Rightarrow> f64" where
  "f64_of_usize w = round64 (of_nat (unat w))"

text \<open>Products and quotients with a positive finite number, as the source uses them.\<close>

fun mul_by :: "f64 \<Rightarrow> rat \<Rightarrow> f64" where
  "mul_by (Finite r) c = round64 (r * c)"
| "mul_by x c = x"

fun div_by :: "f64 \<Rightarrow> rat \<Rightarrow> f64" where
  "div_by (Finite r) c = round64 (r / c)"
| "div_by x c = x"

fun mul64 :: "f64 \<Rightarrow> f64 \<Rightarrow> f64" where
  "mul64 (Finite r) (Finite c) = round64 (r * c)"
| "mul64 x y = Not_A_Number"

fun is_positive :: "f64 \<Rightarrow> bool" where
  "is_positive (Finite r) = (0 < r)"
| "is_positive Infinity = True"
| "is_positive Neg_Infinity = False"
| "is_positive Not_A_Number = False"

text \<open>The cast \<open>as usize\<close> truncates and saturates.\<close>

fun as_usize :: "f64 \<Rightarrow> 64 word" where
  "as_usize (Finite r) =
     (if r \<le> 0 then 0 else if 2 ^ 64 \<le> \<lfloor>r\<rfloor> then - 1 else word_of_int \<lfloor>r\<rfloor>)"
| "as_usize Infinity = - 1"
| "as_usize Neg_Infinity = 0"
| "as_usize Not_A_Number = 0"

section \<open>Reading decimal text\<close>

fun span_digits :: "string \<Rightarrow> string \<times> string" where
  "span_digits [] = ([], [])"
| "span_digits (c # cs) =
     (if digit_of c = None then ([], c # cs)
      else let (ds, rest) = span_digits cs in (c # ds, rest))"

definition split_sign :: "string \<Rightarrow> bool \<times> string" where
  "split_sign t = (case t of
       [] \<Rightarrow> (False, [])
     | c # cs \<Rightarrow> if c = CHR ''-'' then (True, cs) else if c = CHR ''+'' then (False, cs) else (False, t))"

definition decimal_value :: "string \<Rightarrow> nat" where
  "decimal_value ds = (case digits_value 0 ds of Some n \<Rightarrow> n | None \<Rightarrow> 0)"

text \<open>The exponent part: nothing, or \<open>e\<close> with an optional sign and digits.\<close>

definition parse_exponent :: "string \<Rightarrow> int option" where
  "parse_exponent t = (case t of
       [] \<Rightarrow> Some 0
     | c # cs \<Rightarrow>
         if ascii_lower c \<noteq> CHR ''e'' then None
         else let (neg, body) = split_sign cs; (ds, rest) = span_digits body
              in if ds = [] \<or> rest \<noteq> [] then None
                 else Some (if neg then - int (decimal_value ds) else int (decimal_value ds)))"

definition parse_decimal :: "string \<Rightarrow> rat option" where
  "parse_decimal t =
     (let (whole, rest) = span_digits t;
          (frac, rest') = (case rest of
              c # cs \<Rightarrow> if c = CHR ''.'' then span_digits cs else ([], rest)
            | [] \<Rightarrow> ([], []))
      in if whole @ frac = [] then None
         else case parse_exponent rest' of
             None \<Rightarrow> None
           | Some x \<Rightarrow>
               let k = x - int (length frac)
               in Some (of_nat (decimal_value (whole @ frac)) *
                    (if 0 \<le> k then 10 ^ nat k else 1 / 10 ^ nat (- k))))"

text \<open>\<open>f64::from_str\<close>.\<close>

definition parse_f64 :: "string \<Rightarrow> f64 option" where
  "parse_f64 t =
     (let (neg, body) = split_sign t; word = to_ascii_lowercase body;
          magnitude = (if word = ''inf'' \<or> word = ''infinity'' then Some Infinity
            else if word = ''nan'' then Some Not_A_Number
            else map_option round64 (parse_decimal body))
      in map_option (\<lambda>x. if neg then negate x else x) magnitude)"

section \<open>Lemmas\<close>

lemma pow2_pos [simp]: "0 < pow2 k"
  by (simp add: pow2_def)

lemma round_even_int [simp]: "round_even (of_int z) = z"
  by (simp add: round_even_def)

text \<open>Whole numbers below \<open>2 ^ 53\<close> are exact.\<close>

lemma bit_length_bounds: "0 < n \<Longrightarrow> 0 < bit_length n \<and> 2 ^ (bit_length n - 1) \<le> n \<and> n < 2 ^ bit_length n"
proof (induction n rule: bit_length.induct)
  case (1 n)
  show ?case
  proof (cases "n div 2 = 0")
    case True
    with 1(2) have "n = 1" by auto
    then show ?thesis by (simp add: bit_length.simps)
  next
    case False
    then have "0 < bit_length (n div 2)" "2 ^ (bit_length (n div 2) - 1) \<le> n div 2" "n div 2 < 2 ^ bit_length (n div 2)"
      using 1 by auto
    moreover have "bit_length n = Suc (bit_length (n div 2))" using 1(2) by (simp add: bit_length.simps [of n])
    moreover from calculation(1) obtain m where "bit_length (n div 2) = Suc m" by (metis gr0_conv_Suc)
    moreover have "2 * (n div 2) \<le> n" "n < 2 * (n div 2) + 2" by auto
    ultimately show ?thesis by auto
  qed
qed

lemma exponent_nat:
  assumes "0 < n"
  shows "exponent (of_nat n) = int (bit_length n) - 1"
proof -
  have "bit_length (nat 1) = 1" by (simp add: bit_length.simps)
  moreover have "rat_of_nat n < 2 ^ bit_length n"
    using bit_length_bounds [OF assms] by (metis of_nat_less_iff of_nat_numeral of_nat_power)
  moreover have "(2 :: rat) ^ (bit_length n - 1) \<le> of_nat n"
    using bit_length_bounds [OF assms] by (metis of_nat_le_iff of_nat_numeral of_nat_power)
  moreover have "nat (int (bit_length n) - 1) = bit_length n - 1" "0 < bit_length n"
    using bit_length_bounds [OF assms] by simp_all
  ultimately show ?thesis by (simp add: exponent_def pow2_def)
qed

lemma round_exact:
  assumes "n < 2 ^ 53"
  shows "round64 (of_nat n) = Finite (of_nat n)"
proof (cases "n = 0")
  case False
  let ?k = "int (bit_length n) - 53"
  have b: "0 < bit_length n" "2 ^ (bit_length n - 1) \<le> n" using bit_length_bounds [of n] False by auto
  have "bit_length n - 1 < 53"
    using assms b(2) by (meson le_less_trans nat_power_less_imp_less zero_less_numeral)
  with b(1) have k: "?k \<le> 0" "max ?k (- 1074) = ?k" by simp_all
  have "of_nat n / pow2 ?k = (of_int (int n * 2 ^ nat (- ?k)) :: rat)"
    using k(1) by (cases "?k = 0") (simp_all add: pow2_def)
  then have "round_even (of_nat n / pow2 ?k) = int n * 2 ^ nat (- ?k)" by (simp only: round_even_int)
  then have v: "of_int (round_even (of_nat n / pow2 ?k)) * pow2 ?k = rat_of_nat n"
    using k(1) by (cases "?k = 0") (simp_all add: pow2_def)
  have e: "max (exponent (of_nat n) - 52) (- 1074) = ?k" using False k(2) by (simp add: exponent_nat)
  have "rat_of_nat n < 2 ^ 1024"
  proof -
    have "n < 2 ^ 1024" using assms by (rule less_le_trans) simp
    then show ?thesis by (metis of_nat_less_iff of_nat_numeral of_nat_power)
  qed
  then have "\<not> (2 ^ 1024 \<le> rat_of_nat n)" by (simp only: not_le)
  then have "round_positive (of_nat n) = Finite (of_nat n)"
    unfolding round_positive_def Let_def e v by (simp only: if_False)
  then show ?thesis using False by (simp add: round64_def)
qed (simp add: round64_def)


text \<open>The exponent in terms of powers.\<close>

lemma pow2_powi: "pow2 k = 2 powi k"
  by (simp add: pow2_def power_int_def inverse_eq_divide power_one_over)

lemma pow2_diff: "pow2 (int a - int b) = 2 ^ a / 2 ^ b"
  by (simp add: pow2_powi power_int_diff power_int_of_nat)

text \<open>The exponent is where the leading bit is.\<close>

lemma exponent_bounds:
  assumes "0 < r"
  shows "pow2 (exponent r) \<le> r \<and> r < pow2 (exponent r + 1)"
proof -
  obtain p q where pq: "quotient_of r = (p, q)" by fastforce
  then have r: "r = of_int p / of_int q" and q: "0 < q"
    by (simp_all add: quotient_of_div quotient_of_denom_pos)
  with assms have p: "0 < p" by (simp add: zero_less_divide_iff)
  let ?P = "bit_length (nat p)" and ?Q = "bit_length (nat q)"
  let ?k = "int ?P - int ?Q"
  have P: "0 < ?P" "2 ^ (?P - 1) \<le> p" "p < 2 ^ ?P"
    using bit_length_bounds [of "nat p"] p by (simp_all add: nat_less_iff le_nat_iff)
  have Q: "0 < ?Q" "2 ^ (?Q - 1) \<le> q" "q < 2 ^ ?Q"
    using bit_length_bounds [of "nat q"] q by (simp_all add: nat_less_iff le_nat_iff)
  have ge: "rat_of_int (2 ^ (?P - 1)) \<le> of_int p" "rat_of_int (2 ^ (?Q - 1)) \<le> of_int q"
    and lt: "rat_of_int p < of_int (2 ^ ?P)" "rat_of_int q < of_int (2 ^ ?Q)"
    using P Q by (simp_all only: of_int_le_iff of_int_less_iff)
  have "pow2 (?k - 1) = 2 ^ (?P - 1) / 2 ^ ?Q"
    using pow2_diff [of "?P - 1" ?Q] P(1) by (simp add: algebra_simps)
  also have "\<dots> \<le> r"
    unfolding r using ge(1) lt(2) q p by (intro frac_le) simp_all
  finally have low: "pow2 (?k - 1) \<le> r" .
  have "r < 2 ^ ?P / 2 ^ (?Q - 1)"
    unfolding r using lt(1) ge(2) q p by (intro frac_less) simp_all
  also have "\<dots> = pow2 (?k + 1)"
    using pow2_diff [of ?P "?Q - 1"] Q(1) by (simp add: algebra_simps)
  finally have high: "r < pow2 (?k + 1)" .
  have "exponent r = (if pow2 ?k \<le> r then ?k else ?k - 1)" by (simp add: exponent_def pq Let_def)
  with low high show ?thesis by auto
qed

lemma exponent_eq:
  assumes "pow2 x \<le> r" and "r < pow2 (x + 1)"
  shows "exponent r = x"
proof -
  have "0 < r" using assms(1) pow2_pos less_le_trans by blast
  note b = exponent_bounds [OF this]
  have "\<not> exponent r < x"
  proof
    assume "exponent r < x"
    then have "pow2 (exponent r + 1) \<le> pow2 x" by (simp add: pow2_powi power_int_increasing)
    with b assms(1) show False by simp
  qed
  moreover have "\<not> x < exponent r"
  proof
    assume "x < exponent r"
    then have "pow2 (x + 1) \<le> pow2 (exponent r)" by (simp add: pow2_powi power_int_increasing)
    with b assms(2) show False by simp
  qed
  ultimately show ?thesis by simp
qed

lemma round_positive_step:
  assumes "pow2 x \<le> r" and "r < pow2 (x + 1)" and "round_even (r / pow2 (max (x - 52) (- 1074))) = m"
    and "of_int m * pow2 (max (x - 52) (- 1074)) < 2 ^ 1024"
  shows "round_positive r = Finite (of_int m * pow2 (max (x - 52) (- 1074)))"
  using assms by (simp add: round_positive_def Let_def exponent_eq)

text \<open>Rounding is by at most half a unit in the last place.\<close>

lemma round_even_near: "\<bar>of_int (round_even x) - x\<bar> \<le> 1 / 2"
  unfolding round_even_def Let_def by (simp add: abs_if) linarith

lemma round_positive_near:
  assumes "0 < r" and "round_positive r = Finite v"
  shows "\<bar>v - r\<bar> \<le> pow2 (max (exponent r - 52) (- 1074)) / 2"
proof -
  let ?u = "pow2 (max (exponent r - 52) (- 1074))"
  have v: "v = of_int (round_even (r / ?u)) * ?u"
    using assms(2) by (auto simp: round_positive_def Let_def split: if_splits)
  have "?u \<noteq> 0" using pow2_pos less_imp_neq by metis
  then have "v - r = (of_int (round_even (r / ?u)) - r / ?u) * ?u"
    by (simp add: v left_diff_distrib)
  then have "\<bar>v - r\<bar> = \<bar>of_int (round_even (r / ?u)) - r / ?u\<bar> * ?u"
    by (simp add: abs_mult abs_of_pos [OF pow2_pos])
  also have "\<dots> \<le> 1 / 2 * ?u" using round_even_near by (intro mult_right_mono) (simp_all add: less_imp_le)
  finally show ?thesis by simp
qed

end
