(* ===== verification/RelayLoop.thy ===== *)
theory RelayLoop
  imports Relay Float64 Proxy "HOL-Library.Sublist"
begin

text \<open>
  The loop that copies the bytes of a pair: \<open>relay\<close> of src/relay_server/connection.rs, with the rest
  of \<open>make_pair_\<close> around it. What the \<open>select!\<close> sees is a list of events, in the order in which it takes
  them: bytes or the end (\<open>None\<close>, also a failure) of one of the two streams, or a tick of the timer.
  A handler body is never interrupted. Waiting at a limiter takes no part in the state; what was
  charged is recorded in \<open>charged\<close>, what was copied in \<open>relayed\<close>, oldest first.
\<close>

datatype relay_event = From_Peer "bytes option" | From_Stream "bytes option" | Timer

datatype relay_exit = Closed | Blocked | Timed_Out | Send_Failed

record flow =
  fl_tm :: int
  fl_elapsed :: "64 word"
  fl_total :: "64 word"
  fl_total_s :: "64 word"
  fl_highest :: "64 word"
  fl_downgrade :: bool
  fl_blacked :: bool
  fl_last_recv :: int

section \<open>The arms of the select\<close>

definition charge :: "string \<Rightarrow> limiter \<Rightarrow> 64 word \<Rightarrow> ('w relay_scheme, unit) state" where
  "charge name l nb = modify (\<lambda>s. s\<lparr>charged := charged s @ [(name, l, nb)]\<rparr>)"

definition send_raw ::
  "'e relay_env_scheme \<Rightarrow> string \<Rightarrow> side \<Rightarrow> bytes \<Rightarrow> ('w relay_scheme, bool) state" where
  "send_raw e name to b = do {
     k \<leftarrow> tick;
     if stream_ok e k then do {
       modify (\<lambda>s. s\<lparr>relayed := relayed s @ [(name, to, b)]\<rparr>);
       State_Monad.return True
     } else State_Monad.return False
   }"

definition bits :: "bytes \<Rightarrow> 64 word" where
  "bits b = of_nat (length b) * 8"

text \<open>Bytes of one side: charge the limiters, count, hand on unless empty.\<close>

definition forward ::
  "'e relay_env_scheme \<Rightarrow> string \<Rightarrow> side \<Rightarrow> bytes \<Rightarrow> flow \<Rightarrow> ('w relay_scheme, relay_exit + flow) state" where
  "forward e name to b fl = do {
     now \<leftarrow> instant_now e;
     charge name (if fl_blacked fl \<or> fl_downgrade fl then Blacklist_Limiter else Single_Limiter) (bits b);
     charge name Total_Limiter (bits b);
     let fl' = fl\<lparr>fl_last_recv := now, fl_total := fl_total fl + bits b, fl_total_s := fl_total_s fl + bits b\<rparr>;
     if b = [] then State_Monad.return (Inr fl')
     else do {
       ok \<leftarrow> send_raw e name to b;
       State_Monad.return (if ok then Inr fl' else Inl Send_Failed)
     }
   }"

definition on_event ::
  "'e relay_env_scheme \<Rightarrow> string \<Rightarrow> relay_event \<Rightarrow> flow \<Rightarrow> ('w relay_scheme, relay_exit + flow) state" where
  "on_event e name ev fl = (case ev of
       From_Peer (Some b) \<Rightarrow> forward e name To_Stream b fl
     | From_Peer None \<Rightarrow> State_Monad.return (Inl Closed)
     | From_Stream (Some b) \<Rightarrow> forward e name To_Peer b fl
     | From_Stream None \<Rightarrow> State_Monad.return (Inl Closed)
     | Timer \<Rightarrow> do {
         el \<leftarrow> elapsed e (fl_last_recv fl);
         State_Monad.return (if as_secs el > 30 then Inl Timed_Out else Inr fl)
       })"

section \<open>The accounting\<close>

text \<open>
  Once a second, after an event: the two address lists, the usage table and the downgrade. The
  arithmetic is \<open>usize\<close>'s and wraps.
\<close>

definition account ::
  "'e relay_env_scheme \<Rightarrow> string \<Rightarrow> string \<Rightarrow> 64 word \<Rightarrow> flow \<Rightarrow> ('w relay_scheme, relay_exit + flow) state" where
  "account e name ip threshold fl = do {
     el \<leftarrow> elapsed e (fl_tm fl);
     let n = of_nat (as_millis el);
     if n < 1000 then State_Monad.return (Inr fl)
     else do {
       blocked \<leftarrow> gets (\<lambda>s. ip \<in> set (blocklist s));
       if blocked then State_Monad.return (Inl Blocked)
       else do {
         blacked \<leftarrow> gets (\<lambda>s. ip \<in> set (blacklist s));
         now \<leftarrow> instant_now e;
         let speed = fl_total_s fl div n;
         let highest = (if speed > fl_highest fl then speed else fl_highest fl);
         let total_ms = fl_elapsed fl + n;
         modify (\<lambda>s. s\<lparr>usage := AList.update name (total_ms, fl_total fl, highest, speed) (usage s)\<rparr>);
         check_after \<leftarrow> gets downgrade_start_check;
         State_Monad.return (Inr (fl\<lparr>fl_tm := now, fl_blacked := blacked, fl_highest := highest,
           fl_elapsed := total_ms, fl_total_s := 0,
           fl_downgrade := fl_downgrade fl \<or>
             total_ms > check_after \<and> fl_total fl > total_ms * threshold\<rparr>))
       }
     }
   }"

text \<open>The loop. \<open>None\<close>: the events are used up and it still runs.\<close>

fun relay_loop ::
  "'e relay_env_scheme \<Rightarrow> string \<Rightarrow> string \<Rightarrow> 64 word \<Rightarrow> relay_event list \<Rightarrow> flow
     \<Rightarrow> ('w relay_scheme, relay_exit option) state" where
  "relay_loop e name ip threshold [] fl = State_Monad.return None"
| "relay_loop e name ip threshold (ev # evs) fl = do {
     r \<leftarrow> on_event e name ev fl;
     case r of
       Inl x \<Rightarrow> State_Monad.return (Some x)
     | Inr fl1 \<Rightarrow> do {
         r' \<leftarrow> account e name ip threshold fl1;
         case r' of
           Inl x \<Rightarrow> State_Monad.return (Some x)
         | Inr fl2 \<Rightarrow> relay_loop e name ip threshold evs fl2
       }
   }"

definition downgrade_threshold :: "64 word \<Rightarrow> 64 word \<Rightarrow> 64 word" where
  "downgrade_threshold bandwidth threshold_100 =
     as_usize (div_by (div_by (mul64 (f64_of_usize bandwidth) (f64_of_usize threshold_100)) 100) 1000)"

definition relay_pair ::
  "'e relay_env_scheme \<Rightarrow> socket_addr \<Rightarrow> string \<Rightarrow> relay_event list \<Rightarrow> ('w relay_scheme, relay_exit option) state" where
  "relay_pair e addr name evs = do {
     tm \<leftarrow> instant_now e;
     sb \<leftarrow> gets single_bandwidth;
     th \<leftarrow> gets downgrade_threshold_100;
     now \<leftarrow> instant_now e;
     relay_loop e name (show_ip (sock_ip addr)) (downgrade_threshold sb th) evs
       \<lparr>fl_tm = tm, fl_elapsed = 0, fl_total = 0, fl_total_s = 0, fl_highest = 0,
        fl_downgrade = False, fl_blacked = False, fl_last_recv = now\<rparr>
   }"

text \<open>A connection from its request to the end of the session; a parked stream is left to its pair.\<close>

definition serve_pair ::
  "(string \<Rightarrow> string \<Rightarrow> ('d, bool) state) \<Rightarrow> 'e relay_env_scheme \<Rightarrow> string \<Rightarrow> stream \<Rightarrow> socket_addr
     \<Rightarrow> message option \<Rightarrow> relay_event list \<Rightarrow> ('d \<times> 'w relay_scheme, relay_exit option) state" where
  "serve_pair present e key st addr msg evs = do {
     r \<leftarrow> make_pair present key st addr msg;
     case r of
       Paired peer st' \<Rightarrow> do {
         x \<leftarrow> on_relay (relay_pair e addr (session_name addr) evs);
         (if x = None then State_Monad.return () else on_relay (close_usage (session_name addr)));
         State_Monad.return x
       }
     | _ \<Rightarrow> State_Monad.return None
   }"


text \<open>
  \<open>make_pair\<close>: a WebSocket connection gets the address from its headers; \<open>None\<close> is a failed handshake.
\<close>

definition open_pair ::
  "(string \<Rightarrow> string \<Rightarrow> ('d, bool) state) \<Rightarrow> 'e relay_env_scheme \<Rightarrow> (string \<Rightarrow> string option)
     \<Rightarrow> (string \<Rightarrow> socket_addr option) \<Rightarrow> string \<Rightarrow> (string \<Rightarrow> string option) option \<Rightarrow> stream \<Rightarrow> socket_addr
     \<Rightarrow> message option \<Rightarrow> relay_event list \<Rightarrow> ('d \<times> 'w relay_scheme, relay_exit option) state" where
  "open_pair present e to_str parse key headers st addr msg evs =
     (if st_ws st then
        (case headers of
           None \<Rightarrow> State_Monad.return None
         | Some hs \<Rightarrow> serve_pair present e key st (forwarded_addr to_str parse hs addr) msg evs)
      else serve_pair present e key st addr msg evs)"

section \<open>What a session should do\<close>

text \<open>What an event carries, and what is to be copied: the non-empty chunks in the order they came.\<close>

fun chunk :: "relay_event \<Rightarrow> (side \<times> bytes) option" where
  "chunk (From_Peer (Some b)) = Some (To_Stream, b)"
| "chunk (From_Stream (Some b)) = Some (To_Peer, b)"
| "chunk ev = None"

definition chunks :: "relay_event list \<Rightarrow> (side \<times> bytes) list" where
  "chunks evs = List.map_filter chunk evs"

definition payload :: "relay_event list \<Rightarrow> (side \<times> bytes) list" where
  "payload evs = filter (\<lambda>(to, b). b \<noteq> []) (chunks evs)"

definition amounts :: "(limiter \<Rightarrow> bool) \<Rightarrow> (string \<times> limiter \<times> 64 word) list \<Rightarrow> 64 word list" where
  "amounts p ch = map (\<lambda>(n, l, nb). nb) (filter (\<lambda>(n, l, nb). p l) ch)"

lemma chunks_simps [simp]:
  "chunks [] = []" "chunks (ev # evs) = (case chunk ev of None \<Rightarrow> chunks evs | Some c \<Rightarrow> c # chunks evs)"
  by (simp_all add: chunks_def List.map_filter_simps split: option.splits)

lemma payload_simps [simp]:
  "payload [] = []"
  "payload (ev # evs) = (case chunk ev of None \<Rightarrow> payload evs
     | Some (to, b) \<Rightarrow> if b = [] then payload evs else (to, b) # payload evs)"
  by (simp_all add: payload_def split: option.splits prod.splits)

lemma amounts_simps [simp]:
  "amounts p [] = []" "amounts p (xs @ ys) = amounts p xs @ amounts p ys"
  "amounts p ((n, l, nb) # xs) = (if p l then nb # amounts p xs else amounts p xs)"
  by (simp_all add: amounts_def)

section \<open>Lemmas\<close>

text \<open>The parts of the state a session only reads, and its own row of the usage table.\<close>

definition same_lists :: "string \<Rightarrow> 'w relay_scheme \<Rightarrow> 'w relay_scheme \<Rightarrow> bool" where
  "same_lists name s s' \<longleftrightarrow> blocklist s' = blocklist s \<and> blacklist s' = blacklist s \<and> waiting s' = waiting s \<and>
     downgrade_start_check s' = downgrade_start_check s \<and>
     (\<forall>k. k \<noteq> name \<longrightarrow> map_of (usage s') k = map_of (usage s) k)"

lemma same_lists_refl [simp]: "same_lists name s s"
  by (simp add: same_lists_def)

lemma same_lists_trans: "same_lists name s t \<Longrightarrow> same_lists name t u \<Longrightarrow> same_lists name s u"
  by (simp add: same_lists_def)

definition limiter_of :: "flow \<Rightarrow> limiter" where
  "limiter_of fl = (if fl_blacked fl \<or> fl_downgrade fl then Blacklist_Limiter else Single_Limiter)"

lemma run_on_event:
  assumes "run_state (on_event e name ev fl) s = (r, s')"
  shows "same_lists name s s'"
    and "charged s' = charged s @ (case chunk ev of None \<Rightarrow> []
      | Some (to, b) \<Rightarrow> [(name, limiter_of fl, bits b), (name, Total_Limiter, bits b)])"
    and "\<exists>new. relayed s' = relayed s @ new \<and>
      (new = map (\<lambda>(to, b). (name, to, b)) (payload [ev]) \<or> new = [] \<and> r = Inl Send_Failed)"
    and "\<And>fl'. r = Inr fl' \<Longrightarrow> fl_downgrade fl' = fl_downgrade fl \<and> fl_blacked fl' = fl_blacked fl"
    and "r \<noteq> Inl Blocked"
  using assms
  by (auto simp: on_event_def forward_def charge_def send_raw_def limiter_of_def same_lists_def exec_simps Let_def
      split: relay_event.splits option.splits if_splits)

lemma run_account:
  assumes "run_state (account e name ip thr fl) s = (r, s')"
  shows "same_lists name s s'" and "charged s' = charged s" and "relayed s' = relayed s"
    and "\<And>fl'. r = Inr fl' \<Longrightarrow> fl_downgrade fl \<Longrightarrow> fl_downgrade fl'"
    and "\<And>x. r = Inl x \<Longrightarrow> x = Blocked \<and> ip \<in> set (blocklist s)"
    and "\<And>fl'. r = Inr fl' \<Longrightarrow> ip \<notin> set (blacklist s) \<Longrightarrow> fl_blacked fl' \<Longrightarrow> fl_blacked fl"
    and "\<And>fl'. r = Inr fl' \<Longrightarrow> downgrade_start_check s = - 1 \<Longrightarrow> fl_downgrade fl' \<Longrightarrow> fl_downgrade fl"
  using assms
  by (auto simp: account_def same_lists_def update_conv' exec_simps Let_def split: if_splits)

text \<open>The whole loop: what was copied and charged.\<close>

lemma relay_loop_log:
  assumes "run_state (relay_loop e name ip thr evs fl) s = (x, s')"
  shows "same_lists name s s' \<and> (\<exists>new ch. relayed s' = relayed s @ new \<and> charged s' = charged s @ ch \<and>
    prefix new (map (\<lambda>(to, b). (name, to, b)) (payload evs)) \<and>
    amounts (\<lambda>l. l = Total_Limiter) ch = amounts (\<lambda>l. l \<noteq> Total_Limiter) ch \<and>
    prefix (amounts (\<lambda>l. l = Total_Limiter) ch) (map (\<lambda>(to, b). bits b) (chunks evs)) \<and>
    (x = None \<longrightarrow> new = map (\<lambda>(to, b). (name, to, b)) (payload evs) \<and>
       amounts (\<lambda>l. l = Total_Limiter) ch = map (\<lambda>(to, b). bits b) (chunks evs)))"
  using assms
proof (induction evs arbitrary: fl s)
  case Nil
  then show ?case by (auto simp: exec_simps)
next
  case (Cons ev evs)
  obtain r s1 where ev: "run_state (on_event e name ev fl) s = (r, s1)" by (metis prod.collapse)
  note e1 = run_on_event [OF ev]
  obtain new where new: "relayed s1 = relayed s @ new"
    "new = map (\<lambda>(to, b). (name, to, b)) (payload [ev]) \<or> new = [] \<and> r = Inl Send_Failed" using e1(3) by blast
  let ?ch = "case chunk ev of None \<Rightarrow> []
      | Some (to, b) \<Rightarrow> [(name, limiter_of fl, bits b), (name, Total_Limiter, bits b)]"
  have l: "limiter_of fl \<noteq> Total_Limiter" by (simp add: limiter_of_def)
  show ?case
  proof (cases r)
    case (Inl y)
    then have "s' = s1" "x = Some y" using Cons.prems ev by (auto simp: exec_simps)
    with e1(1,2) new l show ?thesis
      by (intro conjI exI [of _ new] exI [of _ ?ch]) (auto split: option.splits)
  next
    case (Inr fl1)
    obtain r' s2 where acc: "run_state (account e name ip thr fl1) s1 = (r', s2)" by (metis prod.collapse)
    note a = run_account [OF acc]
    have step: "same_lists name s s2" "relayed s2 = relayed s @ map (\<lambda>(to, b). (name, to, b)) (payload [ev])"
      "charged s2 = charged s @ ?ch"
      using same_lists_trans [OF e1(1) a(1)] a(2,3) e1(2) new Inr by auto
    show ?thesis
    proof (cases r')
      case (Inl y)
      then have "s' = s2" "x = Some y" using Cons.prems ev Inr acc by (auto simp: exec_simps)
      with step l show ?thesis
        by (intro conjI exI [of _ "map (\<lambda>(to, b). (name, to, b)) (payload [ev])"] exI [of _ ?ch])
          (auto split: option.splits)
    next
      case (Inr fl2)
      then have "run_state (relay_loop e name ip thr evs fl2) s2 = (x, s')"
        using Cons.prems ev \<open>r = Inr fl1\<close> acc by (auto simp: exec_simps)
      from Cons.IH [OF this] obtain more ch where ih: "same_lists name s2 s'" "relayed s' = relayed s2 @ more"
        "charged s' = charged s2 @ ch" "prefix more (map (\<lambda>(to, b). (name, to, b)) (payload evs))"
        "amounts (\<lambda>l. l = Total_Limiter) ch = amounts (\<lambda>l. l \<noteq> Total_Limiter) ch"
        "prefix (amounts (\<lambda>l. l = Total_Limiter) ch) (map (\<lambda>(to, b). bits b) (chunks evs))"
        "x = None \<longrightarrow> more = map (\<lambda>(to, b). (name, to, b)) (payload evs) \<and>
          amounts (\<lambda>l. l = Total_Limiter) ch = map (\<lambda>(to, b). bits b) (chunks evs)"
        by blast
      with step l same_lists_trans [OF step(1) ih(1)] show ?thesis
        by (intro conjI exI [of _ "map (\<lambda>(to, b). (name, to, b)) (payload [ev]) @ more"] exI [of _ "?ch @ ch"])
          (auto split: option.splits)
    qed
  qed
qed

text \<open>
  A property \<open>K\<close> of the two flags that the accounting keeps decides which limiters are charged; and
  a session is ended by the block list only when its address is on it.
\<close>

lemma relay_loop_flags:
  assumes "run_state (relay_loop e name ip thr evs fl) s = (x, s')"
    and "K (fl_downgrade fl) (fl_blacked fl)"
    and K: "\<And>s1 fl fl' s2. same_lists name s0 s1 \<Longrightarrow> run_state (account e name ip thr fl) s1 = (Inr fl', s2) \<Longrightarrow>
      K (fl_downgrade fl) (fl_blacked fl) \<Longrightarrow> K (fl_downgrade fl') (fl_blacked fl')"
    and "same_lists name s0 s"
    and P: "P Total_Limiter" "\<And>fl. K (fl_downgrade fl) (fl_blacked fl) \<Longrightarrow> P (limiter_of fl)"
  shows "(\<exists>ch. charged s' = charged s @ ch \<and> (\<forall>(n, l, nb) \<in> set ch. P l)) \<and>
    (x = Some Blocked \<longrightarrow> ip \<in> set (blocklist s0))"
  using assms(1,2,4)
proof (induction evs arbitrary: fl s)
  case (Cons ev evs)
  obtain r s1 where ev: "run_state (on_event e name ev fl) s = (r, s1)" by (metis prod.collapse)
  note e1 = run_on_event [OF ev]
  obtain ch where ch: "charged s1 = charged s @ ch" "\<forall>(n, l, nb) \<in> set ch. P l"
    using e1(2) P(1) P(2) [OF Cons.prems(2)] by (cases "chunk ev") auto
  have l1: "same_lists name s0 s1" using Cons.prems(3) e1(1) by (rule same_lists_trans)
  show ?case
  proof (cases r)
    case (Inl y)
    with ch e1(5) Cons.prems(1) ev show ?thesis by (auto simp: exec_simps)
  next
    case (Inr fl1)
    obtain r' s2 where acc: "run_state (account e name ip thr fl1) s1 = (r', s2)" by (metis prod.collapse)
    note a = run_account [OF acc]
    have k1: "K (fl_downgrade fl1) (fl_blacked fl1)" using e1(4) [OF Inr] Cons.prems(2) by simp
    show ?thesis
    proof (cases r')
      case (Inl y)
      then have "s' = s2" "x = Some y" using Cons.prems(1) ev acc \<open>r = Inr fl1\<close> by (auto simp: exec_simps)
      then show ?thesis using ch a(2) a(5) [OF Inl] l1 by (auto simp: same_lists_def)
    next
      case (Inr fl2)
      then have run: "run_state (relay_loop e name ip thr evs fl2) s2 = (x, s')"
        using Cons.prems ev \<open>r = Inr fl1\<close> acc by (auto simp: exec_simps)
      have k2: "K (fl_downgrade fl2) (fl_blacked fl2)" using K [OF l1 _ k1] acc Inr by simp
      from Cons.IH [OF run k2 same_lists_trans [OF l1 a(1)]]
      obtain ch' where "charged s' = charged s2 @ ch'" "\<forall>(n, l, nb) \<in> set ch'. P l"
        and "x = Some Blocked \<longrightarrow> ip \<in> set (blocklist s0)" by blast
      then show ?thesis using ch a(2) by (intro conjI exI [of _ "ch @ ch'"]) auto
    qed
  qed
qed (auto simp: exec_simps)

text \<open>No dotted address is the text of an IPv6 address.\<close>

lemma digit_no_colon: "d < 16 \<Longrightarrow> digit_char d \<noteq> CHR '':''"
proof -
  have "\<forall>d \<in> set [0..<16]. digit_char d \<noteq> CHR '':''" by code_simp
  then show "d < 16 \<Longrightarrow> ?thesis" by simp
qed

lemma show_base_no_colon: "2 \<le> b \<Longrightarrow> b \<le> 16 \<Longrightarrow> CHR '':'' \<notin> set (show_base b n)"
proof (induction b n rule: show_base.induct)
  case (1 b n)
  have "digit_char n \<noteq> CHR '':''" if "n < b" using that 1(3) by (intro digit_no_colon) simp
  moreover have "n mod b < 16" using 1(2,3) by (meson less_le_trans mod_less_divisor not_numeral_le_zero order_less_le_trans pos2)
  ultimately show ?case using 1 digit_no_colon [of "n mod b"] by (subst show_base.simps) auto
qed

lemma show_v4_no_colon: "CHR '':'' \<notin> set (show_v4 a)"
  by (simp add: show_v4_def show_nat_def show_base_no_colon)

lemma mapped_text: "drop_bit 32 a = 65535 \<Longrightarrow> CHR '':'' \<in> set (show_ip (V6 a))"
  by (simp add: show_v6_def)


text \<open>The state a session writes, and whose records it adds.\<close>

definition session_frame :: "string \<Rightarrow> 'w relay_scheme \<Rightarrow> 'w relay_scheme \<Rightarrow> bool" where
  "session_frame name s s' \<longleftrightarrow>
     (\<exists>k u new ch. s' = s\<lparr>ticks := k, usage := u, relayed := relayed s @ map (Pair name) new,
        charged := charged s @ map (Pair name) ch\<rparr>)"

lemma session_frame_trans: "session_frame name s t \<Longrightarrow> session_frame name t u \<Longrightarrow> session_frame name s u"
proof -
  assume "session_frame name s t" and "session_frame name t u"
  then obtain k us new ch k' us' new' ch' where
    "t = s\<lparr>ticks := k, usage := us, relayed := relayed s @ map (Pair name) new, charged := charged s @ map (Pair name) ch\<rparr>"
    "u = t\<lparr>ticks := k', usage := us', relayed := relayed t @ map (Pair name) new', charged := charged t @ map (Pair name) ch'\<rparr>"
    unfolding session_frame_def by blast
  then have "u = s\<lparr>ticks := k', usage := us', relayed := relayed s @ map (Pair name) (new @ new'),
      charged := charged s @ map (Pair name) (ch @ ch')\<rparr>"
    by simp
  then show "session_frame name s u" unfolding session_frame_def by blast
qed

lemma session_frameI:
  "relayed s' = relayed s @ map (Pair name) new \<Longrightarrow> charged s' = charged s @ map (Pair name) ch \<Longrightarrow>
     s' = s\<lparr>ticks := ticks s', usage := usage s', relayed := relayed s', charged := charged s'\<rparr> \<Longrightarrow>
     session_frame name s s'"
  unfolding session_frame_def by metis

lemma session_frame_refl: "session_frame name s s"
  by (rule session_frameI [of _ _ _ "[]" "[]"]) simp_all

lemma on_event_frame:
  assumes "run_state (on_event e name ev fl) s = (r, s')"
  shows "session_frame name s s'"
proof -
  have "s' = s\<lparr>ticks := ticks s', usage := usage s', relayed := relayed s', charged := charged s'\<rparr>"
    using assms
    by (auto simp: on_event_def forward_def charge_def send_raw_def exec_simps Let_def
        split: relay_event.splits option.splits if_splits)
  moreover obtain new where "relayed s' = relayed s @ map (Pair name) new"
    using run_on_event(3) [OF assms] by (metis append_Nil2 cond_case_prod_eta list.map_disc_iff)
  moreover have "charged s' = charged s @ map (Pair name) (case chunk ev of None \<Rightarrow> []
      | Some (to, b) \<Rightarrow> [(limiter_of fl, bits b), (Total_Limiter, bits b)])"
    using run_on_event(2) [OF assms] by (auto split: option.splits)
  ultimately show ?thesis by (intro session_frameI)
qed

lemma account_frame:
  assumes "run_state (account e name ip thr fl) s = (r, s')"
  shows "session_frame name s s'"
  using assms
  by (intro session_frameI [of _ _ _ "[]" "[]"]) (auto simp: account_def exec_simps Let_def split: if_splits)

lemma relay_loop_frame:
  "run_state (relay_loop e name ip thr evs fl) s = (x, s') \<Longrightarrow> session_frame name s s'"
proof (induction evs arbitrary: fl s)
  case (Cons ev evs)
  obtain r s1 where ev: "run_state (on_event e name ev fl) s = (r, s1)" by (metis prod.collapse)
  note f1 = on_event_frame [OF ev]
  show ?case
  proof (cases r)
    case (Inl y)
    then show ?thesis using Cons.prems ev f1 by (auto simp: exec_simps)
  next
    case (Inr fl1)
    obtain r' s2 where acc: "run_state (account e name ip thr fl1) s1 = (r', s2)" by (metis prod.collapse)
    note f2 = session_frame_trans [OF f1 account_frame [OF acc]]
    show ?thesis
    proof (cases r')
      case (Inl y)
      then show ?thesis using Cons.prems ev Inr acc f2 by (auto simp: exec_simps)
    next
      case fl2: (Inr fl2)
      then have "run_state (relay_loop e name ip thr evs fl2) s2 = (x, s')"
        using Cons.prems ev Inr acc by (auto simp: exec_simps)
      then show ?thesis using session_frame_trans [OF f2] Cons.IH by blast
    qed
  qed
qed (auto simp: exec_simps session_frame_refl)

lemma relay_pair_frame:
  assumes "run_state (relay_pair e addr name evs) s = (x, s')"
  shows "session_frame name s s'"
proof -
  have "session_frame name s (s\<lparr>ticks := k\<rparr>)" for k
    by (rule session_frameI [of _ _ _ "[]" "[]"]) simp_all
  then show ?thesis using assms
    by (auto simp: relay_pair_def exec_simps dest!: relay_loop_frame intro: session_frame_trans)
qed

text \<open>The end of a session: the waiting stream was taken and the usage row is gone.\<close>

lemma serve_pair_clean:
  assumes "run_state (serve_pair present e key st addr msg evs) (d, s) = (Some x, (d', s'))"
  shows "map_of (usage s') (session_name addr) = None \<and>
    (\<forall>k. k \<noteq> session_name addr \<longrightarrow> map_of (usage s') k = map_of (usage s) k) \<and>
    (\<exists>rf. msg = Some (RequestRelay rf) \<and> map_of (waiting s) (rf_uuid rf) \<noteq> None \<and>
       waiting s' = remove_key (rf_uuid rf) (waiting s)) \<and>
    session_frame (session_name addr) (s\<lparr>waiting := waiting s'\<rparr>) s'"
proof -
  let ?name = "session_name addr"
  obtain r d1 s1 where mp: "run_state (make_pair present key st addr msg) (d, s) = (r, (d1, s1))"
    by (metis prod.collapse)
  obtain peer st' where r: "r = Paired peer st'"
    using assms mp by (cases r) (auto simp: serve_pair_def exec_simps)
  obtain u where ad: "fst (run_state (admission present key msg) d) = Some u" and j: "run_state (join u st addr) s = (r, s1)"
    using mp r by (auto simp: make_pair_def on_desk_def on_relay_def exec_simps split: option.splits prod.splits)
  obtain rf where rf: "msg = Some (RequestRelay rf)" "u = rf_uuid rf"
    using ad by (auto simp: admission_def exec_simps split: option.splits message.splits if_splits prod.splits)
  have u: "map_of (waiting s) u \<noteq> None"
    and s1: "s1 = s\<lparr>waiting := remove_key u (waiting s), usage := AList.update ?name (0, 0, 0, 0) (usage s)\<rparr>"
    using j r by (auto simp: join_def take_waiting_def park_def open_usage_def exec_simps split: option.splits)
  obtain s2 where run: "run_state (relay_pair e addr ?name evs) s1 = (Some x, s2)"
    and s': "s' = s2\<lparr>usage := remove_key ?name (usage s2)\<rparr>"
    using assms mp r
    by (auto simp: serve_pair_def on_relay_def close_usage_def exec_simps split: prod.splits if_splits)
  have w: "waiting s2 = waiting s1" and "\<forall>k. k \<noteq> ?name \<longrightarrow> map_of (usage s2) k = map_of (usage s1) k"
    using run by (auto simp: relay_pair_def same_lists_def exec_simps dest!: relay_loop_log)
  moreover have "session_frame ?name (s\<lparr>waiting := waiting s'\<rparr>) s'"
  proof -
    have "session_frame ?name (s\<lparr>waiting := waiting s'\<rparr>) s1"
      by (rule session_frameI [of _ _ _ "[]" "[]"]) (simp_all add: s1 s' w)
    moreover have "session_frame ?name s2 s'"
      by (rule session_frameI [of _ _ _ "[]" "[]"]) (simp_all add: s')
    ultimately show ?thesis using relay_pair_frame [OF run] session_frame_trans by blast
  qed
  ultimately show ?thesis using u s1 s' rf by (auto simp: update_conv')
qed

text \<open>The chunks a whole session hands on.\<close>

lemma relay_pair_copies:
  assumes "run_state (relay_pair e addr name evs) s = (x, s')"
  shows "\<exists>new. relayed s' = relayed s @ new \<and> prefix new (map (\<lambda>(to, b). (name, to, b)) (payload evs)) \<and>
    (x = None \<longrightarrow> new = map (\<lambda>(to, b). (name, to, b)) (payload evs)) \<and> waiting s' = waiting s \<and>
    (\<forall>k. k \<noteq> name \<longrightarrow> map_of (usage s') k = map_of (usage s) k)"
  using assms by (auto simp: relay_pair_def same_lists_def exec_simps dest!: relay_loop_log)

section \<open>Properties\<close>

text \<open>
  C12: A session copies: what it hands to the two sides is a prefix of the non-empty chunks it
  received, each unchanged, to the other side, and in the order they came; all of it while the
  session runs. Other sessions' records and the waiting streams stay as they are.
\<close>

theorem relay_refines_copying:
  assumes "run_state (relay_pair e addr name evs) s = (x, s')"
  shows "\<exists>new. relayed s' = relayed s @ new \<and> prefix new (map (\<lambda>(to, b). (name, to, b)) (payload evs)) \<and>
    (x = None \<longrightarrow> new = map (\<lambda>(to, b). (name, to, b)) (payload evs)) \<and> waiting s' = waiting s \<and>
    (\<forall>k. k \<noteq> name \<longrightarrow> map_of (usage s') k = map_of (usage s) k)"
  using relay_pair_copies [OF assms] .

lemma relay_refines_copying_witness:
  "\<exists>x s' new. run_state (relay_pair sample_relay_env (SockV4 5 6) ''c''
      [From_Peer (Some [1, 2]), From_Peer (Some []), From_Stream (Some [3])]) sample_relay = (x, s') \<and>
     prefix new [(''c'', To_Stream, [1, 2]), (''c'', To_Peer, [3])] \<and> relayed s' = new"
proof -
  let ?evs = "[From_Peer (Some [1, 2]), From_Peer (Some []), From_Stream (Some [3])]"
  obtain x s' where r: "run_state (relay_pair sample_relay_env (SockV4 5 6) ''c'' ?evs) sample_relay = (x, s')"
    by (metis prod.collapse)
  from relay_refines_copying [OF r] r show ?thesis by (auto simp: sample_relay_def)
qed

text \<open>
  Every chunk taken is charged once to the limiter of the session and once to the common
  one, with its length in bits, in order and before it is handed on.
\<close>

theorem every_chunk_charged:
  assumes "run_state (relay_pair e addr name evs) s = (x, s')"
  shows "\<exists>ch. charged s' = charged s @ ch \<and>
    amounts (\<lambda>l. l = Total_Limiter) ch = amounts (\<lambda>l. l \<noteq> Total_Limiter) ch \<and>
    prefix (amounts (\<lambda>l. l = Total_Limiter) ch) (map (\<lambda>(to, b). bits b) (chunks evs)) \<and>
    (x = None \<longrightarrow> amounts (\<lambda>l. l = Total_Limiter) ch = map (\<lambda>(to, b). bits b) (chunks evs))"
  using assms by (auto simp: relay_pair_def exec_simps dest!: relay_loop_log)

lemma every_chunk_charged_witness:
  "\<exists>x s' ch. run_state (relay_pair sample_relay_env (SockV4 5 6) ''c'' [From_Peer (Some [1, 2])]) sample_relay = (x, s') \<and>
     charged s' = ch \<and> prefix (amounts (\<lambda>l. l = Total_Limiter) ch) [16]"
proof -
  obtain x s' where r: "run_state (relay_pair sample_relay_env (SockV4 5 6) ''c'' [From_Peer (Some [1, 2])])
      sample_relay = (x, s')"
    by (metis prod.collapse)
  from every_chunk_charged [OF r] r show ?thesis by (auto simp: sample_relay_def bits_def)
qed

text \<open>
  A downgrade is final: whatever happens later in the session, its bytes are charged to the
  slow limiter, also when the address is taken off the blacklist.
\<close>

theorem downgrade_is_final:
  assumes "run_state (relay_loop e name ip thr evs fl) s = (x, s')" and "fl_downgrade fl"
  shows "\<exists>ch. charged s' = charged s @ ch \<and> (\<forall>(n, l, nb) \<in> set ch. l \<noteq> Single_Limiter)"
proof -
  have keep: "fl_downgrade fl'" if "same_lists name s s1"
    "run_state (account e name ip thr fl1) s1 = (Inr fl', s2)" "fl_downgrade fl1" for s1 fl1 fl' s2
    using run_account(4) [OF that(2) refl that(3)] .
  show ?thesis
    using relay_loop_flags [OF assms(1), of "\<lambda>d b. d" s "\<lambda>l. l \<noteq> Single_Limiter", OF assms(2) keep same_lists_refl]
    by (auto simp: limiter_of_def)
qed

definition sample_flow :: flow where
  "sample_flow = \<lparr>fl_tm = 0, fl_elapsed = 0, fl_total = 0, fl_total_s = 0, fl_highest = 0,
     fl_downgrade = True, fl_blacked = False, fl_last_recv = 0\<rparr>"

lemma downgrade_is_final_witness:
  "\<exists>x s'. run_state (relay_loop sample_relay_env ''c'' ''0.0.0.5'' 7 [From_Peer (Some [1]), From_Stream None]
      sample_flow) sample_relay = (x, s') \<and> (\<forall>(n, l, nb) \<in> set (charged s'). l \<noteq> Single_Limiter)"
proof -
  obtain x s' where r: "run_state (relay_loop sample_relay_env ''c'' ''0.0.0.5'' 7
      [From_Peer (Some [1]), From_Stream None] sample_flow) sample_relay = (x, s')"
    by (metis prod.collapse)
  have "fl_downgrade sample_flow" by (simp add: sample_flow_def)
  from downgrade_is_final [OF r this] r show ?thesis by (auto simp: sample_relay_def)
qed

text \<open>The state with nothing on the two lists.\<close>

definition no_lists :: "'w relay_scheme \<Rightarrow> 'w relay_scheme" where
  "no_lists s = s\<lparr>blocklist := [], blacklist := []\<rparr>"

lemma no_lists_simps [simp]:
  "ticks (no_lists s) = ticks s" "blocklist (no_lists s) = []" "blacklist (no_lists s) = []"
  "single_bandwidth (no_lists s) = single_bandwidth s" "downgrade_threshold_100 (no_lists s) = downgrade_threshold_100 s"
  "downgrade_start_check (no_lists s) = downgrade_start_check s" "usage (no_lists s) = usage s"
  "relayed (no_lists s) = relayed s" "charged (no_lists s) = charged s"
  "(no_lists s)\<lparr>ticks := k\<rparr> = no_lists (s\<lparr>ticks := k\<rparr>)" "(no_lists s)\<lparr>usage := u\<rparr> = no_lists (s\<lparr>usage := u\<rparr>)"
  "(no_lists s)\<lparr>relayed := r\<rparr> = no_lists (s\<lparr>relayed := r\<rparr>)" "(no_lists s)\<lparr>charged := c\<rparr> = no_lists (s\<lparr>charged := c\<rparr>)"
  by (simp_all add: no_lists_def)

lemma on_event_no_lists:
  "run_state (on_event e name ev fl) s = (r, s') \<Longrightarrow> run_state (on_event e name ev fl) (no_lists s) = (r, no_lists s')"
  by (auto simp: on_event_def forward_def charge_def send_raw_def exec_simps Let_def
      split: relay_event.splits option.splits if_splits)

lemma account_no_lists:
  "run_state (account e name ip thr fl) s = (r, s') \<Longrightarrow> ip \<notin> set (blocklist s) \<Longrightarrow> ip \<notin> set (blacklist s) \<Longrightarrow>
     run_state (account e name ip thr fl) (no_lists s) = (r, no_lists s')"
  by (auto simp: account_def exec_simps Let_def split: if_splits)

lemma session_frame_lists: "session_frame name s s' \<Longrightarrow> blocklist s' = blocklist s \<and> blacklist s' = blacklist s"
  by (auto simp: session_frame_def)

lemma relay_loop_no_lists:
  "run_state (relay_loop e name ip thr evs fl) s = (x, s') \<Longrightarrow> ip \<notin> set (blocklist s) \<Longrightarrow> ip \<notin> set (blacklist s) \<Longrightarrow>
     run_state (relay_loop e name ip thr evs fl) (no_lists s) = (x, no_lists s')"
proof (induction evs arbitrary: fl s)
  case (Cons ev evs)
  obtain r s1 where ev: "run_state (on_event e name ev fl) s = (r, s1)" by (metis prod.collapse)
  note n1 = on_event_no_lists [OF ev]
  have l1: "ip \<notin> set (blocklist s1)" "ip \<notin> set (blacklist s1)"
    using session_frame_lists [OF on_event_frame [OF ev]] Cons.prems(2,3) by simp_all
  show ?case
  proof (cases r)
    case (Inl y)
    then show ?thesis using Cons.prems(1) ev n1 by (auto simp: exec_simps)
  next
    case (Inr fl1)
    obtain r' s2 where acc: "run_state (account e name ip thr fl1) s1 = (r', s2)" by (metis prod.collapse)
    note n2 = account_no_lists [OF acc l1]
    have "ip \<notin> set (blocklist s2)" "ip \<notin> set (blacklist s2)"
      using session_frame_lists [OF account_frame [OF acc]] l1 by simp_all
    then show ?thesis using Cons.prems(1) Cons.IH ev n1 Inr acc n2
      by (auto simp: exec_simps split: sum.splits)
  qed
qed (auto simp: exec_simps)

text \<open>
  C39: The lists hold texts of IPv4 addresses, and \<open>handle_connection\<close> looks a client up by its IPv4
  text. The session itself looks up the text of the address as it was accepted. For an IPv4 client
  of a dual-stack listener, whose address is the mapped IPv6 one, that text is never on the lists:
  whatever they hold, also this very client's IPv4 address, its session runs exactly as with empty
  lists, with the same end, the same bytes copied and the same limiters charged.
\<close>

theorem mapped_address_escapes_lists:
  assumes "drop_bit 32 a = 65535" and "\<forall>t \<in> set (blocklist s) \<union> set (blacklist s). CHR '':'' \<notin> set t"
    and "run_state (relay_pair e (SockV6 a p f sc) name evs) s = (x, s')"
  shows "run_state (relay_pair e (SockV6 a p f sc) name evs) (s\<lparr>blocklist := [], blacklist := []\<rparr>) =
    (x, s'\<lparr>blocklist := [], blacklist := []\<rparr>)"
proof -
  have out: "show_ip (V6 a) \<notin> set (blocklist s)" "show_ip (V6 a) \<notin> set (blacklist s)"
    using assms(2) mapped_text [OF assms(1)] by blast+
  then have "run_state (relay_pair e (SockV6 a p f sc) name evs) (no_lists s) = (x, no_lists s')"
    using assms(3) by (auto simp: relay_pair_def exec_simps del: show_ip.simps dest!: relay_loop_no_lists)
  then show ?thesis by (simp add: no_lists_def)
qed

text \<open>
  A client whose IPv4 address is on both lists, with a clock that moves: the connection by IPv4 is
  dropped, and a session by the IPv4 address would be ended by the block list; the session by the
  mapped address goes on and is charged to the ordinary limiter.
\<close>

definition listed_relay :: relay where
  "listed_relay = sample_relay\<lparr>blocklist := [show_v4 5], blacklist := [show_v4 5]\<rparr>"

definition moving_relay_env :: relay_env where
  "moving_relay_env = sample_relay_env\<lparr>instant := (\<lambda>k. int k * 1000000000), relay_v4 := (\<lambda>_. SockV4 5 9)\<rparr>"

lemma mapped_address_escapes_lists_witness:
  "\<exists>x s'. run_state (relay_pair moving_relay_env (SockV6 (push_bit 32 65535 + 5) 9 0 0) ''c''
      [From_Peer (Some [1]), From_Stream (Some [2])]) listed_relay = (x, s') \<and>
     run_state (relay_pair moving_relay_env (SockV6 (push_bit 32 65535 + 5) 9 0 0) ''c''
      [From_Peer (Some [1]), From_Stream (Some [2])]) sample_relay = (x, s'\<lparr>blocklist := [], blacklist := []\<rparr>) \<and>
     fst (run_state (relay_pair moving_relay_env (SockV4 5 9) ''c''
      [From_Peer (Some [1]), From_Stream (Some [2])]) listed_relay) = Some Blocked \<and>
     fst (run_state (handle_connection moving_relay_env (SockV6 (push_bit 32 65535 + 5) 9 0 0) False) listed_relay) =
      Blocked_Address"
proof -
  let ?evs = "[From_Peer (Some [1]), From_Stream (Some [2])]"
  have a: "drop_bit 32 (push_bit 32 65535 + 5 :: 128 word) = 65535" by code_simp
  have l: "\<forall>t \<in> set (blocklist listed_relay) \<union> set (blacklist listed_relay). CHR '':'' \<notin> set t"
    by (simp add: listed_relay_def show_v4_no_colon)
  obtain x s' where r: "run_state (relay_pair moving_relay_env (SockV6 (push_bit 32 65535 + 5) 9 0 0) ''c'' ?evs)
      listed_relay = (x, s')"
    by (metis prod.collapse)
  have "listed_relay\<lparr>blocklist := [], blacklist := []\<rparr> = sample_relay" by (simp add: listed_relay_def sample_relay_def)
  moreover have "fst (run_state (relay_pair moving_relay_env (SockV4 5 9) ''c'' ?evs) listed_relay) = Some Blocked"
    by (simp add: relay_pair_def on_event_def forward_def charge_def send_raw_def account_def listed_relay_def
        moving_relay_env_def sample_relay_env_def sample_relay_def as_millis_def Let_def exec_simps)
  moreover have "\<not> is_loopback (V4 5)" by code_simp
  then have "fst (run_state (handle_connection moving_relay_env (SockV6 (push_bit 32 65535 + 5) 9 0 0) False)
      listed_relay) = Blocked_Address"
    by (simp add: handle_connection_def moving_relay_env_def listed_relay_def exec_simps)
  ultimately show ?thesis using mapped_address_escapes_lists [OF a l r] r by simp
qed

text \<open>
  Behind a reverse proxy the port is lost, so all WebSocket sessions from one address share one
  row of the usage table: when one of them ends, the row goes, although the others still run.
\<close>

theorem proxied_sessions_share_row:
  assumes "st_ws st" and "forwarded_addr to_str parse headers own \<noteq> own"
    and "run_state (open_pair present e to_str parse key (Some headers) st addr msg evs) (d, s) = (Some x, (d', s'))"
  shows "map_of (usage s') (session_name (forwarded_addr to_str parse headers other)) = None"
proof -
  have "forwarded_addr to_str parse headers addr = forwarded_addr to_str parse headers other"
    using forwarded_addr_cases [of to_str parse headers] assms(2) by auto
  moreover have "run_state (serve_pair present e key st (forwarded_addr to_str parse headers addr) msg evs) (d, s) = (Some x, (d', s'))"
    using assms(1,3) by (simp add: open_pair_def)
  ultimately show ?thesis using serve_pair_clean by metis
qed

lemma proxied_sessions_share_row_witness:
  "\<exists>d' s'. run_state (open_pair (\<lambda>tk u. State_Monad.return True) sample_relay_env Some (\<lambda>_. Some (SockV4 1 0)) ''''
      (Some (\<lambda>_. Some ''0.0.0.1'')) \<lparr>st_no = 2, st_ws = True, st_raw = False\<rparr> (SockV4 9 8)
      (Some (RequestRelay (relay_request ''t''))) [From_Stream None])
      ((), sample_relay\<lparr>waiting := [(''u'', \<lparr>st_no = 1, st_ws = True, st_raw = False\<rparr>)],
        usage := [(session_name (SockV4 1 0), (5000, 80, 0, 0))]\<rparr>) = (Some Closed, (d', s')) \<and>
     map_of (usage s') (session_name (SockV4 1 0)) = None"
proof -
  let ?s = "sample_relay\<lparr>waiting := [(''u'', \<lparr>st_no = 1, st_ws = True, st_raw = False\<rparr>)],
        usage := [(session_name (SockV4 1 0), (5000, 80, 0, 0))]\<rparr>"
  let ?run = "run_state (open_pair (\<lambda>tk u. State_Monad.return True) sample_relay_env Some (\<lambda>_. Some (SockV4 1 0)) ''''
      (Some (\<lambda>_. Some ''0.0.0.1'')) \<lparr>st_no = 2, st_ws = True, st_raw = False\<rparr> (SockV4 9 8)
      (Some (RequestRelay (relay_request ''t''))) [From_Stream None]) ((), ?s)"
  have f: "forwarded_addr Some (\<lambda>_. Some (SockV4 1 0)) (\<lambda>_. Some ''0.0.0.1'') a = SockV4 1 0" for a
    by (simp add: forwarded_addr_def)
  have "fst ?run = Some Closed"
    by (simp add: open_pair_def f serve_pair_def make_pair_def admission_def on_desk_def on_relay_def join_def
        take_waiting_def open_usage_def set_raw_def relay_pair_def on_event_def
        sample_relay_env_def sample_relay_def relay_request_def request_relay0_def exec_simps split: prod.splits)
  then obtain d' s' where r: "?run = (Some Closed, (d', s'))" by (metis prod.collapse)
  have "forwarded_addr Some (\<lambda>_. Some (SockV4 1 0)) (\<lambda>_. Some ''0.0.0.1'') (SockV4 9 8) \<noteq> SockV4 9 8" by (simp add: f)
  from proxied_sessions_share_row [OF _ this r, of "SockV4 7 7"] r show ?thesis by (auto simp: f)
qed

text \<open>
  C23: A session that ends leaves nothing behind: it was a \<open>RequestRelay\<close>, the stream that waited under
  exactly the uuid of the request was taken, and no other; its row of the usage table is gone and the
  other rows are as before; and the rest of the state is unchanged but for the clock and what the
  session has added, under its own name, to the records of bytes copied and charged.
\<close>

theorem session_cleans_up:
  assumes "run_state (serve_pair present e key st addr msg evs) (d, s) = (Some x, (d', s'))"
  shows "map_of (usage s') (session_name addr) = None \<and>
    (\<forall>k. k \<noteq> session_name addr \<longrightarrow> map_of (usage s') k = map_of (usage s) k) \<and>
    (\<exists>rf. msg = Some (RequestRelay rf) \<and> map_of (waiting s) (rf_uuid rf) \<noteq> None \<and>
       waiting s' = remove_key (rf_uuid rf) (waiting s)) \<and>
    (\<exists>new ch. s' = s\<lparr>ticks := ticks s', waiting := waiting s', usage := usage s',
       relayed := relayed s @ map (Pair (session_name addr)) new,
       charged := charged s @ map (Pair (session_name addr)) ch\<rparr>)"
proof -
  note c = serve_pair_clean [OF assms]
  obtain k us new ch where "s' = (s\<lparr>waiting := waiting s'\<rparr>)\<lparr>ticks := k, usage := us,
      relayed := relayed s @ map (Pair (session_name addr)) new,
      charged := charged s @ map (Pair (session_name addr)) ch\<rparr>"
    using c unfolding session_frame_def by auto
  then have "s' = s\<lparr>ticks := ticks s', waiting := waiting s', usage := usage s',
      relayed := relayed s @ map (Pair (session_name addr)) new,
      charged := charged s @ map (Pair (session_name addr)) ch\<rparr>"
    by (cases s') (cases s, simp)
  with c show ?thesis by blast
qed

lemma session_cleans_up_witness:
  "\<exists>d' s'. run_state (serve_pair (\<lambda>tk u. State_Monad.return True) sample_relay_env '''' \<lparr>st_no = 2, st_ws = False, st_raw = False\<rparr>
      (SockV4 5 6) (Some (RequestRelay (relay_request ''t''))) [From_Peer (Some [1]), From_Stream None])
      ((), sample_relay\<lparr>waiting := [(''u'', \<lparr>st_no = 1, st_ws = False, st_raw = False\<rparr>)]\<rparr>) = (Some Closed, (d', s')) \<and>
     map_of (usage s') (session_name (SockV4 5 6)) = None \<and> waiting s' = []"
proof -
  let ?s = "sample_relay\<lparr>waiting := [(''u'', \<lparr>st_no = 1, st_ws = False, st_raw = False\<rparr>)]\<rparr>"
  let ?run = "run_state (serve_pair (\<lambda>tk u. State_Monad.return True) sample_relay_env ''''
      \<lparr>st_no = 2, st_ws = False, st_raw = False\<rparr> (SockV4 5 6) (Some (RequestRelay (relay_request ''t'')))
      [From_Peer (Some [1]), From_Stream None]) ((), ?s)"
  have "fst ?run = Some Closed"
    by (simp add: serve_pair_def make_pair_def admission_def on_desk_def on_relay_def join_def take_waiting_def
        open_usage_def set_raw_def relay_pair_def on_event_def forward_def charge_def send_raw_def account_def
        sample_relay_env_def sample_relay_def relay_request_def request_relay0_def as_millis_def Let_def exec_simps
        split: prod.splits)
  then obtain d' s' where r: "?run = (Some Closed, (d', s'))" by (metis prod.collapse)
  from session_cleans_up [OF r] have "map_of (usage s') (session_name (SockV4 5 6)) = None"
    and "waiting s' = remove_key ''u'' (waiting ?s)"
    by (auto simp: relay_request_def request_relay0_def)
  then show ?thesis using r by (auto simp: remove_key_def split: if_splits)
qed

text \<open>The time of the last receive is a reading of the clock the session has made.\<close>

definition read_at :: "'e env_scheme \<Rightarrow> flow \<Rightarrow> nat \<Rightarrow> bool" where
  "read_at e fl k \<longleftrightarrow> (\<exists>j \<le> k. fl_last_recv fl = instant e j)"

lemma last_recv_on_event:
  "run_state (on_event e name ev fl) s = (Inr fl', s') \<Longrightarrow>
     (fl_last_recv fl' = fl_last_recv fl \<or> fl_last_recv fl' = instant e (ticks s)) \<and> ticks s \<le> ticks s'"
  by (auto simp: on_event_def forward_def charge_def send_raw_def exec_simps Let_def
      split: relay_event.splits option.splits if_splits)

lemma last_recv_account:
  "run_state (account e name ip thr fl) s = (Inr fl', s') \<Longrightarrow> fl_last_recv fl' = fl_last_recv fl \<and> ticks s \<le> ticks s'"
  by (auto simp: account_def exec_simps Let_def split: if_splits)

lemma read_at_step:
  assumes "run_state (on_event e name ev fl) s = (Inr fl1, s1)" and "run_state (account e name ip thr fl1) s1 = (Inr fl2, s2)"
    and "read_at e fl (ticks s)"
  shows "read_at e fl2 (ticks s2)"
  using last_recv_on_event [OF assms(1)] last_recv_account [OF assms(2)] assms(3)
  unfolding read_at_def by (metis order_trans)

lemma relay_loop_timers:
  assumes "\<forall>k \<ge> ticks s + n. instant e k \<ge> fl_last_recv fl + 31000000000" and "n < m"
  shows "fst (run_state (relay_loop e name ip thr (replicate m Timer) fl) s) \<noteq> None"
  using assms
proof (induction m arbitrary: s n fl)
  case (Suc m)
  show ?case
  proof (cases "as_secs (nat (instant e (ticks s) - fl_last_recv fl)) > 30")
    case True
    then show ?thesis by (simp add: on_event_def exec_simps)
  next
    case False
    have "as_secs (nat (instant e (ticks s) - fl_last_recv fl)) \<ge> 31000000000 div 1000000000" if "n = 0"
      unfolding as_secs_def using Suc.prems(1) [rule_format, of "ticks s"] that by (intro div_le_mono) simp
    with False obtain n' where n: "n = Suc n'" by (cases n) auto
    let ?s = "s\<lparr>ticks := Suc (ticks s)\<rparr>"
    obtain r s' where a: "run_state (account e name ip thr fl) ?s = (r, s')" by (metis prod.collapse)
    show ?thesis
    proof (cases r)
      case (Inl x)
      with a False show ?thesis by (simp add: on_event_def exec_simps)
    next
      case (Inr fl')
      have "fl_last_recv fl' = fl_last_recv fl \<and> ticks ?s \<le> ticks s'"
        using last_recv_account a Inr by blast
      then have "fst (run_state (relay_loop e name ip thr (replicate m Timer) fl') s') \<noteq> None"
        using Suc.prems n by (intro Suc.IH [of s' n']) auto
      with a Inr False show ?thesis by (simp add: on_event_def exec_simps)
    qed
  qed
qed simp

lemma relay_loop_silent:
  assumes "\<forall>j. \<forall>k \<ge> j + n. instant e k \<ge> instant e j + 31000000000" and "n < m" and "read_at e fl (ticks s)"
  shows "fst (run_state (relay_loop e name ip thr (evs @ replicate m Timer) fl) s) \<noteq> None"
  using assms(3)
proof (induction evs arbitrary: s fl)
  case Nil
  then obtain j where "j \<le> ticks s" "fl_last_recv fl = instant e j" by (auto simp: read_at_def)
  then have "\<forall>k \<ge> ticks s + n. instant e k \<ge> fl_last_recv fl + 31000000000" using assms(1) by auto
  then show ?case using relay_loop_timers assms(2) by simp
next
  case (Cons ev evs)
  obtain r s1 where ev: "run_state (on_event e name ev fl) s = (r, s1)" by (metis prod.collapse)
  show ?case
  proof (cases r)
    case (Inr fl1)
    obtain r' s2 where a: "run_state (account e name ip thr fl1) s1 = (r', s2)" by (metis prod.collapse)
    show ?thesis
    proof (cases r')
      case fl2: (Inr fl2)
      have "read_at e fl2 (ticks s2)"
        using read_at_step ev a Inr fl2 Cons.prems by blast
      then show ?thesis using Cons.IH ev a Inr fl2 by (simp add: exec_simps)
    qed (use ev a Inr in \<open>simp add: exec_simps\<close>)
  qed (use ev in \<open>simp add: exec_simps\<close>)
qed

text \<open>
  C22: No session outlives its two ends: whatever has been relayed before, when nothing is received
  any more while the timer goes on ticking and the clock passes half a minute, the loop ends.
\<close>

theorem silent_session_ends:
  assumes "\<forall>j. \<forall>k \<ge> j + n. instant e k \<ge> instant e j + 31000000000" and "n < m"
  shows "fst (run_state (relay_pair e addr name (evs @ replicate m Timer)) s) \<noteq> None"
proof -
  let ?fl = "\<lparr>fl_tm = instant e (ticks s), fl_elapsed = 0, fl_total = 0, fl_total_s = 0, fl_highest = 0,
    fl_downgrade = False, fl_blacked = False, fl_last_recv = instant e (Suc (ticks s))\<rparr>"
  let ?s = "s\<lparr>ticks := Suc (Suc (ticks s))\<rparr>"
  have "read_at e ?fl (ticks ?s)" unfolding read_at_def by (rule exI [of _ "Suc (ticks s)"]) simp
  from relay_loop_silent [OF assms this] show ?thesis by (simp add: relay_pair_def exec_simps)
qed

lemma silent_session_ends_witness:
  "fst (run_state (relay_pair (sample_relay_env\<lparr>instant := (\<lambda>k. int k * 1000000000)\<rparr>) (SockV4 1 1) ''n''
     ([From_Peer (Some [1]), Timer] @ replicate 40 Timer)) sample_relay) \<noteq> None"
  by (rule silent_session_ends [of 31]) simp_all

end
