(* ===== verification/RelayConsole.thy ===== *)
theory RelayConsole
  imports RelayLoop Args HubConsole "HOL-Library.Multiset"
begin

text \<open>
  The settings of hbbr: \<open>check_params\<close>, the two list files and the ports of \<open>start_with_bind\<close>
  (src/relay_server/mod.rs), and the console \<open>check_cmd\<close> of console.rs. \<open>total_limit\<close> is the speed of the
  limiter that all sessions share. An answer is a list of pieces: text, or a number that is still
  to be printed, with \<open>Display\<close> or with two decimals.
\<close>

datatype piece = Txt string | Num f64 | Fixed2 f64

record relay_node = relay +
  total_limit :: f64

section \<open>Settings\<close>

definition mega :: "f64 \<Rightarrow> 64 word" where
  "mega v = as_usize (mul_by (mul_by v 1024) 1024)"

definition set_threshold :: "f64 \<Rightarrow> ('w relay_scheme, unit) state" where
  "set_threshold v = (if is_positive v
     then modify (\<lambda>s. s\<lparr>downgrade_threshold_100 := as_usize (mul_by v 100)\<rparr>) else State_Monad.return ())"

definition set_start_check :: "nat \<Rightarrow> ('w relay_scheme, unit) state" where
  "set_start_check v = (if v > 0
     then modify (\<lambda>s. s\<lparr>downgrade_start_check := of_nat v * 1000\<rparr>) else State_Monad.return ())"

definition set_limit_speed :: "f64 \<Rightarrow> ('w relay_scheme, unit) state" where
  "set_limit_speed v = (if is_positive v
     then modify (\<lambda>s. s\<lparr>limit_speed := mega v\<rparr>) else State_Monad.return ())"

definition set_total :: "f64 \<Rightarrow> ('w relay_scheme, unit) state" where
  "set_total v = (if is_positive v
     then modify (\<lambda>s. s\<lparr>total_bandwidth := mega v\<rparr>) else State_Monad.return ())"

definition set_single :: "f64 \<Rightarrow> ('w relay_scheme, unit) state" where
  "set_single v = (if is_positive v
     then modify (\<lambda>s. s\<lparr>single_bandwidth := mega v\<rparr>) else State_Monad.return ())"

text \<open>\<open>check_params\<close>; what does not parse counts as zero and sets nothing.\<close>

definition float_arg :: "'c case_env_scheme \<Rightarrow> environment \<Rightarrow> string \<Rightarrow> f64" where
  "float_arg c en name = (case parse_f64 (get_arg c name en) of Some v \<Rightarrow> v | None \<Rightarrow> Finite 0)"

definition check_params :: "'c case_env_scheme \<Rightarrow> environment \<Rightarrow> ('w relay_scheme, unit) state" where
  "check_params c en = do {
     set_threshold (float_arg c en ''DOWNGRADE_THRESHOLD'');
     set_start_check (case parse_unsigned 64 (get_arg c ''DOWNGRADE_START_CHECK'' en) of Some v \<Rightarrow> v | None \<Rightarrow> 0);
     set_limit_speed (float_arg c en ''LIMIT_SPEED'');
     set_total (float_arg c en ''TOTAL_BANDWIDTH'');
     set_single (float_arg c en ''SINGLE_BANDWIDTH'')
   }"

text \<open>The start of the accept loop: a new common limiter.\<close>

definition open_limiter :: "'c case_env_scheme \<Rightarrow> environment \<Rightarrow> ('w relay_node_scheme, unit) state" where
  "open_limiter c en = do {
     check_params c en;
     modify (\<lambda>s. s\<lparr>total_limit := f64_of_usize (total_bandwidth s)\<rparr>)
   }"

section \<open>The address lists\<close>

definition hs_insert :: "'a \<Rightarrow> 'a list \<Rightarrow> 'a list" where
  "hs_insert x xs = (if x \<in> set xs then xs else xs @ [x])"

definition add_all :: "string list \<Rightarrow> string list \<Rightarrow> string list" where
  "add_all ips xs = fold hs_insert ips xs"

definition remove_all :: "string list \<Rightarrow> string list \<Rightarrow> string list" where
  "remove_all ips xs = fold (\<lambda>ip. filter (\<lambda>x. x \<noteq> ip)) ips xs"

text \<open>A list file: the first word of each line, also of an empty one.\<close>

definition list_entries :: "string \<Rightarrow> string list" where
  "list_entries contents = map (\<lambda>line. hd (split_on (CHR '' '') (trim line))) (split_on (CHR 0x0A) contents)"

text \<open>
  The files, \<open>None\<close> when absent or unreadable, and the ports; an error is that of the port's text.
\<close>

definition start_lists ::
  "string option \<Rightarrow> string option \<Rightarrow> string \<Rightarrow> ('w relay_scheme, string + 16 word \<times> 16 word) state" where
  "start_lists black block port = do {
     (case black of None \<Rightarrow> State_Monad.return ()
      | Some t \<Rightarrow> modify (\<lambda>s. s\<lparr>blacklist := add_all (list_entries t) (blacklist s)\<rparr>));
     (case block of None \<Rightarrow> State_Monad.return ()
      | Some t \<Rightarrow> modify (\<lambda>s. s\<lparr>blocklist := add_all (list_entries t) (blocklist s)\<rparr>));
     State_Monad.return (case parse_unsigned 16 port of
         None \<Rightarrow> Inl ''invalid port''
       | Some n \<Rightarrow> Inr (of_nat n, of_nat n + 2))
   }"

section \<open>The console\<close>

definition relay_help :: string where
  "relay_help = concat (map (\<lambda>l. l @ newline)
     [''blacklist-add(ba) <ip>'', ''blacklist-remove(br) <ip>'', ''blacklist(b) <ip>'',
      ''blocklist-add(Ba) <ip>'', ''blocklist-remove(Br) <ip>'', ''blocklist(B) <ip>'',
      ''downgrade-threshold(dt) [value]'', ''downgrade-start-check(t) [value(second)]'',
      ''limit-speed(ls) [value(Mb/s)]'', ''total-bandwidth(tb) [value(Mb/s)]'',
      ''single-bandwidth(sb) [value(Mb/s)]'', ''usage(u)''])"

definition pieces_of :: "string list \<Rightarrow> piece list" where
  "pieces_of lines = map (\<lambda>l. Txt (l @ newline)) lines"

definition show_bool :: "bool \<Rightarrow> string" where
  "show_bool b = (if b then ''true'' else ''false'')"

definition cmd_list_add ::
  "((string list \<Rightarrow> string list) \<Rightarrow> 'w relay_scheme \<Rightarrow> 'w relay_scheme) \<Rightarrow> string list \<Rightarrow> ('w relay_scheme, piece list) state" where
  "cmd_list_add update args = (case args of
       [] \<Rightarrow> State_Monad.return []
     | ips # _ \<Rightarrow> do {
         modify (update (add_all (split_on (CHR ''|'') ips)));
         State_Monad.return []
       })"

definition cmd_list_remove ::
  "((string list \<Rightarrow> string list) \<Rightarrow> 'w relay_scheme \<Rightarrow> 'w relay_scheme) \<Rightarrow> string list \<Rightarrow> ('w relay_scheme, piece list) state" where
  "cmd_list_remove update args = (case args of
       [] \<Rightarrow> State_Monad.return []
     | ips # _ \<Rightarrow> do {
         modify (update (if ips = ''all'' then (\<lambda>_. []) else remove_all (split_on (CHR ''|'') ips)));
         State_Monad.return []
       })"

definition cmd_list_show :: "('w relay_scheme \<Rightarrow> string list) \<Rightarrow> string list \<Rightarrow> ('w relay_scheme, piece list) state" where
  "cmd_list_show get args = do {
     xs \<leftarrow> gets get;
     State_Monad.return (case args of
         ip # _ \<Rightarrow> pieces_of [show_bool (ip \<in> set xs)]
       | [] \<Rightarrow> pieces_of xs)
   }"

text \<open>A setting: with an argument that parses it is set, without one it is shown.\<close>

definition cmd_float ::
  "(f64 \<Rightarrow> ('w, unit) state) \<Rightarrow> ('w, piece list) state \<Rightarrow> string list \<Rightarrow> ('w, piece list) state" where
  "cmd_float set_to show_it args = (case args of
       [] \<Rightarrow> show_it
     | v # _ \<Rightarrow> (case parse_f64 v of
           None \<Rightarrow> State_Monad.return []
         | Some x \<Rightarrow> do { set_to x; State_Monad.return [] }))"

definition show_mega :: "64 word \<Rightarrow> piece list" where
  "show_mega w = [Num (div_by (div_by (f64_of_usize w) 1024) 1024), Txt (''Mb/s'' @ newline)]"

definition cmd_start_check :: "string list \<Rightarrow> ('w relay_scheme, piece list) state" where
  "cmd_start_check args = (case args of
       [] \<Rightarrow> do {
         w \<leftarrow> gets downgrade_start_check;
         State_Monad.return [Txt (show_nat (unat (w div 1000)) @ ''s'' @ newline)]
       }
     | v # _ \<Rightarrow> (case parse_unsigned 64 v of
           None \<Rightarrow> State_Monad.return []
         | Some n \<Rightarrow> do { set_start_check n; State_Monad.return [] }))"

text \<open>Setting the total bandwidth also sets the speed of the limiter in use.\<close>

definition set_total_now :: "f64 \<Rightarrow> ('w relay_node_scheme, unit) state" where
  "set_total_now v = (if is_positive v then do {
       set_total v;
       modify (\<lambda>s. s\<lparr>total_limit := f64_of_usize (total_bandwidth s)\<rparr>)
     } else State_Monad.return ())"

text \<open>
  The usage table, the largest total first; the sort is stable, and rows without a full second are
  left out.
\<close>

definition usage_order :: "(string \<times> usage_row) list \<Rightarrow> (string \<times> usage_row) list" where
  "usage_order rows = sort_key (\<lambda>(_, (_, total, _, _)). - int (unat total)) rows"

definition usage_line :: "string \<times> usage_row \<Rightarrow> piece list" where
  "usage_line = (\<lambda>(name, (ms, total, highest, speed)).
     [Txt (name @ '': '' @ show_nat (unat (ms div 1000)) @ ''s ''),
      Fixed2 (div_by (div_by (div_by (f64_of_usize total) 1024) 1024) 8),
      Txt (''MB '' @ show_nat (unat highest) @ ''kb/s '' @ show_nat (unat (total div ms)) @ ''kb/s '' @
        show_nat (unat speed) @ ''kb/s'' @ newline)])"

definition cmd_usage :: "('w relay_scheme, piece list) state" where
  "cmd_usage = do {
     rows \<leftarrow> gets usage;
     State_Monad.return (concat (map usage_line (filter (\<lambda>(_, (ms, _)). ms \<noteq> 0) (usage_order rows))))
   }"

definition relay_check_cmd :: "string \<Rightarrow> ('w relay_node_scheme, piece list) state" where
  "relay_check_cmd cmd = (
     let fds = split_on (CHR '' '') (trim cmd); c = hd fds; args = tl fds in
     if c = ''h'' then State_Monad.return [Txt relay_help]
     else if c = ''blacklist-add'' \<or> c = ''ba'' then cmd_list_add blacklist_update args
     else if c = ''blacklist-remove'' \<or> c = ''br'' then cmd_list_remove blacklist_update args
     else if c = ''blacklist'' \<or> c = ''b'' then cmd_list_show blacklist args
     else if c = ''blocklist-add'' \<or> c = ''Ba'' then cmd_list_add blocklist_update args
     else if c = ''blocklist-remove'' \<or> c = ''Br'' then cmd_list_remove blocklist_update args
     else if c = ''blocklist'' \<or> c = ''B'' then cmd_list_show blocklist args
     else if c = ''downgrade-threshold'' \<or> c = ''dt'' then
       cmd_float set_threshold (do {
         w \<leftarrow> gets downgrade_threshold_100;
         State_Monad.return [Num (div_by (f64_of_usize w) 100), Txt newline]
       }) args
     else if c = ''downgrade-start-check'' \<or> c = ''t'' then cmd_start_check args
     else if c = ''limit-speed'' \<or> c = ''ls'' then
       cmd_float set_limit_speed (do { w \<leftarrow> gets limit_speed; State_Monad.return (show_mega w) }) args
     else if c = ''total-bandwidth'' \<or> c = ''tb'' then
       cmd_float set_total_now (do { w \<leftarrow> gets total_bandwidth; State_Monad.return (show_mega w) }) args
     else if c = ''single-bandwidth'' \<or> c = ''sb'' then
       cmd_float set_single (do { w \<leftarrow> gets single_bandwidth; State_Monad.return (show_mega w) }) args
     else if c = ''usage'' \<or> c = ''u'' then cmd_usage
     else State_Monad.return [])"


section \<open>Lemmas\<close>

lemma set_add_all [simp]: "set (add_all ips xs) = set xs \<union> set ips"
  by (induction ips arbitrary: xs) (auto simp: add_all_def hs_insert_def)

lemma set_remove_all [simp]: "set (remove_all ips xs) = set xs - set ips"
  by (induction ips arbitrary: xs) (auto simp: remove_all_def)

lemma mset_usage_order: "mset (usage_order rows) = mset rows"
  by (simp add: usage_order_def)

text \<open>The common limiter runs at the configured total bandwidth.\<close>

definition limit_ok :: "'w relay_node_scheme \<Rightarrow> bool" where
  "limit_ok s \<longleftrightarrow> total_limit s = f64_of_usize (total_bandwidth s)"

lemma limit_ok_modify:
  "(\<And>s. total_limit (f s) = total_limit s \<and> total_bandwidth (f s) = total_bandwidth s) \<Longrightarrow>
     preserves limit_ok (modify f)"
  by (rule preserves_modify) (simp add: limit_ok_def)

lemma limit_ok_settings:
  "preserves limit_ok (set_threshold v)" "preserves limit_ok (set_start_check n)"
  "preserves limit_ok (set_limit_speed v)" "preserves limit_ok (set_single v)"
  "preserves limit_ok (set_total_now v)"
proof -
  show "preserves limit_ok (set_threshold v)" "preserves limit_ok (set_start_check n)"
    "preserves limit_ok (set_limit_speed v)" "preserves limit_ok (set_single v)"
    unfolding set_threshold_def set_start_check_def set_limit_speed_def set_single_def
    by (intro preserves_intros limit_ok_modify; simp)+
  show "preserves limit_ok (set_total_now v)"
    by (rule preservesI) (auto simp: set_total_now_def set_total_def limit_ok_def exec_simps)
qed

lemma limit_ok_float:
  "(\<And>x. preserves I (set_to x)) \<Longrightarrow> preserves I show_it \<Longrightarrow> preserves I (cmd_float set_to show_it args)"
  unfolding cmd_float_def by (auto split: list.splits option.splits intro!: preserves_intros)

lemma limit_ok_console: "preserves limit_ok (relay_check_cmd cmd)"
proof -
  have lists: "preserves limit_ok (cmd_list_add blacklist_update args)"
    "preserves limit_ok (cmd_list_add blocklist_update args)"
    "preserves limit_ok (cmd_list_remove blacklist_update args)"
    "preserves limit_ok (cmd_list_remove blocklist_update args)"
    "preserves limit_ok (cmd_list_show get args)" for args get
    unfolding cmd_list_add_def cmd_list_remove_def cmd_list_show_def
    by (auto split: list.splits intro!: preserves_intros limit_ok_modify)
  have check: "preserves limit_ok (cmd_start_check args)" for args
    unfolding cmd_start_check_def
    by (auto split: list.splits option.splits intro!: preserves_intros limit_ok_settings)
  have usage: "preserves limit_ok cmd_usage"
    unfolding cmd_usage_def by (intro preserves_intros)
  note floats = limit_ok_float [OF limit_ok_settings(1)] limit_ok_float [OF limit_ok_settings(3)]
    limit_ok_float [OF limit_ok_settings(4)] limit_ok_float [OF limit_ok_settings(5)]
  show ?thesis
    unfolding relay_check_cmd_def Let_def
    by (intro preserves_if lists check usage floats preserves_bind preserves_gets preserves_return)
qed

section \<open>Properties\<close>

definition sample_node :: relay_node where
  "sample_node = relay.extend sample_relay \<lparr>total_limit = Finite 1073741824\<rparr>"

text \<open>
  Whatever is typed at the console, the limiter all sessions share runs at the configured total
  bandwidth, from the start of the accept loop on.
\<close>

theorem shared_limit_follows_setting:
  assumes "run_state (open_limiter c en) s0 = (u, s1)"
    and "run_state (foldl (\<lambda>m cmd. m \<bind> (\<lambda>_. relay_check_cmd cmd)) (State_Monad.return []) cmds) s1 = (ps, s2)"
  shows "total_limit s2 = f64_of_usize (total_bandwidth s2)"
proof -
  have "limit_ok s1" using assms(1) by (auto simp: open_limiter_def limit_ok_def exec_simps split: prod.splits)
  moreover have "preserves limit_ok (foldl (\<lambda>m cmd. m \<bind> (\<lambda>_. relay_check_cmd cmd)) m cmds)"
    if "preserves limit_ok m" for m :: "('a relay_node_scheme, piece list) state"
    using that
  proof (induction cmds arbitrary: m)
    case (Cons cmd cmds)
    from Cons.IH [OF preserves_bind [OF Cons.prems limit_ok_console]] show ?case by simp
  qed simp
  moreover have "preserves limit_ok (State_Monad.return [] :: ('a relay_node_scheme, piece list) state)"
    by (rule preserves_return)
  ultimately have "limit_ok s2" using preservesD_run [OF _ assms(2)] by blast
  then show ?thesis by (simp add: limit_ok_def)
qed

lemma shared_limit_follows_setting_witness:
  "\<exists>s1 ps s2. run_state (open_limiter sample_case []) sample_node = ((), s1) \<and>
     run_state (foldl (\<lambda>m cmd. m \<bind> (\<lambda>_. relay_check_cmd cmd)) (State_Monad.return []) [''tb 8'', ''usage'']) s1 = (ps, s2) \<and>
     total_limit s2 = f64_of_usize (total_bandwidth s2)"
proof -
  let ?m = "foldl (\<lambda>m cmd. m \<bind> (\<lambda>_. relay_check_cmd cmd)) (State_Monad.return []) [''tb 8'', ''usage'']
    :: (relay_node, piece list) state"
  obtain s1 where a: "run_state (open_limiter sample_case []) sample_node = ((), s1)"
    by (metis prod.collapse unit.exhaust)
  obtain ps s2 where b: "run_state ?m s1 = (ps, s2)" by (metis prod.collapse)
  from shared_limit_follows_setting [OF a b] a b show ?thesis by blast
qed

text \<open>
  An address is refused from the moment it is put on the block list until it is taken off: after
  \<open>Ba\<close> every connection from one of the named addresses is dropped, and \<open>Br\<close> with the same
  argument takes exactly these names off again.
\<close>

theorem blocked_until_removed:
  assumes "run_state (cmd_list_add blocklist_update (ips # rest)) s = (ps, s1)"
    and "show_ip (sock_ip (relay_v4 e addr)) \<in> set (split_on (CHR ''|'') ips)"
    and "ws \<or> \<not> is_loopback (sock_ip (relay_v4 e addr))"
    and "run_state (cmd_list_remove blocklist_update (ips # rest)) s1 = (ps', s2)" and "ips \<noteq> ''all''"
  shows "fst (run_state (handle_connection e addr ws) s1) = Blocked_Address \<and>
    set (blocklist s2) = set (blocklist s) - set (split_on (CHR ''|'') ips) \<and> blacklist s2 = blacklist s \<and>
    fst (run_state (handle_connection e addr ws) s2) = To_Pair"
proof -
  have "set (blocklist s1) = set (blocklist s) \<union> set (split_on (CHR ''|'') ips)" "blacklist s1 = blacklist s"
    using assms(1) by (auto simp: cmd_list_add_def exec_simps)
  moreover have "set (blocklist s2) = set (blocklist s1) - set (split_on (CHR ''|'') ips)" "blacklist s2 = blacklist s1"
    using assms(4,5) by (auto simp: cmd_list_remove_def exec_simps)
  ultimately show ?thesis
    using assms(2,3) by (auto simp: handle_connection_def exec_simps Let_def)
qed

lemma blocked_until_removed_witness:
  "fst (run_state (handle_connection sample_relay_env (SockV4 0 7) True)
     (sample_relay\<lparr>blocklist := [''0.0.0.0'', ''x'']\<rparr>)) = Blocked_Address"
proof -
  let ?s1 = "sample_relay\<lparr>blocklist := [''0.0.0.0'', ''x'']\<rparr>" and ?ips = "''0.0.0.0|x''"
  have sp: "split_on (CHR ''|'') ?ips = [''0.0.0.0'', ''x'']" by simp
  have a: "run_state (cmd_list_add blocklist_update [?ips]) sample_relay = ([], ?s1)"
    by (simp add: cmd_list_add_def sp add_all_def hs_insert_def sample_relay_def exec_simps)
  obtain ps' s2 where b: "run_state (cmd_list_remove blocklist_update [?ips]) ?s1 = (ps', s2)" by (metis prod.collapse)
  have "show_ip (sock_ip (relay_v4 sample_relay_env (SockV4 0 7))) \<in> set (split_on (CHR ''|'') ?ips)"
    by (simp add: sample_relay_env_def show_v4_def show_nat_def show_base.simps digit_char_def)
  from blocked_until_removed [OF a this _ b, of True] show ?thesis by simp
qed

text \<open>
  \<open>usage\<close> prints exactly the sessions that have been counted for at least a millisecond, one
  after the other, those with more bits first.
\<close>

theorem usage_lists_sessions_by_volume:
  assumes "run_state cmd_usage s = (ps, s')"
  shows "s' = s \<and> (\<exists>rows. ps = concat (map usage_line rows) \<and>
    mset rows = filter_mset (\<lambda>(name, (ms, _)). ms \<noteq> 0) (mset (usage s)) \<and>
    sorted_wrt (\<lambda>(_, (_, a, _, _)) (_, (_, b, _, _)). b \<le> a) rows)"
proof -
  let ?p = "\<lambda>(name :: string, (ms :: 64 word, x :: 64 word \<times> 64 word \<times> 64 word)). ms \<noteq> 0"
  let ?k = "\<lambda>(_ :: string, (_ :: 64 word, total :: 64 word, _ :: 64 word, _ :: 64 word)). - int (unat total)"
  have "sorted (map ?k (usage_order (usage s)))" by (simp add: usage_order_def)
  then have "sorted_wrt (\<lambda>x y. ?k x \<le> ?k y) (filter ?p (usage_order (usage s)))"
    by (intro sorted_wrt_filter) (simp add: sorted_wrt_map)
  then have "sorted_wrt (\<lambda>(_, (_, a, _, _)) (_, (_, b, _, _)). b \<le> a) (filter ?p (usage_order (usage s)))"
    by (rule sorted_wrt_mono_rel [rotated]) (auto simp: word_le_def)
  moreover have "mset (filter ?p (usage_order (usage s))) = filter_mset ?p (mset (usage s))"
    by (simp add: mset_usage_order)
  moreover have "ps = concat (map usage_line (filter ?p (usage_order (usage s))))" "s' = s"
    using assms by (auto simp: cmd_usage_def exec_simps)
  ultimately show ?thesis by blast
qed

lemma usage_lists_sessions_by_volume_witness:
  "\<exists>ps rows. fst (run_state cmd_usage (sample_relay\<lparr>usage := [(''a'', (1000, 8, 0, 0)), (''b'', (2000, 9, 0, 0))]\<rparr>)) = ps \<and>
     ps = concat (map usage_line rows) \<and> mset rows = {#(''a'', (1000, 8, 0, 0)), (''b'', (2000, 9, 0, 0))#}"
proof -
  let ?s = "sample_relay\<lparr>usage := [(''a'', (1000, 8, 0, 0)), (''b'', (2000, 9, 0, 0))]\<rparr>"
  obtain ps s' where r: "run_state cmd_usage ?s = (ps, s')" by (metis prod.collapse)
  from usage_lists_sessions_by_volume [OF r] r show ?thesis by auto
qed

text \<open>
  The guard against a zero setting looks at the number typed, not at what is stored. A threshold
  of 0.001 passes it and is stored as 0 hundredths; with it every session is downgraded as soon as
  the first check after the start time finds a single bit counted.
\<close>

theorem small_threshold_stored_as_zero:
  "downgrade_threshold_100 (snd (run_state (cmd_float set_threshold show_it [''0.001'']) s)) = 0 \<and>
   downgrade_threshold bandwidth 0 = 0"
proof -
  have p: "pow2 (- 10) = 1 / 1024" "pow2 (- 9) = 1 / 512" "pow2 (- 4) = 1 / 16" "pow2 (- 3) = 1 / 8"
    "pow2 (- 62) = 1 / 4611686018427387904" "pow2 (- 56) = 1 / 72057594037927936"
    by (simp_all add: pow2_def)
  have "round_even (1 / 1000 / pow2 (- 62)) = 4611686018427388" by code_simp
  then have "round_positive (1 / 1000) = Finite (1152921504606847 / 1152921504606846976)"
    using round_positive_step [of "- 10" "1 / 1000" 4611686018427388] by (simp add: p)
  moreover have "parse_decimal ''0.001'' = Some (1 / 1000)" "to_ascii_lowercase ''0.001'' = ''0.001''" by code_simp+
  ultimately have v: "parse_f64 ''0.001'' = Some (Finite (1152921504606847 / 1152921504606846976))"
    by (simp add: parse_f64_def round64_def split_sign_def)
  let ?r = "115292150460684700 / 1152921504606846976 :: rat"
  have "\<lfloor>28823037615171175 / 4 :: rat\<rfloor> = 7205759403792793" by (simp add: floor_eq_iff)
  then have "round_even (?r / pow2 (- 56)) = 7205759403792794"
    by (simp add: p round_even_def Let_def)
  then have "round_positive ?r = Finite (7205759403792794 / 72057594037927936)"
    using round_positive_step [of "- 4" ?r 7205759403792794] by (simp add: p)
  moreover have "\<lfloor>3602879701896397 / 36028797018963968 :: rat\<rfloor> = 0" by (simp add: floor_eq_iff)
  ultimately have "as_usize (mul_by (Finite (1152921504606847 / 1152921504606846976)) 100) = 0"
    by (simp add: round64_def)
  moreover have "as_usize (div_by (div_by (mul64 f (Finite 0)) 100) 1000) = 0" for f
    by (cases f) (simp_all add: round64_def)
  moreover have "f64_of_usize 0 = Finite 0" by (simp add: f64_of_usize_def round64_def)
  ultimately show ?thesis
    using v by (simp add: cmd_float_def set_threshold_def downgrade_threshold_def exec_simps)
qed

end
