(* ===== verification/RelayNode.thy ===== *)
theory RelayNode
  imports RelayConsole
begin

text \<open>
  The main task of hbbr: \<open>start_with_bind\<close> of src/relay_server/mod.rs and \<open>io_loop\<close> of connection.rs.

  The \<open>select!\<close> sees a list of events, a connection or an error of one of its three listeners. An error
  ends the accept loop, and the main task opens the listeners again and starts the next one: the
  settings are read from the environment once more, and there is a new common limiter. \<open>served\<close> lists
  the connections handed on, each with the number of the accept loop, and thus of the limiter, that
  took it. \<open>listen_ok k\<close> tells whether the listener opened as the \<open>k\<close>-th request is obtained.
\<close>

record relay_node_env = relay_env +
  listen_ok :: "nat \<Rightarrow> bool"

datatype relay_port = Relay_Tcp | Relay_Ws | Relay_Console

datatype relay_accept = Relay_Accepted relay_port socket_addr | Relay_Accept_Error relay_port

type_synonym handed = "socket_addr \<times> relay_port \<times> route \<times> nat"

section \<open>Starting\<close>

text \<open>\<open>ticket::init\<close> comes before the lists and the port.\<close>

definition start_relay ::
  "'e relay_env_scheme \<Rightarrow> (string \<Rightarrow> string option) \<Rightarrow> (string \<Rightarrow> string option) \<Rightarrow> string option
     \<Rightarrow> string option \<Rightarrow> string \<Rightarrow> ('w relay_scheme, string + redeemer \<times> 16 word \<times> 16 word) state" where
  "start_relay e var read_file black block port = (case redeemer_from_env e var read_file of
       Inl err \<Rightarrow> State_Monad.return (Inl err)
     | Inr r \<Rightarrow> do {
         p \<leftarrow> start_lists black block port;
         State_Monad.return (case p of Inl err \<Rightarrow> Inl err | Inr (a, b) \<Rightarrow> Inr (r, a, b))
       })"

section \<open>The listeners\<close>

text \<open>Opening one listener; the console has none of its own where the others already reach it.\<close>

definition open_listener :: "'e relay_node_env_scheme \<Rightarrow> ('w world_scheme, bool) state" where
  "open_listener e = do { k \<leftarrow> tick; State_Monad.return (listen_ok e k) }"

definition open_listeners ::
  "'e relay_node_env_scheme \<Rightarrow> ip_addr option \<Rightarrow> 16 word \<Rightarrow> ('w world_scheme, bool) state" where
  "open_listeners e bind_addr port = do {
     a \<leftarrow> open_listener e;
     if \<not> a then State_Monad.return False
     else do {
       b \<leftarrow> open_listener e;
       if \<not> b then State_Monad.return False
       else (case console_addr bind_addr port of
           None \<Rightarrow> State_Monad.return True
         | Some addr \<Rightarrow> open_listener e)
     }
   }"

section \<open>Accepting\<close>

text \<open>\<open>Inl\<close>: the program ended because a listener could not be opened.\<close>

fun run_relay ::
  "'e relay_node_env_scheme \<Rightarrow> 'c case_env_scheme \<Rightarrow> environment \<Rightarrow> ip_addr option \<Rightarrow> 16 word
     \<Rightarrow> relay_accept list \<Rightarrow> nat \<Rightarrow> handed list \<Rightarrow> ('w relay_node_scheme, handed list + handed list) state" where
  "run_relay e c en bind_addr port [] n served = State_Monad.return (Inr served)"
| "run_relay e c en bind_addr port (Relay_Accepted p addr # evs) n served = do {
     r \<leftarrow> handle_connection e addr (p = Relay_Ws);
     run_relay e c en bind_addr port evs n (served @ [(addr, p, r, n)])
   }"
| "run_relay e c en bind_addr port (Relay_Accept_Error p # evs) n served = do {
     ok \<leftarrow> open_listeners e bind_addr port;
     if ok then do {
       open_limiter c en;
       run_relay e c en bind_addr port evs (n + 1) served
     } else State_Monad.return (Inl served)
   }"

definition relay_main ::
  "'e relay_node_env_scheme \<Rightarrow> 'c case_env_scheme \<Rightarrow> environment \<Rightarrow> ip_addr option \<Rightarrow> 16 word
     \<Rightarrow> relay_accept list \<Rightarrow> ('w relay_node_scheme, handed list + handed list) state" where
  "relay_main e c en bind_addr port evs = do {
     ok \<leftarrow> open_listeners e bind_addr port;
     if ok then do {
       open_limiter c en;
       run_relay e c en bind_addr port evs 0 []
     } else State_Monad.return (Inl [])
   }"

section \<open>Lemmas\<close>

fun taken :: "relay_accept \<Rightarrow> (socket_addr \<times> relay_port) option" where
  "taken (Relay_Accepted p addr) = Some (addr, p)"
| "taken (Relay_Accept_Error p) = None"

definition whence :: "handed \<Rightarrow> socket_addr \<times> relay_port" where
  "whence = (\<lambda>(addr, p, r, n). (addr, p))"

definition loop_no :: "handed \<Rightarrow> nat" where
  "loop_no = (\<lambda>(addr, p, r, n). n)"

lemma handed_simps [simp]: "whence (addr, p, r, n) = (addr, p)" "loop_no (addr, p, r, n) = n"
  by (simp_all add: whence_def loop_no_def)

definition errors :: "relay_accept list \<Rightarrow> nat" where
  "errors evs = length (filter (\<lambda>ev. taken ev = None) evs)"

definition properly_routed :: "'e relay_env_scheme \<Rightarrow> string list \<Rightarrow> handed \<Rightarrow> bool" where
  "properly_routed e blocked = (\<lambda>(addr, p, r, n).
     let ip = sock_ip (relay_v4 e addr) in
     r = (if p \<noteq> Relay_Ws \<and> is_loopback ip then To_Console
          else if show_ip ip \<in> set blocked then Blocked_Address else To_Pair))"

lemma run_open_listeners:
  "run_state (open_listeners e bind_addr port) s = (b, s') \<Longrightarrow> \<exists>k. s' = s\<lparr>ticks := k\<rparr>"
  by (auto simp: open_listeners_def open_listener_def exec_simps split: option.splits if_splits)

lemma run_handle_connection:
  "run_state (handle_connection e addr ws) s =
     ((let ip = sock_ip (relay_v4 e addr) in
       if \<not> ws \<and> is_loopback ip then To_Console
       else if show_ip ip \<in> set (blocklist s) then Blocked_Address else To_Pair), s)"
  by (simp add: handle_connection_def exec_simps Let_def)

lemma check_params_lists:
  "run_state (check_params c en) s = (u, s') \<Longrightarrow> blocklist s' = blocklist s \<and> blacklist s' = blacklist s"
  by (auto simp: check_params_def set_threshold_def set_start_check_def set_limit_speed_def set_total_def
      set_single_def exec_simps split: if_splits)

lemma check_params_total:
  assumes "run_state (check_params c en) s = (u, s')"
  shows "total_bandwidth s' =
    (let v = float_arg c en ''TOTAL_BANDWIDTH'' in if is_positive v then mega v else total_bandwidth s)"
  using assms
  by (auto simp: check_params_def set_threshold_def set_start_check_def set_limit_speed_def set_total_def
      set_single_def exec_simps Let_def split: if_splits)

lemma run_open_limiter:
  assumes "run_state (open_limiter c en) s = (u, s')"
  shows "blocklist s' = blocklist s \<and> limit_ok s' \<and> total_bandwidth s' =
    (let v = float_arg c en ''TOTAL_BANDWIDTH'' in if is_positive v then mega v else total_bandwidth s)"
proof -
  obtain s1 where c: "run_state (check_params c en) s = ((), s1)" by (metis prod.collapse unit.exhaust)
  then have "s' = s1\<lparr>total_limit := f64_of_usize (total_bandwidth s1)\<rparr>"
    using assms by (simp add: open_limiter_def exec_simps)
  with check_params_lists [OF c] check_params_total [OF c] show ?thesis by (simp add: limit_ok_def)
qed

lemma run_relay_serves:
  assumes "run_state (run_relay e c en bind_addr port evs n served) s = (res, s')"
  shows "\<exists>new. (case res of Inl xs \<Rightarrow> xs | Inr xs \<Rightarrow> xs) = served @ new \<and>
    map whence new = take (length new) (List.map_filter taken evs) \<and>
    (\<forall>x \<in> set new. properly_routed e (blocklist s) x) \<and> sorted (map loop_no new) \<and>
    (\<forall>x \<in> set new. n \<le> loop_no x \<and> loop_no x \<le> n + errors evs) \<and>
    (\<forall>xs. res = Inr xs \<longrightarrow> length new = length (List.map_filter taken evs)) \<and>
    blocklist s' = blocklist s"
  using assms
proof (induction e c en bind_addr port evs n served arbitrary: s rule: run_relay.induct)
  case (1 e c en bind_addr port n served)
  then show ?case by (auto simp: exec_simps List.map_filter_simps)
next
  case (2 e c en bind_addr port p addr evs n served)
  obtain r where h: "run_state (handle_connection e addr (p = Relay_Ws)) s = (r, s)"
    by (simp add: run_handle_connection)
  have "run_state (run_relay e c en bind_addr port evs n (served @ [(addr, p, r, n)])) s = (res, s')"
    using 2(2) h by (simp add: exec_simps)
  from 2(1) [OF this] obtain new where new:
    "(case res of Inl xs \<Rightarrow> xs | Inr xs \<Rightarrow> xs) = (served @ [(addr, p, r, n)]) @ new"
    "map whence new = take (length new) (List.map_filter taken evs)"
    "\<forall>x \<in> set new. properly_routed e (blocklist s) x" "sorted (map loop_no new)"
    "\<forall>x \<in> set new. n \<le> loop_no x \<and> loop_no x \<le> n + errors evs"
    "\<forall>xs. res = Inr xs \<longrightarrow> length new = length (List.map_filter taken evs)" "blocklist s' = blocklist s"
    by blast
  have "properly_routed e (blocklist s) (addr, p, r, n)"
    using h by (auto simp: properly_routed_def run_handle_connection Let_def)
  with new show ?case
    by (intro exI [of _ "(addr, p, r, n) # new"]) (auto simp: List.map_filter_simps errors_def)
next
  case (3 e c en bind_addr port p evs n served)
  obtain ok s1 where o: "run_state (open_listeners e bind_addr port) s = (ok, s1)" by (metis prod.collapse)
  obtain k where s1: "s1 = s\<lparr>ticks := k\<rparr>" using run_open_listeners [OF o] by blast
  show ?case
  proof (cases ok)
    case True
    obtain s2 where l: "run_state (open_limiter c en) s1 = ((), s2)" by (metis prod.collapse unit.exhaust)
    have "run_state (run_relay e c en bind_addr port evs (n + 1) served) s2 = (res, s')"
      using 3(2) o l True by (simp add: exec_simps)
    from 3(1) [OF True this] obtain new where new: "(case res of Inl xs \<Rightarrow> xs | Inr xs \<Rightarrow> xs) = served @ new"
      "map whence new = take (length new) (List.map_filter taken evs)"
      "\<forall>x \<in> set new. properly_routed e (blocklist s2) x" "sorted (map loop_no new)"
      "\<forall>x \<in> set new. n + 1 \<le> loop_no x \<and> loop_no x \<le> n + 1 + errors evs"
      "\<forall>xs. res = Inr xs \<longrightarrow> length new = length (List.map_filter taken evs)" "blocklist s' = blocklist s2"
      by blast
    moreover have "blocklist s2 = blocklist s" using run_open_limiter [OF l] s1 by simp
    ultimately show ?thesis
      by (intro exI [of _ new]) (auto simp: List.map_filter_simps errors_def)
  next
    case False
    with 3(2) o s1 show ?thesis by (intro exI [of _ "[]"]) (auto simp: exec_simps)
  qed
qed

text \<open>While listeners can be opened, the program does not end.\<close>

lemma open_listeners_up: "\<forall>k. listen_ok e k \<Longrightarrow> fst (run_state (open_listeners e bind_addr port) s)"
  by (simp add: open_listeners_def open_listener_def exec_simps split: option.splits)

lemma run_relay_up:
  "\<forall>k. listen_ok e k \<Longrightarrow> \<exists>res s'. run_state (run_relay e c en bind_addr port evs n served) s = (Inr res, s')"
proof (induction e c en bind_addr port evs n served arbitrary: s rule: run_relay.induct)
  case (3 e c en bind_addr port p evs n served)
  obtain s1 where o: "run_state (open_listeners e bind_addr port) s = (True, s1)"
    using open_listeners_up [OF 3(2), of bind_addr port s] by (metis prod.collapse)
  with 3(1) [OF TrueI 3(2)] show ?case by (simp add: exec_simps case_prod_unfold)
qed (simp_all add: exec_simps run_handle_connection)

lemma relay_main_up:
  assumes "\<forall>k. listen_ok e k"
  shows "\<exists>res s'. run_state (relay_main e c en bind_addr port evs) s = (Inr res, s')"
proof -
  obtain s1 where o: "run_state (open_listeners e bind_addr port) s = (True, s1)"
    using open_listeners_up [OF assms, of bind_addr port s] by (metis prod.collapse)
  with run_relay_up [OF assms] show ?thesis by (simp add: relay_main_def exec_simps case_prod_unfold)
qed

lemma run_relay_total:
  assumes "run_state (run_relay e c en bind_addr port evs n served) s = (Inr res, s')"
    and "is_positive (float_arg c en ''TOTAL_BANDWIDTH'')"
    and "evs = Relay_Accept_Error p # evs' \<or> limit_ok s \<and> total_bandwidth s = mega (float_arg c en ''TOTAL_BANDWIDTH'')"
  shows "limit_ok s' \<and> total_bandwidth s' = mega (float_arg c en ''TOTAL_BANDWIDTH'')"
  using assms
proof (induction e c en bind_addr port evs n served arbitrary: s p evs' rule: run_relay.induct)
  case (1 e c en bind_addr port n served)
  then show ?case by (auto simp: exec_simps)
next
  case (2 e c en bind_addr port q addr evs n served)
  then show ?case by (auto simp: exec_simps run_handle_connection)
next
  case (3 e c en bind_addr port q evs n served)
  obtain ok s1 where o: "run_state (open_listeners e bind_addr port) s = (ok, s1)" by (metis prod.collapse)
  with 3(2) have ok by (auto simp: exec_simps split: if_splits)
  obtain s2 where l: "run_state (open_limiter c en) s1 = ((), s2)" by (metis prod.collapse unit.exhaust)
  have r: "run_state (run_relay e c en bind_addr port evs (n + 1) served) s2 = (Inr res, s')"
    using 3(2) o l \<open>ok\<close> by (simp add: exec_simps)
  have "limit_ok s2 \<and> total_bandwidth s2 = mega (float_arg c en ''TOTAL_BANDWIDTH'')"
    using run_open_limiter [OF l] 3(3) by simp
  then show ?case using 3(1) [OF \<open>ok\<close> r 3(3)] by blast
qed

section \<open>Properties\<close>

definition sample_relay_node_env :: relay_node_env where
  "sample_relay_node_env = relay_env.extend sample_relay_env \<lparr>listen_ok = (\<lambda>_. True)\<rparr>"

lemmas sample_relay_node = sample_relay_node_env_def relay_env.extend_def

text \<open>
  hbbr loses no connection: as long as the listeners can be opened again, every accepted
  connection is handed on exactly once, in order, and to the right place whatever errors come in
  between, the console for loopback connections of the plain ports, nowhere for blocked addresses,
  the pairing for the rest. Each is served by the limiter of the accept loop that took it, and there
  is one loop more than there were errors.
\<close>

theorem relay_serves_every_connection:
  assumes "run_state (relay_main e c en bind_addr port evs) s = (Inr served, s')"
  shows "map whence served = List.map_filter taken evs \<and>
    (\<forall>x \<in> set served. properly_routed e (blocklist s) x) \<and> sorted (map loop_no served) \<and>
    (\<forall>x \<in> set served. loop_no x \<le> errors evs)"
proof -
  obtain ok s1 where o: "run_state (open_listeners e bind_addr port) s = (ok, s1)" by (metis prod.collapse)
  have ok using assms o by (auto simp: relay_main_def exec_simps split: if_splits)
  obtain s2 where l: "run_state (open_limiter c en) s1 = ((), s2)" by (metis prod.collapse unit.exhaust)
  have "run_state (run_relay e c en bind_addr port evs 0 []) s2 = (Inr served, s')"
    using assms o l \<open>ok\<close> by (simp add: relay_main_def exec_simps)
  moreover have "blocklist s2 = blocklist s"
    using run_open_limiter [OF l] run_open_listeners [OF o] by auto
  ultimately show ?thesis using run_relay_serves by fastforce
qed

lemma relay_serves_every_connection_witness:
  "\<exists>served s'. run_state (relay_main sample_relay_node_env sample_case [] None 21117
       [Relay_Accepted Relay_Tcp (SockV4 2130706433 7), Relay_Accept_Error Relay_Ws, Relay_Accepted Relay_Ws (SockV4 9 7)])
       sample_node = (Inr served, s') \<and>
     map whence served = [(SockV4 2130706433 7, Relay_Tcp), (SockV4 9 7, Relay_Ws)]"
proof -
  let ?evs = "[Relay_Accepted Relay_Tcp (SockV4 2130706433 7), Relay_Accept_Error Relay_Ws, Relay_Accepted Relay_Ws (SockV4 9 7)]"
  let ?m = "relay_main sample_relay_node_env sample_case [] None 21117 ?evs :: (relay_node, handed list + handed list) state"
  have "\<forall>k. listen_ok sample_relay_node_env k" by (simp add: sample_relay_node)
  then obtain served s' where r: "run_state ?m sample_node = (Inr served, s')" using relay_main_up by blast
  from relay_serves_every_connection [OF r] r show ?thesis by (auto simp: List.map_filter_simps)
qed

text \<open>
  A single error of a listener undoes what the operator set: the accept loop that follows reads
  the environment again, so a total bandwidth given there replaces the one set at the console, and
  the limiter of that loop runs at it.
\<close>

theorem listener_error_resets_bandwidth:
  assumes "run_state (run_relay e c en bind_addr port (Relay_Accept_Error p # evs) n served) s = (Inr res, s')"
    and "is_positive (float_arg c en ''TOTAL_BANDWIDTH'')"
  shows "total_bandwidth s' = mega (float_arg c en ''TOTAL_BANDWIDTH'') \<and>
    total_limit s' = f64_of_usize (mega (float_arg c en ''TOTAL_BANDWIDTH''))"
  using run_relay_total [OF assms disjI1 [OF refl]] by (simp add: limit_ok_def)

lemma listener_error_resets_bandwidth_witness:
  "\<exists>res s'. run_state (run_relay sample_relay_node_env sample_case [(''TOTAL-BANDWIDTH'', ''2'')] None 21117
       [Relay_Accept_Error Relay_Tcp] 0 []) (sample_node\<lparr>total_bandwidth := 1\<rparr>) = (Inr res, s') \<and>
     total_bandwidth s' = mega (Finite 2)"
proof -
  let ?en = "[(''TOTAL-BANDWIDTH'', ''2'')]" and ?s = "sample_node\<lparr>total_bandwidth := 1\<rparr>"
  let ?m = "run_relay sample_relay_node_env sample_case ?en None 21117 [Relay_Accept_Error Relay_Tcp] 0 []
    :: (relay_node, handed list + handed list) state"
  have "\<forall>k. listen_ok sample_relay_node_env k" by (simp add: sample_relay_node)
  then obtain res s' where r: "run_state ?m ?s = (Inr res, s')" using run_relay_up by blast
  have "get_arg sample_case ''TOTAL_BANDWIDTH'' ?en = ''2''" by code_simp
  moreover have "parse_f64 ''2'' = Some (Finite 2)"
    by (simp add: parse_f64_def split_sign_def to_ascii_lowercase_def ascii_lower_def parse_decimal_def Let_def
        digit_of_def parse_exponent_def decimal_value_def round_exact [of 2, simplified])
  ultimately have v: "float_arg sample_case ?en ''TOTAL_BANDWIDTH'' = Finite 2" by (simp add: float_arg_def)
  then show ?thesis using listener_error_resets_bandwidth [OF r] r by simp
qed

end
