(* ===== verification/Part.thy ===== *)
theory Part
  imports Prelude
begin

text \<open>
  Running an operation on a part of a larger state. A program keeps its files and its tables side by
  side; \<open>on_part get put m\<close> runs \<open>m\<close> on the part \<open>get s\<close> and puts the result back. The locale \<open>part\<close> states
  the laws of such a part. It is interpreted on the database files and on the key files of the
  programs (theories AccountMain, HubMain and RelayMain).
\<close>

definition on_part :: "('s \<Rightarrow> 't) \<Rightarrow> ('t \<Rightarrow> 's \<Rightarrow> 's) \<Rightarrow> ('t, 'a) state \<Rightarrow> ('s, 'a) state" where
  "on_part get put m = State (\<lambda>s. let (a, t) = run_state m (get s) in (a, put t s))"

lemma run_on_part [exec_simps]:
  "run_state (on_part get put m) s = (let (a, t) = run_state m (get s) in (a, put t s))"
  by (simp add: on_part_def)

locale part =
  fixes get :: "'s \<Rightarrow> 't" and put :: "'t \<Rightarrow> 's \<Rightarrow> 's"
  assumes put_get: "get (put t s) = t"
    and put_put: "put t' (put t s) = put t' s"
    and get_put: "put (get s) s = s"
begin

text \<open>A program on the part is the program of its operations on the part.\<close>

lemma part_return: "on_part get put (State_Monad.return a) = State_Monad.return a"
  by (rule state.expand, rule ext) (simp add: exec_simps get_put)

lemma part_bind:
  "on_part get put (State_Monad.bind m f) = State_Monad.bind (on_part get put m) (\<lambda>a. on_part get put (f a))"
  by (rule state.expand, rule ext) (simp add: exec_simps put_get put_put split: prod.splits)

text \<open>What is true of the part afterwards, and what does not depend on it.\<close>

lemma part_result: "run_state (on_part get put m) s = (a, s') \<Longrightarrow> run_state m (get s) = (a, get s')"
  by (auto simp: exec_simps put_get split: prod.splits)

lemma preserves_part: "preserves J m \<Longrightarrow> preserves (\<lambda>s. J (get s)) (on_part get put m)"
  by (auto simp: preserves_def exec_simps put_get split: prod.splits)

lemma part_apart:
  assumes "\<And>t s. f (put t s) = f s" and "run_state (on_part get put m) s = (a, s')"
  shows "f s' = f s"
  using assms by (auto simp: exec_simps split: prod.splits)

end

end
