(* ===== verification/Schema.thy ===== *)
theory Schema
  imports Sample HubConsole Args
begin

text \<open>
  Opening the SQLite files: \<open>Database::new\<close> of src/database.rs with the path \<open>PeerMap::new\<close> of
  src/peer.rs chooses, and \<open>Accounts::open_with_peers\<close> of src/account/store.rs with the \<open>init\<close> of
  wol.rs and audit.rs.

  A file is the list of its tables and indexes, and \<open>stores\<close> holds the files by the name the operating
  system resolves a path to. Every statement is executed when \<open>sql_ok\<close> says so, else it is an error.
  The crates are parameters: \<open>url_file\<close> is how sqlx reads a database url, a path and whether a missing
  file is created (\<open>None\<close> is the panic of the \<open>unwrap\<close>), \<open>pool_waits n\<close> whether the first user of a deadpool of size \<open>n\<close> waits for ever, and
  \<open>created k\<close> whether the file created as the \<open>k\<close>-th request is there afterwards.
\<close>

record store_env = env +
  real_path :: "string \<Rightarrow> string"
  url_file :: "string \<Rightarrow> (string \<times> bool) option"
  pool_waits :: "nat \<Rightarrow> bool"
  created :: "nat \<Rightarrow> bool"
  config_dir :: "string option option"

definition unwrap_or :: "'a \<Rightarrow> 'a option \<Rightarrow> 'a" where
  "unwrap_or d x = (case x of Some a \<Rightarrow> a | None \<Rightarrow> d)"

lemma unwrap_or_simps [simp]: "unwrap_or d None = d" "unwrap_or d (Some a) = a"
  by (simp_all add: unwrap_or_def)

section \<open>Tables and indexes\<close>

datatype schema_object =
    Table string "(string \<times> string) list" "string list"
  | Index bool string string string

fun object_name :: "schema_object \<Rightarrow> string" where
  "object_name (Table name cols key) = name"
| "object_name (Index uniq name table col) = name"

fun is_table :: "schema_object \<Rightarrow> bool" where
  "is_table (Table name cols key) = True"
| "is_table (Index uniq name table col) = False"

record store = world +
  stores :: "(string \<times> schema_object list) list"

datatype open_error = Store_Failed store_error | No_File | Bad_Url | Waits_For_Ever

text \<open>
  \<open>IF NOT EXISTS\<close>: nothing happens when there is an object of that kind and name; the name of an
  object of the other kind, and an index on a table that is not there, are errors.
\<close>

definition put_object :: "schema_object \<Rightarrow> schema_object list \<Rightarrow> schema_object list option" where
  "put_object ob objs =
     (case find (\<lambda>x. object_name x = object_name ob) objs of
        Some x \<Rightarrow> if is_table x = is_table ob then Some objs else None
      | None \<Rightarrow> (case ob of
          Table name cols key \<Rightarrow> Some (objs @ [ob])
        | Index uniq name table col \<Rightarrow>
            if list_ex (\<lambda>x. object_name x = table \<and> is_table x) objs then Some (objs @ [ob]) else None))"

definition create_object ::
  "'e env_scheme \<Rightarrow> string \<Rightarrow> schema_object \<Rightarrow> ('w store_scheme, open_error + unit) state" where
  "create_object e file ob = do {
     k \<leftarrow> tick;
     if \<not> sql_ok e k then State_Monad.return (Inl (Store_Failed SqlFailed))
     else do {
       fs \<leftarrow> gets stores;
       case put_object ob (unwrap_or [] (map_of fs file)) of
         None \<Rightarrow> State_Monad.return (Inl (Store_Failed SqlFailed))
       | Some objs \<Rightarrow> do {
           modify (\<lambda>s. s\<lparr>stores := AList.update file objs (stores s)\<rparr>);
           State_Monad.return (Inr ())
         }
     }
   }"

fun create_objects ::
  "'e env_scheme \<Rightarrow> string \<Rightarrow> schema_object list \<Rightarrow> ('w store_scheme, open_error + unit) state" where
  "create_objects e file [] = State_Monad.return (Inr ())"
| "create_objects e file (ob # obs) =
     try_bind (create_object e file ob) (\<lambda>_. create_objects e file obs)"

text \<open>A connection to a file; \<open>create\<close> is the option \<open>create_if_missing\<close>.\<close>

definition connect_file ::
  "'e env_scheme \<Rightarrow> bool \<Rightarrow> string \<Rightarrow> ('w store_scheme, open_error + unit) state" where
  "connect_file e create file = do {
     k \<leftarrow> tick;
     fs \<leftarrow> gets stores;
     if \<not> sql_ok e k then State_Monad.return (Inl (Store_Failed SqlFailed))
     else if map_of fs file \<noteq> None then State_Monad.return (Inr ())
     else if create then do {
       modify (\<lambda>s. s\<lparr>stores := AList.update file [] (stores s)\<rparr>);
       State_Monad.return (Inr ())
     } else State_Monad.return (Inl No_File)
   }"

section \<open>The file of hbbs\<close>

definition peer_schema :: "schema_object list" where
  "peer_schema =
     [Table ''peer''
        [(''guid'', ''blob primary key not null''), (''id'', ''varchar(100) not null''),
         (''uuid'', ''blob not null''), (''pk'', ''blob not null''),
         (''created_at'', ''datetime not null default(current_timestamp)''), (''user'', ''blob''),
         (''status'', ''tinyint''), (''note'', ''varchar(300)''), (''info'', ''text not null'')] [''guid''],
      Index True ''index_peer_id'' ''peer'' ''id'',
      Index False ''index_peer_user'' ''peer'' ''user'',
      Index False ''index_peer_created_at'' ''peer'' ''created_at'',
      Index False ''index_peer_status'' ''peer'' ''status'']"

text \<open>\<open>DbPool::create\<close>, behind the \<open>get\<close> of a pool of size \<open>n\<close>.\<close>

definition pool_connection ::
  "'e store_env_scheme \<Rightarrow> nat \<Rightarrow> string \<Rightarrow> ('w store_scheme, open_error + string) state" where
  "pool_connection e n url =
     (if pool_waits e n then State_Monad.return (Inl Waits_For_Ever)
      else case url_file e url of
          None \<Rightarrow> State_Monad.return (Inl Bad_Url)
        | Some (path, create) \<Rightarrow>
            try_bind (connect_file e create (real_path e path)) (\<lambda>_. State_Monad.return (Inr (real_path e path))))"

definition create_tables ::
  "'e store_env_scheme \<Rightarrow> nat \<Rightarrow> string \<Rightarrow> ('w store_scheme, open_error + unit) state" where
  "create_tables e n url =
     try_bind (pool_connection e n url) (\<lambda>file. create_objects e file peer_schema)"

definition ensure_file :: "'e store_env_scheme \<Rightarrow> string \<Rightarrow> ('w store_scheme, unit) state" where
  "ensure_file e path = do {
     fs \<leftarrow> gets stores;
     if map_of fs (real_path e path) = None then do {
       k \<leftarrow> tick;
       if created e k then modify (\<lambda>s. s\<lparr>stores := AList.update (real_path e path) [] (stores s)\<rparr>)
       else State_Monad.return ()
     } else State_Monad.return ()
   }"

definition database_new ::
  "'e store_env_scheme \<Rightarrow> 'c case_env_scheme \<Rightarrow> environment \<Rightarrow> string
     \<Rightarrow> ('w store_scheme, open_error + unit) state" where
  "database_new e c en url = do {
     ensure_file e url;
     let n = parse_usize (Some (get_arg_or c ''MAX_DATABASE_CONNECTIONS'' ''1'' en)) 1;
     try_bind (pool_connection e n url) (\<lambda>_. create_tables e n url)
   }"

text \<open>
  Where \<open>PeerMap::new\<close> looks for the file. A release build for Windows puts it beside the icon of
  hbb_common's configuration: \<open>config_dir\<close> is the parent of that path, and its text if it has one.
\<close>

datatype platform = Unix | Windows_Debug | Windows_Release

definition db_url ::
  "'e store_env_scheme \<Rightarrow> 'c case_env_scheme \<Rightarrow> platform \<Rightarrow> environment \<Rightarrow> string" where
  "db_url e c os en = (case get_arg_opt c ''DB_URL'' en of
       Some url \<Rightarrow> url
     | None \<Rightarrow> (case os of
         Unix \<Rightarrow> ''./db_v2.sqlite3''
       | Windows_Debug \<Rightarrow> ''db_v2.sqlite3''
       | Windows_Release \<Rightarrow> (case config_dir e of
             None \<Rightarrow> ''db_v2.sqlite3''
           | Some dir \<Rightarrow> unwrap_or ''.'' dir @ [CHR 0x5C] @ ''db_v2.sqlite3'')))"

definition peer_map_new ::
  "'e store_env_scheme \<Rightarrow> 'c case_env_scheme \<Rightarrow> platform \<Rightarrow> environment
     \<Rightarrow> ('w store_scheme, open_error + unit) state" where
  "peer_map_new e c os en = database_new e c en (db_url e c os en)"

section \<open>The file of the account service\<close>

definition store_schema :: "schema_object list" where
  "store_schema =
     [Table ''accounts'' [(''name'', ''TEXT PRIMARY KEY''), (''password_hash'', ''TEXT NOT NULL''),
        (''enabled'', ''INTEGER NOT NULL DEFAULT 1'')] [''name''],
      Table ''account_sessions'' [(''token_hash'', ''BLOB PRIMARY KEY''), (''name'', ''TEXT NOT NULL''),
        (''expires'', ''INTEGER NOT NULL'')] [''token_hash''],
      Index False ''session_expiry'' ''account_sessions'' ''expires'',
      Table ''relay_tickets'' [(''hash'', ''BLOB PRIMARY KEY''), (''session_hash'', ''BLOB NOT NULL''),
        (''relay_id'', ''TEXT NOT NULL''), (''expires'', ''INTEGER NOT NULL'')] [''hash'']]"

definition wol_schema :: "schema_object list" where
  "wol_schema =
     [Table ''wol_devices'' [(''owner'', ''TEXT NOT NULL''), (''id'', ''TEXT NOT NULL''), (''seen'', ''INTEGER NOT NULL''),
        (''session'', ''BLOB NOT NULL''), (''peers'', ''TEXT NOT NULL'')] [''owner'', ''id''],
      Table ''wol_jobs'' [(''owner'', ''TEXT NOT NULL''), (''target'', ''TEXT NOT NULL''), (''helper'', ''TEXT NOT NULL''),
        (''expires'', ''INTEGER NOT NULL'')] [''owner'', ''target'']]"

definition audit_schema :: "schema_object list" where
  "audit_schema =
     [Table ''conn_audit'' [(''nonce'', ''TEXT PRIMARY KEY''), (''id'', ''TEXT NOT NULL''), (''peer_id'', ''TEXT''),
        (''action'', ''TEXT''), (''conn_id'', ''INTEGER''), (''session_id'', ''INTEGER''), (''note'', ''TEXT''),
        (''from_ip'', ''TEXT NOT NULL''), (''received_at'', ''INTEGER NOT NULL'')] [''nonce'']]"

definition wol_init :: "'e env_scheme \<Rightarrow> string \<Rightarrow> ('w store_scheme, open_error + unit) state" where
  "wol_init e file = create_objects e file wol_schema"

definition audit_init :: "'e env_scheme \<Rightarrow> string \<Rightarrow> ('w store_scheme, open_error + unit) state" where
  "audit_init e file = create_objects e file audit_schema"

text \<open>The answer tells whether the peers of hbbs are attached: \<open>Accounts\<close> has a pool for them.\<close>

definition open_with_peers ::
  "'e store_env_scheme \<Rightarrow> string \<Rightarrow> string option \<Rightarrow> ('w store_scheme, open_error + bool) state" where
  "open_with_peers e path peer_db = (let file = real_path e path in
     try_bind (case peer_db of
         None \<Rightarrow> State_Monad.return (Inr ())
       | Some p \<Rightarrow> connect_file e False (real_path e p)) (\<lambda>_.
     try_bind (connect_file e True file) (\<lambda>_.
     try_bind (create_objects e file store_schema) (\<lambda>_.
     try_bind (wol_init e file) (\<lambda>_.
     try_bind (audit_init e file) (\<lambda>_.
       State_Monad.return (Inr (peer_db \<noteq> None))))))))"

definition open_accounts ::
  "'e store_env_scheme \<Rightarrow> string \<Rightarrow> ('w store_scheme, open_error + bool) state" where
  "open_accounts e path = open_with_peers e path None"


section \<open>Lemmas\<close>

text \<open>A schema whose statements, run in their order on an empty file, all take effect.\<close>

definition sound :: "schema_object list \<Rightarrow> bool" where
  "sound sch \<longleftrightarrow> distinct (map object_name sch) \<and>
     list_all (\<lambda>n. put_object (sch ! n) (take n sch) = Some (take (Suc n) sch)) [0..<length sch]"

lemma find_SomeD: "find p xs = Some x \<Longrightarrow> x \<in> set xs \<and> p x"
  by (induction xs) (auto split: if_splits)

lemma put_again:
  assumes "distinct (map object_name sch)" and "m < n" and "n \<le> length sch"
  shows "put_object (sch ! m) (take n sch) = Some (take n sch)"
proof -
  let ?p = "\<lambda>x. object_name x = object_name (sch ! m)"
  have mem: "sch ! m \<in> set (take n sch)" using assms(2,3) by (auto simp: in_set_conv_nth)
  then have "find ?p (take n sch) \<noteq> None" by (auto simp: find_None_iff)
  then obtain x where x: "find ?p (take n sch) = Some x" by blast
  then have "x \<in> set (take n sch)" "?p x" using find_SomeD by fast+
  with mem assms(1) have "x = sch ! m" by (metis distinct_map in_set_takeD inj_onD)
  with x show ?thesis by (simp add: put_object_def)
qed

definition file_objects :: "string \<Rightarrow> 'w store_scheme \<Rightarrow> schema_object list" where
  "file_objects file s = unwrap_or [] (map_of (stores s) file)"

definition other_files :: "string \<Rightarrow> 'w store_scheme \<Rightarrow> 'w store_scheme \<Rightarrow> bool" where
  "other_files file s s' \<longleftrightarrow> (\<forall>f. f \<noteq> file \<longrightarrow> map_of (stores s') f = map_of (stores s) f) \<and>
     (map_of (stores s) file \<noteq> None \<longrightarrow> map_of (stores s') file \<noteq> None)"

lemma other_files_refl [simp]: "other_files file s s" "other_files file s (s\<lparr>ticks := k\<rparr>)"
  by (simp_all add: other_files_def)

lemma other_files_trans: "other_files file s s' \<Longrightarrow> other_files file s' s'' \<Longrightarrow> other_files file s s''"
  by (simp add: other_files_def)

lemma file_objects_simps [simp]:
  "file_objects file (s\<lparr>ticks := k\<rparr>) = file_objects file s"
  "file_objects file (s\<lparr>stores := AList.update file objs fs\<rparr>) = objs"
  by (simp_all add: file_objects_def update_conv')

lemma other_files_update [simp]:
  "other_files file s (s\<lparr>ticks := k, stores := AList.update file objs (stores s)\<rparr>)"
  by (simp add: other_files_def update_conv')

lemma create_objects_append:
  "create_objects e file (obs @ obs') = try_bind (create_objects e file obs) (\<lambda>_. create_objects e file obs')"
  by (induction obs) (auto simp: exec_simps split: prod.splits sum.splits intro!: state.expand ext)

text \<open>A file that holds the beginning of the schema still does, or the whole of it, when nothing failed.\<close>

lemma create_objects_partial:
  assumes "sound sch" and "file_objects file s = take n sch" and "m \<le> n" and "n \<le> length sch"
    and "run_state (create_objects e file (drop m sch)) s = (r, s')"
  shows "\<exists>n'. n \<le> n' \<and> n' \<le> length sch \<and> file_objects file s' = take n' sch \<and> other_files file s s' \<and>
    (r = Inr () \<longrightarrow> n' = length sch) \<and> ((\<forall>k. sql_ok e k) \<longrightarrow> r = Inr ())"
  using assms(2-)
proof (induction "length sch - m" arbitrary: m n s)
  case 0
  then show ?case by (auto simp: exec_simps intro!: exI [of _ n])
next
  case (Suc d)
  then have m: "m < length sch" by simp
  have drop: "drop m sch = sch ! m # drop (Suc m) sch" using m by (simp add: Cons_nth_drop_Suc)
  let ?n = "max n (Suc m)"
  have put: "put_object (sch ! m) (take n sch) = Some (take ?n sch)"
  proof (cases "m < n")
    case True
    moreover from this have "?n = n" by simp
    ultimately show ?thesis using put_again [of sch m n] assms(1) Suc.prems(3) by (simp only: sound_def)
  next
    case False
    then have "n = m" using Suc.prems(2) by simp
    then show ?thesis using assms(1) m by (simp add: sound_def list_all_iff)
  qed
  show ?case
  proof (cases "sql_ok e (ticks s)")
    case False
    with Suc.prems have "r = Inl (Store_Failed SqlFailed)" "s' = s\<lparr>ticks := Suc (ticks s)\<rparr>"
      by (simp_all add: drop create_object_def exec_simps)
    with Suc.prems False show ?thesis by (intro exI [of _ n]) (auto dest: spec [of _ "ticks s"])
  next
    case True
    let ?s = "s\<lparr>ticks := Suc (ticks s), stores := AList.update file (take ?n sch) (stores s)\<rparr>"
    have "run_state (create_object e file (sch ! m)) s = (Inr (), ?s)"
      using True put Suc.prems(1) by (simp add: create_object_def exec_simps file_objects_def)
    then have "run_state (create_objects e file (drop (Suc m) sch)) ?s = (r, s')"
      using Suc.prems(4) by (simp add: drop exec_simps)
    then have "\<exists>n'. ?n \<le> n' \<and> n' \<le> length sch \<and> file_objects file s' = take n' sch \<and> other_files file ?s s' \<and>
        (r = Inr () \<longrightarrow> n' = length sch) \<and> ((\<forall>k. sql_ok e k) \<longrightarrow> r = Inr ())"
      by (rule Suc.hyps(1) [rotated 4]) (use Suc.hyps(2) m Suc.prems(3) in auto)
    then show ?thesis
      using other_files_trans [OF other_files_update] by fastforce
  qed
qed

definition account_schema :: "schema_object list" where
  "account_schema = store_schema @ wol_schema @ audit_schema"

lemma sound_schemas: "sound account_schema" "sound peer_schema"
  by code_simp+


lemma connect_file_run:
  assumes "run_state (connect_file e create file) s = (r, s')"
  shows "file_objects f s' = file_objects f s" and "other_files file s s'"
    and "r = Inr () \<Longrightarrow> map_of (stores s') file \<noteq> None" and "f \<noteq> file \<Longrightarrow> map_of (stores s') f = map_of (stores s) f"
    and "\<forall>k. sql_ok e k \<Longrightarrow> r = Inr () \<longleftrightarrow> map_of (stores s) file \<noteq> None \<or> create"
    and "\<not> create \<Longrightarrow> stores s' = stores s"
  using assms
  by (auto simp: connect_file_def exec_simps file_objects_def other_files_def update_conv' split: if_splits)


text \<open>\<open>has_part sch file s\<close>: the file holds the beginning of the schema.\<close>

definition has_part :: "schema_object list \<Rightarrow> string \<Rightarrow> 'w store_scheme \<Rightarrow> bool" where
  "has_part sch file s \<longleftrightarrow> (\<exists>n. file_objects file s = take n sch)"

lemma has_part_create:
  assumes "sound sch" and "has_part sch file s" and "run_state (create_objects e file sch) s = (r, s')"
  shows "has_part sch file s' \<and> other_files file s s' \<and> (r = Inr () \<longrightarrow> file_objects file s' = sch) \<and>
    ((\<forall>k. sql_ok e k) \<longrightarrow> r = Inr ())"
proof -
  from assms(2) obtain n where "file_objects file s = take n sch" by (auto simp: has_part_def)
  then have "file_objects file s = take (min n (length sch)) sch" by (metis min.commute take_all_iff take_take take_all nle_le)
  from create_objects_partial [OF assms(1) this, of 0 e r s'] assms(3) show ?thesis
    by (auto simp: has_part_def)
qed

text \<open>The files as the two programs find and leave them.\<close>

lemma open_with_peers_run:
  assumes "run_state (open_with_peers e path peer_db) s = (r, s')" and "has_part account_schema (real_path e path) s"
  shows "has_part account_schema (real_path e path) s'" and "other_files (real_path e path) s s'"
    and "r = Inr b \<Longrightarrow> file_objects (real_path e path) s' = account_schema \<and> b = (peer_db \<noteq> None) \<and>
      (\<forall>p. peer_db = Some p \<longrightarrow> map_of (stores s) (real_path e p) \<noteq> None)"
    and "\<forall>k. sql_ok e k \<Longrightarrow> (\<exists>b. r = Inr b) \<longleftrightarrow> (\<forall>p. peer_db = Some p \<longrightarrow> map_of (stores s) (real_path e p) \<noteq> None)"
proof -
  let ?file = "real_path e path"
  let ?m1 = "(case peer_db of None \<Rightarrow> State_Monad.return (Inr ()) | Some p \<Rightarrow> connect_file e False (real_path e p))"
  obtain r1 s1 where 1: "run_state ?m1 s = (r1, s1)" by (metis prod.collapse)
  obtain r2 s2 where 2: "run_state (connect_file e True ?file) s1 = (r2, s2)" by (metis prod.collapse)
  obtain r3 s3 where 3: "run_state (create_objects e ?file account_schema) s2 = (r3, s3)" by (metis prod.collapse)
  have run: "(r, s') = (case r1 of Inl x \<Rightarrow> (Inl x, s1) | Inr _ \<Rightarrow>
      (case r2 of Inl x \<Rightarrow> (Inl x, s2) | Inr _ \<Rightarrow> (case r3 of Inl x \<Rightarrow> (Inl x, s3) | Inr _ \<Rightarrow> (Inr (peer_db \<noteq> None), s3))))"
    using assms(1) 1 2 3
    by (auto simp: open_with_peers_def Let_def account_schema_def create_objects_append wol_init_def audit_init_def
        exec_simps split: sum.splits prod.splits option.splits)
  have f1: "file_objects f s1 = file_objects f s" "other_files f s s1" for f
    using 1 connect_file_run(6) [of e False _ s r1 s1] by (auto simp: file_objects_def other_files_def split: option.splits)
  note f2 = connect_file_run(1,2) [OF 2]
  have "has_part account_schema ?file s2" using assms(2) f1(1) f2(1) by (simp add: has_part_def)
  note f3 = has_part_create [OF sound_schemas(1) this 3]
  have p1: "r1 = Inr () \<Longrightarrow> peer_db = Some p \<Longrightarrow> map_of (stores s) (real_path e p) \<noteq> None" for p
    using 1 by (auto simp: connect_file_def exec_simps split: if_splits)
  have p2: "\<forall>k. sql_ok e k \<Longrightarrow> r1 = Inr () \<longleftrightarrow> (\<forall>p. peer_db = Some p \<longrightarrow> map_of (stores s) (real_path e p) \<noteq> None)"
    using 1 connect_file_run(5) by (fastforce split: option.splits)
  have "s' \<in> {s1, s2, s3}" using run by (auto split: sum.splits)
  moreover have "has_part account_schema ?file x \<and> other_files ?file s x" if "x \<in> {s1, s2, s3}" for x
    using that assms(2) f1 f2 f3 other_files_trans [OF f1(2) f2(2)] other_files_trans [OF other_files_trans [OF f1(2) f2(2)]]
    by (auto simp: has_part_def)
  ultimately show "has_part account_schema ?file s'" "other_files ?file s s'" by blast+
  show "r = Inr b \<Longrightarrow> file_objects ?file s' = account_schema \<and> b = (peer_db \<noteq> None) \<and>
      (\<forall>p. peer_db = Some p \<longrightarrow> map_of (stores s) (real_path e p) \<noteq> None)"
    using run f3 p1 by (auto split: sum.splits)
  show "(\<exists>b. r = Inr b) \<longleftrightarrow> (\<forall>p. peer_db = Some p \<longrightarrow> map_of (stores s) (real_path e p) \<noteq> None)"
    if ok: "\<forall>k. sql_ok e k"
    using run f3 p2 [OF ok] connect_file_run(5) [OF 2 ok] ok by (auto split: sum.splits)
qed


lemma ensure_file_run:
  assumes "run_state (ensure_file e path) s = (u, s')"
  shows "file_objects f s' = file_objects f s" and "other_files (real_path e path) s s'"
    and "\<forall>k. created e k \<Longrightarrow> map_of (stores s') (real_path e path) \<noteq> None"
  using assms
  by (auto simp: ensure_file_def exec_simps file_objects_def other_files_def update_conv' split: if_splits)

text \<open>A plain path: sqlx reads it as the operating system does.\<close>

definition plain_path :: "'e store_env_scheme \<Rightarrow> string \<Rightarrow> bool" where
  "plain_path e url \<longleftrightarrow> (\<exists>path. url_file e url = Some (path, False) \<and> real_path e path = real_path e url)"

lemma pool_connection_run:
  assumes "run_state (pool_connection e n url) s = (r, s')" and "plain_path e url"
  shows "stores s' = stores s" and "r = Inr file \<Longrightarrow> file = real_path e url"
    and "\<not> pool_waits e n \<Longrightarrow> \<forall>k. sql_ok e k \<Longrightarrow> r = Inr (real_path e url) \<longleftrightarrow> map_of (stores s) (real_path e url) \<noteq> None"
    and "(\<exists>f. r = Inr f) \<Longrightarrow> map_of (stores s) (real_path e url) \<noteq> None"
  using assms
  by (auto simp: pool_connection_def plain_path_def connect_file_def exec_simps split: if_splits)

definition pool_size :: "'c case_env_scheme \<Rightarrow> environment \<Rightarrow> nat" where
  "pool_size c en = parse_usize (Some (get_arg_or c ''MAX_DATABASE_CONNECTIONS'' ''1'' en)) 1"

lemma get_arg_opt_empty: "get_arg_opt c name [] = None"
  by (simp add: get_arg_opt_def env_var_def Let_def)

lemma pool_size_default: "get_arg_opt c ''MAX_DATABASE_CONNECTIONS'' en = None \<Longrightarrow> pool_size c en = 1"
  by (simp add: pool_size_def get_arg_or_def parse_usize_def parse_unsigned_def digit_of_def)

lemma database_new_run:
  assumes "run_state (database_new e c en url) s = (r, s')" and "plain_path e url"
    and "has_part peer_schema (real_path e url) s"
  shows "has_part peer_schema (real_path e url) s'" and "other_files (real_path e url) s s'"
    and "r = Inr () \<Longrightarrow> file_objects (real_path e url) s' = peer_schema \<and> map_of (stores s') (real_path e url) \<noteq> None"
    and "\<forall>k. sql_ok e k \<and> created e k \<Longrightarrow> \<not> pool_waits e (pool_size c en) \<Longrightarrow> r = Inr ()"
proof -
  let ?file = "real_path e url" and ?n = "pool_size c en"
  obtain s1 where 1: "run_state (ensure_file e url) s = ((), s1)" by (metis prod.collapse unit.exhaust)
  obtain r2 s2 where 2: "run_state (pool_connection e ?n url) s1 = (r2, s2)" by (metis prod.collapse)
  obtain r3 s3 where 3: "run_state (pool_connection e ?n url) s2 = (r3, s3)" by (metis prod.collapse)
  obtain r4 s4 where 4: "run_state (create_objects e ?file peer_schema) s3 = (r4, s4)" by (metis prod.collapse)
  note f1 = ensure_file_run [OF 1] and p2 = pool_connection_run [OF 2 assms(2)] and p3 = pool_connection_run [OF 3 assms(2)]
  have run: "(r, s') = (case r2 of Inl x \<Rightarrow> (Inl x, s2) | Inr _ \<Rightarrow> (case r3 of Inl x \<Rightarrow> (Inl x, s3) | Inr _ \<Rightarrow> (r4, s4)))"
    using assms(1) 1 2 3 4 p3(2)
    by (auto simp: database_new_def create_tables_def pool_size_def exec_simps Let_def split: sum.splits prod.splits)
  have same: "file_objects f s2 = file_objects f s" "file_objects f s3 = file_objects f s"
    "other_files ?file s s2" "other_files ?file s s3" for f
    using f1(1,2) p2(1) p3(1) by (simp_all add: file_objects_def other_files_def)
  have "has_part peer_schema ?file s3" using assms(3) same by (simp add: has_part_def)
  note f4 = has_part_create [OF sound_schemas(2) this 4]
  have "s' \<in> {s2, s3, s4}" using run by (auto split: sum.splits)
  moreover have "has_part peer_schema ?file x \<and> other_files ?file s x" if "x \<in> {s2, s3, s4}" for x
    using that assms(3) same f4 other_files_trans [OF same(4)] by (auto simp: has_part_def)
  ultimately show "has_part peer_schema ?file s'" "other_files ?file s s'" by blast+
  show "r = Inr () \<Longrightarrow> file_objects ?file s' = peer_schema \<and> map_of (stores s') ?file \<noteq> None"
    using run f4 p2(1,4) p3(1) by (auto simp: other_files_def split: sum.splits)
  show "r = Inr ()" if ok: "\<forall>k. sql_ok e k \<and> created e k" and size: "\<not> pool_waits e ?n"
  proof -
    have "map_of (stores s1) ?file \<noteq> None" using f1(3) ok by blast
    then have "r2 = Inr ?file" "r3 = Inr ?file" "r4 = Inr ()"
      using p2(1,3) p3(3) f4 ok size by auto
    with run show ?thesis by simp
  qed
qed

lemma other_file:
  assumes "other_files file s s'" and "f \<noteq> file"
  shows "file_objects f s' = file_objects f s" and "has_part sch f s' = has_part sch f s"
  using assms by (simp_all add: other_files_def file_objects_def has_part_def)

text \<open>What either program does to the files when it starts.\<close>

inductive open_step :: "'e store_env_scheme \<Rightarrow> string \<Rightarrow> string \<Rightarrow> 'w store_scheme \<Rightarrow> 'w store_scheme \<Rightarrow> bool"
  for e :: "'e store_env_scheme" and acc :: string and url :: string where
  accounts_opened: "run_state (open_with_peers e path peer_db) s = (r, s') \<Longrightarrow> real_path e path = acc \<Longrightarrow>
    open_step e acc url s s'"
| peers_opened: "run_state (database_new e (c :: case_env) en url) s = (r, s') \<Longrightarrow> open_step e acc url s s'"

definition no_stores :: "'w store_scheme \<Rightarrow> bool" where
  "no_stores s \<longleftrightarrow> stores s = []"

definition parts_ok :: "'e store_env_scheme \<Rightarrow> string \<Rightarrow> string \<Rightarrow> 'w store_scheme \<Rightarrow> bool" where
  "parts_ok e acc url s \<longleftrightarrow> plain_path e url \<and> acc \<noteq> real_path e url \<longrightarrow>
     has_part account_schema acc s \<and> has_part peer_schema (real_path e url) s"

interpretation schema_machine: machine no_stores "open_step e acc url" "parts_ok e acc url"
  for e :: "'e store_env_scheme" and acc url
proof unfold_locales
  show "parts_ok e acc url s" if "no_stores s" for s :: "'w store_scheme"
    using that by (auto simp: no_stores_def parts_ok_def has_part_def file_objects_def intro!: exI [of _ 0])
  show "parts_ok e acc url t" if "parts_ok e acc url s" and "open_step e acc url s t" for s t :: "'w store_scheme"
    using that(2)
  proof cases
    case (accounts_opened path peer_db r)
    then show ?thesis
      using that(1) open_with_peers_run(1,2) [OF accounts_opened(1)] by (auto simp: parts_ok_def other_file)
  next
    case (peers_opened c en r)
    then show ?thesis
      using that(1) database_new_run(1,2) [OF peers_opened] by (auto simp: parts_ok_def other_file)
  qed
qed

section \<open>Properties\<close>

text \<open>
  C19: However often the two programs were started before, in whatever order, and at whatever statement an
  opening of theirs failed: once the account service and hbbs have both opened their file, the files
  hold exactly the tables and indexes of the two schemas.
\<close>

theorem opening_completes_schema:
  assumes "reach no_stores (open_step e (real_path e path) url) s"
    and "plain_path e url" and "real_path e path \<noteq> real_path e url"
    and "run_state (open_with_peers e path peer_db) s = (Inr b, s1)"
    and "run_state (database_new e c en url) s1 = (Inr (), s2)"
  shows "file_objects (real_path e path) s2 = account_schema \<and> file_objects (real_path e url) s2 = peer_schema"
proof -
  have "parts_ok e (real_path e path) url s" using assms(1) by (rule schema_machine.reach_inv)
  then have "has_part account_schema (real_path e path) s" "has_part peer_schema (real_path e url) s"
    using assms(2,3) by (simp_all add: parts_ok_def)
  moreover note 1 = open_with_peers_run [OF assms(4) this(1)]
  ultimately have "has_part peer_schema (real_path e url) s1"
    using other_file(2) [OF 1(2)] assms(3) by simp
  from database_new_run [OF assms(5,2) this] 1(3) show ?thesis
    using other_file(1) assms(3) by fastforce
qed

definition sample_store_env :: store_env where
  "sample_store_env = env.extend sample_env
     \<lparr>real_path = (\<lambda>p. if take 2 p = ''./'' then drop 2 p else p), url_file = (\<lambda>u. Some (u, False)),
      pool_waits = (\<lambda>n. n = 0), created = (\<lambda>_. True), config_dir = None\<rparr>"

definition sample_store :: store where
  "sample_store = \<lparr>ticks = 0, stores = []\<rparr>"

lemma sample_store_simps:
  "real_path sample_store_env p = (if take 2 p = ''./'' then drop 2 p else p)" "plain_path sample_store_env u"
  "pool_waits sample_store_env n = (n = 0)" "sql_ok sample_store_env k" "created sample_store_env k"
  by (simp_all add: plain_path_def sample_store_env_def sample_env_def env.extend_def)

theorem opening_completes_schema_witness:
  "\<exists>s1 s2. run_state (open_with_peers sample_store_env ''a.sqlite3'' None) sample_store = (Inr False, s1) \<and>
     run_state (database_new sample_store_env sample_case [] ''./db_v2.sqlite3'') s1 = (Inr (), s2) \<and>
     file_objects ''a.sqlite3'' s2 = account_schema \<and> file_objects ''db_v2.sqlite3'' s2 = peer_schema"
proof -
  let ?e = sample_store_env
  have part: "has_part sch f sample_store" for sch f
    by (auto simp: has_part_def file_objects_def sample_store_def intro!: exI [of _ 0])
  obtain r s1 where 1: "run_state (open_with_peers ?e ''a.sqlite3'' None) sample_store = (r, s1)" by (metis prod.collapse)
  note o = open_with_peers_run [OF 1 part]
  obtain b where "r = Inr b" using o(4) by (auto simp: sample_store_simps)
  then have 1: "run_state (open_with_peers ?e ''a.sqlite3'' None) sample_store = (Inr False, s1)" using 1 o(3) by simp
  obtain r2 s2 where 2: "run_state (database_new ?e sample_case [] ''./db_v2.sqlite3'') s1 = (r2, s2)" by (metis prod.collapse)
  have "has_part peer_schema ''db_v2.sqlite3'' s1"
    using other_file(2) [OF o(2), of "''db_v2.sqlite3''"] part by (simp add: sample_store_simps)
  moreover have "pool_size sample_case [] = 1" by (intro pool_size_default get_arg_opt_empty)
  ultimately have "r2 = Inr ()"
    using database_new_run(4) [OF 2] by (simp add: sample_store_simps)
  with 2 have 2: "run_state (database_new ?e sample_case [] ''./db_v2.sqlite3'') s1 = (Inr (), s2)" by simp
  have "reach no_stores (open_step ?e (real_path ?e ''a.sqlite3'') ''./db_v2.sqlite3'') sample_store"
    by (rule reach_start) (simp add: no_stores_def sample_store_def)
  from opening_completes_schema [OF this _ _ 1 2] 1 2 show ?thesis by (simp add: sample_store_simps)
qed


text \<open>A pool of size 0 hands out nothing: hbbs then waits at its first connection.\<close>

lemma no_connections_waits:
  assumes "pool_waits e 0" and "get_arg_or c ''MAX_DATABASE_CONNECTIONS'' ''1'' en = ''0''"
  shows "fst (run_state (database_new e c en url) s) = Inl Waits_For_Ever"
proof -
  have "pool_size c en = 0" using assms(2) by (simp add: pool_size_def parse_usize_def parse_unsigned_def digit_of_def)
  with assms(1) show ?thesis by (simp add: database_new_def pool_connection_def pool_size_def exec_simps Let_def split: prod.splits)
qed

text \<open>
  A url that sqlx reads as another path than the operating system: the file of that path is not
  created, and hbbs does not start.
\<close>

lemma url_is_not_created:
  assumes "url_file e url = Some (path, False)" and "real_path e path \<noteq> real_path e url"
    and "map_of (stores s) (real_path e path) = None"
  shows "\<exists>x. fst (run_state (database_new e c en url) s) = Inl x"
proof -
  obtain s1 where 1: "run_state (ensure_file e url) s = ((), s1)" by (metis prod.collapse unit.exhaust)
  have "map_of (stores s1) (real_path e path) = None"
    using ensure_file_run(2) [OF 1] assms(2,3) by (simp add: other_files_def)
  with 1 assms(1) show ?thesis
    by (auto simp: database_new_def pool_connection_def connect_file_def exec_simps Let_def)
qed

end
