(* ===== verification/Signals.thy ===== *)
theory Signals
  imports Schema
begin

text \<open>
  The signals that end the servers: \<open>listen_signal\<close> of src/common/process.rs waits for one of three
  signals on Unix, and for ever elsewhere.
\<close>

datatype os_signal = SIGTERM | SIGINT | SIGQUIT | Other_Signal nat

fun listen_signal :: "platform \<Rightarrow> os_signal \<Rightarrow> bool" where
  "listen_signal Unix (Other_Signal n) = False"
| "listen_signal Unix sig = True"
| "listen_signal os sig = False"

end
