(* ===== verification/RelayMain.thy ===== *)
theory RelayMain
  imports RelayNode MainLoop Keys Part Signals
begin

text \<open>
  The program hbbr from its arguments to its end (src/hbbr.rs, \<open>start_with_bind\<close> of
  src/relay_server/mod.rs): it reads the settings file \<open>.env\<close>, the arguments (theory MainLoop), its key
  (Keys), how tickets are redeemed (RelayTicket), the two address lists and its port (RelayConsole), and then
  accepts connections (RelayNode) until a signal comes or a listener cannot be opened again.

  The console is reached through accepted connections, each of which runs its command in a task of its
  own; so a command is an event that comes at any time. The limiter it sets is that of the accept loop
  running then.
\<close>

record hbbr_env =
  setting_part :: loop_env
  own_key_part :: key_env
  node_part :: relay_node_env

record hbbr_process = relay_node +
  own_key_files :: "(string \<times> string) list"

definition hbbr_keys :: "'w hbbr_process_scheme \<Rightarrow> file_world" where
  "hbbr_keys s = \<lparr>ticks = ticks s, files = own_key_files s\<rparr>"

definition put_hbbr_keys :: "file_world \<Rightarrow> 'w hbbr_process_scheme \<Rightarrow> 'w hbbr_process_scheme" where
  "put_hbbr_keys t s = s\<lparr>ticks := ticks t, own_key_files := files t\<rparr>"

interpretation hbbr_keys_part: part hbbr_keys put_hbbr_keys
  by unfold_locales (simp_all add: hbbr_keys_def put_hbbr_keys_def)

text \<open>
  What the program is given: its options on the command line, the settings of the files and of the
  environment, and the contents of the files it looks for.
\<close>

record hbbr_input =
  option_of :: "string \<Rightarrow> string option"
  dotenv :: "(string \<times> string) list option"
  variables :: environment
  variable :: "string \<Rightarrow> string option"
  file_text :: "string \<Rightarrow> string option"

datatype hbbr_error =
    Bad_Setting
  | Bad_Option string
  | Key_Lost
  | No_Relay string
  | No_Listener "handed list"

datatype hbbr_outcome = Relay_Signalled "handed list" | Relay_Running "handed list"

fun served_by :: "hbbr_error + hbbr_outcome \<Rightarrow> handed list" where
  "served_by (Inl (No_Listener xs)) = xs"
| "served_by (Inl err) = []"
| "served_by (Inr (Relay_Signalled xs)) = xs"
| "served_by (Inr (Relay_Running xs)) = xs"

section \<open>The program\<close>

definition find_own_key :: "hbbr_env \<Rightarrow> string \<Rightarrow> ('w hbbr_process_scheme, hbbr_error + string) state" where
  "find_own_key e key0 = do {
     r \<leftarrow> on_part hbbr_keys put_hbbr_keys (hbbr_server_sk (own_key_part e) key0);
     State_Monad.return (case r of Fatal \<Rightarrow> Inl Key_Lost | Keys k sk' \<Rightarrow> Inr k)
   }"

datatype hbbr_event = Relay_Event relay_accept | Relay_Command string | Relay_Signal os_signal

fun hbbr_loop ::
  "hbbr_env \<Rightarrow> 'c case_env_scheme \<Rightarrow> platform \<Rightarrow> environment \<Rightarrow> ip_addr option \<Rightarrow> 16 word \<Rightarrow> hbbr_event list
     \<Rightarrow> nat \<Rightarrow> handed list \<Rightarrow> ('w hbbr_process_scheme, hbbr_error + hbbr_outcome) state" where
  "hbbr_loop e c os en bind_addr port [] n served = State_Monad.return (Inr (Relay_Running served))"
| "hbbr_loop e c os en bind_addr port (Relay_Signal sig # evs) n served =
     (if listen_signal os sig then State_Monad.return (Inr (Relay_Signalled served))
      else hbbr_loop e c os en bind_addr port evs n served)"
| "hbbr_loop e c os en bind_addr port (Relay_Command cmd # evs) n served = do {
     _ \<leftarrow> relay_check_cmd cmd;
     hbbr_loop e c os en bind_addr port evs n served
   }"
| "hbbr_loop e c os en bind_addr port (Relay_Event ev # evs) n served = do {
     r \<leftarrow> run_relay (node_part e) c en bind_addr port [ev] n served;
     case r of
       Inl xs \<Rightarrow> State_Monad.return (Inl (No_Listener xs))
     | Inr xs \<Rightarrow> hbbr_loop e c os en bind_addr port evs (n + errors [ev]) xs
   }"

text \<open>
  \<open>start_with_bind\<close>; with the outcome, the key and the way tickets are redeemed, with which the connections
  handed to the pairing are admitted.
\<close>

definition run_hbbr ::
  "hbbr_env \<Rightarrow> 'c case_env_scheme \<Rightarrow> platform \<Rightarrow> environment \<Rightarrow> hbbr_input \<Rightarrow> ip_addr option \<Rightarrow> string \<Rightarrow> string
     \<Rightarrow> hbbr_event list \<Rightarrow> ('w hbbr_process_scheme, hbbr_error + (string \<times> redeemer) \<times> hbbr_outcome) state" where
  "run_hbbr e c os en inp bind_addr port_text key0 evs =
     try_bind (find_own_key e key0) (\<lambda>key. do {
       st \<leftarrow> start_relay (node_part e) (variable inp) (file_text inp) (file_text inp ''blacklist.txt'')
         (file_text inp ''blocklist.txt'') port_text;
       case st of
         Inl err \<Rightarrow> State_Monad.return (Inl (No_Relay err))
       | Inr (r, port, port2) \<Rightarrow> do {
           m \<leftarrow> relay_main (node_part e) c en bind_addr port [];
           case m of
             Inl xs \<Rightarrow> State_Monad.return (Inl (No_Listener xs))
           | Inr xs \<Rightarrow> try_bind (hbbr_loop e c os en bind_addr port evs 0 xs) (\<lambda>out. State_Monad.return (Inr ((key, r), out)))
         }
     })"

definition hbbr_program ::
  "hbbr_env \<Rightarrow> 'c case_env_scheme \<Rightarrow> platform \<Rightarrow> hbbr_input \<Rightarrow> hbbr_event list
     \<Rightarrow> ('w hbbr_process_scheme, hbbr_error + (string \<times> redeemer) \<times> hbbr_outcome) state" where
  "hbbr_program e c os inp evs =
     (case (case dotenv inp of None \<Rightarrow> Some (variables inp) | Some kvs \<Rightarrow> set_args c kvs (variables inp)) of
        None \<Rightarrow> State_Monad.return (Inl Bad_Setting)
      | Some en \<Rightarrow>
          (case hbbr_main (setting_part e) c (option_of inp) en of
             Inl err \<Rightarrow> State_Monad.return (Inl (Bad_Option err))
           | Inr (port_text, bind_addr, key) \<Rightarrow> run_hbbr e c os en inp bind_addr port_text key evs))"

section \<open>Lemmas\<close>

text \<open>The commands that take the address \<open>ip\<close> off the block list.\<close>

definition unblocks :: "string \<Rightarrow> string \<Rightarrow> bool" where
  "unblocks ip cmd \<longleftrightarrow> (let fds = split_on (CHR '' '') (trim cmd) in
     hd fds \<in> {''blocklist-remove'', ''Br''} \<and>
     (case tl fds of [] \<Rightarrow> False | ips # _ \<Rightarrow> ips = ''all'' \<or> ip \<in> set (split_on (CHR ''|'') ips)))"

abbreviation blocks :: "string \<Rightarrow> 'w relay_scheme \<Rightarrow> bool" where
  "blocks ip s \<equiv> ip \<in> set (blocklist s)"

lemma blocks_settings:
  "preserves (blocks ip) (set_threshold v)" "preserves (blocks ip) (set_start_check n)"
  "preserves (blocks ip) (set_limit_speed v)" "preserves (blocks ip) (set_single v)"
  "preserves (blocks ip) (set_total_now v)"
  by (rule preservesI; auto simp: set_threshold_def set_start_check_def set_limit_speed_def set_single_def
      set_total_now_def set_total_def exec_simps split: if_splits)+

lemma blocks_lists:
  "preserves (blocks ip) (cmd_list_add blacklist_update args)"
  "preserves (blocks ip) (cmd_list_add blocklist_update args)"
  "preserves (blocks ip) (cmd_list_remove blacklist_update args)"
  "preserves (blocks ip) (cmd_list_show get args)"
  unfolding cmd_list_add_def cmd_list_remove_def cmd_list_show_def
  by (auto split: list.splits intro!: preserves_intros preserves_modify)

lemma blocks_command:
  assumes "\<not> unblocks ip cmd"
  shows "preserves (blocks ip) (relay_check_cmd cmd)"
proof -
  let ?fds = "split_on (CHR '' '') (trim cmd)"
  have remove: "preserves (blocks ip) (cmd_list_remove blocklist_update (tl ?fds))"
    if "hd ?fds = ''blocklist-remove'' \<or> hd ?fds = ''Br''"
    using assms that unfolding cmd_list_remove_def unblocks_def Let_def
    by (auto split: list.splits intro!: preserves_intros preserves_modify)
  have check: "preserves (blocks ip) (cmd_start_check args)" for args
    unfolding cmd_start_check_def
    by (auto split: list.splits option.splits intro!: preserves_intros blocks_settings)
  have usage: "preserves (blocks ip) cmd_usage" unfolding cmd_usage_def by (intro preserves_intros)
  note floats = limit_ok_float [OF blocks_settings(1)] limit_ok_float [OF blocks_settings(3)]
    limit_ok_float [OF blocks_settings(4)] limit_ok_float [OF blocks_settings(5)]
  show ?thesis
    unfolding relay_check_cmd_def Let_def
    by (intro preserves_if blocks_lists check usage floats preserves_bind preserves_gets preserves_return remove) simp_all
qed

text \<open>What was handed on for the address \<open>ip\<close> was nothing, unless it is a console connection.\<close>

definition refused :: "'e relay_env_scheme \<Rightarrow> string \<Rightarrow> handed \<Rightarrow> bool" where
  "refused e ip = (\<lambda>(addr, p, r, n). show_ip (sock_ip (relay_v4 e addr)) = ip \<longrightarrow>
     r = (if p \<noteq> Relay_Ws \<and> is_loopback (sock_ip (relay_v4 e addr)) then To_Console else Blocked_Address))"

lemma routed_refused: "properly_routed e blocked x \<Longrightarrow> ip \<in> set blocked \<Longrightarrow> refused e ip x"
  by (auto simp: properly_routed_def refused_def Let_def split: if_splits)

fun arrival :: "hbbr_event \<Rightarrow> (socket_addr \<times> relay_port) option" where
  "arrival (Relay_Event ev) = taken ev"
| "arrival ev = None"

lemma hbbr_loop_serves:
  assumes "run_state (hbbr_loop e c os en bind_addr port evs n served) s = (res, s')"
    and "blocks ip s" and "\<forall>cmd. Relay_Command cmd \<in> set evs \<longrightarrow> \<not> unblocks ip cmd"
    and "\<forall>x \<in> set served. refused (node_part e) ip x"
  shows "(\<forall>x \<in> set (served_by res). refused (node_part e) ip x) \<and>
    (\<forall>xs. res = Inr (Relay_Running xs) \<longrightarrow> map whence xs = map whence served @ List.map_filter arrival evs)"
  using assms
proof (induction e c os en bind_addr port evs n served arbitrary: s rule: hbbr_loop.induct)
  case (1 e c os en bind_addr port n served)
  then show ?case by (auto simp: exec_simps List.map_filter_simps)
next
  case (2 e c os en bind_addr port sig evs n served)
  then show ?case by (auto simp: exec_simps List.map_filter_simps split: if_splits)
next
  case (3 e c os en bind_addr port cmd evs n served)
  obtain ps s1 where c: "run_state (relay_check_cmd cmd) s = (ps, s1)" by (metis prod.collapse)
  have "blocks ip s1" using preservesD_run [OF blocks_command c] 3(3,4) by simp
  moreover have "run_state (hbbr_loop e c os en bind_addr port evs n served) s1 = (res, s')"
    using 3(2) c by (simp add: exec_simps)
  ultimately show ?case using 3(1) [of s1] 3(4,5) by (simp add: List.map_filter_simps)
next
  case (4 e c os en bind_addr port ev evs n served)
  obtain r s1 where r: "run_state (run_relay (node_part e) c en bind_addr port [ev] n served) s = (r, s1)"
    by (metis prod.collapse)
  from run_relay_serves [OF r] obtain new where new: "(case r of Inl xs \<Rightarrow> xs | Inr xs \<Rightarrow> xs) = served @ new"
    "\<forall>x \<in> set new. properly_routed (node_part e) (blocklist s) x"
    "map whence new = take (length new) (List.map_filter taken [ev])"
    "\<forall>xs. r = Inr xs \<longrightarrow> length new = length (List.map_filter taken [ev])" "blocklist s1 = blocklist s" by blast
  have ok: "\<forall>x \<in> set (served @ new). refused (node_part e) ip x"
  proof
    fix x
    assume "x \<in> set (served @ new)"
    then consider "x \<in> set served" | "x \<in> set new" by auto
    then show "refused (node_part e) ip x" using 4(5) new(2) 4(3) by cases (blast intro: routed_refused)+
  qed
  show ?case
  proof (cases r)
    case (Inl xs)
    with 4(2) r ok new(1) show ?thesis by (auto simp: exec_simps)
  next
    case (Inr xs)
    then have xs: "xs = served @ new" using new(1) by simp
    have l: "run_state (hbbr_loop e c os en bind_addr port evs (n + errors [ev]) xs) s1 = (res, s')"
      using 4(2) r Inr by (simp add: exec_simps)
    have "map whence new = List.map_filter taken [ev]" using new(3,4) Inr by simp
    then have "map whence xs @ List.map_filter arrival evs = map whence served @ List.map_filter arrival (Relay_Event ev # evs)"
      using xs by (simp add: List.map_filter_simps split: option.splits)
    with 4(1) [OF l] 4(3,4) new(5) ok xs show ?thesis by auto
  qed
qed

lemma run_find_own_key:
  "run_state (find_own_key e key0) s = (r, s') \<Longrightarrow>
     (\<exists>k fs. s' = s\<lparr>ticks := k, own_key_files := fs\<rparr>) \<and>
     (r = Inl Key_Lost \<or> (\<exists>key k'. r = Inr key \<and> fst (run_state (hbbr_server_sk (own_key_part e) key0) (hbbr_keys s)) = Keys key k'))"
  by (auto simp: find_own_key_def exec_simps put_hbbr_keys_def split: prod.splits key_result.splits)


lemma run_start_relay:
  assumes "run_state (start_relay e var read_file black block port_text) s = (Inr (r, p, p2), s')"
  shows "redeemer_from_env e var read_file = Inr r \<and> parse_unsigned 16 port_text = Some (unat p) \<and> p2 = p + 2 \<and>
    (\<forall>ip. ip \<in> set (blocklist s') \<longleftrightarrow> ip \<in> set (blocklist s) \<or> (\<exists>text. block = Some text \<and> ip \<in> set (list_entries text)))"
proof -
  have "parse_unsigned 16 port_text = Some n \<Longrightarrow> unat (of_nat n :: 16 word) = n" for n
    using parse_unsigned_bound [of 16 port_text n] by (simp add: unat_of_nat take_bit_nat_eq_self)
  with assms show ?thesis
    by (auto simp: start_relay_def start_lists_def exec_simps split: sum.splits option.splits)
qed

lemma relay_main_start:
  "run_state (relay_main e c en bind_addr port []) s = (m, s') \<Longrightarrow> (m = Inl [] \<or> m = Inr []) \<and> blocklist s' = blocklist s"
  by (auto simp: relay_main_def exec_simps split: prod.splits if_splits dest!: run_open_listeners run_open_limiter)

text \<open>What the program handed on by its end or until now.\<close>

fun handed_by :: "hbbr_error + 'x \<times> hbbr_outcome \<Rightarrow> handed list" where
  "handed_by (Inl err) = served_by (Inl err)"
| "handed_by (Inr (x, out)) = served_by (Inr out)"

lemma run_hbbr_serves:
  assumes "run_state (run_hbbr e c os en inp bind_addr port_text key0 evs) s = (res, s')"
    and "file_text inp ''blocklist.txt'' = Some text" and "ip \<in> set (list_entries text)"
    and "\<forall>cmd. Relay_Command cmd \<in> set evs \<longrightarrow> \<not> unblocks ip cmd"
  shows "(\<forall>x \<in> set (handed_by res). refused (node_part e) ip x) \<and>
    (\<forall>kr xs. res = Inr (kr, Relay_Running xs) \<longrightarrow> map whence xs = List.map_filter arrival evs)"
proof -
  obtain k s1 where k: "run_state (find_own_key e key0) s = (k, s1)" by (metis prod.collapse)
  show ?thesis
  proof (cases k)
    case (Inl err)
    with assms(1) k run_find_own_key [OF k] show ?thesis by (auto simp: run_hbbr_def exec_simps)
  next
    case (Inr key)
    obtain st s2 where st: "run_state (start_relay (node_part e) (variable inp) (file_text inp) (file_text inp ''blacklist.txt'')
        (Some text) port_text) s1 = (st, s2)" by (metis prod.collapse)
    show ?thesis
    proof (cases st)
      case (Inl err)
      with assms(1,2) k Inr st show ?thesis by (auto simp: run_hbbr_def exec_simps)
    next
      case (Inr t)
      then obtain r p p2 where t: "st = Inr (r, p, p2)" by (metis prod_cases3)
      obtain m s3 where m: "run_state (relay_main (node_part e) c en bind_addr p []) s2 = (m, s3)" by (metis prod.collapse)
      obtain out s4 where l: "run_state (hbbr_loop e c os en bind_addr p evs 0 []) s3 = (out, s4)" by (metis prod.collapse)
      have "blocks ip s3"
        using run_start_relay [OF st [unfolded t]] relay_main_start [OF m] assms(3) by auto
      from hbbr_loop_serves [OF l this assms(4)] assms(1,2) \<open>k = Inr key\<close> k st t m l relay_main_start [OF m] show ?thesis
        by (cases out) (auto simp: run_hbbr_def exec_simps)
    qed
  qed
qed

lemma hbbr_program_cases:
  assumes "run_state (hbbr_program e c os inp evs) s = (res, s')"
  obtains "handed_by res = []" and "\<forall>kr out. res \<noteq> Inr (kr, out)"
  | en bind_addr port_text key0 where "run_state (run_hbbr e c os en inp bind_addr port_text key0 evs) s = (res, s')"
  using assms by (auto simp: hbbr_program_def exec_simps split: option.splits sum.splits)

text \<open>While listeners can be opened and no signal comes, hbbr goes on.\<close>

lemma hbbr_loop_up:
  assumes "\<forall>k. listen_ok (node_part e) k" and "\<forall>sig. Relay_Signal sig \<in> set evs \<longrightarrow> \<not> listen_signal os sig"
  shows "\<exists>xs s'. run_state (hbbr_loop e c os en bind_addr port evs n served) s = (Inr (Relay_Running xs), s')"
  using assms(2)
proof (induction evs arbitrary: n served s)
  case (Cons ev evs)
  show ?case
  proof (cases ev)
    case (Relay_Event x)
    obtain r s1 where "run_state (run_relay (node_part e) c en bind_addr port [x] n served) s = (Inr r, s1)"
      using run_relay_up [OF assms(1)] by blast
    with Cons Relay_Event show ?thesis by (simp add: exec_simps)
  next
    case (Relay_Command cmd)
    with Cons show ?thesis by (simp add: exec_simps split: prod.splits)
  next
    case (Relay_Signal sig)
    with Cons show ?thesis by simp
  qed
qed (simp add: exec_simps)

section \<open>Properties\<close>

text \<open>
  C32: The block list of the file holds for the whole life of hbbr: whatever connections, errors of
  listeners and console commands come in whatever order, an address that the file lists is handed nothing but
  the console, unless a command takes it off the list. And while the program runs, every connection
  it accepted was handed on exactly once, in order.
\<close>

theorem block_list_file_enforced:
  assumes "run_state (hbbr_program e c os inp evs) s = (res, s')"
    and "file_text inp ''blocklist.txt'' = Some text" and "ip \<in> set (list_entries text)"
    and "\<forall>cmd. Relay_Command cmd \<in> set evs \<longrightarrow> \<not> unblocks ip cmd"
  shows "(\<forall>x \<in> set (handed_by res). refused (node_part e) ip x) \<and>
    (\<forall>kr xs. res = Inr (kr, Relay_Running xs) \<longrightarrow> map whence xs = List.map_filter arrival evs)"
  using hbbr_program_cases [OF assms(1)]
proof cases
  case 2
  from run_hbbr_serves [OF 2 assms(2-4)] show ?thesis .
qed simp

definition sample_hbbr_env :: hbbr_env where
  "sample_hbbr_env = \<lparr>setting_part = sample_loop_env, own_key_part = sample_key_env, node_part = sample_relay_node_env\<rparr>"

definition sample_hbbr :: hbbr_process where
  "sample_hbbr = relay_node.extend sample_node \<lparr>own_key_files = []\<rparr>"

definition sample_input :: hbbr_input where
  "sample_input = \<lparr>option_of = [''port'' \<mapsto> ''21117'', ''bind'' \<mapsto> '''', ''key'' \<mapsto> ''k''], dotenv = None, variables = [],
     variable = (\<lambda>_. None), file_text = [''blocklist.txt'' \<mapsto> ''0.0.0.9 spammer'']\<rparr>"

lemma block_list_file_enforced_witness:
  "\<exists>kr xs s'. run_state (hbbr_program sample_hbbr_env sample_case Unix sample_input
       [Relay_Event (Relay_Accept_Error Relay_Ws), Relay_Command ''Br 0.0.0.8'',
        Relay_Event (Relay_Accepted Relay_Tcp (SockV4 9 7))]) sample_hbbr = (Inr (kr, Relay_Running xs), s') \<and>
     map whence xs = [(SockV4 9 7, Relay_Tcp)] \<and> (\<forall>x \<in> set xs. \<exists>n. x = (SockV4 9 7, Relay_Tcp, Blocked_Address, n))"
proof -
  let ?evs = "[Relay_Event (Relay_Accept_Error Relay_Ws), Relay_Command ''Br 0.0.0.8'',
    Relay_Event (Relay_Accepted Relay_Tcp (SockV4 9 7))]"
  let ?m = "hbbr_program sample_hbbr_env sample_case Unix sample_input ?evs"
  have up: "\<forall>k. listen_ok (node_part sample_hbbr_env) k" by (simp add: sample_hbbr_env_def sample_relay_node)
  have texts: "parse_unsigned 16 ''21117'' = Some 21117" "trim '''' = ''''"
    by (simp add: parse_unsigned_def digit_of_def, simp add: trim_def)
  have main: "hbbr_main (setting_part sample_hbbr_env) sample_case (option_of sample_input) [] = Inr (''21117'', None, ''k'')"
    by (simp add: hbbr_main_def sample_input_def parse_bind_address_def texts Let_def)
  have key: "private_key_of sample_key_env ''k'' = None" by (simp add: private_key_of_def sample_key_simps)
  have silent: "\<forall>sig. Relay_Signal sig \<in> set ?evs \<longrightarrow> \<not> listen_signal Unix sig" by simp
  obtain xs s' where r: "run_state ?m sample_hbbr = (Inr ((''k'', Local), Relay_Running xs), s')"
  proof -
    obtain s1 where k: "run_state (find_own_key sample_hbbr_env ''k'') sample_hbbr = (Inr ''k'', s1)"
      by (simp add: find_own_key_def hbbr_server_sk_def sample_hbbr_env_def key exec_simps)
    obtain s2 where st: "run_state (start_relay (node_part sample_hbbr_env) (variable sample_input) (file_text sample_input)
        None (Some ''0.0.0.9 spammer'') ''21117'') s1 = (Inr (Local, 21117, 21119), s2)"
      by (simp add: start_relay_def start_lists_def redeemer_from_env_def sample_input_def texts exec_simps)
    obtain ys s3 where m: "run_state (relay_main (node_part sample_hbbr_env) sample_case [] None 21117 []) s2 = (Inr ys, s3)"
      using relay_main_up [OF up] by blast
    obtain xs s4 where l: "run_state (hbbr_loop sample_hbbr_env sample_case Unix [] None 21117 ?evs 0 ys) s3 =
        (Inr (Relay_Running xs), s4)"
      using hbbr_loop_up [OF up silent] by blast
    show thesis
      by (rule that [of xs s4])
        (use k st m l main in \<open>simp add: hbbr_program_def run_hbbr_def exec_simps sample_input_def\<close>)
  qed
  have v4: "relay_v4 sample_relay_env (SockV4 9 7) = SockV4 9 7" by code_simp
  have listed: "file_text sample_input ''blocklist.txt'' = Some ''0.0.0.9 spammer''" by (simp add: sample_input_def)
  have text9: "show_v4 9 = ''0.0.0.9''" by (simp add: show_v4_def show_nat_def show_base.simps digit_char_def)
  have entry: "show_v4 9 \<in> set (list_entries ''0.0.0.9 spammer'')"
    by (simp add: text9 list_entries_def trim_ascii printing_def)
  have kept: "\<forall>cmd. Relay_Command cmd \<in> set ?evs \<longrightarrow> \<not> unblocks (show_v4 9) cmd"
  proof -
    have "\<not> unblocks (show_v4 9) ''Br 0.0.0.8''"
      by (simp add: text9 unblocks_def trim_ascii printing_def)
    then show ?thesis by auto
  qed
  from block_list_file_enforced [OF r listed entry kept]
  have s: "\<forall>x \<in> set xs. refused (node_part sample_hbbr_env) (show_v4 9) x"
    and w: "map whence xs = [(SockV4 9 7, Relay_Tcp)]" by (simp_all add: List.map_filter_simps)
  from w obtain rt n where xs: "xs = [(SockV4 9 7, Relay_Tcp, rt, n)]" by (auto simp: whence_def)
  have "rt = Blocked_Address"
    using s by (simp add: xs refused_def sample_hbbr_env_def sample_relay_node v4)
  with r w xs show ?thesis by auto
qed

end
