(* ===== verification/HubMain.thy ===== *)
theory HubMain
  imports HubFrame SelfTest Schema Signals Keys Part "HOL-Library.Multiset"
begin

text \<open>
  The program hbbs from its start to its end: \<open>start_with_bind\<close> of src/rendezvous_server/mod.rs with the
  listeners of io.rs and src/common/mod.rs. It finds its key (theory Keys), opens the database (Schema),
  opens its sockets, builds the server (MainLoop), checks the address of the self test (SelfTest), and then
  runs the main loop, which opens a socket that failed again, until a signal comes.

  The parts the environments of those theories describe are fields of \<open>hbbs_env\<close>. A process is the hub
  with its key files, database files and the sockets it has open; \<open>on_keys\<close> and \<open>on_peer_db\<close> run an
  operation on one of these components. \<open>opens k ep\<close> tells whether the socket asked for as the \<open>k\<close>-th
  request can be opened, \<open>local_addr\<close> is the address the system reports for it.
\<close>

datatype endpoint = Udp_At socket_addr | Tcp_At socket_addr | Tcp_Any "16 word"

record hbbs_env =
  loop_part :: loop_env
  key_part :: key_env
  store_part :: store_env
  probe_part :: probe_env
  opens :: "nat \<Rightarrow> endpoint \<Rightarrow> bool"
  local_addr :: "endpoint \<Rightarrow> socket_addr"

record hbbs_process = hub +
  key_files :: "(string \<times> string) list"
  peer_db_files :: "(string \<times> schema_object list) list"
  listening :: "endpoint list"

definition hbbs_keys :: "'w hbbs_process_scheme \<Rightarrow> file_world" where
  "hbbs_keys s = \<lparr>ticks = ticks s, files = key_files s\<rparr>"

definition put_hbbs_keys :: "file_world \<Rightarrow> 'w hbbs_process_scheme \<Rightarrow> 'w hbbs_process_scheme" where
  "put_hbbs_keys t s = s\<lparr>ticks := ticks t, key_files := files t\<rparr>"

interpretation hbbs_keys_part: part hbbs_keys put_hbbs_keys
  by unfold_locales (simp_all add: hbbs_keys_def put_hbbs_keys_def)

definition hbbs_stores :: "'w hbbs_process_scheme \<Rightarrow> store" where
  "hbbs_stores s = \<lparr>ticks = ticks s, stores = peer_db_files s\<rparr>"

definition put_hbbs_stores :: "store \<Rightarrow> 'w hbbs_process_scheme \<Rightarrow> 'w hbbs_process_scheme" where
  "put_hbbs_stores t s = s\<lparr>ticks := ticks t, peer_db_files := stores t\<rparr>"

interpretation hbbs_stores_part: part hbbs_stores put_hbbs_stores
  by unfold_locales (simp_all add: hbbs_stores_def put_hbbs_stores_def)

definition on_keys :: "(file_world, 'a) state \<Rightarrow> ('w hbbs_process_scheme, 'a) state" where
  "on_keys m = on_part hbbs_keys put_hbbs_keys m"

definition on_peer_db :: "(store, 'a) state \<Rightarrow> ('w hbbs_process_scheme, 'a) state" where
  "on_peer_db m = on_part hbbs_stores put_hbbs_stores m"

datatype start_error =
    Bad_Argument string
  | Exit_One
  | No_Database open_error
  | Cannot_Listen endpoint
  | Bad_Self_Test

section \<open>Sockets\<close>

definition open_endpoint ::
  "hbbs_env \<Rightarrow> endpoint \<Rightarrow> ('w hbbs_process_scheme, start_error + endpoint) state" where
  "open_endpoint e ep = do {
     k \<leftarrow> tick;
     if opens e k ep then do {
       modify (\<lambda>s. s\<lparr>listening := ep # listening s\<rparr>);
       State_Monad.return (Inr ep)
     } else State_Monad.return (Inl (Cannot_Listen ep))
   }"

definition close_endpoint :: "endpoint \<Rightarrow> ('w hbbs_process_scheme, unit) state" where
  "close_endpoint ep = modify (\<lambda>s. s\<lparr>listening := remove1 ep (listening s)\<rparr>)"

text \<open>The port is cast to 16 bits.\<close>

definition create_udp_listener ::
  "hbbs_env \<Rightarrow> ip_addr option \<Rightarrow> int \<Rightarrow> ('w hbbs_process_scheme, start_error + endpoint) state" where
  "create_udp_listener e bind_addr port = (case bind_addr of
       Some ip \<Rightarrow> open_endpoint e (Udp_At (socket_addr_new ip (of_int port)))
     | None \<Rightarrow> do {
         r \<leftarrow> open_endpoint e (Udp_At (socket_addr_new (V6 0) (of_int port)));
         case r of
           Inr ep \<Rightarrow> State_Monad.return (Inr ep)
         | Inl err \<Rightarrow> open_endpoint e (Udp_At (socket_addr_new (V4 0) (of_int port)))
       })"

definition listen_tcp ::
  "hbbs_env \<Rightarrow> ip_addr option \<Rightarrow> 16 word \<Rightarrow> ('w hbbs_process_scheme, start_error + endpoint) state" where
  "listen_tcp e bind_addr port = (case bind_addr of
       Some ip \<Rightarrow> open_endpoint e (Tcp_At (socket_addr_new ip port))
     | None \<Rightarrow> open_endpoint e (Tcp_Any port))"

definition create_tcp_listener ::
  "hbbs_env \<Rightarrow> ip_addr option \<Rightarrow> int \<Rightarrow> ('w hbbs_process_scheme, start_error + endpoint) state" where
  "create_tcp_listener e bind_addr port = listen_tcp e bind_addr (of_int port)"

definition listen_console ::
  "hbbs_env \<Rightarrow> ip_addr option \<Rightarrow> 16 word \<Rightarrow> ('w hbbs_process_scheme, start_error + endpoint option) state" where
  "listen_console e bind_addr port = (case console_addr bind_addr port of
       Some addr \<Rightarrow> try_bind (open_endpoint e (Tcp_At addr)) (\<lambda>ep. State_Monad.return (Inr (Some ep)))
     | None \<Rightarrow> State_Monad.return (Inr None))"

section \<open>Starting\<close>

text \<open>The variables of \<open>start_with_bind\<close> that the supervision loop uses.\<close>

record running =
  run_loop :: main_loop
  run_key :: string
  nat_port :: int
  ws_port :: int
  sock_udp :: endpoint
  sock_main :: endpoint
  sock_nat :: endpoint
  sock_ws :: endpoint
  sock_console :: "endpoint option"

definition find_key ::
  "hbbs_env \<Rightarrow> string \<Rightarrow> ('w hbbs_process_scheme, start_error + string \<times> bytes option) state" where
  "find_key e key = do {
     r \<leftarrow> on_keys (hbbs_server_sk (key_part e) key);
     State_Monad.return (case r of Fatal \<Rightarrow> Inl Exit_One | Keys pk' sk' \<Rightarrow> Inr (pk', sk'))
   }"

definition open_database ::
  "hbbs_env \<Rightarrow> 'c case_env_scheme \<Rightarrow> platform \<Rightarrow> environment \<Rightarrow> ('w hbbs_process_scheme, start_error + unit) state" where
  "open_database e c os en = do {
     r \<leftarrow> on_peer_db (peer_map_new (store_part e) c os en);
     State_Monad.return (case r of Inl err \<Rightarrow> Inl (No_Database err) | Inr _ \<Rightarrow> Inr ())
   }"

definition start_with_bind ::
  "hbbs_env \<Rightarrow> 'c case_env_scheme \<Rightarrow> platform \<Rightarrow> environment \<Rightarrow> ip_addr option \<Rightarrow> int \<Rightarrow> int \<Rightarrow> string
     \<Rightarrow> ('w hbbs_process_scheme, start_error + running) state" where
  "start_with_bind e c os en bind_addr port ser key0 =
     try_bind (find_key e key0) (\<lambda>(key, sk').
     try_bind (open_database e c os en) (\<lambda>_.
     try_bind (create_udp_listener e bind_addr port) (\<lambda>udp. do {
       (ml, natp, wsp) \<leftarrow> start_server (loop_part e) c en port ser sk';
       try_bind (create_tcp_listener e bind_addr port) (\<lambda>l1.
       try_bind (create_tcp_listener e bind_addr natp) (\<lambda>l2.
       try_bind (create_tcp_listener e bind_addr wsp) (\<lambda>l3.
       try_bind (listen_console e bind_addr (of_int natp)) (\<lambda>lc.
         if test_address (probe_part e) c en (local_addr e l1) = Some None then State_Monad.return (Inl Bad_Self_Test)
         else State_Monad.return (Inr \<lparr>run_loop = ml, run_key = key, nat_port = natp, ws_port = wsp, sock_udp = udp,
           sock_main = l1, sock_nat = l2, sock_ws = l3, sock_console = lc\<rparr>)))))
     })))"

section \<open>Running\<close>

text \<open>The socket that failed is dropped, then opened anew at its place.\<close>

definition reopen ::
  "hbbs_env \<Rightarrow> ip_addr option \<Rightarrow> int \<Rightarrow> loop_failure \<Rightarrow> running \<Rightarrow> ('w hbbs_process_scheme, start_error + running) state" where
  "reopen e bind_addr port failed r = (case failed of
       Udp_Socket \<Rightarrow> do {
         close_endpoint (sock_udp r);
         try_bind (create_udp_listener e bind_addr port) (\<lambda>ep. State_Monad.return (Inr (r\<lparr>sock_udp := ep\<rparr>)))
       }
     | Listener Main_Port \<Rightarrow> do {
         close_endpoint (sock_main r);
         try_bind (create_tcp_listener e bind_addr port) (\<lambda>ep. State_Monad.return (Inr (r\<lparr>sock_main := ep\<rparr>)))
       }
     | Listener Nat_Port \<Rightarrow> do {
         close_endpoint (sock_nat r);
         try_bind (create_tcp_listener e bind_addr (nat_port r)) (\<lambda>ep. State_Monad.return (Inr (r\<lparr>sock_nat := ep\<rparr>)))
       }
     | Listener Console_Port \<Rightarrow> do {
         (case sock_console r of None \<Rightarrow> State_Monad.return () | Some ep \<Rightarrow> close_endpoint ep);
         try_bind (listen_console e bind_addr (of_int (nat_port r))) (\<lambda>lc. State_Monad.return (Inr (r\<lparr>sock_console := lc\<rparr>)))
       }
     | Listener Ws_Port \<Rightarrow> do {
         close_endpoint (sock_ws r);
         try_bind (create_tcp_listener e bind_addr (ws_port r)) (\<lambda>ep. State_Monad.return (Inr (r\<lparr>sock_ws := ep\<rparr>)))
       })"

text \<open>\<open>Signalled\<close> is the end by a signal; \<open>Inl\<close> the error of a socket that could not be opened again.\<close>

datatype hbbs_event = Loop_Event loop_event | Signal os_signal

datatype outcome = Signalled | Still_Running running

fun main_task ::
  "hbbs_env \<Rightarrow> platform \<Rightarrow> ip_addr option \<Rightarrow> int \<Rightarrow> hbbs_event list \<Rightarrow> running
     \<Rightarrow> ('w hbbs_process_scheme, start_error + outcome) state" where
  "main_task e os bind_addr port [] r = State_Monad.return (Inr (Still_Running r))"
| "main_task e os bind_addr port (Signal sig # evs) r =
     (if listen_signal os sig then State_Monad.return (Inr Signalled) else main_task e os bind_addr port evs r)"
| "main_task e os bind_addr port (Loop_Event ev # evs) r = do {
     res \<leftarrow> on_loop_event (loop_part e) ev (run_loop r);
     case res of
       Inr ml' \<Rightarrow> main_task e os bind_addr port evs (r\<lparr>run_loop := ml'\<rparr>)
     | Inl failed \<Rightarrow>
         try_bind (reopen e bind_addr port failed r) (\<lambda>r'.
           main_task e os bind_addr port evs (r'\<lparr>run_loop := (run_loop r)\<lparr>tick_count := 0\<rparr>\<rparr>))
   }"

definition run_hbbs ::
  "hbbs_env \<Rightarrow> 'c case_env_scheme \<Rightarrow> platform \<Rightarrow> environment \<Rightarrow> ip_addr option \<Rightarrow> int \<Rightarrow> int \<Rightarrow> string \<Rightarrow> hbbs_event list
     \<Rightarrow> ('w hbbs_process_scheme, start_error + outcome) state" where
  "run_hbbs e c os en bind_addr port ser key0 evs =
     try_bind (start_with_bind e c os en bind_addr port ser key0) (main_task e os bind_addr port evs)"


text \<open>The program: the arguments, with the file and environment settings behind them, then the server.\<close>

definition hbbs_program ::
  "hbbs_env \<Rightarrow> 'c case_env_scheme \<Rightarrow> platform \<Rightarrow> environment \<Rightarrow> hbbs_event list
     \<Rightarrow> ('w hbbs_process_scheme, start_error + outcome) state" where
  "hbbs_program e c os en evs = (case hbbs_main (loop_part e) c en of
       Inl err \<Rightarrow> State_Monad.return (Inl (Bad_Argument err))
     | Inr cf \<Rightarrow> run_hbbs e c os en (cf_bind cf) (cf_port cf) (cf_serial cf) (cf_key cf) evs)"

section \<open>Lemmas\<close>

lemma run_on_keys [exec_simps]:
  "run_state (on_keys m) s = (let (a, t) = run_state m \<lparr>ticks = ticks s, files = key_files s\<rparr>
     in (a, s\<lparr>ticks := ticks t, key_files := files t\<rparr>))"
  by (simp add: on_keys_def run_on_part hbbs_keys_def put_hbbs_keys_def)

lemma run_on_peer_db [exec_simps]:
  "run_state (on_peer_db m) s = (let (a, t) = run_state m \<lparr>ticks = ticks s, stores = peer_db_files s\<rparr>
     in (a, s\<lparr>ticks := ticks t, peer_db_files := stores t\<rparr>))"
  by (simp add: on_peer_db_def run_on_part hbbs_stores_def put_hbbs_stores_def)

text \<open>No handler opens or closes a socket.\<close>

definition listens :: "endpoint list \<Rightarrow> 'w hbbs_process_scheme \<Rightarrow> bool" where
  "listens eps s \<longleftrightarrow> listening s = eps"

interpretation listens_frame: registration_frame e "listens eps" "\<lambda>_. True" for e :: "'e hub_env_scheme" and eps
proof -
  have free: "tick_free (listens eps)" by (simp add: tick_free_def listens_def)
  show "registration_frame e (listens eps) (\<lambda>_. True)"
  proof unfold_locales
    show "preserves (listens eps) (put_peer dev p)" for dev p
      unfolding put_peer_def by (rule preserves_modify) (simp add: listens_def)
    show "preserves (listens eps) (check_ip_blocker e ip dev)" for ip dev
      by (rule limit_keeps [OF free]) (simp add: listens_def)
    show "preserves (listens eps) (record_ip_change e dev ip)" for ip dev
      by (rule change_keeps [OF free]) (simp add: listens_def)
  qed (simp_all add: free, simp_all add: listens_def)
qed

interpretation listens_hub: hub_invariant e "listens eps" for e :: "'e console_env_scheme" and eps
proof (rule hub_invariant_view [where view = listening])
  show "listens eps s = listens eps t" if "listening s = listening t" for s t :: "'w hbbs_process_scheme"
    using that by (simp add: listens_def)
  have free: "tick_free (listens eps)" by (simp add: tick_free_def listens_def)
  show "preserves (listens eps) (authorized e token)" "preserves (listens eps) (peer_ticket e token u)" for token u
    by (rule keep_store_calls [OF free _ ticket_keeps [OF free]]; simp add: listens_def)+
qed (rule listens_frame.frame_pm_get listens_frame.frame_heartbeat listens_frame.frame_register_pk | simp)+

text \<open>Where the sockets belong.\<close>

fun udp_places :: "ip_addr option \<Rightarrow> 16 word \<Rightarrow> endpoint set" where
  "udp_places (Some ip) p = {Udp_At (socket_addr_new ip p)}"
| "udp_places None p = {Udp_At (socket_addr_new (V6 0) p), Udp_At (socket_addr_new (V4 0) p)}"

fun tcp_place :: "ip_addr option \<Rightarrow> 16 word \<Rightarrow> endpoint" where
  "tcp_place (Some ip) p = Tcp_At (socket_addr_new ip p)"
| "tcp_place None p = Tcp_Any p"

definition console_place :: "ip_addr option \<Rightarrow> 16 word \<Rightarrow> endpoint option" where
  "console_place bind_addr p = map_option Tcp_At (console_addr bind_addr p)"

definition sockets_of :: "running \<Rightarrow> endpoint multiset" where
  "sockets_of r = {#sock_udp r, sock_main r, sock_nat r, sock_ws r#} + (case sock_console r of None \<Rightarrow> {#} | Some ep \<Rightarrow> {#ep#})"

definition placed :: "ip_addr option \<Rightarrow> int \<Rightarrow> running \<Rightarrow> bool" where
  "placed bind_addr port r \<longleftrightarrow> nat_port r = wrap32 (port - 1) \<and> ws_port r = wrap32 (port + 2) \<and>
     sock_udp r \<in> udp_places bind_addr (of_int port) \<and> sock_main r = tcp_place bind_addr (of_int port) \<and>
     sock_nat r = tcp_place bind_addr (of_int (nat_port r)) \<and> sock_ws r = tcp_place bind_addr (of_int (ws_port r)) \<and>
     sock_console r = console_place bind_addr (of_int (nat_port r))"

lemma run_open_endpoint [exec_simps]:
  "run_state (open_endpoint e ep) s =
     (if opens e (ticks s) ep then (Inr ep, s\<lparr>ticks := Suc (ticks s), listening := ep # listening s\<rparr>)
      else (Inl (Cannot_Listen ep), s\<lparr>ticks := Suc (ticks s)\<rparr>))"
  by (simp add: open_endpoint_def exec_simps)

text \<open>What an attempt to listen leaves: one more socket, at its place, or the sockets there were.\<close>

definition listened :: "endpoint set \<Rightarrow> 'w hbbs_process_scheme \<Rightarrow> (start_error + endpoint) \<times> 'w hbbs_process_scheme \<Rightarrow> bool" where
  "listened places s = (\<lambda>(r, s'). \<exists>k. (\<exists>ep \<in> places. r = Inr ep \<and> s' = s\<lparr>ticks := k, listening := ep # listening s\<rparr>) \<or>
     (\<exists>ep. r = Inl (Cannot_Listen ep) \<and> s' = s\<lparr>ticks := k\<rparr>))"

lemma listened_files: "listened places s (r, s') \<Longrightarrow> peer_db_files s' = peer_db_files s"
  by (auto simp: listened_def)

lemma listened_tcp: "listened {tcp_place bind_addr (of_int port)} s (run_state (create_tcp_listener e bind_addr port) s)"
  by (cases bind_addr) (auto simp: listened_def create_tcp_listener_def listen_tcp_def exec_simps)

lemma listened_udp: "listened (udp_places bind_addr (of_int port)) s (run_state (create_udp_listener e bind_addr port) s)"
  by (cases bind_addr) (auto simp: listened_def create_udp_listener_def exec_simps)

lemma run_listen_console:
  "run_state (listen_console e bind_addr p) s = (r, s') \<Longrightarrow> \<exists>k.
     (r = Inr (console_place bind_addr p) \<and> s' = s\<lparr>ticks := k, listening :=
        (case console_place bind_addr p of None \<Rightarrow> [] | Some ep \<Rightarrow> [ep]) @ listening s\<rparr>) \<or>
     (\<exists>ep. r = Inl (Cannot_Listen ep) \<and> s' = s\<lparr>ticks := k\<rparr>)"
  by (auto simp: listen_console_def console_place_def exec_simps split: option.splits if_splits
      intro: exI [of _ "ticks s"] exI [of _ "Suc (ticks s)"])

text \<open>Reopening keeps the sockets at their places.\<close>

definition sockets_ok :: "ip_addr option \<Rightarrow> int \<Rightarrow> running \<Rightarrow> 'w hbbs_process_scheme \<Rightarrow> bool" where
  "sockets_ok bind_addr port r s \<longleftrightarrow> placed bind_addr port r \<and> mset (listening s) = sockets_of r"

lemma reopen_ok:
  assumes "run_state (reopen e bind_addr port failed r) s = (Inr r', s')" and "sockets_ok bind_addr port r s"
  shows "sockets_ok bind_addr port r' s'"
proof (cases failed)
  case Udp_Socket
  then show ?thesis
    using assms listened_udp [of bind_addr port "s\<lparr>listening := remove1 (sock_udp r) (listening s)\<rparr>" e]
    by (auto simp: reopen_def close_endpoint_def exec_simps listened_def sockets_ok_def placed_def sockets_of_def
        split: prod.splits sum.splits)
next
  case (Listener p)
  have tcp: "listened {tcp_place bind_addr (of_int q)} (s\<lparr>listening := remove1 ep (listening s)\<rparr>)
      (run_state (create_tcp_listener e bind_addr q) (s\<lparr>listening := remove1 ep (listening s)\<rparr>))" for q ep
    by (rule listened_tcp)
  show ?thesis
  proof (cases p)
    case Main_Port
    then show ?thesis
      using assms Listener tcp [of port "sock_main r"]
      by (auto simp: reopen_def close_endpoint_def exec_simps listened_def sockets_ok_def placed_def sockets_of_def
          split: prod.splits sum.splits)
  next
    case Nat_Port
    then show ?thesis
      using assms Listener tcp [of "nat_port r" "sock_nat r"]
      by (auto simp: reopen_def close_endpoint_def exec_simps listened_def sockets_ok_def placed_def sockets_of_def
          split: prod.splits sum.splits)
  next
    case Ws_Port
    then show ?thesis
      using assms Listener tcp [of "ws_port r" "sock_ws r"]
      by (auto simp: reopen_def close_endpoint_def exec_simps listened_def sockets_ok_def placed_def sockets_of_def
          split: prod.splits sum.splits)
  next
    case Console_Port
    then show ?thesis
      using assms Listener
      by (auto simp: reopen_def close_endpoint_def exec_simps sockets_ok_def placed_def sockets_of_def
          dest!: run_listen_console split: prod.splits sum.splits option.splits)
  qed
qed


lemma run_find_key:
  assumes "run_state (find_key e key) s = (r, s')"
  shows "\<exists>k fs. s' = s\<lparr>ticks := k, key_files := fs\<rparr>" and "r = Inl err \<Longrightarrow> err = Exit_One"
  using assms by (auto simp: find_key_def exec_simps Let_def split: prod.splits key_result.splits)

text \<open>The file of the peers, before or after any start.\<close>

definition peer_file_ok :: "hbbs_env \<Rightarrow> string \<Rightarrow> 'w hbbs_process_scheme \<Rightarrow> bool" where
  "peer_file_ok e url s \<longleftrightarrow> plain_path (store_part e) url \<and>
     has_part peer_schema (real_path (store_part e) url) \<lparr>ticks = ticks s, stores = peer_db_files s\<rparr>"

definition peer_tables :: "hbbs_env \<Rightarrow> string \<Rightarrow> 'w hbbs_process_scheme \<Rightarrow> schema_object list" where
  "peer_tables e url s = unwrap_or [] (map_of (peer_db_files s) (real_path (store_part e) url))"

lemma run_open_database:
  assumes "run_state (open_database e c os en) s = (r, s')" and "peer_file_ok e (db_url (store_part e) c os en) s"
  shows "\<exists>k fs. s' = s\<lparr>ticks := k, peer_db_files := fs\<rparr>" and "r = Inl err \<Longrightarrow> err \<in> range No_Database"
    and "r = Inr () \<Longrightarrow> peer_tables e (db_url (store_part e) c os en) s' = peer_schema"
    and "\<forall>k. sql_ok (store_part e) k \<and> created (store_part e) k \<Longrightarrow> \<not> pool_waits (store_part e) (pool_size c en) \<Longrightarrow> r = Inr ()"
proof -
  let ?url = "db_url (store_part e) c os en"
  obtain r1 t where 1: "run_state (database_new (store_part e) c en ?url) \<lparr>ticks = ticks s, stores = peer_db_files s\<rparr> = (r1, t)"
    by (metis prod.collapse)
  then have run: "r = (case r1 of Inl err \<Rightarrow> Inl (No_Database err) | Inr _ \<Rightarrow> Inr ())"
    "s' = s\<lparr>ticks := ticks t, peer_db_files := stores t\<rparr>"
    using assms(1) by (auto simp: open_database_def peer_map_new_def exec_simps)
  then show "\<exists>k fs. s' = s\<lparr>ticks := k, peer_db_files := fs\<rparr>" "r = Inl err \<Longrightarrow> err \<in> range No_Database"
    by (auto split: sum.splits)
  show "r = Inr ()" if "\<forall>k. sql_ok (store_part e) k \<and> created (store_part e) k" "\<not> pool_waits (store_part e) (pool_size c en)"
    using run database_new_run(4) [OF 1 _ _ that] assms(2) by (auto simp: peer_file_ok_def)
  show "r = Inr () \<Longrightarrow> peer_tables e ?url s' = peer_schema"
    using run database_new_run(3) [OF 1] assms(2)
    by (auto simp: peer_file_ok_def peer_tables_def file_objects_def split: sum.splits)
qed

lemma run_start_server:
  assumes "run_state (start_server e c en port ser k) s = ((ml, p, q), s')"
  shows "p = wrap32 (port - 1)" and "q = wrap32 (port + 2)" and "\<exists>b. s' = s\<lparr>always_use_relay := b\<rparr>"
    and "hosts_ok e (relay_servers (sv ml)) \<and> sk (sv ml) = k \<and> serial (sv ml) = ser"
proof -
  show "p = wrap32 (port - 1)" "q = wrap32 (port + 2)" "\<exists>b. s' = s\<lparr>always_use_relay := b\<rparr>"
    using assms by (auto simp: start_server_def read_always_use_relay_def exec_simps Let_def split: if_splits
        intro: exI [of _ "always_use_relay s"] exI [of _ True])
  have "ml = fst (fst (run_state (start_server e c en port ser k) s))" using assms by simp
  then show "hosts_ok e (relay_servers (sv ml)) \<and> sk (sv ml) = k \<and> serial (sv ml) = ser"
    by (simp add: start_server_def parse_relay_servers_def exec_simps Let_def case_prod_unfold)
qed

text \<open>Every way through the start.\<close>

lemma start_run:
  assumes "run_state (start_with_bind e c os en bind_addr port ser key) s = (res, s')" and "listening s = []"
    and "peer_file_ok e (db_url (store_part e) c os en) s"
  shows "res = Inr r \<Longrightarrow> sockets_ok bind_addr port r s' \<and> peer_tables e (db_url (store_part e) c os en) s' = peer_schema \<and>
      hosts_ok (loop_part e) (relay_servers (sv (run_loop r))) \<and> test_address (probe_part e) c en (local_addr e (sock_main r)) \<noteq> Some None"
    and "res = Inl err \<Longrightarrow> listening s' = [] \<or> peer_tables e (db_url (store_part e) c os en) s' = peer_schema"
    and "\<forall>k ep. opens e k ep \<Longrightarrow> fst (run_state (find_key e key) s) \<noteq> Inl Exit_One \<Longrightarrow>
      \<forall>k. sql_ok (store_part e) k \<and> created (store_part e) k \<Longrightarrow> \<not> pool_waits (store_part e) (pool_size c en) \<Longrightarrow>
      \<forall>addr. test_address (probe_part e) c en addr \<noteq> Some None \<Longrightarrow> \<exists>r. res = Inr r"
proof -
  let ?url = "db_url (store_part e) c os en"
  obtain r1 s1 where 1: "run_state (find_key e key) s = (r1, s1)" by (metis prod.collapse)
  obtain r2 s2 where 2: "run_state (open_database e c os en) s1 = (r2, s2)" by (metis prod.collapse)
  obtain r3 s3 where 3: "run_state (create_udp_listener e bind_addr port) s2 = (r3, s3)" by (metis prod.collapse)
  obtain ml p q s4 where 4: "run_state (start_server (loop_part e) c en port ser (snd (projr r1))) s3 = ((ml, p, q), s4)"
    by (metis prod.collapse)
  obtain r5 s5 where 5: "run_state (create_tcp_listener e bind_addr port) s4 = (r5, s5)" by (metis prod.collapse)
  obtain r6 s6 where 6: "run_state (create_tcp_listener e bind_addr p) s5 = (r6, s6)" by (metis prod.collapse)
  obtain r7 s7 where 7: "run_state (create_tcp_listener e bind_addr q) s6 = (r7, s7)" by (metis prod.collapse)
  obtain r8 s8 where 8: "run_state (listen_console e bind_addr (of_int p)) s7 = (r8, s8)" by (metis prod.collapse)
  have run: "(res, s') = (case r1 of Inl x \<Rightarrow> (Inl x, s1) | Inr (key', sk') \<Rightarrow> case r2 of Inl x \<Rightarrow> (Inl x, s2) | Inr _ \<Rightarrow>
      case r3 of Inl x \<Rightarrow> (Inl x, s3) | Inr udp \<Rightarrow> case r5 of Inl x \<Rightarrow> (Inl x, s5) | Inr l1 \<Rightarrow>
      case r6 of Inl x \<Rightarrow> (Inl x, s6) | Inr l2 \<Rightarrow> case r7 of Inl x \<Rightarrow> (Inl x, s7) | Inr l3 \<Rightarrow>
      case r8 of Inl x \<Rightarrow> (Inl x, s8) | Inr lc \<Rightarrow>
        (if test_address (probe_part e) c en (local_addr e l1) = Some None then Inl Bad_Self_Test
         else Inr \<lparr>run_loop = ml, run_key = key', nat_port = p, ws_port = q, sock_udp = udp, sock_main = l1,
           sock_nat = l2, sock_ws = l3, sock_console = lc\<rparr>, s8))"
    using assms(1) 1 2 3 4 5 6 7 8
    by (auto simp: start_with_bind_def exec_simps split: sum.splits prod.splits)
  obtain k1 fs1 where s1: "s1 = s\<lparr>ticks := k1, key_files := fs1\<rparr>" using run_find_key(1) [OF 1] by blast
  have "peer_file_ok e ?url s1" using assms(3) by (simp add: s1 peer_file_ok_def has_part_def file_objects_def)
  note db = run_open_database [OF 2 this]
  obtain k2 fs2 where s2: "s2 = s1\<lparr>ticks := k2, peer_db_files := fs2\<rparr>" using db(1) by blast
  note server = run_start_server [OF 4]
  obtain b where s4: "s4 = s3\<lparr>always_use_relay := b\<rparr>" using server(3) by blast
  note udp = listened_udp [of bind_addr port s2 e, unfolded 3 listened_def, simplified]
  note tcp = listened_tcp [of bind_addr port s4 e, unfolded 5 listened_def, simplified]
    listened_tcp [of bind_addr p s5 e, unfolded 6 listened_def, simplified]
    listened_tcp [of bind_addr q s6 e, unfolded 7 listened_def, simplified]
  note console = run_listen_console [OF 8]
  have tables: "peer_tables e ?url x = peer_tables e ?url s2" if "x \<in> {s3, s5, s6, s7, s8}" for x
  proof -
    have "peer_db_files s3 = peer_db_files s2" using listened_files listened_udp 3 by metis
    moreover have "peer_db_files s4 = peer_db_files s3" by (simp add: s4)
    moreover have "peer_db_files s5 = peer_db_files s4" using listened_files listened_tcp 5 by metis
    moreover have "peer_db_files s6 = peer_db_files s5" using listened_files listened_tcp 6 by metis
    moreover have "peer_db_files s7 = peer_db_files s6" using listened_files listened_tcp 7 by metis
    moreover have "peer_db_files s8 = peer_db_files s7" using console by auto
    ultimately show ?thesis using that by (auto simp: peer_tables_def)
  qed
  show "\<exists>r. res = Inr r"
    if opens: "\<forall>k ep. opens e k ep" and key: "fst (run_state (find_key e key) s) \<noteq> Inl Exit_One"
      and store: "\<forall>k. sql_ok (store_part e) k \<and> created (store_part e) k" "\<not> pool_waits (store_part e) (pool_size c en)"
      and test: "\<forall>addr. test_address (probe_part e) c en addr \<noteq> Some None"
  proof -
    obtain x1 where "r1 = Inr x1" using key 1 run_find_key(2) [OF 1] by (cases r1) auto
    moreover have "r2 = Inr ()" using db(4) store by blast
    moreover obtain x3 where "r3 = Inr x3" using 3 opens by (cases bind_addr) (auto simp: create_udp_listener_def exec_simps)
    moreover obtain x5 x6 x7 where "r5 = Inr x5" "r6 = Inr x6" "r7 = Inr x7"
      using 5 6 7 opens by (cases bind_addr) (auto simp: create_tcp_listener_def listen_tcp_def exec_simps)
    moreover obtain x8 where "r8 = Inr x8" using 8 opens by (auto simp: listen_console_def exec_simps split: option.splits)
    ultimately show ?thesis using run test by (simp add: case_prod_unfold)
  qed
  show "listening s' = [] \<or> peer_tables e ?url s' = peer_schema" if "res = Inl err"
    using run that db(3) tables s1 s2 assms(2) by (auto split: sum.splits prod.splits)
  show "sockets_ok bind_addr port r s' \<and> peer_tables e ?url s' = peer_schema \<and>
      hosts_ok (loop_part e) (relay_servers (sv (run_loop r))) \<and> test_address (probe_part e) c en (local_addr e (sock_main r)) \<noteq> Some None"
    if "res = Inr r"
    using run that db(3) tables s1 s2 s4 assms(2) udp tcp console server(1,2,4)
    by (auto simp: sockets_ok_def placed_def sockets_of_def split: sum.splits prod.splits if_splits option.splits)
qed

lemma main_task_ok:
  assumes "run_state (main_task e os bind_addr port evs r) s = (Inr (Still_Running r'), s')" and "sockets_ok bind_addr port r s"
  shows "sockets_ok bind_addr port r' s'"
  using assms
proof (induction e os bind_addr port evs r arbitrary: s rule: main_task.induct)
  case (3 e os bind_addr port ev evs r)
  obtain res s1 where 1: "run_state (on_loop_event (loop_part e) ev (run_loop r)) s = (res, s1)" by (metis prod.collapse)
  have "listening s1 = listening s"
    using preservesD_run [OF listens_hub.keep_loop_event 1, of "listening s"] by (simp add: listens_def)
  then have s1: "sockets_ok bind_addr port r s1" using 3(4) by (simp add: sockets_ok_def)
  have loop: "sockets_ok bind_addr port (r'\<lparr>run_loop := ml\<rparr>) s2 = sockets_ok bind_addr port r' s2" for r' ml and s2 :: "'a hbbs_process_scheme"
    by (simp add: sockets_ok_def placed_def sockets_of_def)
  show ?case
  proof (cases res)
    case (Inl failed)
    obtain res2 s2 where 2: "run_state (reopen e bind_addr port failed r) s1 = (res2, s2)" by (metis prod.collapse)
    then obtain r2 where r2: "res2 = Inr r2"
      "run_state (main_task e os bind_addr port evs (r2\<lparr>run_loop := (run_loop r)\<lparr>tick_count := 0\<rparr>\<rparr>)) s2 = (Inr (Still_Running r'), s')"
      using 3(3) 1 Inl by (auto simp: exec_simps split: sum.splits)
    from 3(1) [OF r2(2)] reopen_ok [OF 2 [unfolded r2(1)] s1] show ?thesis by (simp add: loop)
  next
    case (Inr ml')
    with 3(3) 1 have "run_state (main_task e os bind_addr port evs (r\<lparr>run_loop := ml'\<rparr>)) s1 = (Inr (Still_Running r'), s')"
      by (simp add: exec_simps)
    from 3(2) [OF this] s1 show ?thesis by (simp add: loop)
  qed
qed (auto simp: exec_simps split: if_splits)


section \<open>Properties\<close>

text \<open>Whether a connection to an address and port reaches a listener; \<open>[::]\<close> takes IPv4 as well.\<close>

fun accepts :: "endpoint \<Rightarrow> ip_addr \<Rightarrow> 16 word \<Rightarrow> bool" where
  "accepts (Udp_At a) ip p = False"
| "accepts (Tcp_At a) ip p = (sock_port a = p \<and> (sock_ip a = ip \<or> is_unspecified (sock_ip a)))"
| "accepts (Tcp_Any q) ip p = (q = p)"

lemma wrap32_port: "of_int (wrap32 v) = (of_int v :: 16 word)"
  unfolding wrap32_def by transfer (simp add: take_bit_signed_take_bit)

lemma sock_new [simp]: "sock_ip (socket_addr_new ip p) = ip" "sock_port (socket_addr_new ip p) = p"
  by (cases ip; simp)+

text \<open>
  C31: Whatever happens while hbbs runs, and however often a socket failed and was opened again: it has open
  exactly its UDP socket, its three listeners and, where needed, the console's, each at the place its
  bind address and port say. The console is always within reach of 127.0.0.1, and with a bind address
  nothing else than that address, and the console's port on 127.0.0.1, is exposed.
\<close>

theorem sockets_stay_in_place:
  assumes "run_state (hbbs_program e c os en evs) s = (Inr (Still_Running r), s')" and "listening s = []"
    and "peer_file_ok e (db_url (store_part e) c os en) s"
  shows "\<exists>cf. hbbs_main (loop_part e) c en = Inr cf \<and> placed (cf_bind cf) (cf_port cf) r \<and>
    mset (listening s') = sockets_of r \<and>
    (\<exists>ep \<in> set (listening s'). accepts ep localhost_v4 (of_int (cf_port cf - 1))) \<and>
    (\<forall>ip. cf_bind cf = Some ip \<and> \<not> is_unspecified ip \<longrightarrow>
      (\<forall>ep \<in> set (listening s'). \<forall>a p. accepts ep a p \<longrightarrow> a = ip \<or> a = localhost_v4 \<and> p = of_int (cf_port cf - 1)))"
proof -
  obtain cf where cf: "hbbs_main (loop_part e) c en = Inr cf"
    "run_state (run_hbbs e c os en (cf_bind cf) (cf_port cf) (cf_serial cf) (cf_key cf) evs) s = (Inr (Still_Running r), s')"
    using assms(1) by (auto simp: hbbs_program_def split: sum.splits)
  let ?b = "cf_bind cf" and ?p = "cf_port cf"
  obtain res s1 where 1: "run_state (start_with_bind e c os en ?b ?p (cf_serial cf) (cf_key cf)) s = (res, s1)" by (metis prod.collapse)
  obtain r1 where r1: "res = Inr r1" "run_state (main_task e os ?b ?p evs r1) s1 = (Inr (Still_Running r), s')"
    using cf(2) 1 by (auto simp: run_hbbs_def exec_simps split: sum.splits)
  have "sockets_ok ?b ?p r s'"
    using start_run(1) [OF 1 assms(2,3) r1(1)] by (intro main_task_ok [OF r1(2)]) simp
  then have ok: "placed ?b ?p r" "mset (listening s') = sockets_of r" by (simp_all add: sockets_ok_def)
  then have all: "set (listening s') = set_mset (sockets_of r)" by (metis set_mset_mset)
  have lo: "\<not> is_unspecified localhost_v4" by (simp add: localhost_v4_def)
  have "\<exists>ep \<in> set (listening s'). accepts ep localhost_v4 (of_int (?p - 1))"
    using ok(1) by (cases ?b)
      (auto simp: all sockets_of_def placed_def wrap32_port console_place_def console_addr_def split: option.splits if_splits)
  moreover have "a = ip \<or> a = localhost_v4 \<and> p = of_int (?p - 1)"
    if "?b = Some ip" "\<not> is_unspecified ip" "ep \<in> set (listening s')" "accepts ep a p" for ip ep a p
    using that ok(1) lo
    by (auto simp: all sockets_of_def placed_def wrap32_port console_place_def console_addr_def
        split: option.splits if_splits)
  ultimately show ?thesis using ok cf(1) by blast
qed

text \<open>
  hbbs listens only once it can serve: when the start ends in an error before the database is complete,
  no socket has been opened; a start that succeeds has the whole schema, relay servers that resolve,
  and its sockets at their places.
\<close>

theorem no_socket_before_database:
  assumes "run_state (start_with_bind e c os en bind_addr port ser key) s = (res, s')" and "listening s = []"
    and "peer_file_ok e (db_url (store_part e) c os en) s"
  shows "(listening s' = [] \<or> peer_tables e (db_url (store_part e) c os en) s' = peer_schema) \<and>
    (\<forall>r. res = Inr r \<longrightarrow> peer_tables e (db_url (store_part e) c os en) s' = peer_schema \<and>
      sockets_ok bind_addr port r s' \<and> hosts_ok (loop_part e) (relay_servers (sv (run_loop r))))"
  using start_run(1,2) [OF assms] by (cases res) auto

definition sample_hbbs_env :: hbbs_env where
  "sample_hbbs_env = \<lparr>loop_part = sample_loop_env, key_part = sample_key_env, store_part = sample_store_env,
     probe_part = sample_probe_env, opens = (\<lambda>k ep. True), local_addr = (\<lambda>ep. SockV4 0 21116)\<rparr>"

definition sample_hbbs :: hbbs_process where
  "sample_hbbs = hub.extend sample_hub \<lparr>key_files = [], peer_db_files = [], listening = []\<rparr>"

lemma sample_hbbs_simps:
  "listening sample_hbbs = []" "peer_file_ok sample_hbbs_env url sample_hbbs"
  by (auto simp: sample_hbbs_def hub.extend_def peer_file_ok_def has_part_def file_objects_def sample_hbbs_env_def
      sample_store_simps intro!: exI [of _ 0])

lemma sample_start:
  assumes "\<And>addr. test_address (probe_part sample_hbbs_env) sample_case en addr \<noteq> Some None" and "pool_size sample_case en = 1"
  shows "\<exists>r s'. run_state (start_with_bind sample_hbbs_env sample_case Unix en bind_addr port ser ''k'') sample_hbbs = (Inr r, s')"
proof -
  obtain res s' where 1: "run_state (start_with_bind sample_hbbs_env sample_case Unix en bind_addr port ser ''k'') sample_hbbs = (res, s')"
    by (metis prod.collapse)
  have "private_key_of sample_key_env ''k'' = None"
    by (simp add: private_key_of_def sample_key_simps)
  then have "fst (run_state (find_key sample_hbbs_env ''k'') sample_hbbs) \<noteq> Inl Exit_One"
    by (simp add: find_key_def hbbs_server_sk_def sample_hbbs_env_def exec_simps)
  then have "\<exists>r. res = Inr r"
    using start_run(3) [OF 1 sample_hbbs_simps] assms by (simp add: sample_hbbs_env_def sample_store_simps)
  with 1 show ?thesis by blast
qed

theorem no_socket_before_database_witness:
  "\<exists>r s'. run_state (start_with_bind sample_hbbs_env sample_case Unix [] (Some (V4 9)) 21116 0 ''k'') sample_hbbs = (Inr r, s') \<and>
     peer_tables sample_hbbs_env ''./db_v2.sqlite3'' s' = peer_schema"
proof -
  have test: "test_address (probe_part sample_hbbs_env) sample_case [] addr \<noteq> Some None" for addr
    by (simp add: test_address_def get_arg_def get_arg_or_def get_arg_opt_empty)
  obtain r s' where 1: "run_state (start_with_bind sample_hbbs_env sample_case Unix [] (Some (V4 9)) 21116 0 ''k'') sample_hbbs = (Inr r, s')"
    using sample_start [OF test pool_size_default [OF get_arg_opt_empty]] by blast
  have "db_url (store_part sample_hbbs_env) sample_case Unix [] = ''./db_v2.sqlite3''"
    by (simp add: db_url_def get_arg_opt_empty)
  with no_socket_before_database [OF 1 sample_hbbs_simps] 1 show ?thesis by auto
qed

text \<open>In the witness the key is a setting, and the WebSocket listener fails and is opened again.\<close>

theorem sockets_stay_in_place_witness:
  "\<exists>r s'. run_state (hbbs_program sample_hbbs_env sample_case Unix [(''KEY'', ''k'')]
       [Loop_Event (Accept_Error Ws_Port), Signal (Other_Signal 1)]) sample_hbbs = (Inr (Still_Running r), s') \<and>
     sock_nat r = Tcp_Any 21115 \<and> mset (listening s') = sockets_of r"
proof -
  let ?en = "[(''KEY'', ''k'')]" and ?evs = "[Loop_Event (Accept_Error Ws_Port), Signal (Other_Signal 1)]"
  have arg: "get_arg_opt sample_case ''key'' ?en = Some ''k''" "get_arg_opt sample_case ''port'' ?en = None"
    "get_arg_opt sample_case ''bind'' ?en = None" "get_arg_opt sample_case ''rmem'' ?en = None"
    "get_arg_opt sample_case ''serial'' ?en = None" "get_arg_opt sample_case ''TEST_HBBS'' ?en = None"
    "get_arg_opt sample_case ''MAX_DATABASE_CONNECTIONS'' ?en = None" by code_simp+
  have trim: "trim '''' = ''''" by code_simp
  have "parse_signed 32 ''21116'' = Some 21116" by (simp add: parse_signed_def digit_of_def)
  then have cf: "hbbs_main (loop_part sample_hbbs_env) sample_case ?en =
      Inr \<lparr>cf_port = 21116, cf_bind = None, cf_rmem = 0, cf_serial = 0, cf_key = ''k''\<rparr>"
    by (simp add: hbbs_main_def sample_hbbs_env_def sample_loop get_arg_def get_arg_or_def arg parse_bind_address_def trim
        parse_usize_def i32_or_def parse_signed_def)
  have test: "test_address (probe_part sample_hbbs_env) sample_case ?en addr \<noteq> Some None" for addr
    by (simp add: test_address_def get_arg_def get_arg_or_def arg)
  have pool: "pool_size sample_case ?en = 1" using arg(7) by (rule pool_size_default)
  obtain r s1 where 1: "run_state (start_with_bind sample_hbbs_env sample_case Unix ?en None 21116 0 ''k'') sample_hbbs = (Inr r, s1)"
    using sample_start [OF test pool] by blast
  obtain r' s' where 2: "run_state (hbbs_program sample_hbbs_env sample_case Unix ?en ?evs) sample_hbbs = (Inr (Still_Running r'), s')"
    using 1 by (auto simp: hbbs_program_def cf run_hbbs_def exec_simps on_loop_event_def reopen_def close_endpoint_def
        create_tcp_listener_def listen_tcp_def) (simp add: sample_hbbs_env_def)
  from sockets_stay_in_place [OF 2 sample_hbbs_simps] 2 cf show ?thesis by (auto simp: placed_def wrap32_port)
qed

end
