(* ===== verification/Desktop.thy ===== *)
theory Desktop
  imports Prelude
begin

text \<open>
  The Windows desktop program (src/ui): the presenter (usecase/presenter.rs), the window
  (adapter/view/desktop.rs), the watcher of the log directory (usecase/watcher.rs) and the two
  bounded channels between them (main.rs).

  The window and the watcher send to the presenter, the presenter sends to the window; a send on a
  full channel blocks its sender. \<open>desktop_step\<close> is one action of one of the three: a receive
  together with the work on the event up to a send that is then pending, the completion of a pending
  send, a callback of the window, a change seen by the watcher, a check of the service. What the
  window toolkit shows is the record \<open>view\<close>; the calls to the service are recorded in \<open>calls\<close>.
\<close>

datatype service_state = Paused | Started | Stopped | Unknown

datatype event =
    BrowserAction string
  | BrowserInit
  | BrowserUpdate string string
  | BrowserRender string
  | FileChange string
  | ViewAction string
  | ViewInit
  | ViewUpdate string
  | ViewRender string
  | ViewRenderAppExit
  | ViewRenderServiceState service_state

section \<open>The presenter\<close>

record presenter =
  shown :: service_state
  current_file :: string
  calls :: "string list"

definition presenter_start :: "presenter \<times> event list" where
  "presenter_start = (\<lparr>shown = Unknown, current_file = ''hbbs.out'', calls = []\<rparr>, [ViewRenderServiceState Unknown])"

definition call_service :: "string \<Rightarrow> presenter \<Rightarrow> presenter" where
  "call_service name p = p\<lparr>calls := calls p @ [name]\<rparr>"

fun on_presenter_event :: "event \<Rightarrow> presenter \<Rightarrow> presenter \<times> event list" where
  "on_presenter_event BrowserInit p = (p, [BrowserUpdate ''file'' (current_file p)])"
| "on_presenter_event (BrowserAction a) p = (if a = ''restart'' then call_service ''restart'' p else p, [])"
| "on_presenter_event (FileChange f) p = (p, if f = current_file p then [BrowserUpdate ''file'' (current_file p)] else [])"
| "on_presenter_event (ViewAction a) p =
     (if a \<in> {''start'', ''stop'', ''restart'', ''pause''} then (call_service a p, [])
      else if a = ''exit'' then (p, [ViewRenderAppExit])
      else (p\<lparr>current_file := a\<rparr>, [BrowserUpdate ''file'' a]))"
| "on_presenter_event ev p = (p, [])"

text \<open>\<open>check\<close> of windows.rs on the status text, and what the presenter does with it every second.\<close>

definition check_status :: "string \<Rightarrow> service_state" where
  "check_status status = (if status = ''Running'' then Started else Stopped)"

definition presenter_check :: "string \<Rightarrow> presenter \<Rightarrow> presenter \<times> event list" where
  "presenter_check status p =
     (let state = check_status status in
      if state \<noteq> shown p then (p\<lparr>shown := state\<rparr>, [ViewRenderServiceState state]) else (p, []))"

section \<open>The window\<close>

text \<open>The entries of the three menus and of the tray; \<open>checked\<close> are the marked ones.\<close>

record view =
  can_start :: bool
  can_stop :: bool
  can_restart :: bool
  checked :: "string list"
  rendered :: "string list"
  title :: string
  window_title :: string
  blink :: bool
  span :: nat
  exited :: bool
  visible :: bool
  minimized :: bool

definition view_start :: view where
  "view_start = \<lparr>can_start = True, can_stop = True, can_restart = True, checked = [], rendered = [],
     title = [], window_title = [], blink = False, span = 0, exited = False, visible = True, minimized = False\<rparr>"

definition log_files :: "string list" where
  "log_files = [''hbbs.out'', ''hbbs.err'', ''hbbr.out'', ''hbbr.err'', ''.env'']"

definition menu_ids :: "string list" where
  "menu_ids = [''restart'', ''start'', ''stop''] @ log_files @ [''exit'']"

definition product :: string where
  "product = ''OpenUU Server''"

fun debug_state :: "service_state \<Rightarrow> string" where
  "debug_state Paused = ''Paused''"
| "debug_state Started = ''Started''"
| "debug_state Stopped = ''Stopped''"
| "debug_state Unknown = ''Unknown''"

definition render_state :: "service_state \<Rightarrow> view \<Rightarrow> view" where
  "render_state st v =
     (let t = product @ '' '' @ debug_state st in
      v\<lparr>title := t, window_title := t, can_start := (st = Stopped), can_stop := (st = Started),
        can_restart := (st = Started), blink := (st \<noteq> Started)\<rparr>)"

fun on_view_event :: "event \<Rightarrow> view \<Rightarrow> view" where
  "on_view_event (BrowserUpdate action data) v =
     (if action = ''file'' \<and> data \<in> set log_files
      then v\<lparr>checked := filter (\<lambda>f. f = data) log_files, rendered := rendered v @ [data]\<rparr> else v)"
| "on_view_event ViewRenderAppExit v = v\<lparr>exited := True\<rparr>"
| "on_view_event (ViewRenderServiceState st) v = render_state st v"
| "on_view_event ev v = v"

text \<open>The blinking of the title, \<open>elapsed\<close> microseconds after the last time.\<close>

definition blink_title :: "nat \<Rightarrow> view \<Rightarrow> view" where
  "blink_title elapsed v =
     (if \<not> blink v then v
      else if span v > 1000000 then v\<lparr>span := 0, window_title := title v\<rparr>
      else let sp = span v + elapsed in
        v\<lparr>span := sp, window_title := (if sp > 500000 then product else window_title v)\<rparr>)"

text \<open>Closing the window only hides it; a left click on the tray hides it or brings it back.\<close>

definition close_window :: "view \<Rightarrow> view" where
  "close_window v = v\<lparr>minimized := True, visible := False\<rparr>"

definition tray_click :: "view \<Rightarrow> view" where
  "tray_click v = (if visible v then v\<lparr>visible := False\<rparr> else v\<lparr>visible := True, minimized := False\<rparr>)"

text \<open>What the callbacks send: a menu entry that is enabled, or a message of the page.\<close>

definition enabled :: "view \<Rightarrow> string \<Rightarrow> bool" where
  "enabled v i \<longleftrightarrow> (i = ''start'' \<longrightarrow> can_start v) \<and> (i = ''stop'' \<longrightarrow> can_stop v) \<and> (i = ''restart'' \<longrightarrow> can_restart v)"

definition page_message :: "string \<Rightarrow> event option" where
  "page_message payload =
     (if payload = [CHR 0x22] @ ''__init__'' @ [CHR 0x22] then Some BrowserInit
      else if payload = [CHR 0x22] @ ''restart'' @ [CHR 0x22] then Some (BrowserAction ''restart'')
      else None)"

inductive callback :: "view \<Rightarrow> event \<Rightarrow> bool" for v :: view where
  menu_item: "i \<in> set menu_ids \<Longrightarrow> enabled v i \<Longrightarrow> callback v (ViewAction i)"
| from_page: "page_message payload = Some ev \<Longrightarrow> callback v ev"
| set_up: "callback v ViewInit"

section \<open>The three tasks\<close>

record desktop =
  to_presenter :: "event list"
  to_view :: "event list"
  pr :: presenter
  pr_out :: "event list"
  vw :: view
  vw_out :: "event list"
  wt_out :: "event list"

definition capacity :: nat where
  "capacity = 10"

definition desktop_start :: "desktop \<Rightarrow> bool" where
  "desktop_start s \<longleftrightarrow> s = \<lparr>to_presenter = [], to_view = [], pr = fst presenter_start,
     pr_out = snd presenter_start, vw = view_start, vw_out = [], wt_out = []\<rparr>"

text \<open>A changed path makes the watcher send its last component, unless that is empty.\<close>

inductive desktop_step :: "desktop \<Rightarrow> desktop \<Rightarrow> bool" where
  presenter_recv: "\<not> exited (vw s) \<Longrightarrow> pr_out s = [] \<Longrightarrow> to_presenter s = ev # rest \<Longrightarrow>
    on_presenter_event ev (pr s) = (p', out) \<Longrightarrow>
    desktop_step s (s\<lparr>to_presenter := rest, pr := p', pr_out := out\<rparr>)"
| presenter_checks: "\<not> exited (vw s) \<Longrightarrow> pr_out s = [] \<Longrightarrow> presenter_check status (pr s) = (p', out) \<Longrightarrow>
    desktop_step s (s\<lparr>pr := p', pr_out := out\<rparr>)"
| presenter_send: "\<not> exited (vw s) \<Longrightarrow> pr_out s = ev # out \<Longrightarrow> length (to_view s) < capacity \<Longrightarrow>
    desktop_step s (s\<lparr>to_view := to_view s @ [ev], pr_out := out\<rparr>)"
| view_recv: "\<not> exited (vw s) \<Longrightarrow> vw_out s = [] \<Longrightarrow> to_view s = ev # rest \<Longrightarrow>
    desktop_step s (s\<lparr>to_view := rest, vw := on_view_event ev (vw s)\<rparr>)"
| view_callback: "\<not> exited (vw s) \<Longrightarrow> vw_out s = [] \<Longrightarrow> callback (vw s) ev \<Longrightarrow>
    desktop_step s (s\<lparr>vw_out := [ev]\<rparr>)"
| view_blink: "\<not> exited (vw s) \<Longrightarrow> vw_out s = [] \<Longrightarrow> elapsed > 16666 \<Longrightarrow>
    desktop_step s (s\<lparr>vw := blink_title elapsed (vw s)\<rparr>)"
| view_closed: "\<not> exited (vw s) \<Longrightarrow> vw_out s = [] \<Longrightarrow> desktop_step s (s\<lparr>vw := close_window (vw s)\<rparr>)"
| view_tray: "\<not> exited (vw s) \<Longrightarrow> vw_out s = [] \<Longrightarrow> desktop_step s (s\<lparr>vw := tray_click (vw s)\<rparr>)"
| view_send: "\<not> exited (vw s) \<Longrightarrow> vw_out s = ev # out \<Longrightarrow> length (to_presenter s) < capacity \<Longrightarrow>
    desktop_step s (s\<lparr>to_presenter := to_presenter s @ [ev], vw_out := out\<rparr>)"
| watcher_sees: "\<not> exited (vw s) \<Longrightarrow> wt_out s = [] \<Longrightarrow> name \<noteq> [] \<Longrightarrow>
    desktop_step s (s\<lparr>wt_out := [FileChange name]\<rparr>)"
| watcher_send: "\<not> exited (vw s) \<Longrightarrow> wt_out s = ev # out \<Longrightarrow> length (to_presenter s) < capacity \<Longrightarrow>
    desktop_step s (s\<lparr>to_presenter := to_presenter s @ [ev], wt_out := out\<rparr>)"

inductive_cases desktop_stepE: "desktop_step s t"

section \<open>What the window is going to show\<close>

text \<open>The window once it has worked off everything the presenter has sent or is sending.\<close>

definition settled :: "desktop \<Rightarrow> view" where
  "settled s = fold on_view_event (to_view s @ pr_out s) (vw s)"

definition displays :: "service_state \<Rightarrow> view \<Rightarrow> bool" where
  "displays st v \<longleftrightarrow> title v = product @ '' '' @ debug_state st \<and> can_start v = (st = Stopped) \<and>
     can_stop v = (st = Started) \<and> can_restart v = (st = Started) \<and> blink v = (st \<noteq> Started)"

definition view_ok :: "presenter \<Rightarrow> view \<Rightarrow> bool" where
  "view_ok p v \<longleftrightarrow> displays (shown p) v \<and> checked v \<in> {[], [current_file p]}"

text \<open>Only entries of the menus reach the presenter.\<close>

fun plausible :: "event \<Rightarrow> bool" where
  "plausible (ViewAction i) = (i \<in> set menu_ids)"
| "plausible (FileChange f) = True"
| "plausible BrowserInit = True"
| "plausible (BrowserAction a) = True"
| "plausible ViewInit = True"
| "plausible ev = False"

definition desktop_ok :: "desktop \<Rightarrow> bool" where
  "desktop_ok s \<longleftrightarrow> view_ok (pr s) (settled s) \<and> current_file (pr s) \<in> set log_files \<and>
     list_all plausible (to_presenter s @ vw_out s @ wt_out s) \<and>
     length (to_presenter s) \<le> capacity \<and> length (to_view s) \<le> capacity \<and>
     length (pr_out s) \<le> 1 \<and> length (vw_out s) \<le> 1 \<and> length (wt_out s) \<le> 1"

lemma callback_plausible: "callback v ev \<Longrightarrow> plausible ev"
  by (auto simp: page_message_def elim!: callback.cases split: if_splits)

lemma filter_log_files: "f \<in> set log_files \<Longrightarrow> filter (\<lambda>x. x = f) log_files = [f]"
  by (auto simp: log_files_def)

text \<open>What a view that is consistent shows after one more event of the presenter.\<close>

lemma menu_log_files:
  "i \<in> set menu_ids \<Longrightarrow> i \<notin> {''start'', ''stop'', ''restart'', ''pause''} \<Longrightarrow> i \<noteq> ''exit'' \<Longrightarrow> i \<in> set log_files"
  by (auto simp: menu_ids_def)

lemma update_ok:
  "view_ok p v \<Longrightarrow> f \<in> set log_files \<Longrightarrow> current_file p' = f \<Longrightarrow> shown p' = shown p \<Longrightarrow>
     view_ok p' (on_view_event (BrowserUpdate ''file'' f) v)"
  by (simp add: view_ok_def displays_def filter_log_files)

lemma presenter_event_ok:
  assumes "on_presenter_event ev p = (p', out)" and "view_ok p v" and "plausible ev"
    and "current_file p \<in> set log_files"
  shows "view_ok p' (fold on_view_event out v) \<and> current_file p' \<in> set log_files \<and> length out \<le> 1"
proof -
  have call: "view_ok (call_service a p) v \<and> current_file (call_service a p) = current_file p" for a
    using assms(2) by (simp add: call_service_def view_ok_def displays_def)
  show ?thesis
  proof (cases ev)
    case (ViewAction i)
    consider (service) "i \<in> {''start'', ''stop'', ''restart'', ''pause''}" | (quit) "i = ''exit''"
      | (log) "i \<in> set log_files" "i \<notin> {''start'', ''stop'', ''restart'', ''pause''}" "i \<noteq> ''exit''"
      using menu_log_files assms(3) ViewAction by fastforce
    then show ?thesis
    proof cases
      case service
      with assms(1,2,4) call [of i] ViewAction show ?thesis by auto
    next
      case quit
      with assms ViewAction show ?thesis by (auto simp: view_ok_def displays_def)
    next
      case log
      with assms(1) ViewAction have "p' = p\<lparr>current_file := i\<rparr>" "out = [BrowserUpdate ''file'' i]" by simp_all
      with log(1) update_ok [OF assms(2) log(1), of p'] show ?thesis by simp
    qed
  qed (use assms call update_ok [OF assms(2,4) refl refl] in \<open>auto split: if_splits simp del: on_view_event.simps(1)\<close>)
qed

lemma presenter_check_ok:
  "presenter_check status p = (p', out) \<Longrightarrow> view_ok p v \<Longrightarrow>
     view_ok p' (fold on_view_event out v) \<and> current_file p' = current_file p \<and> length out \<le> 1"
  by (auto simp: presenter_check_def view_ok_def displays_def render_state_def Let_def split: if_splits)

text \<open>Blinking and later events do not depend on each other.\<close>

definition same_look :: "view \<Rightarrow> view \<Rightarrow> bool" where
  "same_look v w \<longleftrightarrow> title v = title w \<and> can_start v = can_start w \<and> can_stop v = can_stop w \<and>
     can_restart v = can_restart w \<and> blink v = blink w \<and> checked v = checked w"

lemma same_look_event: "same_look v w \<Longrightarrow> same_look (on_view_event ev v) (on_view_event ev w)"
  by (cases ev) (auto simp: same_look_def render_state_def Let_def)

lemma same_look_fold: "same_look v w \<Longrightarrow> same_look (fold on_view_event evs v) (fold on_view_event evs w)"
  by (induction evs arbitrary: v w) (simp_all add: same_look_event)

lemma same_look_blink: "same_look (blink_title t v) v"
  by (simp add: same_look_def blink_title_def Let_def)

lemma same_look_window: "same_look (close_window v) v" "same_look (tray_click v) v"
  by (simp_all add: same_look_def close_window_def tray_click_def)

lemma view_ok_look: "same_look v w \<Longrightarrow> view_ok p w \<Longrightarrow> view_ok p v"
  by (simp add: same_look_def view_ok_def displays_def)

lemma desktop_ok_step:
  assumes "desktop_step s t" and "desktop_ok s"
  shows "desktop_ok t"
  using assms(1)
proof cases
  case (presenter_recv ev rest p' out)
  then show ?thesis
    using presenter_event_ok [OF presenter_recv(5), of "settled s"] assms(2)
    by (auto simp: desktop_ok_def settled_def)
next
  case (presenter_checks status p' out)
  then show ?thesis
    using presenter_check_ok [OF presenter_checks(4), of "settled s"] assms(2)
    by (auto simp: desktop_ok_def settled_def)
next
  case (view_blink elapsed)
  have "same_look (settled t) (settled s)"
    by (simp add: view_blink(1) settled_def same_look_fold same_look_blink)
  with view_ok_look assms(2) show ?thesis by (auto simp: view_blink(1) desktop_ok_def)
next
  case view_closed
  have "same_look (settled t) (settled s)"
    by (simp add: view_closed(1) settled_def same_look_fold same_look_window)
  with view_ok_look assms(2) show ?thesis by (auto simp: view_closed(1) desktop_ok_def)
next
  case view_tray
  have "same_look (settled t) (settled s)"
    by (simp add: view_tray(1) settled_def same_look_fold same_look_window)
  with view_ok_look assms(2) show ?thesis by (auto simp: view_tray(1) desktop_ok_def)
next
  case (view_callback ev)
  then show ?thesis using callback_plausible assms(2) by (auto simp: desktop_ok_def settled_def)
qed (use assms(2) in \<open>auto simp: desktop_ok_def settled_def\<close>)

interpretation desktop_machine: machine desktop_start desktop_step desktop_ok
proof unfold_locales
  show "desktop_ok s" if "desktop_start s" for s
    using that by (auto simp: desktop_start_def desktop_ok_def settled_def presenter_start_def view_ok_def
        displays_def render_state_def view_start_def log_files_def Let_def)
  show "desktop_ok t" if "desktop_ok s" "desktop_step s t" for s t using that(2,1) by (rule desktop_ok_step)
qed

section \<open>Properties\<close>

text \<open>
  The window follows the presenter: in every reachable state, once it has worked off what is on
  its way to it, its title, its menus and its blinking are those of the service state the presenter
  saw last, and the only log file it may mark is the one the presenter shows. At most ten events
  wait in either direction.
\<close>

theorem view_follows_presenter:
  assumes "reach desktop_start desktop_step s"
  shows "displays (shown (pr s)) (settled s) \<and> checked (settled s) \<in> {[], [current_file (pr s)]} \<and>
    current_file (pr s) \<in> set log_files \<and> length (to_presenter s) \<le> 10 \<and> length (to_view s) \<le> 10"
  using desktop_machine.reach_inv [OF assms] by (simp add: desktop_ok_def view_ok_def capacity_def)

lemma view_follows_presenter_witness:
  "\<exists>s. reach desktop_start desktop_step s \<and> pr s = (fst presenter_start)\<lparr>shown := Started\<rparr> \<and> can_stop (settled s)"
proof -
  let ?s0 = "\<lparr>to_presenter = [], to_view = [], pr = fst presenter_start, pr_out = snd presenter_start,
    vw = view_start, vw_out = [], wt_out = []\<rparr>"
  let ?s1 = "?s0\<lparr>to_view := [ViewRenderServiceState Unknown], pr_out := []\<rparr>"
  let ?s2 = "?s1\<lparr>pr := (fst presenter_start)\<lparr>shown := Started\<rparr>, pr_out := [ViewRenderServiceState Started]\<rparr>"
  have "reach desktop_start desktop_step ?s0" by (rule reach_start) (simp add: desktop_start_def)
  moreover have "desktop_step ?s0 ?s1"
    using presenter_send [of ?s0 "ViewRenderServiceState Unknown" "[]"] by (simp add: presenter_start_def view_start_def capacity_def)
  moreover have "desktop_step ?s1 ?s2"
    using presenter_checks [of ?s1 "''Running''" "(fst presenter_start)\<lparr>shown := Started\<rparr>" "[ViewRenderServiceState Started]"]
    by (simp add: presenter_start_def view_start_def presenter_check_def check_status_def)
  ultimately have r: "reach desktop_start desktop_step ?s2" by (meson reach_step)
  from view_follows_presenter [OF r] have "can_stop (settled ?s2)" by (simp add: displays_def)
  with r show ?thesis by (intro exI [of _ ?s2]) simp
qed

text \<open>One change of the log file shown, from the watcher to the window's channel.\<close>

abbreviation log_update :: event where
  "log_update \<equiv> BrowserUpdate ''file'' ''hbbs.out''"

abbreviation log_change :: event where
  "log_change \<equiv> FileChange ''hbbs.out''"

definition idle :: "desktop \<Rightarrow> bool" where
  "idle s \<longleftrightarrow> \<not> exited (vw s) \<and> pr_out s = [] \<and> wt_out s = [] \<and> vw_out s = [] \<and> current_file (pr s) = ''hbbs.out''"

lemma change_arrives:
  assumes "\<not> exited (vw s)" "wt_out s = []" "length (to_presenter s) < capacity"
  shows "desktop_step\<^sup>*\<^sup>* s (s\<lparr>to_presenter := to_presenter s @ [log_change]\<rparr>)"
proof -
  have "desktop_step\<^sup>*\<^sup>* s (s\<lparr>wt_out := [log_change]\<rparr>)"
    using watcher_sees [of s "''hbbs.out''"] assms by (intro r_into_rtranclp) simp
  also have "desktop_step (s\<lparr>wt_out := [log_change]\<rparr>) (s\<lparr>to_presenter := to_presenter s @ [log_change]\<rparr>)"
    using watcher_send [of "s\<lparr>wt_out := [log_change]\<rparr>" log_change "[]"] assms by (cases s) simp
  finally show ?thesis .
qed

lemma change_handled:
  assumes "idle s" "to_presenter s = []"
  shows "desktop_step\<^sup>*\<^sup>* s (s\<lparr>pr_out := [log_update]\<rparr>)"
proof -
  let ?t = "s\<lparr>to_presenter := [log_change]\<rparr>"
  have "desktop_step\<^sup>*\<^sup>* s ?t" using change_arrives [of s] assms by (simp add: idle_def capacity_def)
  moreover have "desktop_step ?t (s\<lparr>pr_out := [log_update]\<rparr>)"
    using presenter_recv [of ?t log_change "[]" "pr s" "[log_update]"] assms by (cases s) (simp add: idle_def)
  ultimately show ?thesis by (rule rtranclp.rtrancl_into_rtrancl)
qed

lemma changes_pile_up:
  "idle s \<Longrightarrow> to_presenter s = [] \<Longrightarrow> length (to_view s) + n \<le> capacity \<Longrightarrow>
     desktop_step\<^sup>*\<^sup>* s (s\<lparr>to_view := to_view s @ replicate n log_update\<rparr>)"
proof (induction n arbitrary: s)
  case (Suc n)
  let ?t = "s\<lparr>to_view := to_view s @ [log_update]\<rparr>"
  have "desktop_step (s\<lparr>pr_out := [log_update]\<rparr>) ?t"
    using presenter_send [of "s\<lparr>pr_out := [log_update]\<rparr>" log_update "[]"] Suc.prems
    by (cases s) (simp add: idle_def)
  with change_handled [OF Suc.prems(1,2)] have "desktop_step\<^sup>*\<^sup>* s ?t" by (rule rtranclp.rtrancl_into_rtrancl)
  moreover have "desktop_step\<^sup>*\<^sup>* ?t (?t\<lparr>to_view := to_view ?t @ replicate n log_update\<rparr>)"
    using Suc.prems by (intro Suc.IH) (simp_all add: idle_def)
  ultimately show ?case by simp
qed simp

lemma changes_wait:
  "\<not> exited (vw s) \<Longrightarrow> wt_out s = [] \<Longrightarrow> length (to_presenter s) + n \<le> capacity \<Longrightarrow>
     desktop_step\<^sup>*\<^sup>* s (s\<lparr>to_presenter := to_presenter s @ replicate n log_change\<rparr>)"
proof (induction n arbitrary: s)
  case (Suc n)
  have "desktop_step\<^sup>*\<^sup>* s (s\<lparr>to_presenter := to_presenter s @ [log_change]\<rparr>)"
    using Suc.prems by (intro change_arrives) simp_all
  moreover have "desktop_step\<^sup>*\<^sup>* (s\<lparr>to_presenter := to_presenter s @ [log_change]\<rparr>)
      (s\<lparr>to_presenter := to_presenter s @ replicate (Suc n) log_change\<rparr>)"
    using Suc.IH [of "s\<lparr>to_presenter := to_presenter s @ [log_change]\<rparr>"] Suc.prems by simp
  ultimately show ?case by (rule rtranclp_trans)
qed simp

text \<open>
  C40: The program can freeze: while the window is busy elsewhere, changes of the log file fill both
  channels; a click on a menu entry then blocks the window in a send to the presenter, which is
  itself blocked in a send to the window. Nothing can happen any more, and the window cannot even
  be told to exit.
\<close>

theorem desktop_can_freeze:
  "\<exists>s. reach desktop_start desktop_step s \<and> \<not> exited (vw s) \<and> vw_out s \<noteq> [] \<and> (\<forall>t. \<not> desktop_step s t)"
proof -
  let ?R = "reach desktop_start desktop_step"
  define s0 where "s0 = \<lparr>to_presenter = [], to_view = [], pr = fst presenter_start, pr_out = snd presenter_start,
    vw = view_start, vw_out = [], wt_out = []\<rparr>"
  define s1 where "s1 = s0\<lparr>to_view := [ViewRenderServiceState Unknown], pr_out := []\<rparr>"
  define s2 where "s2 = s1\<lparr>to_view := to_view s1 @ replicate 9 log_update\<rparr>"
  define s3 where "s3 = s2\<lparr>pr_out := [log_update]\<rparr>"
  define s4 where "s4 = s3\<lparr>to_presenter := to_presenter s3 @ replicate 10 log_change\<rparr>"
  define s5 where "s5 = s4\<lparr>wt_out := [log_change]\<rparr>"
  define s6 where "s6 = s5\<lparr>vw_out := [ViewAction ''hbbs.err'']\<rparr>"
  have run: "\<not> exited view_start" by (simp add: view_start_def)
  have "?R s0" by (rule reach_start) (simp add: desktop_start_def s0_def)
  moreover have "desktop_step s0 s1"
    using presenter_send [of s0 "ViewRenderServiceState Unknown" "[]"] run
    by (simp add: s0_def s1_def presenter_start_def capacity_def)
  ultimately have "?R s1" by (rule reach_step)
  moreover have s1: "idle s1" "to_presenter s1 = []" "length (to_view s1) = 1"
    by (simp_all add: s0_def s1_def idle_def run presenter_start_def)
  ultimately have "?R s2" using reach_steps [OF changes_pile_up [of s1 9]] by (simp add: s2_def capacity_def)
  moreover have s2: "idle s2" "to_presenter s2 = []" using s1 by (simp_all add: s2_def idle_def)
  ultimately have "?R s3" using reach_steps [OF change_handled [of s2]] by (simp add: s3_def)
  moreover have s3: "\<not> exited (vw s3)" "wt_out s3 = []" "to_presenter s3 = []" "vw_out s3 = []" "vw s3 = view_start"
    using s2 by (simp_all add: s3_def idle_def) (simp add: s2_def s1_def s0_def)
  ultimately have "?R s4" using reach_steps [OF changes_wait [of s3 10]] by (simp add: s4_def capacity_def)
  moreover have "desktop_step s4 s5" using watcher_sees [of s4 "''hbbs.out''"] s3 by (simp add: s4_def s5_def)
  ultimately have "?R s5" by (rule reach_step)
  moreover have "desktop_step s5 s6"
    using view_callback [of s5 "ViewAction ''hbbs.err''"] menu_item [of "''hbbs.err''" view_start] s3
    by (simp add: s4_def s5_def s6_def menu_ids_def log_files_def enabled_def)
  ultimately have r: "?R s6" by (rule reach_step)
  have s6: "length (to_presenter s6) = 10" "length (to_view s6) = 10" "pr_out s6 \<noteq> []" "wt_out s6 \<noteq> []" "vw_out s6 \<noteq> []"
    "\<not> exited (vw s6)"
    using s3 s1 by (simp_all add: s6_def s5_def s4_def) (simp_all add: s3_def s2_def)
  then have "\<not> desktop_step s6 t" for t by (auto elim!: desktop_stepE simp: capacity_def)
  with r s6 show ?thesis by blast
qed

end
