(* ===== verification/DesktopService.thy ===== *)
theory DesktopService
  imports Desktop World Args
begin

text \<open>
  What the desktop program does to the machine: the Windows service of src/ui/src/adapter/service/windows.rs
  that runs the servers, behind the interface of usecase/service.rs, and the watcher of the log directory
  (usecase/watcher.rs).

  A command is a program with its arguments, its directory and an environment variable; \<open>executed\<close> lists
  those that were run. \<open>run_program\<close> is what the \<open>k\<close>-th one prints, or the error of starting it,
  \<open>manager\<close>, \<open>service_handle\<close> and \<open>query_state\<close> are the calls of the crate windows_service, and
  \<open>exe_dir\<close> is the directory of the program, as the system gives it.
\<close>

datatype command = Command string "string list" "string option" "(string \<times> string) list"

record windows_env =
  exe_dir :: string
  run_program :: "nat \<Rightarrow> command \<Rightarrow> string + string"
  manager :: "nat \<Rightarrow> string option"
  service_handle :: "nat \<Rightarrow> string \<Rightarrow> string option"
  query_state :: "nat \<Rightarrow> string \<Rightarrow> string + string"

record windows_world = world +
  executed :: "command list"
  service_shown :: service_state

definition dir_text :: "windows_env \<Rightarrow> string" where
  "dir_text e = (if valid_utf8 (exe_dir e) then exe_dir e else '''')"

section \<open>Running commands\<close>

definition run_command :: "windows_env \<Rightarrow> command \<Rightarrow> (windows_world, string + string) state" where
  "run_command e c = do {
     k \<leftarrow> tick;
     modify (\<lambda>s. s\<lparr>executed := executed s @ [c]\<rparr>);
     State_Monad.return (run_program e k c)
   }"

fun join_with :: "string \<Rightarrow> string list \<Rightarrow> string" where
  "join_with sep [] = ''''"
| "join_with sep [x] = x"
| "join_with sep (x # xs) = x @ sep @ join_with sep xs"

text \<open>\<open>None\<close> is the panic of the \<open>expect\<close>.\<close>

definition call_cmd :: "windows_env \<Rightarrow> string \<Rightarrow> (windows_world, unit option) state" where
  "call_cmd e script = do {
     r \<leftarrow> run_command e (Command ''cmd'' [''/c'', ''start'', ''cmd'', ''/c'', script] (Some (exe_dir e))
       [(''nssm'', ''service'' @ [CHR 0x5C] @ ''nssm.exe'')]);
     State_Monad.return (case r of Inl err \<Rightarrow> None | Inr out \<Rightarrow> Some ())
   }"

definition exec_program :: "windows_env \<Rightarrow> string \<Rightarrow> string list \<Rightarrow> (windows_world, string) state" where
  "exec_program e program args = do {
     r \<leftarrow> run_command e (Command program args None []);
     State_Monad.return (case r of Inr out \<Rightarrow> if valid_utf8 out then out else '''' | Inl err \<Rightarrow> err)
   }"

definition nssm :: "windows_env \<Rightarrow> string list \<Rightarrow> (windows_world, string) state" where
  "nssm e args = do {
     out \<leftarrow> exec_program e (dir_text e @ [CHR 0x5C] @ ''service'' @ [CHR 0x5C] @ ''nssm.exe'') args;
     State_Monad.return (trim (filter (\<lambda>c. c \<noteq> CHR 0x00) out))
   }"

definition service_status :: "windows_env \<Rightarrow> string \<Rightarrow> (windows_world, string) state" where
  "service_status e name = do {
     k \<leftarrow> tick;
     State_Monad.return (case manager e k of
         Some err \<Rightarrow> err
       | None \<Rightarrow> (case service_handle e k name of
           Some err \<Rightarrow> err
         | None \<Rightarrow> (case query_state e k name of Inr st \<Rightarrow> st | Inl err \<Rightarrow> err)))
   }"

section \<open>The service\<close>

definition check_service :: "windows_env \<Rightarrow> (windows_world, service_state) state" where
  "check_service e = do {
     status \<leftarrow> service_status e ''hbbs'';
     modify (\<lambda>s. s\<lparr>service_shown := check_status status\<rparr>);
     State_Monad.return (check_status status)
   }"

definition run_cmd :: "string \<Rightarrow> string" where
  "run_cmd name = ''service'' @ [CHR 0x5C] @ ''run.cmd '' @ name"

definition start_script :: "string list" where
  "start_script = [''echo.'', ''%nssm% stop hbbr'', ''%nssm% remove hbbr confirm'', ''%nssm% stop hbbs'',
     ''%nssm% remove hbbs confirm'', ''mkdir logs'', ''echo.'', run_cmd ''hbbs'', ''echo.'', run_cmd ''hbbr'',
     ''echo.'', ''@ping 127.1 -n 3 >nul'']"

definition stop_script :: "string list" where
  "stop_script = [''echo.'', ''%nssm% stop hbbr'', ''%nssm% remove hbbr confirm'', ''echo.'', ''%nssm% stop hbbs'',
     ''%nssm% remove hbbs confirm'', ''echo.'', ''@ping 127.1 -n 3 >nul'']"

definition pause_script :: "string list" where
  "pause_script = [''echo.'', ''%nssm% stop hbbr'', ''echo.'', ''%nssm% stop hbbs'', ''echo.'', ''@ping 127.1 -n 3 >nul'']"

definition run_script :: "windows_env \<Rightarrow> string list \<Rightarrow> (windows_world, service_state option) state" where
  "run_script e script = do {
     r \<leftarrow> call_cmd e (join_with '' & '' script);
     case r of
       None \<Rightarrow> State_Monad.return None
     | Some _ \<Rightarrow> do { st \<leftarrow> check_service e; State_Monad.return (Some st) }
   }"

definition start_service :: "windows_env \<Rightarrow> (windows_world, service_state option) state" where
  "start_service e = run_script e start_script"

definition stop_service :: "windows_env \<Rightarrow> (windows_world, service_state option) state" where
  "stop_service e = run_script e stop_script"

definition pause_service :: "windows_env \<Rightarrow> (windows_world, service_state option) state" where
  "pause_service e = run_script e pause_script"

definition restart_service :: "windows_env \<Rightarrow> (windows_world, service_state option) state" where
  "restart_service e = do {
     _ \<leftarrow> nssm e [''restart'', ''hbbs''];
     _ \<leftarrow> nssm e [''restart'', ''hbbr''];
     st \<leftarrow> check_service e;
     State_Monad.return (Some st)
   }"

text \<open>What the presenter calls by name.\<close>

definition service_call :: "windows_env \<Rightarrow> string \<Rightarrow> (windows_world, service_state option) state" where
  "service_call e name =
     (if name = ''start'' then start_service e
      else if name = ''stop'' then stop_service e
      else if name = ''restart'' then restart_service e
      else if name = ''pause'' then pause_service e
      else State_Monad.return None)"

section \<open>The watcher\<close>

text \<open>
  \<open>watch\<close>: what one watcher sends while it lives, and the error it ends with. A notification is an
  error or a list of paths; \<open>file_name\<close> is \<open>Path::file_name\<close> and the conversion to text.
\<close>

definition path_event :: "(string \<Rightarrow> string option) \<Rightarrow> string \<Rightarrow> event option" where
  "path_event file_name p =
     (let name = (case file_name p of Some n \<Rightarrow> n | None \<Rightarrow> '''')
      in if length name > 0 then Some (FileChange name) else None)"

fun watch :: "(string \<Rightarrow> string option) \<Rightarrow> (string + string list) list \<Rightarrow> event list \<times> string option" where
  "watch file_name [] = ([], None)"
| "watch file_name (Inl err # rest) = ([], Some err)"
| "watch file_name (Inr paths # rest) =
     (let (evs, err) = watch file_name rest in (List.map_filter (path_event file_name) paths @ evs, err))"

text \<open>\<open>create\<close> starts a new watcher a second after the last one ended.\<close>

fun watch_forever :: "(string \<Rightarrow> string option) \<Rightarrow> (string + string list) list list \<Rightarrow> event list" where
  "watch_forever file_name [] = []"
| "watch_forever file_name (w # ws) = fst (watch file_name w) @ watch_forever file_name ws"

section \<open>Lemmas\<close>

text \<open>The watcher's events are those of the rule \<open>watcher_sees\<close> of \<open>desktop_step\<close>.\<close>

lemma watch_sends_names: "ev \<in> set (fst (watch file_name w)) \<Longrightarrow> \<exists>name. name \<noteq> [] \<and> ev = FileChange name"
  by (induction file_name w rule: watch.induct)
    (auto simp: path_event_def Let_def List.map_filter_def case_prod_unfold split: if_splits)

lemma watch_forever_names: "ev \<in> set (watch_forever file_name ws) \<Longrightarrow> \<exists>name. name \<noteq> [] \<and> ev = FileChange name"
  by (induction file_name ws rule: watch_forever.induct) (auto dest: watch_sends_names)

text \<open>A notification is lost to no later one: the names are sent in the order they were seen.\<close>

lemma watch_complete:
  "list_all (\<lambda>n. \<not> isl n) w \<Longrightarrow> watch file_name w = (concat (map (\<lambda>n. List.map_filter (path_event file_name) (projr n)) w), None)"
  by (induction file_name w rule: watch.induct) auto

lemma run_check_service:
  "run_state (check_service e) s = (st, s') \<Longrightarrow> \<exists>status. st = check_status status \<and>
     s' = s\<lparr>ticks := Suc (ticks s), service_shown := st\<rparr>"
  by (auto simp: check_service_def service_status_def exec_simps)

text \<open>
  Whatever a call of the service runs, the state that is shown afterwards is that of the service hbbs,
  asked after the last command; only a shell that cannot be started ends the program before that.
\<close>

theorem service_call_runs:
  assumes "name \<in> {''start'', ''stop'', ''restart'', ''pause''}" and "run_state (service_call e name) s = (r, s')"
  shows "\<exists>cmds. executed s' = executed s @ cmds \<and>
    (case r of
       None \<Rightarrow> name \<noteq> ''restart'' \<and> service_shown s' = service_shown s
     | Some st \<Rightarrow> st \<in> {Started, Stopped} \<and> service_shown s' = st) \<and>
    length cmds = (if name = ''restart'' then 2 else 1)"
  using assms
  by (auto simp: service_call_def start_service_def stop_service_def pause_service_def restart_service_def run_script_def
      call_cmd_def nssm_def exec_program_def run_command_def check_status_def exec_simps
      dest!: run_check_service split: option.splits prod.splits sum.splits if_splits)

text \<open>Pausing stops both servers and keeps them installed; stopping removes them too.\<close>

lemma pause_keeps_installed:
  "set pause_script \<subseteq> set stop_script"
  "filter (\<lambda>c. c \<in> {''%nssm% remove hbbr confirm'', ''%nssm% remove hbbs confirm''}) pause_script = []"
  by (simp_all add: pause_script_def stop_script_def)

end
