(* ===== verification/Utils.thy ===== *)
theory Utils
  imports Keys Net
begin

text \<open>
  The tool openuu-utils, src/utils.rs: generating and checking key pairs, and the doctor that looks a
  server's ports up; and the version check of src/common/process.rs. What is printed is a list of texts, one per \<open>println!\<close>. A run that does not come to
  the end of \<open>main\<close> is an \<open>ending\<close>: \<open>process::exit\<close> with its code, or a panic of an \<open>unwrap\<close>. Name
  resolution (the crate dns_lookup), the address parser and whether a TCP connection comes about at the
  \<open>k\<close>-th request are parameters.
\<close>

record utils_env = key_env +
  parse_ip :: "string \<Rightarrow> ip_addr option"
  lookup_host :: "nat \<Rightarrow> string \<Rightarrow> ip_addr list option"
  lookup_addr :: "nat \<Rightarrow> ip_addr \<Rightarrow> string option"
  connects :: "nat \<Rightarrow> string \<Rightarrow> bool"

record utils_world = world +
  printed :: "string list"

datatype ending = Exited nat | Panicked

definition say :: "string \<Rightarrow> ('w utils_world_scheme, ending + unit) state" where
  "say t = do {
     modify (\<lambda>s. s\<lparr>printed := printed s @ [t]\<rparr>);
     State_Monad.return (Inr ())
   }"

definition exit_with :: "nat \<Rightarrow> ('w utils_world_scheme, ending + unit) state" where
  "exit_with code = State_Monad.return (Inl (Exited code))"

text \<open>\<open>for_each\<close>, which a panic of its body ends.\<close>

fun each :: "('x \<Rightarrow> ('s, 'b + unit) state) \<Rightarrow> 'x list \<Rightarrow> ('s, 'b + unit) state" where
  "each f [] = State_Monad.return (Inr ())"
| "each f (x # xs) = try_bind (f x) (\<lambda>_. each f xs)"

definition lines_text :: "string list \<Rightarrow> string" where
  "lines_text ls = concat (map (\<lambda>l. l @ [CHR 0x0A]) (butlast ls)) @ last ls"

section \<open>Help\<close>

definition utils_help :: string where
  "utils_help = lines_text
     [''Usage:'', ''    openuu-utils [command]'', '''', ''Available Commands:'',
      ''    genkeypair                                   Generate a new keypair'',
      ''    validatekeypair [public key] [secret key]    Validate an existing keypair'',
      ''    doctor [openuu-server]                     Check for server connection problems'']"

definition print_help :: "('w utils_world_scheme, ending + unit) state" where
  "print_help = try_bind (say utils_help) (\<lambda>_. exit_with 1)"

definition error_then_help :: "string \<Rightarrow> ('w utils_world_scheme, ending + unit) state" where
  "error_then_help msg = try_bind (say (''ERROR: '' @ msg @ [CHR 0x0A])) (\<lambda>_. print_help)"

section \<open>Keys\<close>

definition gen_keypair :: "'e utils_env_scheme \<Rightarrow> ('w utils_world_scheme, ending + unit) state" where
  "gen_keypair e = do {
     k \<leftarrow> tick;
     let public_key = b64_encode e (fst (sign_keypair e k));
     let secret_key = b64_encode e (snd (sign_keypair e k));
     try_bind (say (''Public Key:  '' @ public_key)) (\<lambda>_. say (''Secret Key:  '' @ secret_key))
   }"

section \<open>The doctor\<close>

definition doctor_tcp ::
  "'e utils_env_scheme \<Rightarrow> ip_addr \<Rightarrow> string \<times> string \<Rightarrow> ('w utils_world_scheme, ending + unit) state" where
  "doctor_tcp e address = (\<lambda>(port, desc). do {
     start \<leftarrow> instant_now e;
     k \<leftarrow> tick;
     if connects e k (show_ip address @ '':'' @ port) then do {
       el \<leftarrow> elapsed e start;
       say (''TCP Port '' @ port @ '' ('' @ desc @ ''): OK in '' @ show_nat (as_millis el) @ '' ms'')
     } else say (''TCP Port '' @ port @ '' ('' @ desc @ ''): ERROR'')
   })"

definition doctor_ports :: "(string \<times> string) list" where
  "doctor_ports = [(''21114'', ''API''), (''21115'', ''hbbs extra port for nat test''), (''21116'', ''hbbs''),
     (''21117'', ''hbbr tcp''), (''21118'', ''hbbs websocket''), (''21119'', ''hbbr websocket'')]"

definition show_bool :: "bool \<Rightarrow> string" where
  "show_bool b = (if b then ''true'' else ''false'')"

fun is_v4 :: "ip_addr \<Rightarrow> bool" where
  "is_v4 (V4 a) = True"
| "is_v4 (V6 a) = False"

definition reverse_line :: "string \<Rightarrow> string \<Rightarrow> string" where
  "reverse_line reverse server =
     (if reverse = server then ''Reverse DNS lookup: '' @ [CHR 0x27] @ reverse @ [CHR 0x27] @ '' MATCHES server address''
      else ''Reverse DNS lookup: '' @ [CHR 0x27] @ reverse @ [CHR 0x27] @ '' DOESN'' @ [CHR 0x27] @ ''T MATCH server address '' @
        [CHR 0x27] @ server @ [CHR 0x27])"

definition doctor_ip ::
  "'e utils_env_scheme \<Rightarrow> string option \<Rightarrow> ip_addr \<Rightarrow> ('w utils_world_scheme, ending + unit) state" where
  "doctor_ip e server ip =
     try_bind (say ([CHR 0x0A] @ ''Checking IP address: '' @ show_ip ip)) (\<lambda>_.
     try_bind (say (''Is IPV4: '' @ show_bool (is_v4 ip))) (\<lambda>_.
     try_bind (say (''Is IPV6: '' @ show_bool (\<not> is_v4 ip))) (\<lambda>_. do {
       k \<leftarrow> tick;
       case lookup_addr e k ip of
         None \<Rightarrow> State_Monad.return (Inl Panicked)
       | Some reverse \<Rightarrow>
           try_bind (case server of
               None \<Rightarrow> State_Monad.return (Inr ())
             | Some name \<Rightarrow> say (reverse_line reverse name))
             (\<lambda>_. each (doctor_tcp e ip) doctor_ports)
     })))"

definition address_line :: "ip_addr \<Rightarrow> string" where
  "address_line ip = '' - '' @ show_ip ip"

definition doctor ::
  "'e utils_env_scheme \<Rightarrow> 'c case_env_scheme \<Rightarrow> string \<Rightarrow> ('w utils_world_scheme, ending + unit) state" where
  "doctor e c unclean = (
     let server = lowercase c (trim unclean)
     in try_bind (say (''Checking server:  '' @ server @ [CHR 0x0A])) (\<lambda>_.
       case parse_ip e server of
         Some ip \<Rightarrow> doctor_ip e None ip
       | None \<Rightarrow> do {
           k \<leftarrow> tick;
           case lookup_host e k server of
             None \<Rightarrow> State_Monad.return (Inl Panicked)
           | Some ips \<Rightarrow>
               try_bind (say (''Found '' @ show_nat (length ips) @ '' IP addresses: '')) (\<lambda>_.
               try_bind (each (\<lambda>ip. say (address_line ip)) ips) (\<lambda>_.
                 each (doctor_ip e (Some server)) ips))
         }))"

section \<open>The commands\<close>

text \<open>\<open>args\<close> begins with the name of the program.\<close>

definition utils_main ::
  "'e utils_env_scheme \<Rightarrow> 'c case_env_scheme \<Rightarrow> string list \<Rightarrow> ('w utils_world_scheme, ending + unit) state" where
  "utils_main e c args =
     try_bind (if length args \<le> 1 then print_help else State_Monad.return (Inr ())) (\<lambda>_.
       let command = lowercase c (args ! 1) in
       if command = ''genkeypair'' then gen_keypair e
       else if command = ''validatekeypair'' then
         try_bind (if length args \<le> 3 then error_then_help ''You must supply both the public and the secret key''
                   else State_Monad.return (Inr ())) (\<lambda>_.
           case validate_keypair e (args ! 2) (args ! 3) of
             Inl err \<Rightarrow> try_bind (say err) (\<lambda>_. exit_with 1)
           | Inr _ \<Rightarrow> say ''Key pair is VALID'')
       else if command = ''doctor'' then
         try_bind (if length args \<le> 2 then error_then_help ''You must supply the openuu-server address''
                   else State_Monad.return (Inr ())) (\<lambda>_. doctor e c (args ! 2))
       else print_help)"

section \<open>The version check\<close>

text \<open>
  \<open>check_software_update_\<close> of src/common/process.rs, which hbbs runs once a day in a thread of its own: the
  version it would log as new. The request is reqwest's, the answer's parser serde_json's, the order of
  versions and the own version hbb_common's and the build's.
\<close>

record update_env =
  post_update :: "nat \<Rightarrow> string option"
  response_url :: "string \<Rightarrow> string option"
  version_number :: "string \<Rightarrow> int"
  own_version :: string

definition latest_release :: "string \<Rightarrow> string" where
  "latest_release url = rev (takeWhile (\<lambda>c. c \<noteq> CHR ''/'') (rev url))"

definition check_software_update :: "update_env \<Rightarrow> ('w world_scheme, unit + string option) state" where
  "check_software_update e = do {
     k \<leftarrow> tick;
     State_Monad.return (case post_update e k of
         None \<Rightarrow> Inl ()
       | Some body \<Rightarrow> (case response_url e body of
           None \<Rightarrow> Inl ()
         | Some url \<Rightarrow> Inr (if version_number e (latest_release url) > version_number e (own_version e)
             then Some (latest_release url) else None)))
   }"

section \<open>Lemmas\<close>

lemma latest_release_tag: "CHR ''/'' \<notin> set tag \<Longrightarrow> latest_release (site @ ''/'' @ tag) = tag"
proof -
  assume "CHR ''/'' \<notin> set tag"
  then have "takeWhile (\<lambda>c. c \<noteq> CHR ''/'') (rev tag @ ''/'' @ rev site) = rev tag"
    using takeWhile_append2 [of "rev tag" "\<lambda>c. c \<noteq> CHR ''/''" "''/'' @ rev site"] by auto
  then show ?thesis by (simp add: latest_release_def)
qed

lemma run_say [exec_simps]: "run_state (say t) s = (Inr (), s\<lparr>printed := printed s @ [t]\<rparr>)"
  by (simp add: say_def exec_simps)

lemma run_exit [exec_simps]: "run_state (exit_with n) s = (Inl (Exited n), s)"
  by (simp add: exit_with_def)

lemma run_print_help [exec_simps]:
  "run_state print_help s = (Inl (Exited 1), s\<lparr>printed := printed s @ [utils_help]\<rparr>)"
  by (simp add: print_help_def exec_simps)

lemma run_error_then_help [exec_simps]:
  "run_state (error_then_help msg) s =
     (Inl (Exited 1), s\<lparr>printed := printed s @ [''ERROR: '' @ msg @ [CHR 0x0A], utils_help]\<rparr>)"
  by (simp add: error_then_help_def exec_simps)

text \<open>The report on one port, whatever came of the connection.\<close>

definition reports :: "string \<times> string \<Rightarrow> string \<Rightarrow> bool" where
  "reports = (\<lambda>(port, desc) line. line = ''TCP Port '' @ port @ '' ('' @ desc @ ''): ERROR'' \<or>
     (\<exists>n. line = ''TCP Port '' @ port @ '' ('' @ desc @ ''): OK in '' @ show_nat n @ '' ms''))"

lemma doctor_tcp_reports:
  "\<exists>k line. run_state (doctor_tcp e ip pd) s = (Inr (), s\<lparr>ticks := k, printed := printed s @ [line]\<rparr>) \<and> reports pd line"
  by (cases pd) (auto simp: doctor_tcp_def reports_def exec_simps)

lemma each_reports:
  assumes "\<And>x s. \<exists>k ls. run_state (f x) s = (Inr (), s\<lparr>ticks := k, printed := printed s @ ls\<rparr>) \<and> R x ls"
  shows "\<exists>k lss. run_state (each f xs) s = (Inr (), s\<lparr>ticks := k, printed := printed s @ concat lss\<rparr>) \<and> list_all2 R xs lss"
proof (induction xs arbitrary: s)
  case (Cons x xs)
  obtain k ls where x: "run_state (f x) s = (Inr (), s\<lparr>ticks := k, printed := printed s @ ls\<rparr>)" "R x ls"
    using assms by blast
  obtain k' lss where r: "run_state (each f xs) (s\<lparr>ticks := k, printed := printed s @ ls\<rparr>) =
      (Inr (), s\<lparr>ticks := k', printed := printed s @ ls @ concat lss\<rparr>)" "list_all2 R xs lss"
    using Cons [of "s\<lparr>ticks := k, printed := printed s @ ls\<rparr>"] by auto
  show ?case using x r by (intro exI [of _ k'] exI [of _ "ls # lss"]) (simp add: exec_simps)
next
  case Nil
  show ?case by (intro exI [of _ "ticks s"] exI [of _ "[]"]) (simp add: exec_simps)
qed


text \<open>What the doctor prints about one address.\<close>

definition ip_report :: "string option \<Rightarrow> ip_addr \<Rightarrow> string list \<Rightarrow> bool" where
  "ip_report server ip ls \<longleftrightarrow> (\<exists>rev_line ports. ls = [[CHR 0x0A] @ ''Checking IP address: '' @ show_ip ip,
       ''Is IPV4: '' @ show_bool (is_v4 ip), ''Is IPV6: '' @ show_bool (\<not> is_v4 ip)] @ rev_line @ ports \<and>
     (case server of None \<Rightarrow> rev_line = [] | Some name \<Rightarrow> \<exists>r. rev_line = [reverse_line r name]) \<and>
     list_all2 reports doctor_ports ports)"

lemma list_all2_singletons: "list_all2 (\<lambda>x ls. \<exists>l. ls = [l] \<and> P x l) xs lss \<Longrightarrow> list_all2 P xs (concat lss)"
  by (induction rule: list_all2_induct) auto

lemma update_order: "(s :: 'w utils_world_scheme)\<lparr>printed := p, ticks := k\<rparr> = s\<lparr>ticks := k, printed := p\<rparr>"
  by simp

lemma doctor_ip_reports:
  assumes "\<forall>k. lookup_addr e k ip \<noteq> None"
  shows "\<exists>k ls. run_state (doctor_ip e server ip) s = (Inr (), s\<lparr>ticks := k, printed := printed s @ ls\<rparr>) \<and> ip_report server ip ls"
proof -
  have each: "\<exists>k lss. run_state (each (doctor_tcp e ip) doctor_ports) s' = (Inr (), s'\<lparr>ticks := k, printed := printed s' @ concat lss\<rparr>) \<and>
      list_all2 (\<lambda>x ls. \<exists>l. ls = [l] \<and> reports x l) doctor_ports lss" for s'
    by (rule each_reports) (use doctor_tcp_reports in fastforce)
  obtain r where r: "lookup_addr e (ticks s) ip = Some r" using assms by blast
  let ?head = "[[CHR 0x0A] @ ''Checking IP address: '' @ show_ip ip, ''Is IPV4: '' @ show_bool (is_v4 ip),
    ''Is IPV6: '' @ show_bool (\<not> is_v4 ip)]"
  let ?rev = "case server of None \<Rightarrow> [] | Some name \<Rightarrow> [reverse_line r name]"
  let ?s = "s\<lparr>ticks := Suc (ticks s), printed := printed s @ ?head @ ?rev\<rparr>"
  obtain k lss where run: "run_state (each (doctor_tcp e ip) doctor_ports) ?s =
      (Inr (), ?s\<lparr>ticks := k, printed := printed ?s @ concat lss\<rparr>)"
    and ports: "list_all2 reports doctor_ports (concat lss)"
    using each [of ?s] list_all2_singletons by blast
  have "run_state (doctor_ip e server ip) s = run_state (each (doctor_tcp e ip) doctor_ports) ?s"
    using r by (cases server) (simp_all add: doctor_ip_def exec_simps update_order)
  with run have "run_state (doctor_ip e server ip) s =
      (Inr (), s\<lparr>ticks := k, printed := printed s @ (?head @ ?rev @ concat lss)\<rparr>)" by simp
  moreover have "ip_report server ip (?head @ ?rev @ concat lss)"
    unfolding ip_report_def using ports by (intro exI [of _ ?rev] exI [of _ "concat lss"]) (auto split: option.splits)
  ultimately show ?thesis by blast
qed


section \<open>Properties\<close>

text \<open>What ed25519 promises: a message signed with the key that was drawn verifies under its public half.\<close>

definition signing_ok :: "'e key_env_scheme \<Rightarrow> bool" where
  "signing_ok e \<longleftrightarrow> (\<forall>k m. verify_with e (sign_with e m (snd (sign_keypair e k))) (fst (sign_keypair e k)) = Some m)"

text \<open>
  C28: The two commands for keys agree: the texts that \<open>genkeypair\<close> prints, given to \<open>validatekeypair\<close>, are
  found valid, whichever pair was drawn, and however the commands are capitalised.
\<close>

theorem generated_keys_validate:
  assumes "crypto_ok e" and "signing_ok e" and "lowercase c g = ''genkeypair''" and "lowercase c v = ''validatekeypair''"
    and "\<forall>k. length (fst (sign_keypair e k)) = 32"
  shows "\<exists>public_key secret_key s'. run_state (utils_main e c [prog, g]) s = (Inr (), s') \<and>
    printed s' = printed s @ [''Public Key:  '' @ public_key, ''Secret Key:  '' @ secret_key] \<and>
    run_state (utils_main e c [prog, v, public_key, secret_key]) t =
      (Inr (), t\<lparr>printed := printed t @ [''Key pair is VALID'']\<rparr>)"
proof -
  let ?pk = "fst (sign_keypair e (ticks s))" and ?sk = "snd (sign_keypair e (ticks s))"
  have "validate_keypair e (b64_encode e ?pk) (b64_encode e ?sk) = Inr ()"
    using assms(1,2,5) by (simp add: validate_keypair_def crypto_ok_def signing_ok_def)
  then show ?thesis
    using assms(3,4)
    by (intro exI [of _ "b64_encode e ?pk"] exI [of _ "b64_encode e ?sk"] exI [of _ "s\<lparr>ticks := Suc (ticks s),
        printed := printed s @ [''Public Key:  '' @ b64_encode e ?pk, ''Secret Key:  '' @ b64_encode e ?sk]\<rparr>"])
      (simp add: utils_main_def gen_keypair_def exec_simps Let_def)
qed

text \<open>
  The doctor is complete: asked about a name whose addresses can be looked up both ways, it ends
  normally and prints, for each address in turn, its kind, the reverse lookup and one line on each of
  the six ports, whether or not anything answers there.
\<close>

theorem doctor_reports_every_port:
  fixes s :: "'w utils_world_scheme"
  assumes "lookup_host e (ticks s) (lowercase c (trim name)) = Some ips" and "parse_ip e (lowercase c (trim name)) = None"
    and "\<forall>k. \<forall>ip \<in> set ips. lookup_addr e k ip \<noteq> None"
    and "lowercase c d = ''doctor''"
  shows "\<exists>s' blocks. run_state (utils_main e c [prog, d, name]) s = (Inr (), s') \<and>
    printed s' = printed s @ [''Checking server:  '' @ lowercase c (trim name) @ [CHR 0x0A],
      ''Found '' @ show_nat (length ips) @ '' IP addresses: ''] @ map address_line ips @ concat blocks \<and>
    list_all2 (ip_report (Some (lowercase c (trim name)))) ips blocks"
proof -
  let ?name = "lowercase c (trim name)"
  let ?f = "doctor_ip e (Some ?name)"
  have lists: "run_state (each (\<lambda>ip. say (address_line ip)) xs) t =
      (Inr (), t\<lparr>printed := printed t @ map address_line xs\<rparr>)" for xs and t :: "'w utils_world_scheme"
    by (induction xs arbitrary: t) (simp_all add: exec_simps)
  have blocks: "\<exists>k lss. run_state (each ?f xs) t = (Inr (), t\<lparr>ticks := k, printed := printed t @ concat lss\<rparr>) \<and>
      list_all2 (ip_report (Some ?name)) xs lss" if "set xs \<subseteq> set ips" for xs and t :: "'w utils_world_scheme"
    using that
  proof (induction xs arbitrary: t)
    case Nil
    show ?case by (intro exI [of _ "ticks t"] exI [of _ "[]"]) (simp add: exec_simps)
  next
    case (Cons x xs)
    have "\<forall>k. lookup_addr e k x \<noteq> None" using assms(3) Cons.prems by auto
    from doctor_ip_reports [OF this] obtain k ls where
      x: "run_state (?f x) t = (Inr (), t\<lparr>ticks := k, printed := printed t @ ls\<rparr>)" "ip_report (Some ?name) x ls" by blast
    obtain k' lss where r: "run_state (each ?f xs) (t\<lparr>ticks := k, printed := printed t @ ls\<rparr>) =
        (Inr (), t\<lparr>ticks := k', printed := printed t @ ls @ concat lss\<rparr>)" "list_all2 (ip_report (Some ?name)) xs lss"
      using Cons.IH [of "t\<lparr>ticks := k, printed := printed t @ ls\<rparr>"] Cons.prems by auto
    show ?case using x r by (intro exI [of _ k'] exI [of _ "ls # lss"]) (simp add: exec_simps)
  qed
  let ?s = "s\<lparr>ticks := Suc (ticks s), printed := printed s @ [''Checking server:  '' @ ?name @ [CHR 0x0A],
      ''Found '' @ show_nat (length ips) @ '' IP addresses: ''] @ map address_line ips\<rparr>"
  obtain k lss where run: "run_state (each ?f ips) ?s = (Inr (), ?s\<lparr>ticks := k, printed := printed ?s @ concat lss\<rparr>)"
    and all: "list_all2 (ip_report (Some ?name)) ips lss" using blocks [OF subset_refl] by blast
  have "run_state (utils_main e c [prog, d, name]) s = run_state (each ?f ips) ?s"
    using assms(1,2,4) by (simp add: utils_main_def doctor_def exec_simps Let_def lists update_order)
  with run all show ?thesis by (intro exI [of _ "?s\<lparr>ticks := k, printed := printed ?s @ concat lss\<rparr>"] exI [of _ lss]) simp
qed


definition sample_utils_env :: utils_env where
  "sample_utils_env = key_env.extend sample_key_env
     \<lparr>parse_ip = (\<lambda>_. None), lookup_host = (\<lambda>k name. Some [V4 0]), lookup_addr = (\<lambda>k ip. Some ''b''),
      connects = (\<lambda>k addr. even k)\<rparr>"

lemma sample_utils:
  "crypto_ok sample_utils_env" "signing_ok sample_utils_env" "length (fst (sign_keypair sample_utils_env k)) = 32"
  "lookup_host sample_utils_env k name = Some [V4 0]" "parse_ip sample_utils_env name = None"
  "lookup_addr sample_utils_env k ip = Some ''b''"
proof -
  have "crypto_ok sample_utils_env = crypto_ok sample_key_env"
    by (simp add: crypto_ok_def sample_utils_env_def sample_key_env_def env.extend_def key_env.extend_def)
  then show "crypto_ok sample_utils_env" by (simp add: sample_crypto)
qed (simp_all add: signing_ok_def sample_utils_env_def sample_key_env_def env.extend_def key_env.extend_def)

definition sample_utils_world :: utils_world where
  "sample_utils_world = \<lparr>ticks = 0, printed = []\<rparr>"

theorem generated_keys_validate_witness:
  "\<exists>public_key secret_key s'.
     run_state (utils_main sample_utils_env sample_case [''openuu-utils'', ''GenKeypair'']) sample_utils_world = (Inr (), s') \<and>
     printed s' = [''Public Key:  '' @ public_key, ''Secret Key:  '' @ secret_key] \<and>
     run_state (utils_main sample_utils_env sample_case [''openuu-utils'', ''validatekeypair'', public_key, secret_key])
       sample_utils_world = (Inr (), sample_utils_world\<lparr>printed := [''Key pair is VALID'']\<rparr>)"
proof -
  have c: "lowercase sample_case ''GenKeypair'' = ''genkeypair''" "lowercase sample_case ''validatekeypair'' = ''validatekeypair''"
    by (simp_all only: sample_case_def case_env.simps) code_simp+
  from generated_keys_validate [OF sample_utils(1,2) c, where prog = "''openuu-utils''" and s = sample_utils_world and t = sample_utils_world]
  show ?thesis by (simp add: sample_utils(3) sample_utils_world_def)
qed


theorem doctor_reports_every_port_witness:
  "\<exists>s' block. run_state (utils_main sample_utils_env sample_case [''openuu-utils'', ''doctor'', '' B''])
       sample_utils_world = (Inr (), s') \<and>
     printed s' = [''Checking server:  b'' @ [CHR 0x0A], ''Found 1 IP addresses: '', '' - 0.0.0.0''] @ block \<and>
     ip_report (Some ''b'') (V4 0) block \<and> length block = 10"
proof -
  have "is_whitespace '' ''" by (simp add: is_whitespace_def utf8_bytes_def char_of_def bit_0)
  then have "trim '' B'' = ''B''" by (simp add: trim_def char_width_def printing_not_white printing_def)
  then have c: "lowercase sample_case ''doctor'' = ''doctor''" "lowercase sample_case (trim '' B'') = ''b''"
    "address_line (V4 0) = '' - 0.0.0.0''" "show_nat (Suc 0) = ''1''"
    by (simp_all add: sample_case_def to_ascii_lowercase_def ascii_lower_def char_of_def bit_0 address_line_def
        show_v4_def show_nat_def show_base.simps digit_char_def)
  have l: "length block = 10" if "ip_report (Some ''b'') (V4 0) block" for block
    using that by (auto simp: ip_report_def doctor_ports_def list_all2_Cons1)
  have "\<exists>s' blocks. run_state (utils_main sample_utils_env sample_case [''openuu-utils'', ''doctor'', '' B'']) sample_utils_world = (Inr (), s') \<and>
    printed s' = printed sample_utils_world @ [''Checking server:  '' @ lowercase sample_case (trim '' B'') @ [CHR 0x0A],
      ''Found '' @ show_nat (length [V4 0]) @ '' IP addresses: ''] @ map address_line [V4 0] @ concat blocks \<and>
    list_all2 (ip_report (Some (lowercase sample_case (trim '' B'')))) [V4 0] blocks"
    by (rule doctor_reports_every_port) (simp_all add: sample_utils c)
  with l show ?thesis by (auto simp: c sample_utils_world_def list_all2_Cons1)
qed

end
