(* ===== verification/RelayStream.thy ===== *)
theory RelayStream
  imports RelayLoop
begin

text \<open>
  The two kinds of streams of hbbr: \<open>StreamTrait\<close> of src/relay_server/stream.rs for a \<open>FramedStream\<close> of
  hbb_common and for a WebSocket. What the libraries hand over is an \<open>incoming\<close>; \<open>recv\<close> makes of it what
  the relay loop sees. A framed stream is passed through, and of a WebSocket the binary messages are
  data, every other message is an empty chunk.
\<close>

datatype ws_message = Ws_Binary bytes | Ws_Other

datatype incoming =
    Framed_In "(string + bytes) option"
  | Ws_In "(string + ws_message) option"

datatype outgoing = Framed_Out bytes | Ws_Out ws_message

fun recv :: "incoming \<Rightarrow> (string + bytes) option" where
  "recv (Framed_In r) = r"
| "recv (Ws_In None) = None"
| "recv (Ws_In (Some (Inl err))) = Some (Inl err)"
| "recv (Ws_In (Some (Inr (Ws_Binary b)))) = Some (Inr b)"
| "recv (Ws_In (Some (Inr Ws_Other))) = Some (Inr [])"

definition raw_message :: "bool \<Rightarrow> bytes \<Rightarrow> outgoing" where
  "raw_message ws b = (if ws then Ws_Out (Ws_Binary b) else Framed_Out b)"

text \<open>The arm of the loop's \<open>select!\<close> for a stream: bytes, or the end.\<close>

definition chunk_of :: "incoming \<Rightarrow> bytes option" where
  "chunk_of i = (case recv i of Some (Inr b) \<Rightarrow> Some b | _ \<Rightarrow> None)"

datatype wire_event = Peer_Wire incoming | Stream_Wire incoming | Wire_Timer

fun wire_to_event :: "wire_event \<Rightarrow> relay_event" where
  "wire_to_event (Peer_Wire i) = From_Peer (chunk_of i)"
| "wire_to_event (Stream_Wire i) = From_Stream (chunk_of i)"
| "wire_to_event Wire_Timer = Timer"

text \<open>What is written to one side, whose stream is of the kind \<open>ws\<close>.\<close>

definition written_to :: "side \<Rightarrow> bool \<Rightarrow> (string \<times> side \<times> bytes) list \<Rightarrow> outgoing list" where
  "written_to to ws out = map (\<lambda>(name, t, b). raw_message ws b) (filter (\<lambda>(name, t, b). t = to) out)"

section \<open>What a mixed pair should do\<close>

text \<open>
  Said without the functions above: the data in what a library hands over, what ends a session, and
  the data of one side up to the first end.
\<close>

fun data_in :: "incoming \<Rightarrow> bytes list" where
  "data_in (Framed_In (Some (Inr (x # b)))) = [x # b]"
| "data_in (Ws_In (Some (Inr (Ws_Binary (x # b))))) = [x # b]"
| "data_in i = []"

fun hung_up :: "incoming \<Rightarrow> bool" where
  "hung_up (Framed_In None) \<longleftrightarrow> True"
| "hung_up (Framed_In (Some (Inl err))) \<longleftrightarrow> True"
| "hung_up (Ws_In None) \<longleftrightarrow> True"
| "hung_up (Ws_In (Some (Inl err))) \<longleftrightarrow> True"
| "hung_up i \<longleftrightarrow> False"

fun ends :: "wire_event \<Rightarrow> bool" where
  "ends (Peer_Wire i) \<longleftrightarrow> hung_up i"
| "ends (Stream_Wire i) \<longleftrightarrow> hung_up i"
| "ends Wire_Timer \<longleftrightarrow> False"

fun data_for :: "side \<Rightarrow> wire_event \<Rightarrow> bytes list" where
  "data_for to (Peer_Wire i) = (if to = To_Stream then data_in i else [])"
| "data_for to (Stream_Wire i) = (if to = To_Peer then data_in i else [])"
| "data_for to Wire_Timer = []"

definition wire_data :: "side \<Rightarrow> wire_event list \<Rightarrow> bytes list" where
  "wire_data to evs = concat (map (data_for to) (takeWhile (\<lambda>ev. \<not> ends ev) evs))"

section \<open>Lemmas\<close>

lemma written_to_simps [simp]:
  "written_to to ws (out @ out') = written_to to ws out @ written_to to ws out'"
  "written_to to ws (map (Pair name) data) = map (\<lambda>(t, b). raw_message ws b) (filter (\<lambda>(t, b). t = to) data)"
  by (induction data) (auto simp: written_to_def)

lemma written_to_prefix: "prefix out out' \<Longrightarrow> prefix (written_to to ws out) (written_to to ws out')"
  by (auto elim!: prefixE)

lemma chunk_of_incoming:
  "hung_up i \<Longrightarrow> chunk_of i = None" "\<not> hung_up i \<Longrightarrow> \<exists>b. chunk_of i = Some b \<and> data_in i = (if b = [] then [] else [b])"
  by (cases i rule: data_in.cases; simp add: chunk_of_def; fail)
    (cases i rule: data_in.cases; auto simp: chunk_of_def)

text \<open>Nothing after the end of a stream matters.\<close>

lemma relay_loop_cut:
  assumes "ev = From_Peer None \<or> ev = From_Stream None"
  shows "run_state (relay_loop e name ip thr (evs @ ev # rest) fl) s =
      run_state (relay_loop e name ip thr (evs @ [ev]) fl) s"
    and "fst (run_state (relay_loop e name ip thr (evs @ ev # rest) fl) s) \<noteq> None"
proof -
  show "run_state (relay_loop e name ip thr (evs @ ev # rest) fl) s =
      run_state (relay_loop e name ip thr (evs @ [ev]) fl) s"
  proof (induction evs arbitrary: fl s)
    case (Cons ev0 evs)
    then show ?case by (simp add: exec_simps cong: sum.case_cong)
  qed (use assms in \<open>auto simp: on_event_def exec_simps\<close>)
  show "fst (run_state (relay_loop e name ip thr (evs @ ev # rest) fl) s) \<noteq> None"
  proof (induction evs arbitrary: fl s)
    case (Cons ev0 evs)
    then show ?case by (simp add: exec_simps split: prod.splits sum.splits)
  qed (use assms in \<open>auto simp: on_event_def exec_simps\<close>)
qed

lemma relay_pair_cut:
  assumes "ev = From_Peer None \<or> ev = From_Stream None"
  shows "run_state (relay_pair e addr name (evs @ ev # rest)) s = run_state (relay_pair e addr name (evs @ [ev])) s"
    and "fst (run_state (relay_pair e addr name (evs @ ev # rest)) s) \<noteq> None"
  using relay_loop_cut(1) [OF assms, of e name _ _ evs rest] relay_loop_cut(2) [OF assms]
  by (simp_all add: relay_pair_def exec_simps del: not_None_eq)

lemma payload_wire:
  assumes "\<forall>ev \<in> set evs. \<not> ends ev"
  shows "map (\<lambda>(t, b). raw_message ws b) (filter (\<lambda>(t, b). t = to) (payload (map wire_to_event evs))) =
     map (raw_message ws) (concat (map (data_for to) evs))"
  using assms
proof (induction evs)
  case (Cons ev evs)
  have one: "map (\<lambda>(t, b). raw_message ws b) (filter (\<lambda>(t, b). t = to) (payload [wire_to_event ev])) =
      map (raw_message ws) (data_for to ev)"
  proof (cases ev)
    case (Peer_Wire i)
    then show ?thesis using chunk_of_incoming(2) [of i] Cons.prems by (cases to) auto
  next
    case (Stream_Wire i)
    then show ?thesis using chunk_of_incoming(2) [of i] Cons.prems by (cases to) auto
  qed simp
  have "payload (map wire_to_event (ev # evs)) = payload [wire_to_event ev] @ payload (map wire_to_event evs)"
    by (auto split: option.splits)
  then show ?case using one Cons by simp
qed simp

lemma cut_at_end:
  obtains (never) "\<forall>ev \<in> set evs. \<not> ends ev" "takeWhile (\<lambda>ev. \<not> ends ev) evs = evs"
    | (once) rest ev where "evs = takeWhile (\<lambda>ev. \<not> ends ev) evs @ ev # rest" "ends ev"
proof (cases "\<forall>ev \<in> set evs. \<not> ends ev")
  case True
  then show ?thesis by (intro never) (simp_all add: takeWhile_eq_all_conv)
next
  case False
  then show ?thesis using once [of "hd (dropWhile (\<lambda>ev. \<not> ends ev) evs)" "tl (dropWhile (\<lambda>ev. \<not> ends ev) evs)"]
    hd_dropWhile [of "\<lambda>ev. \<not> ends ev" evs] by (auto simp: dropWhile_eq_Nil_conv)
qed

section \<open>Properties\<close>

text \<open>
  C13: A framed client and a WebSocket client can be paired: whatever the kinds of the two streams,
  each side is sent the data of the other up to the first end or failure of a stream, in order, one
  message per non-empty chunk: a binary WebSocket message or a frame, as its own stream has them; a
  prefix of it at any time and all of it while the session runs, and the session does not run on
  past an end. Pings, texts and other messages of a WebSocket are not passed on and end nothing.
\<close>

theorem mixed_pair_copies:
  assumes "run_state (relay_pair e addr name (map wire_to_event evs)) s = (x, s')"
  shows "\<exists>new. relayed s' = relayed s @ new \<and>
    prefix (written_to to True new) (map (\<lambda>b. Ws_Out (Ws_Binary b)) (wire_data to evs)) \<and>
    prefix (written_to to False new) (map Framed_Out (wire_data to evs)) \<and>
    (x = None \<longrightarrow> (\<forall>ev \<in> set evs. \<not> ends ev) \<and>
       written_to to True new = map (\<lambda>b. Ws_Out (Ws_Binary b)) (wire_data to evs) \<and>
       written_to to False new = map Framed_Out (wire_data to evs))"
proof -
  let ?cut = "takeWhile (\<lambda>ev. \<not> ends ev) evs"
  have raw: "raw_message True = (\<lambda>b. Ws_Out (Ws_Binary b))" "raw_message False = Framed_Out"
    by (simp_all add: raw_message_def fun_eq_iff)
  have data: "map (\<lambda>(t, b). raw_message ws b) (filter (\<lambda>(t, b). t = to) (payload (map wire_to_event ?cut))) =
      map (raw_message ws) (wire_data to evs)" for ws
    using payload_wire [of ?cut ws to] by (auto simp: wire_data_def dest: set_takeWhileD)
  have "\<exists>new. relayed s' = relayed s @ new \<and>
      prefix new (map (\<lambda>(t, b). (name, t, b)) (payload (map wire_to_event ?cut))) \<and>
      (x = None \<longrightarrow> (\<forall>ev \<in> set evs. \<not> ends ev) \<and>
         new = map (\<lambda>(t, b). (name, t, b)) (payload (map wire_to_event ?cut)))"
  proof (cases evs rule: cut_at_end)
    case never
    then show ?thesis using relay_pair_copies [OF assms] unfolding never(2) by blast
  next
    case (once rest ev)
    have none: "wire_to_event ev = From_Peer None \<or> wire_to_event ev = From_Stream None"
      using once(2) chunk_of_incoming(1) by (cases ev) auto
    have split: "map wire_to_event evs = map wire_to_event ?cut @ wire_to_event ev # map wire_to_event rest"
      by (subst once(1)) simp
    have run: "run_state (relay_pair e addr name (map wire_to_event ?cut @ [wire_to_event ev])) s = (x, s')"
      using assms unfolding split by (rule trans [OF relay_pair_cut(1) [OF none, symmetric]])
    moreover have "x \<noteq> None"
      using relay_pair_cut(2) [OF none, of e addr name _ _ s] assms unfolding split by (metis fst_conv)
    moreover have "payload (map wire_to_event ?cut @ [wire_to_event ev]) = payload (map wire_to_event ?cut)"
      using none by (auto simp: payload_def chunks_def List.map_filter_def)
    ultimately show ?thesis using relay_pair_copies [OF run] by auto
  qed
  then obtain new where new: "relayed s' = relayed s @ new"
    "prefix new (map (\<lambda>(t, b). (name, t, b)) (payload (map wire_to_event ?cut)))"
    "x = None \<longrightarrow> (\<forall>ev \<in> set evs. \<not> ends ev) \<and>
       new = map (\<lambda>(t, b). (name, t, b)) (payload (map wire_to_event ?cut))"
    by blast
  have "prefix (written_to to ws new) (map (raw_message ws) (wire_data to evs))" for ws
    using written_to_prefix [OF new(2), of to ws] data [of ws] by simp
  moreover have "x = None \<longrightarrow> written_to to ws new = map (raw_message ws) (wire_data to evs)" for ws
    using new(3) data [of ws] by auto
  ultimately show ?thesis using new(1,3) raw by metis
qed

theorem mixed_pair_copies_witness:
  "\<exists>x s' new. run_state (relay_pair sample_relay_env (SockV4 5 6) ''c'' (map wire_to_event
       [Peer_Wire (Framed_In (Some (Inr [1, 2]))), Stream_Wire (Ws_In (Some (Inr Ws_Other))),
        Stream_Wire (Ws_In (Some (Inr (Ws_Binary [3]))))])) sample_relay = (x, s') \<and> relayed s' = new \<and>
     prefix (written_to To_Stream True new) [Ws_Out (Ws_Binary [1, 2])]"
proof -
  let ?evs = "[Peer_Wire (Framed_In (Some (Inr [1, 2]))), Stream_Wire (Ws_In (Some (Inr Ws_Other))),
    Stream_Wire (Ws_In (Some (Inr (Ws_Binary [3]))))]"
  obtain x s' where r: "run_state (relay_pair sample_relay_env (SockV4 5 6) ''c'' (map wire_to_event ?evs)) sample_relay = (x, s')"
    by (metis prod.collapse)
  from mixed_pair_copies [OF r, of To_Stream] r show ?thesis
    by (auto simp: sample_relay_def wire_data_def)
qed

end
