(* ===== verification/AccountMain.thy ===== *)
theory AccountMain
  imports Schema StoreFrame Part
begin

text \<open>
  The program openuu-account: \<open>main\<close> of src/account_main.rs, from its arguments to the HTTP server or the
  end of an administration command (theory Router has the commands). \<open>args\<close> are the arguments after
  the name of the program, \<open>vars\<close> the environment variables. The files of the databases are a component
  of the process; \<open>on_stores\<close> runs an operation of theory Schema on them.
\<close>

record account_env = store_env +
  parse_bind :: "string \<Rightarrow> socket_addr option"
  bound :: "nat \<Rightarrow> bool"

record account_process = service +
  db_files :: "(string \<times> schema_object list) list"

definition account_files :: "'w account_process_scheme \<Rightarrow> store" where
  "account_files s = \<lparr>ticks = ticks s, stores = db_files s\<rparr>"

definition put_account_files :: "store \<Rightarrow> 'w account_process_scheme \<Rightarrow> 'w account_process_scheme" where
  "put_account_files t s = s\<lparr>ticks := ticks t, db_files := stores t\<rparr>"

interpretation account_files_part: part account_files put_account_files
  by unfold_locales (simp_all add: account_files_def put_account_files_def)

definition on_stores :: "(store, 'a) state \<Rightarrow> ('w account_process_scheme, 'a) state" where
  "on_stores m = on_part account_files put_account_files m"

text \<open>
  \<open>Shown\<close> is the text of the help, \<open>Usage_Error\<close> the same text as an error. \<open>axum::Server::bind\<close> panics
  when the address cannot be bound.
\<close>

datatype account_exit =
    Shown
  | Usage_Error
  | Not_Opened open_error
  | Command_Done "store_error + admin_output"
  | Bad_Bind_Address
  | Bind_Panic
  | Serving socket_addr

definition open_service ::
  "'e account_env_scheme \<Rightarrow> string \<Rightarrow> string \<Rightarrow> ('w account_process_scheme, open_error + unit) state" where
  "open_service e path peer_db = do {
     r \<leftarrow> on_stores (open_with_peers e path (Some peer_db));
     r' \<leftarrow> (case r of Inr b \<Rightarrow> State_Monad.return (Inr b) | Inl err \<Rightarrow> on_stores (open_accounts e path));
     case r' of
       Inl err \<Rightarrow> State_Monad.return (Inl err)
     | Inr attached \<Rightarrow> do {
         modify (\<lambda>s. s\<lparr>peers_attached := attached, attempts := [], audit_rate := []\<rparr>);
         State_Monad.return (Inr ())
       }
   }"

definition peer_db_path :: "(string \<Rightarrow> string option) \<Rightarrow> string" where
  "peer_db_path vars = unwrap_or ''db_v2.sqlite3'' (vars ''OPENUU_PEER_DB'')"

definition account_db_path :: "(string \<Rightarrow> string option) \<Rightarrow> string" where
  "account_db_path vars = unwrap_or ''openuu-accounts.sqlite3'' (vars ''OPENUU_ACCOUNT_DB'')"

definition account_main ::
  "'e account_env_scheme \<Rightarrow> (string \<Rightarrow> string option) \<Rightarrow> string list
     \<Rightarrow> ('w account_process_scheme, account_exit) state" where
  "account_main e vars args =
     (if select_first args \<in> {Some ''-h'', Some ''--help'', Some ''help''} then State_Monad.return Shown
      else do {
        opened \<leftarrow> open_service e (account_db_path vars) (peer_db_path vars);
        case opened of
          Inl err \<Rightarrow> State_Monad.return (Not_Opened err)
        | Inr _ \<Rightarrow> (case args of
            command # rest \<Rightarrow>
              if length args > 2 then State_Monad.return Usage_Error
              else do {
                r \<leftarrow> admin e (vars ''OPENUU_NEW_PASSWORD'') command (select_first rest);
                State_Monad.return (Command_Done r)
              }
          | [] \<Rightarrow> (case parse_bind e (unwrap_or ''127.0.0.1:21114'' (vars ''OPENUU_ACCOUNT_BIND'')) of
              None \<Rightarrow> State_Monad.return Bad_Bind_Address
            | Some addr \<Rightarrow> do {
                k \<leftarrow> tick;
                State_Monad.return (if bound e k then Serving addr else Bind_Panic)
              }))
      })"

section \<open>Lemmas\<close>

lemma run_on_stores [exec_simps]:
  "run_state (on_stores m) s = (let (a, t) = run_state m \<lparr>ticks = ticks s, stores = db_files s\<rparr>
     in (a, s\<lparr>ticks := ticks t, db_files := stores t\<rparr>))"
  by (simp add: on_stores_def run_on_part account_files_def put_account_files_def)

text \<open>The account file is one that only this program has written.\<close>

definition account_file_ok :: "'e store_env_scheme \<Rightarrow> string \<Rightarrow> 'w account_process_scheme \<Rightarrow> bool" where
  "account_file_ok e path s \<longleftrightarrow> has_part account_schema (real_path e path) (account_files s)"

text \<open>However it ends, the program leaves a file it can open again.\<close>

lemma open_with_peers_keeps: "preserves (has_part account_schema (real_path e path)) (open_with_peers e path peer_db)"
proof (rule preservesI)
  fix s :: "'w store_scheme"
  obtain r s' where run: "run_state (open_with_peers e path peer_db) s = (r, s')" by (metis prod.collapse)
  moreover assume "has_part account_schema (real_path e path) s"
  ultimately show "has_part account_schema (real_path e path) (snd (run_state (open_with_peers e path peer_db) s))"
    using open_with_peers_run(1) [OF run] by simp
qed

lemma account_file_free: "tick_free (account_file_ok e path)"
  by (simp add: tick_free_def account_file_ok_def account_files_def has_part_def file_objects_def)

lemma exec_stmt_files:
  fixes s :: "'w account_process_scheme"
  assumes "exec_stmt q s = Some (n, s')"
  shows "db_files s' = db_files s"
  using assms
  by (cases q; auto simp: exec_stmt.simps Let_def delete_where_def update_where_def split: option.splits)+

interpretation file_kept: account_invariant x "account_file_ok e path" for x :: "'x env_scheme" and e :: "'e store_env_scheme" and path
  by unfold_locales (auto simp: account_file_free execute_def account_file_ok_def account_files_def has_part_def
      file_objects_def exec_stmt_files intro!: preserves_sql)

lemma account_main_keeps: "preserves (account_file_ok e (account_db_path vars)) (account_main e vars args)"
proof -
  have stores: "preserves (account_file_ok e path) (on_stores (open_with_peers e path peer_db))" for path peer_db
    unfolding on_stores_def account_file_ok_def
    by (rule account_files_part.preserves_part [OF open_with_peers_keeps])
  have "preserves (account_file_ok e path) (open_service e path peer_db)" for path peer_db
    unfolding open_service_def open_accounts_def
    by (intro preserves_intros stores preserves_modify) (simp_all add: account_file_ok_def account_files_def has_part_def file_objects_def)
  then show ?thesis
    unfolding account_main_def
    by (cases args) (auto split: option.splits intro!: preserves_intros account_file_free file_kept.keep_admin)
qed

lemma open_service_run:
  assumes "run_state (open_service e path peer_db) s = (r, s')" and "account_file_ok e path s"
    and "\<forall>k. sql_ok e k"
  shows "\<exists>k fs. r = Inr () \<and> unwrap_or [] (map_of fs (real_path e path)) = account_schema \<and>
    s' = s\<lparr>ticks := k, db_files := fs, peers_attached := (map_of (db_files s) (real_path e peer_db) \<noteq> None),
      attempts := [], audit_rate := []\<rparr>"
proof -
  let ?t = "\<lparr>ticks = ticks s, stores = db_files s\<rparr>"
  have part: "has_part account_schema (real_path e path) ?t" using assms(2) by (simp add: account_file_ok_def account_files_def)
  obtain r1 t1 where 1: "run_state (open_with_peers e path (Some peer_db)) ?t = (r1, t1)" by (metis prod.collapse)
  note o1 = open_with_peers_run [OF 1 part]
  have part1: "has_part account_schema (real_path e path) \<lparr>ticks = ticks t1, stores = stores t1\<rparr>"
    using o1(1) by (simp add: has_part_def file_objects_def)
  obtain r2 t2 where 2: "run_state (open_accounts e path) \<lparr>ticks = ticks t1, stores = stores t1\<rparr> = (r2, t2)"
    by (metis prod.collapse)
  note o2 = open_with_peers_run [OF 2 [unfolded open_accounts_def] part1]
  show ?thesis
  proof (cases "map_of (db_files s) (real_path e peer_db) = None")
    case True
    then obtain err where "r1 = Inl err" using o1(4) [OF assms(3)] by (cases r1) auto
    moreover obtain b where "r2 = Inr b" using o2(4) [OF assms(3)] by auto
    ultimately show ?thesis
      using assms(1) 1 2 True o2(3) by (auto simp: open_service_def exec_simps file_objects_def)
  next
    case False
    then obtain b where "r1 = Inr b" using o1(4) [OF assms(3)] by auto
    then show ?thesis
      using assms(1) 1 False o1(3) by (auto simp: open_service_def exec_simps file_objects_def)
  qed
qed


text \<open>The machine of the files: runs of this program, and whatever other programs do to other files.\<close>

definition no_files :: "'w account_process_scheme \<Rightarrow> bool" where
  "no_files s \<longleftrightarrow> db_files s = []"

inductive account_step ::
  "'e account_env_scheme \<Rightarrow> (string \<Rightarrow> string option) \<Rightarrow> 'w account_process_scheme \<Rightarrow> 'w account_process_scheme \<Rightarrow> bool"
  for e :: "'e account_env_scheme" and vars :: "string \<Rightarrow> string option" where
  program_run: "run_state (account_main e vars args) s = (x, s') \<Longrightarrow> account_step e vars s s'"
| elsewhere: "map_of fs (real_path e (account_db_path vars)) = map_of (db_files s) (real_path e (account_db_path vars)) \<Longrightarrow>
    account_step e vars s (s\<lparr>db_files := fs\<rparr>)"

interpretation account_machine: machine no_files "account_step e vars" "account_file_ok e (account_db_path vars)"
  for e :: "'e account_env_scheme" and vars
proof unfold_locales
  show "account_file_ok e (account_db_path vars) s" if "no_files s" for s :: "'w account_process_scheme"
    using that by (auto simp: no_files_def account_file_ok_def account_files_def has_part_def file_objects_def intro!: exI [of _ 0])
  show "account_file_ok e (account_db_path vars) t"
    if "account_file_ok e (account_db_path vars) s" "account_step e vars s t" for s t :: "'w account_process_scheme"
    using that(2)
  proof cases
    case (program_run args x)
    from preservesD_run [OF account_main_keeps program_run that(1)] show ?thesis .
  next
    case (elsewhere fs)
    with that(1) show ?thesis by (simp add: account_file_ok_def account_files_def has_part_def file_objects_def)
  qed
qed

section \<open>Serving\<close>

text \<open>The requests the server answers, in the order their handlers run.\<close>

fun serve_all ::
  "'e service_env_scheme \<Rightarrow> secret option \<Rightarrow> (ip_addr \<times> headers \<times> call) list
     \<Rightarrow> ('w service_scheme, (nat \<times> json option) list) state" where
  "serve_all e secret [] = State_Monad.return []"
| "serve_all e secret ((ip, headers, c) # reqs) = do {
     r \<leftarrow> serve e secret ip headers c;
     rs \<leftarrow> serve_all e secret reqs;
     State_Monad.return (r # rs)
   }"

lemma preserves_serve_all:
  "(\<And>ip headers c. preserves I (serve e secret ip headers c)) \<Longrightarrow> preserves I (serve_all e secret reqs)"
  by (induction e secret reqs rule: serve_all.induct) (auto intro!: preserves_intros)

text \<open>A service without the peers of hbbs.\<close>

definition attached_is :: "bool \<Rightarrow> 'w service_scheme \<Rightarrow> bool" where
  "attached_is b s \<longleftrightarrow> peers_attached s = b"

definition detached :: "audit_row list \<Rightarrow> 'w service_scheme \<Rightarrow> bool" where
  "detached rows s \<longleftrightarrow> attached_is False s \<and> audits s = rows"

lemma exec_stmt_service:
  fixes s :: "'w service_scheme"
  assumes "exec_stmt q s = Some (n, s')"
  shows "peers_attached s' = peers_attached s" and "\<not> issuing q \<Longrightarrow> audits s' = audits s"
  using assms
  by (cases q; auto simp: exec_stmt.simps Let_def delete_where_def update_where_def split: option.splits)+

lemma detached_free: "tick_free (attached_is b)" "tick_free (detached rows)"
  by (simp_all add: tick_free_def attached_is_def detached_def)

lemma attached_stmt: "preserves (attached_is b) (execute e q)"
  unfolding execute_def
  by (rule preserves_sql [OF detached_free(1)]) (simp add: attached_is_def exec_stmt_service)

interpretation service_attached: service_invariant e "attached_is b" for e :: "'e service_env_scheme" and b
  by unfold_locales (simp_all add: detached_free attached_stmt, simp_all add: attached_is_def)

interpretation service_detached: service_invariant e "detached rows" for e :: "'e service_env_scheme" and rows
proof unfold_locales
  show "preserves (detached rows) (execute e q)" if "\<not> issuing q" for q
    unfolding execute_def
    by (rule preserves_sql [OF detached_free(2)]) (auto simp: detached_def attached_is_def exec_stmt_service that)
qed (simp_all add: detached_free, simp_all add: detached_def attached_is_def)

lemma conn_detached: "preserves (detached rows) (conn e ip body)"
proof (rule preservesI)
  fix s :: "'w service_scheme"
  assume s: "detached rows s"
  obtain r s' where run: "run_state (conn e ip body) s = (r, s')" by (metis prod.collapse)
  have "attached_is False s'"
    using preservesD_run [OF service_attached.keep_conn [OF attached_stmt] run] s by (simp add: detached_def)
  moreover have "audits s' = audits s"
    using conn_cases [OF run] s by (auto simp: detached_def attached_is_def)
  ultimately show "detached rows (snd (run_state (conn e ip body) s))" using s run by (simp add: detached_def)
qed

lemma serve_detached: "preserves (detached rows) (serve e secret ip headers c)"
proof (rule service_detached.keep_serve)
  show "preserves (detached rows) (ticket e (bearer e headers) (relay_uuid body))" for body
    by (rule ticket_keeps [OF detached_free(2)]) (simp add: detached_def attached_is_def)
qed (rule conn_detached)

section \<open>Properties\<close>

text \<open>
  C20: The start of the account service: whatever earlier runs of the program left behind, wherever they
  failed, with a database that answers and an address that can be bound it comes up with the whole schema, the accounts, sessions, tickets and
  audit records as they were, fresh rate limits, and the peers of hbbs attached exactly if their file
  is there.
\<close>

theorem account_service_starts:
  assumes "\<forall>k. sql_ok e k \<and> bound e k" and "reach no_files (account_step e vars) s"
    and "parse_bind e (unwrap_or ''127.0.0.1:21114'' (vars ''OPENUU_ACCOUNT_BIND'')) = Some addr"
  shows "\<exists>s'. run_state (account_main e vars []) s = (Serving addr, s') \<and>
    unwrap_or [] (map_of (db_files s') (real_path e (account_db_path vars))) = account_schema \<and>
    accounts s' = accounts s \<and> sessions s' = sessions s \<and> tickets s' = tickets s \<and> audits s' = audits s \<and>
    attempts s' = [] \<and> audit_rate s' = [] \<and>
    peers_attached s' = (map_of (db_files s) (real_path e (peer_db_path vars)) \<noteq> None)"
proof -
  obtain r s1 where 1: "run_state (open_service e (account_db_path vars) (peer_db_path vars)) s = (r, s1)"
    by (metis prod.collapse)
  obtain k fs where "r = Inr ()" "unwrap_or [] (map_of fs (real_path e (account_db_path vars))) = account_schema"
    "s1 = s\<lparr>ticks := k, db_files := fs, peers_attached := (map_of (db_files s) (real_path e (peer_db_path vars)) \<noteq> None),
      attempts := [], audit_rate := []\<rparr>"
    using open_service_run [OF 1 account_machine.reach_inv [OF assms(2)]] assms(1) by blast
  with 1 assms(1,3) show ?thesis by (simp add: account_main_def exec_simps)
qed

text \<open>
  The order of the starts matters: an account service that was started before hbbs had created its file
  stores no audit record for as long as it runs, whatever is posted to it.
\<close>

theorem audits_need_hbbs_first:
  assumes "run_state (account_main e vars []) s = (Serving addr, s1)" and "\<forall>k. sql_ok e k"
    and "reach no_files (account_step e vars) s"
    and "map_of (db_files s) (real_path e (peer_db_path vars)) = None"
    and "run_state (serve_all e' secret reqs) s1 = (answers, s2)"
  shows "audits s2 = audits s"
proof -
  obtain r t where 1: "run_state (open_service e (account_db_path vars) (peer_db_path vars)) s = (r, t)"
    by (metis prod.collapse)
  obtain k fs where t: "r = Inr ()" "t = s\<lparr>ticks := k, db_files := fs, peers_attached := False, attempts := [], audit_rate := []\<rparr>"
    using open_service_run [OF 1 account_machine.reach_inv [OF assms(3)] assms(2)] assms(4) by auto
  have "s1 = t\<lparr>ticks := Suc (ticks t)\<rparr>"
    using assms(1) 1 t(1) by (auto simp: account_main_def exec_simps split: option.splits if_splits)
  then have "detached (audits s) s1" by (simp add: t(2) detached_def attached_is_def)
  from preservesD_run [OF preserves_serve_all [OF serve_detached] assms(5) this]
  show ?thesis by (simp add: detached_def)
qed

text \<open>With hbbs started first, on the same file, the peers are attached.\<close>

lemma hbbs_first_attaches:
  assumes "run_state (database_new e c en url) \<lparr>ticks = ticks s, stores = db_files s\<rparr> = (Inr (), t)"
    and "plain_path e url" and "has_part peer_schema (real_path e url) \<lparr>ticks = ticks s, stores = db_files s\<rparr>"
    and "real_path e url = real_path e (peer_db_path vars)"
  shows "map_of (stores t) (real_path e (peer_db_path vars)) \<noteq> None"
  using database_new_run(3) [OF assms(1-3)] assms(4) by simp


definition sample_account_env :: account_env where
  "sample_account_env = store_env.extend sample_store_env
     \<lparr>parse_bind = (\<lambda>t. if t = ''127.0.0.1:21114'' then Some (SockV4 2130706433 21114) else None), bound = (\<lambda>_. True)\<rparr>"

definition sample_process :: account_process where
  "sample_process = service.extend sample_service \<lparr>db_files = []\<rparr>"

lemma sample_account_simps:
  "sql_ok sample_account_env k" "bound sample_account_env k"
  "parse_bind sample_account_env ''127.0.0.1:21114'' = Some (SockV4 2130706433 21114)"
  "account_file_ok sample_account_env path sample_process" "db_files sample_process = []"
  "audits sample_process = []" "reach no_files (account_step sample_account_env vars) sample_process"
  by (simp_all add: sample_account_env_def sample_store_env_def sample_env_def env.extend_def store_env.extend_def
      account_file_ok_def account_files_def has_part_def file_objects_def sample_process_def service.extend_def sample_service_def no_files_def reach_start exI [of _ 0])

theorem account_service_starts_witness:
  "\<exists>s'. run_state (account_main sample_account_env (\<lambda>_. None) []) sample_process = (Serving (SockV4 2130706433 21114), s') \<and>
     \<not> peers_attached s'"
  using account_service_starts [of sample_account_env "\<lambda>_. None" sample_process "SockV4 2130706433 21114"]
  by (auto simp: sample_account_simps)

theorem audits_need_hbbs_first_witness:
  "\<exists>s1 answers s2. run_state (account_main sample_account_env (\<lambda>_. None) []) sample_process =
       (Serving (SockV4 2130706433 21114), s1) \<and>
     run_state (serve_all sample_service_env None [(V4 9, [], AuditConn ''record''), (V4 9, [], AuditConn ''record'')]) s1 =
       (answers, s2) \<and> audits s2 = []"
proof -
  let ?m = "account_main sample_account_env (\<lambda>_. None) [] :: (account_process, account_exit) state"
  have "fst (run_state ?m sample_process) = Serving (SockV4 2130706433 21114)"
  proof -
    obtain r s1 where 1: "run_state (open_service sample_account_env (account_db_path (\<lambda>_. None)) (peer_db_path (\<lambda>_. None)))
        sample_process = (r, s1)" by (metis prod.collapse)
    obtain u where "r = Inr u" using open_service_run [OF 1] by (auto simp: sample_account_simps)
    with 1 show ?thesis by (simp add: account_main_def exec_simps sample_account_simps)
  qed
  then obtain s1 where 1: "run_state ?m sample_process = (Serving (SockV4 2130706433 21114), s1)"
    by (metis prod.collapse)
  obtain answers s2 where 2: "run_state (serve_all sample_service_env None
      [(V4 9, [], AuditConn ''record''), (V4 9, [], AuditConn ''record'')]) s1 = (answers, s2)" by (metis prod.collapse)
  from audits_need_hbbs_first [OF 1 _ _ _ 2] 1 2 show ?thesis by (auto simp: sample_account_simps)
qed

end
