(* ===== verification/Decimal.thy ===== *)
theory Decimal
  imports Net Text
begin

text \<open>
  Numbers as the programs print them (\<open>to_string\<close>) and read them (\<open>parse\<close>): a printed number reads as itself.
\<close>

lemma digits_value_append: "digits_value a (xs @ ys) = Option.bind (digits_value a xs) (\<lambda>b. digits_value b ys)"
  by (induction a xs rule: digits_value.induct) (auto split: option.splits)

lemma digit_of_char: "d < 10 \<Longrightarrow> digit_of (digit_char d) = Some d \<and> digit_char d \<notin> {CHR ''+'', CHR ''-''}"
proof -
  have "\<forall>d < 10. digit_of (digit_char d) = Some d \<and> digit_char d \<notin> {CHR ''+'', CHR ''-''}" by code_simp
  then show "d < 10 \<Longrightarrow> ?thesis" by blast
qed

lemma digits_value_show: "digits_value 0 (show_base 10 n) = Some n"
proof (induction n rule: less_induct)
  case (less n)
  then show ?case
    by (subst show_base.simps) (auto simp: digits_value_append digit_of_char)
qed

lemma show_base_head: "\<exists>d cs. d < 10 \<and> show_base 10 n = digit_char d # cs"
proof (induction n rule: less_induct)
  case (less n)
  show ?case
  proof (cases "n < 10")
    case True
    then show ?thesis by (subst show_base.simps) auto
  next
    case False
    then obtain d cs where "d < 10" "show_base 10 (n div 10) = digit_char d # cs" using less [of "n div 10"] by auto
    with False show ?thesis by (subst show_base.simps) auto
  qed
qed

text \<open>A number that is printed and parsed again.\<close>

lemma parse_show:
  assumes "int n < 2 ^ w"
  shows "parse_unsigned w (show_nat n) = Some n"
proof -
  obtain d cs where "d < 10" "show_nat n = digit_char d # cs"
    using show_base_head [of n] by (auto simp: show_nat_def)
  moreover have "n < 2 ^ w" using assms by (metis of_nat_less_iff of_nat_numeral of_nat_power)
  ultimately show ?thesis
    using digits_value_show [of n] digit_of_char [of d] by (simp add: parse_unsigned_def show_nat_def)
qed

lemma show_nat_value: "digits_value 0 (show_nat n) = Some n"
  by (simp add: show_nat_def digits_value_show)

lemma show_nat_inj: "show_nat n = show_nat m \<Longrightarrow> n = m"
  by (metis show_nat_value option.inject)

end
