(* ===== verification/Scenarios.thy ===== *)
theory Scenarios
  imports AccountMain HubMain Decimal
begin

text \<open>
  The test modules inside the source files, run on the model: the wake-on-LAN test of src/account/wol.rs,
  the session test of src/rendezvous_server/sessions.rs, the insertion test of src/database.rs and the
  listener test of src/rendezvous_server/io.rs. A test is an operation; a failed assertion or \<open>unwrap\<close> is
  \<open>Inl\<close>. Each is shown to pass, the first two by running them in the sample environment.
\<close>

definition must :: "bool \<Rightarrow> ('s, string + unit) state" where
  "must b = State_Monad.return (if b then Inr () else Inl ''assertion failed'')"

definition unwrap :: "('s, 'x + 'a) state \<Rightarrow> ('s, string + 'a) state" where
  "unwrap m = do { r \<leftarrow> m; State_Monad.return (case r of Inl err \<Rightarrow> Inl ''unwrap'' | Inr a \<Rightarrow> Inr a) }"

definition must_fail :: "('s, 'x + 'a) state \<Rightarrow> ('s, string + unit) state" where
  "must_fail m = do { r \<leftarrow> m; must (isl r) }"

section \<open>Wake on LAN\<close>

definition log_in :: "'e service_env_scheme \<Rightarrow> string \<Rightarrow> ('w service_scheme, string + headers) state" where
  "log_in e name = try_bind (unwrap (login e name ''test-password-long'')) (\<lambda>t.
     State_Monad.return (case t of
         None \<Rightarrow> Inl ''unwrap''
       | Some token \<Rightarrow> Inr [(''authorization'', ''Bearer '' @ token)]))"

definition must_be :: "'e service_env_scheme \<Rightarrow> string \<Rightarrow> string \<Rightarrow> string \<Rightarrow> ('w service_scheme, string + unit) state" where
  "must_be e owner target expected = try_bind (unwrap (availability e owner target)) (\<lambda>(st, helper). must (st = expected))"

definition must_lease :: "'e service_env_scheme \<Rightarrow> headers \<Rightarrow> string list \<Rightarrow> ('w service_scheme, string + unit) state" where
  "must_lease e h expected = try_bind (unwrap (poll e h ''helper'' [''target''])) (\<lambda>jobs.
     must (json_get ''targets'' jobs = Some (JArray (map JString expected))))"

definition wake_test :: "'e service_env_scheme \<Rightarrow> ('w service_scheme, string + unit) state" where
  "wake_test e =
     try_bind (unwrap (create_user e ''alice'' ''test-password-long'')) (\<lambda>_.
     try_bind (unwrap (create_user e ''bob'' ''test-password-long'')) (\<lambda>_.
     try_bind (log_in e ''alice'') (\<lambda>h.
     try_bind (unwrap (poll e h ''target'' [])) (\<lambda>_.
     try_bind (must_be e ''alice'' ''target'' ''online'') (\<lambda>_. do {
     modify (\<lambda>s. s\<lparr>devices := map (\<lambda>d. d\<lparr>dev_seen := 0\<rparr>) (devices s)\<rparr>);
     try_bind (must_be e ''alice'' ''target'' ''no_helper'') (\<lambda>_.
     try_bind (unwrap (poll e h ''helper'' [''target''])) (\<lambda>_.
     try_bind (must_be e ''bob'' ''target'' ''unregistered'') (\<lambda>_.
     try_bind (must_fail (wake e [] ''target'')) (\<lambda>_.
     try_bind (log_in e ''bob'') (\<lambda>bh.
     try_bind (must_fail (wake e bh ''target'')) (\<lambda>_.
     try_bind (unwrap (wake e h ''target'')) (\<lambda>_.
     try_bind (must_fail (wake e h ''target'')) (\<lambda>_.
     try_bind (must_lease e h [''target'']) (\<lambda>_.
     try_bind (must_lease e h []) (\<lambda>_.
     try_bind (unwrap (revoke e (drop 7 (snd (hd h))))) (\<lambda>_.
       must_fail (poll e h ''helper'' []))))))))))))
     })))))"

definition empty_service :: service where
  "empty_service = \<lparr>ticks = 0, peer_rows = [], accounts = [], sessions = [], tickets = [], devices = [], jobs = [],
     audits = [], shared_open = True, attempts = [], audit_rate = [], peers_attached = False\<rparr>"

lemma wake_test_passes: "fst (run_state (wake_test sample_service_env) empty_service) = Inr ()"
  by code_simp


section \<open>Punch sessions\<close>

definition must_find ::
  "'e hub_env_scheme \<Rightarrow> socket_addr \<Rightarrow> string \<Rightarrow> string option \<Rightarrow> ('w hub_scheme, string + unit) state" where
  "must_find e addr target expected = do { t \<leftarrow> token_for e addr target; must (t = expected) }"

text \<open>\<open>a\<close> is 198.51.100.2:4000, \<open>mapped\<close> its IPv6 form, \<open>other\<close> the same address with port 4001.\<close>

definition session_test ::
  "'e hub_env_scheme \<Rightarrow> socket_addr \<Rightarrow> socket_addr \<Rightarrow> socket_addr \<Rightarrow> ('w hub_scheme, string + unit) state" where
  "session_test e a mapped other = do {
     remember e a ''peer-1'' ''tok'';
     try_bind (must_find e a ''peer-1'' (Some ''tok'')) (\<lambda>_.
     try_bind (must_find e mapped ''peer-1'' (Some ''tok'')) (\<lambda>_.
     try_bind (must_find e other ''peer-1'' None) (\<lambda>_.
     try_bind (must_find e a ''peer-2'' None) (\<lambda>_. do {
       now \<leftarrow> instant_now e;
       modify (\<lambda>s. s\<lparr>punch_sessions := AList.update (a, ''peer-1'') (''tok'', now - int punch_ttl - 1000000000) (punch_sessions s)\<rparr>);
       try_bind (must_find e a ''peer-1'' None) (\<lambda>_. do {
         remember e a ''peer-3'' ''tok3'';
         m \<leftarrow> gets punch_sessions;
         must (map_of m (a, ''peer-1'') = None)
       })
     }))))
   }"

text \<open>
  Passed on every clock that stays within a second during the test, when
  \<open>try_into_v4\<close> takes the mapped form to the address.
\<close>

lemma session_test_passes:
  assumes "try_into_v4 e a = a" "try_into_v4 e mapped = a" "try_into_v4 e other \<noteq> a"
    and "\<And>k. t \<le> instant e k \<and> instant e k < t + 1000000000" and "punch_sessions s = []"
  shows "fst (run_state (session_test e a mapped other) s) = Inr ()"
proof -
  have near: "nat (instant e k - instant e j) < punch_ttl" for k j
    using assms(4) [of k] assms(4) [of j] by (auto simp: punch_ttl_def)
  have far: "\<not> nat (instant e k - (instant e j - int punch_ttl - 1000000000)) < punch_ttl" for k j
    using assms(4) [of k] assms(4) [of j] by (auto simp: punch_ttl_def)
  show ?thesis
    using assms(1,2,3,5) near far
    by (simp add: session_test_def must_find_def must_def remember_def token_for_def exec_simps update_conv')
qed

section \<open>The peer table\<close>

text \<open>The test's tasks run in any order; each inserts one of the numbers or looks one up.\<close>

datatype table_job = Insert_Job nat | Lookup_Job nat

fun run_job :: "'e env_scheme \<Rightarrow> table_job \<Rightarrow> ('w host_scheme, string + unit) state" where
  "run_job e (Insert_Job i) = try_bind (unwrap (insert_peer e (show_nat i) [] [] '''')) (\<lambda>_. State_Monad.return (Inr ()))"
| "run_job e (Lookup_Job i) = try_bind (unwrap (get_peer e (show_nat i))) (\<lambda>_. State_Monad.return (Inr ()))"

fun insert_test :: "'e env_scheme \<Rightarrow> table_job list \<Rightarrow> ('w host_scheme, string + unit) state" where
  "insert_test e [] = State_Monad.return (Inr ())"
| "insert_test e (j # js) = try_bind (run_job e j) (\<lambda>_. insert_test e js)"

definition inserted :: "table_job list \<Rightarrow> nat list" where
  "inserted js = List.map_filter (\<lambda>j. case j of Insert_Job i \<Rightarrow> Some i | Lookup_Job i \<Rightarrow> None) js"

lemma insert_test_passes:
  fixes s :: "'w host_scheme"
  assumes "\<forall>k. sql_ok e k" and "inj (uuid_v4 e)" and "distinct (inserted js)"
    and "\<forall>r \<in> set (peer_rows s). row_guid r \<in> uuid_v4 e ` {..<ticks s} \<and> row_id r \<notin> show_nat ` set (inserted js)"
  shows "fst (run_state (insert_test e js) s) = Inr ()"
  using assms(3,4)
proof (induction js arbitrary: s)
  case (Cons j js)
  show ?case
  proof (cases j)
    case (Insert_Job i)
    let ?row = "\<lparr>row_guid = uuid_v4 e (ticks s), row_id = show_nat i, row_uuid = [], row_pk = [], row_user = None,
      row_info = '''', row_status = None\<rparr>"
    let ?s = "s\<lparr>ticks := Suc (Suc (ticks s)), peer_rows := peer_rows s @ [?row]\<rparr>"
    have ins: "inserted (j # js) = i # inserted js" by (simp add: Insert_Job inserted_def List.map_filter_simps)
    have "uuid_v4 e (ticks s) \<notin> row_guid ` set (peer_rows s)"
      using Cons.prems(2) assms(2) by (fastforce dest: injD)
    moreover have "show_nat i \<notin> row_id ` set (peer_rows s)" using Cons.prems(2) ins by force
    ultimately have "run_state (run_job e j) s = (Inr (), ?s)"
      using assms(1) by (simp add: Insert_Job unwrap_def insert_peer_def exec_simps Let_def)
    moreover have "fst (run_state (insert_test e js) ?s) = Inr ()"
    proof (rule Cons.IH)
      show "distinct (inserted js)" using Cons.prems(1) ins by simp
      show "\<forall>r \<in> set (peer_rows ?s). row_guid r \<in> uuid_v4 e ` {..<ticks ?s} \<and> row_id r \<notin> show_nat ` set (inserted js)"
        using Cons.prems ins show_nat_inj by (fastforce simp: less_Suc_eq)
    qed
    ultimately show ?thesis by (simp add: exec_simps)
  next
    case (Lookup_Job i)
    have ins: "inserted (j # js) = inserted js" by (simp add: Lookup_Job inserted_def List.map_filter_simps)
    have "run_state (run_job e j) s = (Inr (), s\<lparr>ticks := Suc (ticks s)\<rparr>)"
      using assms(1) by (simp add: Lookup_Job unwrap_def get_peer_def exec_simps)
    moreover have "fst (run_state (insert_test e js) (s\<lparr>ticks := Suc (ticks s)\<rparr>)) = Inr ()"
      using Cons.prems ins by (intro Cons.IH) (auto simp: less_Suc_eq)
    ultimately show ?thesis by (simp add: exec_simps)
  qed
qed simp


section \<open>The UDP socket\<close>

definition udp_test :: "hbbs_env \<Rightarrow> ('w hbbs_process_scheme, string + unit) state" where
  "udp_test e = try_bind (unwrap (create_udp_listener e (Some localhost_v4) 0)) (\<lambda>ep.
     must (case ep of Udp_At addr \<Rightarrow> sock_ip addr = localhost_v4 | _ \<Rightarrow> False))"

lemma udp_test_passes: "opens e (ticks s) (Udp_At (socket_addr_new localhost_v4 0)) \<Longrightarrow> fst (run_state (udp_test e) s) = Inr ()"
  by (simp add: udp_test_def create_udp_listener_def unwrap_def must_def exec_simps)

end
