(* ===== verification/PeerTasks.thy ===== *)
theory PeerTasks
  imports Registration
begin

text \<open>
  The registration of peers as the tasks of hbbs run it: src/peer.rs, and \<open>register_peer_response\<close> and
  \<open>register_pk_result\<close> of src/rendezvous_server/udp.rs, cut at every \<open>await\<close>. Each stretch between two
  of them, which holds one lock (the map, one peer, \<open>IP_BLOCKER\<close>, \<open>IP_CHANGES\<close>) or is one statement on
  the database, is a section; sections of different tasks interleave in any order.

  \<open>PeerMap.map\<close> holds references: \<open>cell_of\<close> is the map from ids to cells and \<open>cells\<close> the peers
  behind all the \<open>Arc<RwLock<Peer>>\<close> that were ever made, so that a task may go on with a cell that
  the map has replaced. The \<open>pm_map\<close> of the hub itself is not used; \<open>flat\<close> is the hub whose
  \<open>pm_map\<close> shows what the map refers to. A task that runs without interruption does what the
  operations of PeerDb and Registration do (\<open>sections_make_registration\<close>).
\<close>

section \<open>State\<close>

record peer_hub = hub +
  cells :: "peer list"
  cell_of :: "(string \<times> nat) list"

definition new_cell :: "string \<Rightarrow> peer \<Rightarrow> ('w peer_hub_scheme, nat) state" where
  "new_cell dev p = do {
     c \<leftarrow> gets (\<lambda>s. length (cells s));
     modify (\<lambda>s. s\<lparr>cells := cells s @ [p], cell_of := AList.update dev c (cell_of s)\<rparr>);
     State_Monad.return c
   }"

definition get_cell :: "nat \<Rightarrow> ('w peer_hub_scheme, peer) state" where
  "get_cell c = gets (\<lambda>s. cells s ! c)"

definition set_cell :: "nat \<Rightarrow> peer \<Rightarrow> ('w peer_hub_scheme, unit) state" where
  "set_cell c p = modify (\<lambda>s. s\<lparr>cells := (cells s)[c := p]\<rparr>)"

definition find_cell :: "string \<Rightarrow> ('w peer_hub_scheme, nat option) state" where
  "find_cell dev = gets (\<lambda>s. map_of (cell_of s) dev)"

section \<open>Looking a peer up\<close>

text \<open>
  Where \<open>get\<close> is: before it reads the map, before it asks the database, before it inserts the peer
  it has made of a row, or at its end. \<open>get\<close> inserts whatever the map says by then.
\<close>

datatype get_stage = At_Map | At_Table | At_Insert peer | Missing | Found nat

fun get_section :: "'e hub_env_scheme \<Rightarrow> string \<Rightarrow> get_stage \<Rightarrow> ('w peer_hub_scheme, get_stage) state" where
  "get_section e dev At_Map = do {
     r \<leftarrow> find_cell dev;
     State_Monad.return (case r of Some c \<Rightarrow> Found c | None \<Rightarrow> At_Table)
   }"
| "get_section e dev At_Table = do {
     r \<leftarrow> get_peer e dev;
     case r of
       Inl err \<Rightarrow> State_Monad.return Missing
     | Inr None \<Rightarrow> State_Monad.return Missing
     | Inr (Some v) \<Rightarrow> do {
         d \<leftarrow> default_peer e;
         State_Monad.return (At_Insert (d\<lparr>guid := row_guid v, uuid := row_uuid v, pk := row_pk v,
           info_ip := (case parse_info e (row_info v) of Some ip \<Rightarrow> ip | None \<Rightarrow> '''')\<rparr>))
       }
   }"
| "get_section e dev (At_Insert q) = do { c \<leftarrow> new_cell dev q; State_Monad.return (Found c) }"
| "get_section e dev Missing = State_Monad.return Missing"
| "get_section e dev (Found c) = State_Monad.return (Found c)"

text \<open>\<open>get_or\<close> when \<open>get\<close> found nothing: one section with the map locked for writing.\<close>

definition get_or_write :: "'e hub_env_scheme \<Rightarrow> string \<Rightarrow> ('w peer_hub_scheme, nat) state" where
  "get_or_write e dev = do {
     r \<leftarrow> find_cell dev;
     case r of
       Some c \<Rightarrow> State_Monad.return c
     | None \<Rightarrow> do { d \<leftarrow> default_peer e; new_cell dev d }
   }"

section \<open>Heartbeats\<close>

datatype heartbeat_stage = Beat_Map | Beat_Cell nat | Beat_Done message

fun heartbeat_section ::
  "'e hub_env_scheme \<Rightarrow> string \<Rightarrow> socket_addr \<Rightarrow> heartbeat_stage \<Rightarrow> ('w peer_hub_scheme, heartbeat_stage) state"
where
  "heartbeat_section e dev addr Beat_Map = do {
     r \<leftarrow> find_cell dev;
     State_Monad.return (case r of Some c \<Rightarrow> Beat_Cell c | None \<Rightarrow> Beat_Done (RegisterPeerResponse True))
   }"
| "heartbeat_section e dev addr (Beat_Cell c) = do {
     old \<leftarrow> get_cell c;
     if pk old = [] \<or> ip_changed_of old addr
     then State_Monad.return (Beat_Done (RegisterPeerResponse True))
     else do {
       t \<leftarrow> instant_now e;
       set_cell c (old\<lparr>socket_addr := addr, last_reg_time := t\<rparr>);
       State_Monad.return (Beat_Done (RegisterPeerResponse False))
     }
   }"
| "heartbeat_section e dev addr (Beat_Done msg) = State_Monad.return (Beat_Done msg)"

section \<open>Registering a key\<close>

text \<open>
  Where \<open>register_pk_result\<close> is: at the address limiter, in \<open>get_or\<close>, before the comparison with the
  peer, before the reading and the writing of its request counter, at \<open>IP_CHANGES\<close>, and in
  \<open>update_pk\<close> before the peer is written, before the statement on the database and before the new
  guid is written. What it has found out so far comes along: the cell, whether anything changed,
  whether the address did, the new counter, the guid.
\<close>

datatype pk_stage =
    At_Limiter
  | Getting get_stage
  | At_Check nat
  | At_Counter nat bool bool
  | At_Count nat bool bool "32 word \<times> int"
  | At_Change nat bool
  | At_Store nat
  | At_Row nat bytes
  | At_Guid nat bytes
  | Answered pk_result

definition after_count :: "nat \<Rightarrow> bool \<Rightarrow> pk_stage" where
  "after_count c changed = (if changed then At_Store c else Answered OK)"

fun got :: "get_stage \<Rightarrow> pk_stage" where
  "got (Found c) = At_Check c"
| "got g = Getting g"

fun pk_section ::
  "'e hub_env_scheme \<Rightarrow> register_pk \<Rightarrow> socket_addr \<Rightarrow> pk_stage \<Rightarrow> ('w peer_hub_scheme, pk_stage) state"
where
  "pk_section e rk addr At_Limiter =
     (if length (rk_id rk) < 6 then State_Monad.return (Answered UUID_MISMATCH)
      else do {
        allowed \<leftarrow> check_ip_blocker e (show_ip (sock_ip addr)) (rk_id rk);
        State_Monad.return (if allowed then Getting At_Map else Answered TOO_FREQUENT)
      })"
| "pk_section e rk addr (Getting g) =
     (if g = Missing then do { c \<leftarrow> get_or_write e (rk_id rk); State_Monad.return (At_Check c) }
      else do { g' \<leftarrow> get_section e (rk_id rk) g; State_Monad.return (got g') })"
| "pk_section e rk addr (At_Check c) = do {
     p \<leftarrow> get_cell c;
     State_Monad.return (case pk_verdict p rk (show_ip (sock_ip addr)) of
       None \<Rightarrow> Answered UUID_MISMATCH
     | Some (changed, ip_changed) \<Rightarrow> At_Counter c changed ip_changed)
   }"
| "pk_section e rk addr (At_Counter c changed ip_changed) = do {
     p \<leftarrow> get_cell c;
     el \<leftarrow> elapsed e (snd (reg_pk p));
     if as_secs el \<le> 6 \<and> fst (reg_pk p) > 2 then State_Monad.return (Answered TOO_FREQUENT)
     else do {
       t \<leftarrow> instant_now e;
       State_Monad.return (At_Count c changed ip_changed
         ((if as_secs el > 6 then 0 else fst (reg_pk p)) + 1, t))
     }
   }"
| "pk_section e rk addr (At_Count c changed ip_changed req_pk) = do {
     p \<leftarrow> get_cell c;
     set_cell c (p\<lparr>reg_pk := req_pk\<rparr>);
     State_Monad.return (if ip_changed then At_Change c changed else after_count c changed)
   }"
| "pk_section e rk addr (At_Change c changed) = do {
     record_ip_change e (rk_id rk) (show_ip (sock_ip addr));
     State_Monad.return (after_count c changed)
   }"
| "pk_section e rk addr (At_Store c) = do {
     p \<leftarrow> get_cell c;
     t \<leftarrow> instant_now e;
     set_cell c (p\<lparr>socket_addr := addr, uuid := rk_uuid rk, pk := rk_pk rk, last_reg_time := t,
       info_ip := show_ip (sock_ip addr)\<rparr>);
     State_Monad.return (At_Row c (guid p))
   }"
| "pk_section e rk addr (At_Row c g) = (
     let info = info_text e (show_ip (sock_ip addr)) in
     if g = [] then do {
       r \<leftarrow> insert_peer e (rk_id rk) (rk_uuid rk) (rk_pk rk) info;
       State_Monad.return (case r of Inl err \<Rightarrow> Answered OK | Inr g' \<Rightarrow> At_Guid c g')
     } else do {
       r \<leftarrow> db_update_pk e g (rk_id rk) (rk_pk rk) info;
       State_Monad.return (Answered OK)
     })"
| "pk_section e rk addr (At_Guid c g) = do {
     p \<leftarrow> get_cell c;
     set_cell c (p\<lparr>guid := g\<rparr>);
     State_Monad.return (Answered OK)
   }"
| "pk_section e rk addr (Answered r) = State_Monad.return (Answered r)"

section \<open>Tasks\<close>

datatype peer_task =
    Registering register_pk socket_addr pk_stage
  | Beating string socket_addr heartbeat_stage
  | Looking string get_stage

fun task_section :: "'e hub_env_scheme \<Rightarrow> peer_task \<Rightarrow> ('w peer_hub_scheme, peer_task) state" where
  "task_section e (Registering rk addr g) =
     do { g' \<leftarrow> pk_section e rk addr g; State_Monad.return (Registering rk addr g') }"
| "task_section e (Beating dev addr g) =
     do { g' \<leftarrow> heartbeat_section e dev addr g; State_Monad.return (Beating dev addr g') }"
| "task_section e (Looking dev g) =
     do { g' \<leftarrow> get_section e dev g; State_Monad.return (Looking dev g') }"

fun begun :: "peer_task \<Rightarrow> bool" where
  "begun (Registering rk addr g) \<longleftrightarrow> g \<noteq> At_Limiter"
| "begun (Beating dev addr g) \<longleftrightarrow> g \<noteq> Beat_Map"
| "begun (Looking dev g) \<longleftrightarrow> g \<noteq> At_Map"

text \<open>
  A request starts a task; any task runs its next section; and the rest of the program may do
  anything to the rest of the state: the clock, the limiters, the accounts, the connections.
\<close>

inductive task_step ::
  "'e hub_env_scheme \<Rightarrow> 'w peer_hub_scheme \<times> peer_task list \<Rightarrow> 'w peer_hub_scheme \<times> peer_task list \<Rightarrow> bool"
  for e :: "'e hub_env_scheme" where
  step_spawn: "\<not> begun x \<Longrightarrow> task_step e (s, ts) (s, ts @ [x])"
| step_section: "i < length ts \<Longrightarrow> run_state (task_section e (ts ! i)) s = (x, s') \<Longrightarrow>
    task_step e (s, ts) (s', ts[i := x])"
| step_rest: "cells s' = cells s \<Longrightarrow> cell_of s' = cell_of s \<Longrightarrow> peer_rows s' = peer_rows s \<Longrightarrow>
    task_step e (s, ts) (s', ts)"

inductive_cases task_stepE: "task_step e a b"

section \<open>Running sections\<close>

lemma run_cells [exec_simps]:
  "run_state (get_cell c) s = (cells s ! c, s)"
  "run_state (set_cell c p) s = ((), s\<lparr>cells := (cells s)[c := p]\<rparr>)"
  "run_state (find_cell dev) s = (map_of (cell_of s) dev, s)"
  "run_state (new_cell dev p) s =
     (length (cells s), s\<lparr>cells := cells s @ [p], cell_of := AList.update dev (length (cells s)) (cell_of s)\<rparr>)"
  by (simp_all add: get_cell_def set_cell_def find_cell_def new_cell_def exec_simps)

text \<open>What the tables of the limiters hold does not touch the peers.\<close>

lemma books_cells:
  assumes "bookkeeping s s'"
  shows "cells s' = cells s" "cell_of s' = cell_of s" "peer_rows s' = peer_rows s"
proof -
  obtain b i t where "s' = s\<lparr>ip_blocker := b, ip_changes := i, ticks := t\<rparr>"
    using assms by (auto simp: bookkeeping_def)
  then show "cells s' = cells s" "cell_of s' = cell_of s" "peer_rows s' = peer_rows s" by simp_all
qed

lemmas limiter_cells = books_cells [OF check_ip_blocker_books] and change_cells = books_cells [OF record_ip_change_books]

section \<open>Every task works on a peer of its own id\<close>

text \<open>A row keeps its guid, its id and its uuid; only its key and its information change.\<close>

definition rows_kept :: "peer_row list \<Rightarrow> peer_row list \<Rightarrow> bool" where
  "rows_kept rows rows' \<longleftrightarrow> (\<forall>r \<in> set rows. \<exists>r' \<in> set rows'.
     row_guid r' = row_guid r \<and> row_id r' = row_id r \<and> row_uuid r' = row_uuid r)"

definition has_row :: "'w peer_hub_scheme \<Rightarrow> bytes \<Rightarrow> string \<Rightarrow> bool" where
  "has_row s g dev \<longleftrightarrow> (\<exists>r \<in> set (peer_rows s). row_guid r = g \<and> row_id r = dev)"

text \<open>\<open>own\<close> names the id that a cell was made for.\<close>

definition mine :: "(nat \<Rightarrow> string) \<Rightarrow> 'w peer_hub_scheme \<Rightarrow> string \<Rightarrow> nat \<Rightarrow> bool" where
  "mine own s dev c \<longleftrightarrow> c < length (cells s) \<and> own c = dev"


fun get_fine :: "(nat \<Rightarrow> string) \<Rightarrow> 'w peer_hub_scheme \<Rightarrow> string \<Rightarrow> get_stage \<Rightarrow> bool" where
  "get_fine own s dev (At_Insert q) \<longleftrightarrow> guid q \<noteq> [] \<longrightarrow> has_row s (guid q) dev"
| "get_fine own s dev (Found c) \<longleftrightarrow> mine own s dev c"
| "get_fine own s dev g \<longleftrightarrow> True"

fun pk_fine :: "(nat \<Rightarrow> string) \<Rightarrow> 'w peer_hub_scheme \<Rightarrow> string \<Rightarrow> pk_stage \<Rightarrow> bool" where
  "pk_fine own s dev (Getting g) \<longleftrightarrow> get_fine own s dev g"
| "pk_fine own s dev (At_Check c) \<longleftrightarrow> mine own s dev c"
| "pk_fine own s dev (At_Counter c changed ipc) \<longleftrightarrow> mine own s dev c"
| "pk_fine own s dev (At_Count c changed ipc n) \<longleftrightarrow> mine own s dev c"
| "pk_fine own s dev (At_Change c changed) \<longleftrightarrow> mine own s dev c"
| "pk_fine own s dev (At_Store c) \<longleftrightarrow> mine own s dev c"
| "pk_fine own s dev (At_Row c g) \<longleftrightarrow> mine own s dev c \<and> (g \<noteq> [] \<longrightarrow> has_row s g dev)"
| "pk_fine own s dev (At_Guid c g) \<longleftrightarrow> mine own s dev c \<and> has_row s g dev"
| "pk_fine own s dev st \<longleftrightarrow> True"



text \<open>The owners after a section of a task for \<open>dev\<close>: a cell it has made belongs to \<open>dev\<close>.\<close>

definition owners :: "(nat \<Rightarrow> string) \<Rightarrow> 'w peer_hub_scheme \<Rightarrow> string \<Rightarrow> nat \<Rightarrow> string" where
  "owners own s dev c = (if c < length (cells s) then own c else dev)"

lemma rows_kept_refl [simp, intro]: "rows_kept rows rows"
  by (auto simp: rows_kept_def)












lemma mine_owners [simp]: "length (cells s) \<le> length (cells s') \<Longrightarrow> mine own s dev c \<Longrightarrow> mine (owners own s d) s' dev c"
  by (auto simp: mine_def owners_def)



lemma pk_fine_after [simp]: "mine own s dev c \<Longrightarrow> pk_fine own s dev (after_count c changed)"
  by (simp add: after_count_def)

lemma pk_fine_got [simp]: "pk_fine own s dev (got g) = get_fine own s dev g"
  by (cases g) simp_all





section \<open>What a section writes\<close>








section \<open>The uuid of an id\<close>














text \<open>The tasks named by a list of numbers run one section each, in that order.\<close>

fun schedule ::
  "'e hub_env_scheme \<Rightarrow> nat list \<Rightarrow> 'w peer_hub_scheme \<times> peer_task list \<Rightarrow> 'w peer_hub_scheme \<times> peer_task list" where
  "schedule e [] st = st"
| "schedule e (i # order) (s, ts) =
     (if i < length ts then
        case run_state (task_section e (ts ! i)) s of (x, s') \<Rightarrow> schedule e order (s', ts[i := x])
      else schedule e order (s, ts))"





section \<open>A task that is not interrupted\<close>

definition flat :: "'w peer_hub_scheme \<Rightarrow> hub" where
  "flat s = (hub.truncate s)\<lparr>pm_map := map (\<lambda>(d, c). (d, cells s ! c)) (cell_of s)\<rparr>"

text \<open>\<open>runs f\<close> is any number of sections of one task, one after the other.\<close>

inductive runs :: "('g \<Rightarrow> ('s, 'g) state) \<Rightarrow> 'g \<Rightarrow> 's \<Rightarrow> 'g \<Rightarrow> 's \<Rightarrow> bool" for f :: "'g \<Rightarrow> ('s, 'g) state" where
  runs_none: "runs f g s g s"
| runs_next: "run_state (f g) s = (g1, s1) \<Longrightarrow> runs f g1 s1 g2 s2 \<Longrightarrow> runs f g s g2 s2"

lemma runs_trans: "runs f g s g1 s1 \<Longrightarrow> runs f g1 s1 g2 s2 \<Longrightarrow> runs f g s g2 s2"
  by (induction rule: runs.induct) (auto intro: runs_next)

lemma runs_one: "run_state (f g) s = (g1, s1) \<Longrightarrow> runs f g s g1 s1"
  by (blast intro: runs.intros)

definition tidy :: "'w peer_hub_scheme \<Rightarrow> bool" where
  "tidy s \<longleftrightarrow> distinct (map snd (cell_of s)) \<and> (\<forall>c \<in> snd ` set (cell_of s). c < length (cells s))"

lemma flat_simps [simp]:
  "pm_map (flat s) = map (\<lambda>(d, c). (d, cells s ! c)) (cell_of s)"
  "ticks (flat s) = ticks s" "peer_rows (flat s) = peer_rows s" "ip_blocker (flat s) = ip_blocker s"
  "ip_changes (flat s) = ip_changes s"
  by (simp_all add: flat_def hub.truncate_def)

lemma flat_updates [simp]:
  "(flat s)\<lparr>ticks := n\<rparr> = flat (s\<lparr>ticks := n\<rparr>)" "(flat s)\<lparr>peer_rows := rows\<rparr> = flat (s\<lparr>peer_rows := rows\<rparr>)"
  "(flat s)\<lparr>ip_blocker := b\<rparr> = flat (s\<lparr>ip_blocker := b\<rparr>)" "(flat s)\<lparr>ip_changes := i\<rparr> = flat (s\<lparr>ip_changes := i\<rparr>)"
  by (simp_all add: flat_def hub.truncate_def)

lemma map_of_flat [simp]:
  "map_of (map (\<lambda>(d, c). (d, cells s ! c)) (cell_of s)) dev = map_option (\<lambda>c. cells s ! c) (map_of (cell_of s) dev)"
  by (simp add: map_of_map)

lemma flat_set:
  assumes "tidy s" and "map_of (cell_of s) dev = Some c"
  shows "(flat s)\<lparr>pm_map := AList.update dev p (map (\<lambda>(d, c). (d, cells s ! c)) (cell_of s))\<rparr> =
     flat (s\<lparr>cells := (cells s)[c := p]\<rparr>)" and "tidy (s\<lparr>cells := (cells s)[c := p]\<rparr>)"
proof -
  have "AList.update dev p (map (\<lambda>(d, c). (d, f c)) m) = map (\<lambda>(d, c'). (d, (f(c := p)) c')) m"
    if "map_of m dev = Some c" "distinct (map snd m)" for m and f :: "nat \<Rightarrow> peer"
    using that by (induction m) (auto dest!: map_of_SomeD simp: image_iff, force)
  note this [of "cell_of s" "\<lambda>c. cells s ! c"]
  moreover have "map (\<lambda>(d, c'). (d, ((\<lambda>c. cells s ! c)(c := p)) c')) (cell_of s) =
      map (\<lambda>(d, c'). (d, (cells s)[c := p] ! c')) (cell_of s)"
    using assms(1) by (auto simp: tidy_def nth_list_update)
  ultimately show "(flat s)\<lparr>pm_map := AList.update dev p (map (\<lambda>(d, c). (d, cells s ! c)) (cell_of s))\<rparr> =
     flat (s\<lparr>cells := (cells s)[c := p]\<rparr>)"
    using assms by (simp add: flat_def hub.truncate_def tidy_def)
  show "tidy (s\<lparr>cells := (cells s)[c := p]\<rparr>)" using assms(1) by (simp add: tidy_def)
qed

lemma flat_new:
  fixes s :: "'w peer_hub_scheme" and p :: peer
  assumes "tidy s" and "map_of (cell_of s) dev = None"
  defines "s' \<equiv> s\<lparr>cells := cells s @ [p], cell_of := AList.update dev (length (cells s)) (cell_of s)\<rparr>"
  shows "(flat s)\<lparr>pm_map := AList.update dev p (map (\<lambda>(d, c). (d, cells s ! c)) (cell_of s))\<rparr> = flat s'"
    and "tidy s'" and "map_of (cell_of s') dev = Some (length (cells s))" and "cells s' ! length (cells s) = p"
proof -
  have new: "AList.update dev v m = m @ [(dev, v)]" if "map_of m dev = None" for v :: 'v and m
    using that by (induction m) (auto split: if_splits)
  have "map (\<lambda>(d, c). (d, (cells s @ [p]) ! c)) (cell_of s) = map (\<lambda>(d, c). (d, cells s ! c)) (cell_of s)"
    using assms(1) by (auto simp: tidy_def nth_append)
  then show "(flat s)\<lparr>pm_map := AList.update dev p (map (\<lambda>(d, c). (d, cells s ! c)) (cell_of s))\<rparr> = flat s'"
    using assms(2) by (simp add: s'_def flat_def hub.truncate_def new)
  show "tidy s'" using assms(1,2) by (auto simp: s'_def tidy_def new less_Suc_eq)
  show "map_of (cell_of s') dev = Some (length (cells s))" "cells s' ! length (cells s) = p"
    by (simp_all add: s'_def update_conv')
qed

lemma flat_limiter:
  "run_state (check_ip_blocker e ip dev) s = (b, s') \<Longrightarrow> run_state (check_ip_blocker e ip dev) (flat s) = (b, flat s')"
  by (auto simp: check_ip_blocker_def check_ids_def exec_simps Let_def split: option.splits if_splits)

lemma flat_changes:
  "run_state (record_ip_change e dev ip) s = (x, s') \<Longrightarrow> run_state (record_ip_change e dev ip) (flat s) = (x, flat s')"
  by (auto simp: record_ip_change_def exec_simps split: option.splits if_splits)

lemma flat_rows:
  "run_state (insert_peer e dev u k info) s = (r, s') \<Longrightarrow> run_state (insert_peer e dev u k info) (flat s) = (r, flat s')"
  "run_state (db_update_pk e g dev k info) s = (r2, s') \<Longrightarrow> run_state (db_update_pk e g dev k info) (flat s) = (r2, flat s')"
  by (auto simp: run_insert_peer run_db_update_pk Let_def split: if_splits)

lemma tidy_cells: "tidy s \<Longrightarrow> cells s' = cells s \<Longrightarrow> cell_of s' = cell_of s \<Longrightarrow> tidy s'"
  by (simp add: tidy_def)

lemma sections_make_lookup:
  assumes "tidy s" and "run_state (pm_get e dev) (flat s) = (r, h)"
  shows "\<exists>g s'. runs (get_section e dev) At_Map s g s' \<and> flat s' = h \<and> tidy s' \<and>
    (case r of None \<Rightarrow> g = Missing \<and> map_of (cell_of s') dev = None
     | Some p \<Rightarrow> \<exists>c. g = Found c \<and> map_of (cell_of s') dev = Some c \<and> cells s' ! c = p)"
proof (cases "map_of (cell_of s) dev")
  case (Some c)
  then have "run_state (get_section e dev At_Map) s = (Found c, s)" by (simp add: exec_simps)
  then show ?thesis using runs_one [of "get_section e dev"] assms Some by (fastforce simp: exec_simps)
next
  case None
  then have a: "run_state (get_section e dev At_Map) s = (At_Table, s)" by (simp add: exec_simps)
  let ?s1 = "s\<lparr>ticks := Suc (ticks s)\<rparr>"
  show ?thesis
  proof (cases "if sql_ok e (ticks s) then select_first (filter (\<lambda>r. row_id r = dev) (peer_rows s)) else None")
    case no: None
    then have "run_state (get_section e dev At_Table) s = (Missing, ?s1)"
      by (auto simp: exec_simps split: if_splits)
    then have "runs (get_section e dev) At_Map s Missing ?s1" using a by (blast intro: runs.intros)
    moreover have "r = None" and "h = flat ?s1"
      using assms(2) None no by (auto simp: exec_simps split: if_splits option.splits)
    moreover have "tidy ?s1" using assms(1) by (rule tidy_cells) simp_all
    ultimately show ?thesis using None by fastforce
  next
    case (Some v)
    let ?s2 = "s\<lparr>ticks := Suc (Suc (Suc (ticks s)))\<rparr>" and ?q = "row_peer e (Suc (ticks s)) v"
    let ?s3 = "?s2\<lparr>cells := cells ?s2 @ [?q], cell_of := AList.update dev (length (cells ?s2)) (cell_of ?s2)\<rparr>"
    have "run_state (get_section e dev At_Table) s = (At_Insert ?q, ?s2)"
      using Some by (auto simp: exec_simps row_peer_def split: if_splits)
    moreover have "run_state (get_section e dev (At_Insert ?q)) ?s2 = (Found (length (cells s)), ?s3)"
      by (simp add: exec_simps)
    ultimately have "runs (get_section e dev) At_Map s (Found (length (cells s))) ?s3"
      using a by (blast intro: runs.intros)
    moreover have tidy2: "tidy ?s2" using assms(1) by (auto intro: tidy_cells)
    moreover have "r = Some ?q" and "h = (flat ?s2)\<lparr>pm_map := AList.update dev ?q (pm_map (flat ?s2))\<rparr>"
      using assms(2) None Some by (auto simp: exec_simps split: if_splits option.splits)
    ultimately show ?thesis using flat_new [OF tidy2, of dev ?q] None
      by (intro exI [of _ "Found (length (cells s))"] exI [of _ ?s3]) simp
  qed
qed

lemma runs_get:
  "runs (get_section e (rk_id rk)) g s g' s' \<Longrightarrow> runs (pk_section e rk addr) (got g) s (got g') s'"
proof (induction rule: runs.induct)
  case (runs_next g s g1 s1 g2 s2)
  show ?case
  proof (cases "g = Missing \<or> (\<exists>c. g = Found c)")
    case True
    with runs_next show ?thesis by auto
  next
    case False
    then have "run_state (pk_section e rk addr (got g)) s = (got g1, s1)"
      using runs_next(1) by (cases g) (auto simp: exec_simps)
    with runs_next show ?thesis by (blast intro: runs.intros)
  qed
qed (rule runs_none)

lemma sections_make_get_or:
  assumes "tidy s"
  shows "\<exists>c s'. runs (pk_section e rk addr) (Getting At_Map) s (At_Check c) s' \<and> tidy s' \<and>
    map_of (cell_of s') (rk_id rk) = Some c \<and>
    run_state (pm_get_or e (rk_id rk)) (flat s) = (cells s' ! c, flat s')"
proof -
  obtain r h where get: "run_state (pm_get e (rk_id rk)) (flat s) = (r, h)" by force
  from sections_make_lookup [OF assms get] obtain g s' where
    g: "runs (get_section e (rk_id rk)) At_Map s g s'" "flat s' = h" "tidy s'" and
    r: "case r of None \<Rightarrow> g = Missing \<and> map_of (cell_of s') (rk_id rk) = None
     | Some p \<Rightarrow> \<exists>c. g = Found c \<and> map_of (cell_of s') (rk_id rk) = Some c \<and> cells s' ! c = p"
    by blast
  have run: "runs (pk_section e rk addr) (Getting At_Map) s (got g) s'" using runs_get [OF g(1)] by simp
  show ?thesis
  proof (cases r)
    case (Some p)
    then obtain c where c: "g = Found c" "map_of (cell_of s') (rk_id rk) = Some c" "cells s' ! c = p"
      using r by auto
    then show ?thesis
      using run g get Some by (intro exI [of _ c] exI [of _ s']) (simp add: pm_get_or_def exec_simps del: run_pm_get)
  next
    case None
    let ?d = "fst (run_state (default_peer e) s')" and ?t = "s'\<lparr>ticks := Suc (Suc (ticks s'))\<rparr>"
    let ?s2 = "?t\<lparr>cells := cells ?t @ [?d], cell_of := AList.update (rk_id rk) (length (cells ?t)) (cell_of ?t)\<rparr>"
    have tidy: "tidy ?t" using g(3) by (auto intro: tidy_cells)
    have "run_state (pk_section e rk addr (Getting Missing)) s' = (At_Check (length (cells s')), ?s2)"
      using r None by (simp add: get_or_write_def exec_simps)
    then have "runs (pk_section e rk addr) (Getting At_Map) s (At_Check (length (cells s'))) ?s2"
      using run r None by (auto simp del: pk_section.simps intro: runs_trans runs_one)
    moreover have "run_state (pm_get_or e (rk_id rk)) (flat s) =
        (?d, (flat ?t)\<lparr>pm_map := AList.update (rk_id rk) ?d (pm_map (flat ?t))\<rparr>)"
      using get None r g(2) [symmetric] by (simp add: pm_get_or_def exec_simps del: run_pm_get)
    ultimately show ?thesis using flat_new [OF tidy, of "rk_id rk" ?d] r None by fastforce
  qed
qed

lemma sections_make_update:
  assumes "tidy s" and "map_of (cell_of s) (rk_id rk) = Some c"
    and "run_state (pm_update_pk e (rk_id rk) (cells s ! c) addr (rk_uuid rk) (rk_pk rk)
      (show_ip (sock_ip addr))) (flat s) = (r, h)"
  shows "\<exists>s'. runs (pk_section e rk addr) (At_Store c) s (Answered OK) s' \<and> flat s' = h \<and> tidy s'"
proof -
  let ?dev = "rk_id rk" and ?ip = "show_ip (sock_ip addr)" and ?pk = "pk_section e rk addr"
  let ?t1 = "s\<lparr>ticks := Suc (ticks s)\<rparr>" and ?g = "guid (cells s ! c)"
  let ?w = "(cells s ! c)\<lparr>socket_addr := addr, uuid := rk_uuid rk, pk := rk_pk rk,
      last_reg_time := instant e (ticks s), info_ip := ?ip\<rparr>"
  let ?s1 = "?t1\<lparr>cells := (cells s)[c := ?w]\<rparr>" and ?info = "info_text e ?ip"
  have t1: "tidy ?t1" using assms(1) by (rule tidy_cells) simp_all
  have c1: "map_of (cell_of ?t1) ?dev = Some c" using assms(2) by simp
  note f1 = flat_set [OF t1 c1, of ?w]
  have len: "c < length (cells s)" using assms(1,2) by (force simp: tidy_def dest: map_of_SomeD)
  have r1: "runs ?pk (At_Store c) s (At_Row c ?g) ?s1" by (intro runs_one) (simp add: exec_simps)
  show ?thesis
  proof (cases "?g = []")
    case True
    obtain x s2 where ins: "run_state (insert_peer e ?dev (rk_uuid rk) (rk_pk rk) ?info) ?s1 = (x, s2)" by force
    note ins' = flat_rows(1) [OF ins]
    have same: "cells s2 = cells ?s1" "cell_of s2 = cell_of ?s1"
      using ins by (auto simp: run_insert_peer Let_def split: if_splits)
    have t2: "tidy s2" using tidy_cells [OF f1(2)] same by simp
    show ?thesis
    proof (cases x)
      case (Inl err)
      then have "runs ?pk (At_Row c ?g) ?s1 (Answered OK) s2"
        using ins True by (intro runs_one) (simp add: exec_simps)
      moreover have "h = flat s2"
        using assms(3) True f1(1) ins' Inl by (simp add: pm_update_pk_def exec_simps Let_def)
      ultimately show ?thesis using runs_trans [OF r1] t2 by blast
    next
      case (Inr g2)
      let ?s3 = "s2\<lparr>cells := (cells s2)[c := ?w\<lparr>guid := g2\<rparr>]\<rparr>"
      have c2: "map_of (cell_of s2) ?dev = Some c" using same assms(2) by simp
      note f3 = flat_set [OF t2 c2, of "?w\<lparr>guid := g2\<rparr>"]
      have r2: "runs ?pk (At_Row c ?g) ?s1 (At_Guid c g2) s2"
        using ins True Inr by (intro runs_one) (simp add: exec_simps)
      have r3: "runs ?pk (At_Guid c g2) s2 (Answered OK) ?s3"
        using same len by (intro runs_one) (simp add: exec_simps)
      have "h = flat ?s3"
        using assms(3) True f1(1) ins' Inr f3(1) by (simp add: pm_update_pk_def exec_simps Let_def)
      then show ?thesis using runs_trans [OF r1 runs_trans [OF r2 r3]] f3(2) by blast
    qed
  next
    case False
    obtain x s2 where upd: "run_state (db_update_pk e ?g ?dev (rk_pk rk) ?info) ?s1 = (x, s2)" by force
    note upd' = flat_rows(2) [OF upd]
    have same: "cells s2 = cells ?s1" "cell_of s2 = cell_of ?s1"
      using upd by (auto simp: run_db_update_pk split: if_splits)
    have "runs ?pk (At_Row c ?g) ?s1 (Answered OK) s2"
      using upd False by (intro runs_one) (simp add: exec_simps)
    moreover have "h = flat s2"
      using assms(3) False f1(1) upd' by (simp add: pm_update_pk_def exec_simps Let_def)
    moreover have "tidy s2" using tidy_cells [OF f1(2)] same by simp
    ultimately show ?thesis using runs_trans [OF r1] by blast
  qed
qed

lemma sections_make_count:
  assumes "tidy t" and "map_of (cell_of t) (rk_id rk) = Some c"
    and "run_state (do {
        put_peer (rk_id rk) ((cells t ! c)\<lparr>reg_pk := n\<rparr>);
        (if ipc then record_ip_change e (rk_id rk) (show_ip (sock_ip addr)) else State_Monad.return ());
        if changed then do {
          r \<leftarrow> pm_update_pk e (rk_id rk) ((cells t ! c)\<lparr>reg_pk := n\<rparr>) addr (rk_uuid rk) (rk_pk rk)
            (show_ip (sock_ip addr));
          State_Monad.return OK
        } else State_Monad.return OK
      }) (flat t) = (res, h)"
  shows "\<exists>s'. runs (pk_section e rk addr) (At_Count c changed ipc n) t (Answered res) s' \<and> flat s' = h \<and> tidy s'"
proof -
  let ?dev = "rk_id rk" and ?ip = "show_ip (sock_ip addr)" and ?pk = "pk_section e rk addr"
  let ?q = "(cells t ! c)\<lparr>reg_pk := n\<rparr>" and ?g = "if ipc then At_Change c changed else after_count c changed"
  let ?t1 = "t\<lparr>cells := (cells t)[c := ?q]\<rparr>"
  let ?rec = "if ipc then record_ip_change e ?dev ?ip else State_Monad.return ()"
  note f1 = flat_set [OF assms(1,2), of ?q]
  have len: "c < length (cells t)" using assms(1,2) by (force simp: tidy_def dest: map_of_SomeD)
  have r1: "runs ?pk (At_Count c changed ipc n) t ?g ?t1" by (intro runs_one) (simp add: exec_simps)
  obtain x s2 where rec: "run_state ?rec ?t1 = (x, s2)" by (metis prod.collapse)
  have rec': "run_state ?rec (flat ?t1) = (x, flat s2)"
    using rec flat_changes [of e ?dev ?ip ?t1 x s2] by (auto split: if_splits)
  have r2: "runs ?pk ?g ?t1 (after_count c changed) s2" and books: "bookkeeping ?t1 s2"
    using rec record_ip_change_books [of e ?dev ?ip ?t1 x s2]
    by (auto simp: exec_simps bookkeeping_def intro!: runs_one runs_none split: if_splits)
  note b = books_cells [OF books]
  have t2: "tidy s2" by (rule tidy_cells [OF f1(2) b(1,2)])
  have c2: "map_of (cell_of s2) ?dev = Some c" "cells s2 ! c = ?q" using b assms(2) len by simp_all
  have body: "run_state (if changed then do {
        r \<leftarrow> pm_update_pk e ?dev ?q addr (rk_uuid rk) (rk_pk rk) ?ip;
        State_Monad.return OK
      } else State_Monad.return OK) (flat s2) = (res, h)"
    using assms(3) f1(1) rec' by (simp add: exec_simps)
  show ?thesis
  proof (cases changed)
    case False
    then show ?thesis using runs_trans [OF r1 r2] body t2 by (auto simp: after_count_def exec_simps)
  next
    case True
    obtain r where upd: "run_state (pm_update_pk e ?dev ?q addr (rk_uuid rk) (rk_pk rk) ?ip) (flat s2) = (r, h)"
      and res: "res = OK"
      using body True by (auto simp: exec_simps split: prod.splits)
    obtain s' where "runs ?pk (At_Store c) s2 (Answered OK) s'" "flat s' = h" "tidy s'"
      using sections_make_update [OF t2 c2(1)] upd c2(2) by metis
    then show ?thesis using runs_trans [OF runs_trans [OF r1 r2], of "Answered OK" s'] res True
      by (auto simp: after_count_def)
  qed
qed

text \<open>
  A registration that runs on its own, from its first section to its last, gives the result and
  the state of \<open>register_pk_result\<close>.
\<close>

theorem sections_make_registration:
  assumes "tidy s" and "run_state (register_pk_result e rk addr) (flat s) = (res, h)"
  shows "\<exists>s'. runs (pk_section e rk addr) At_Limiter s (Answered res) s' \<and> flat s' = h \<and> tidy s'"
proof -
  let ?dev = "rk_id rk" and ?ip = "show_ip (sock_ip addr)" and ?pk = "pk_section e rk addr"
  obtain b s1 where lim: "run_state (check_ip_blocker e ?ip ?dev) s = (b, s1)" by force
  note lim' = flat_limiter [OF lim]
  have t1: "tidy s1" by (rule tidy_cells [OF assms(1) limiter_cells(1,2) [OF lim]])
  show ?thesis
  proof (cases "length ?dev < 6 \<or> \<not> b")
    case True
    show ?thesis
    proof (cases "length ?dev < 6")
      case True
      then have "runs ?pk At_Limiter s (Answered UUID_MISMATCH) s" by (intro runs_one) (simp add: exec_simps)
      then show ?thesis using assms True by (auto simp: register_pk_result_def exec_simps)
    next
      case False
      then have "runs ?pk At_Limiter s (Answered TOO_FREQUENT) s1"
        using \<open>length ?dev < 6 \<or> \<not> b\<close> lim by (intro runs_one) (simp add: exec_simps)
      then show ?thesis
        using assms False \<open>length ?dev < 6 \<or> \<not> b\<close> lim' t1 by (auto simp: register_pk_result_def exec_simps)
    qed
  next
    case go: False
    have r1: "runs ?pk At_Limiter s (Getting At_Map) s1"
      using go lim by (intro runs_one) (simp add: exec_simps)
    obtain c s2 where r2: "runs ?pk (Getting At_Map) s1 (At_Check c) s2" and t2: "tidy s2"
      and c: "map_of (cell_of s2) ?dev = Some c"
      and get: "run_state (pm_get_or e ?dev) (flat s1) = (cells s2 ! c, flat s2)"
      using sections_make_get_or [OF t1] by blast
    let ?p = "cells s2 ! c"
    have c_len: "c < length (cells s2)" using t2 c by (force simp: tidy_def dest: map_of_SomeD)
    note upto = runs_trans [OF r1 runs_trans [OF r2]]
    show ?thesis
    proof (cases "pk_verdict ?p rk ?ip")
      case None
      then have "runs ?pk (At_Check c) s2 (Answered UUID_MISMATCH) s2"
        by (intro runs_one) (simp add: exec_simps)
      then show ?thesis
        using upto assms(2) go lim' get None t2 by (auto simp: register_pk_result_def exec_simps)
    next
      case (Some v)
      obtain changed ipc where v: "v = (changed, ipc)" by force
      have r3: "runs ?pk (At_Check c) s2 (At_Counter c changed ipc) s2"
        using Some v by (intro runs_one) (simp add: exec_simps)
      let ?el = "as_secs (nat (instant e (ticks s2) - snd (reg_pk ?p)))"
      let ?t1 = "s2\<lparr>ticks := Suc (ticks s2)\<rparr>"
      have body: "run_state (register_pk_result e rk addr) (flat s) =
        run_state (if ?el \<le> 6 \<and> fst (reg_pk ?p) > 2 then State_Monad.return TOO_FREQUENT
          else do {
            t \<leftarrow> instant_now e;
            let q = ?p\<lparr>reg_pk := ((if ?el > 6 then 0 else fst (reg_pk ?p)) + 1, t)\<rparr>;
            put_peer ?dev q;
            (if ipc then record_ip_change e ?dev ?ip else State_Monad.return ());
            if changed then do {
              r \<leftarrow> pm_update_pk e ?dev q addr (rk_uuid rk) (rk_pk rk) ?ip;
              State_Monad.return OK
            } else State_Monad.return OK
          }) (flat ?t1)"
        using go lim' get Some v by (simp add: register_pk_result_def exec_simps Let_def)
      show ?thesis
      proof (cases "?el \<le> 6 \<and> fst (reg_pk ?p) > 2")
        case True
        then have "runs ?pk (At_Counter c changed ipc) s2 (Answered TOO_FREQUENT) ?t1"
          by (intro runs_one) (simp add: exec_simps)
        moreover have "tidy ?t1" using t2 by (rule tidy_cells) simp_all
        ultimately show ?thesis
          using upto r3 assms(2) body True by (auto simp: exec_simps intro: runs_trans)
      next
        case False
        let ?n = "((if ?el > 6 then 0 else fst (reg_pk ?p)) + 1, instant e (Suc (ticks s2)))"
        let ?t2 = "s2\<lparr>ticks := Suc (Suc (ticks s2))\<rparr>"
        have r4: "runs ?pk (At_Counter c changed ipc) s2 (At_Count c changed ipc ?n) ?t2"
          using False by (intro runs_one) (auto simp: exec_simps)
        have t2': "tidy ?t2" using t2 by (rule tidy_cells) simp_all
        have c2: "map_of (cell_of ?t2) ?dev = Some c" using c by simp
        have "\<exists>s'. runs ?pk (At_Count c changed ipc ?n) ?t2 (Answered res) s' \<and> flat s' = h \<and> tidy s'"
          using assms(2) body False
          by (intro sections_make_count [OF t2' c2]) (simp add: exec_simps Let_def cong: if_cong split del: if_split)
        then show ?thesis using upto r3 r4 by (blast intro: runs_trans)
      qed
    qed
  qed
qed

lemma sections_make_heartbeat:
  assumes "tidy s" and "run_state (register_peer_response e dev addr) (flat s) = (msg, h)"
  shows "\<exists>s'. runs (heartbeat_section e dev addr) Beat_Map s (Beat_Done msg) s' \<and> flat s' = h \<and> tidy s'"
proof (cases "map_of (cell_of s) dev")
  case None
  then have "runs (heartbeat_section e dev addr) Beat_Map s (Beat_Done (RegisterPeerResponse True)) s"
    by (intro runs_one) (simp add: exec_simps)
  then show ?thesis using assms None by (auto simp: register_peer_response_def exec_simps)
next
  case (Some c)
  let ?old = "cells s ! c" and ?t = "s\<lparr>ticks := Suc (ticks s)\<rparr>"
  let ?q = "?old\<lparr>socket_addr := addr, last_reg_time := instant e (ticks s)\<rparr>"
  have one: "runs (heartbeat_section e dev addr) Beat_Map s (Beat_Cell c) s"
    using Some by (intro runs_one) (simp add: exec_simps)
  show ?thesis
  proof (cases "pk ?old = [] \<or> ip_changed_of ?old addr")
    case True
    then have "runs (heartbeat_section e dev addr) (Beat_Cell c) s (Beat_Done (RegisterPeerResponse True)) s"
      by (intro runs_one) (simp add: exec_simps)
    then show ?thesis using runs_trans [OF one] assms Some True
      by (auto simp: register_peer_response_def exec_simps)
  next
    case False
    have t: "tidy ?t" using assms(1) by (rule tidy_cells) simp_all
    have c: "map_of (cell_of ?t) dev = Some c" using Some by simp
    have "runs (heartbeat_section e dev addr) (Beat_Cell c) s (Beat_Done (RegisterPeerResponse False))
        (?t\<lparr>cells := (cells ?t)[c := ?q]\<rparr>)"
      using False by (intro runs_one) (simp add: exec_simps)
    moreover have "msg = RegisterPeerResponse False" "h = flat (?t\<lparr>cells := (cells ?t)[c := ?q]\<rparr>)"
      using assms(2) Some False flat_set(1) [OF t c, of ?q]
      by (auto simp: register_peer_response_def exec_simps)
    ultimately show ?thesis using runs_trans [OF one] flat_set(2) [OF t c, of ?q] by blast
  qed
qed

text \<open>Such a run is one of the interleavings of \<open>task_step\<close>.\<close>

lemma runs_steps:
  "runs (pk_section e rk addr) g s g' s' \<Longrightarrow>
     (task_step e)\<^sup>*\<^sup>* (s, ts @ [Registering rk addr g]) (s', ts @ [Registering rk addr g'])"
proof (induction rule: runs.induct)
  case (runs_next g s g1 s1 g2 s2)
  have "task_step e (s, ts @ [Registering rk addr g]) (s1, (ts @ [Registering rk addr g])[length ts := Registering rk addr g1])"
    using runs_next(1) by (intro step_section) (simp_all add: exec_simps)
  then show ?case using runs_next(3) by (simp add: converse_rtranclp_into_rtranclp)
qed simp


section \<open>A concrete run\<close>

definition tasks_hub :: "peer_row list \<Rightarrow> peer_hub" where
  "tasks_hub rows = hub.extend (sample_hub\<lparr>pm_map := [], peer_rows := rows\<rparr>) (peer_hub.fields [] [])"

lemma tasks_hub_simps [simp]:
  "cells (tasks_hub rows) = []" "cell_of (tasks_hub rows) = []" "peer_rows (tasks_hub rows) = rows"
  "ip_blocker (tasks_hub rows) = []" "ticks (tasks_hub rows) = 0"
  by (simp_all add: tasks_hub_def hub.extend_def peer_hub.fields_def sample_hub_def)





text \<open>
  Two registrations of a new id that overlap: both compare their uuid with the empty peer before
  either has stored its own. Both are accepted, whatever the two uuids are; the peer in memory ends
  with the second uuid, the row of the table with the first uuid and the second key.
\<close>

lemma overlapping_registrations:
  fixes u1 u2 k1 k2 :: bytes
  defines "ra \<equiv> \<lparr>rk_id = ''fresh1'', rk_uuid = u1, rk_pk = k1\<rparr> :: register_pk"
    and "rb \<equiv> \<lparr>rk_id = ''fresh1'', rk_uuid = u2, rk_pk = k2\<rparr> :: register_pk"
  shows "\<exists>s r. schedule sample_hub_env [0, 0, 0, 0, 1, 1, 0, 1, 0, 0, 0, 0, 0, 1, 1, 1, 1]
      (tasks_hub [], [Registering ra (SockV4 1 4000) At_Limiter, Registering rb (SockV4 1 5000) At_Limiter]) =
      (s, [Registering ra (SockV4 1 4000) (Answered OK), Registering rb (SockV4 1 5000) (Answered OK)]) \<and>
    map_of (cell_of s) ''fresh1'' = Some 0 \<and> uuid (cells s ! 0) = u2 \<and>
    peer_rows s = [r] \<and> row_id r = ''fresh1'' \<and> row_uuid r = u1 \<and> row_pk r = k2"
  by (simp add: ra_def rb_def exec_simps check_ip_blocker_def check_ids_def as_secs_def pk_verdict_def
      run_insert_peer run_db_update_pk update_peer_row_def after_count_def get_or_write_def expired_at_def
      Let_def del: show_ip.simps)

text \<open>
  A lookup that has read the row of a peer and inserts it after a registration of the same id has
  stored a new key: the registration is accepted and in the table, but the map is back to the old key.
\<close>

lemma lookup_undoes_registration:
  defines "rk \<equiv> \<lparr>rk_id = ''desk01'', rk_uuid = [7], rk_pk = [9]\<rparr> :: register_pk"
  shows "\<exists>s r. schedule sample_hub_env [0, 0, 1, 1, 1, 1, 1, 1, 1, 1, 1, 0]
      (tasks_hub (peer_rows sample_hub),
       [Looking ''desk01'' At_Map, Registering rk (SockV4 3325256705 4000) At_Limiter]) =
      (s, [Looking ''desk01'' (Found 1), Registering rk (SockV4 3325256705 4000) (Answered OK)]) \<and>
    map_of (cell_of s) ''desk01'' = Some 1 \<and> pk (cells s ! 1) = [8] \<and>
    peer_rows s = [r] \<and> row_id r = ''desk01'' \<and> row_pk r = [9]"
proof -
  have ip: "show_v4 3325256705 = ''198.51.100.1''"
    by (simp only: show_v4_def) (simp add: show_nat_def show_base.simps digit_char_def)
  show ?thesis
    by (simp add: rk_def ip sample_hub_def exec_simps check_ip_blocker_def check_ids_def as_secs_def pk_verdict_def
        run_insert_peer run_db_update_pk update_peer_row_def after_count_def get_or_write_def expired_at_def
        Let_def)
qed

end
