(* ===== verification/Spec2Isabelle.thy ===== *)
theory Spec2Isabelle
  imports Deployment SelfTest Keys RelayMain HubMain DesktopService Utils RelayStream AccountMain Scenarios PeerTasks
begin

text \<open>
  openuu-server: the account service, the rendezvous server hbbs and the relay hbbr of the OpenUU remote
  desktop, and the desktop program that controls them on Windows.

  \<^bold>\<open>The program.\<close> A controller signs in at the account service (\<open>openuu-account\<close>, src/account) and gets a
  session token. A controlled peer registers its id and public key with hbbs (src/rendezvous_server),
  which keeps it in memory and in the database \<open>peer\<close> (src/peer.rs, src/database.rs). The controller asks hbbs
  for the peer with a \<open>PunchHoleRequest\<close> or a \<open>RequestRelay\<close> that carries its token; hbbs checks the token
  against the account database and forwards the request through the channel of its main loop. For a relay
  each end presents a ticket, issued from an open session for one relay uuid, to hbbr
  (src/relay_server), which redeems it in the database or over the internal HTTP endpoint, joins the two
  streams and copies bytes between them.

  \<^bold>\<open>The theories and the code they model.\<close>

  \<^item> \<open>Prelude\<close>, \<open>World\<close>, \<open>Net\<close>, \<open>Text\<close>, \<open>Decimal\<close>, \<open>Assoc\<close>, \<open>Float64\<close>: Rust's early returns, the requests a program makes to its
    environment (clock, random values, SQL, sockets), and what the source uses of the standard library:
    addresses, strings, maps, and \<open>f64\<close>. \<open>Part\<close>: a program on one part of a larger state.
  \<^item> \<open>Databases\<close>, \<open>AccountStore\<close>: the tables and SQL statements, and every method of \<open>Accounts\<close> (account/store.rs).
    \<open>RateLimit\<close>, \<open>AccountApi\<close>, \<open>Internal\<close>, \<open>AuditLog\<close>, \<open>Wol\<close>, \<open>Router\<close>: the handlers of account/mod.rs, api.rs, internal.rs,
    audit.rs and wol.rs, the router, and the administration tool (account_main.rs). \<open>Schema\<close>: how both programs
    open their database files and create the tables (store.rs, wol.rs, audit.rs, database.rs, peer.rs).
    \<open>AccountMain\<close>: the main function of the account service.
  \<^item> \<open>Hub\<close>, \<open>PeerDb\<close>: the state of hbbs (rendezvous_server/mod.rs), peer.rs and database.rs. \<open>Registration\<close>, \<open>PeerTasks\<close>,
    \<open>Sinks\<close>, \<open>Punch\<close>, \<open>Dispatch\<close>: registration and the IP tables (udp.rs, relay.rs), registration cut into the
    critical sections of concurrent tasks (peer.rs, udp.rs), TCP sinks (tcp_register.rs, tcp.rs), punching,
    relay choice and online queries (punch.rs, sessions.rs, relay.rs), and the message handlers
    (tcp.rs, udp.rs, io.rs). \<open>Secure\<close>: the encrypted handshake and the connection loops (secure.rs, io.rs).
    \<open>HubConsole\<close>: the console (console.rs). \<open>MainLoop\<close>: the event loop and the arguments (io.rs, mod.rs, main.rs, hbbr.rs).
    \<open>SelfTest\<close>: the server's test of itself (relay.rs, mod.rs). \<open>HubMain\<close>: the program from its arguments to its
    end, with its sockets and what it does when a socket fails. \<open>Signals\<close>: common/process.rs.
  \<^item> \<open>TicketDesk\<close>, \<open>RelayTicket\<close>, \<open>Relay\<close>: the contract of a ticket store, its HTTP client (relay_server/ticket.rs) and the
    pairing (connection.rs). \<open>RelayLoop\<close>: the copying loop and its limits (connection.rs); \<open>RelayStream\<close>: framed
    and WebSocket streams (stream.rs).
    \<open>RelayConsole\<close>: settings, address lists and console (relay_server/mod.rs, console.rs). \<open>RelayNode\<close>: the main task of hbbr;
    \<open>RelayMain\<close>: the program hbbr from its arguments to its end (hbbr.rs).
  \<^item> \<open>Args\<close>, \<open>Keys\<close>, \<open>Proxy\<close>: settings by name (common/args.rs), the key pair (common/keys.rs, the two \<open>get_server_sk\<close>, utils.rs),
    and the client address behind a reverse proxy. \<open>Utils\<close>: the commands of openuu-utils (utils.rs) and the
    version check (common/process.rs). \<open>Desktop\<close>: presenter, window and watcher of src/ui; \<open>DesktopService\<close>: the
    commands by which it controls the Windows service (adapter/service/windows.rs, watcher.rs).
  \<^item> \<open>StoreFrame\<close> and \<open>HubFrame\<close> carry an invariant through every operation of the account service and of hbbs;
    \<open>Tables\<close> uses them for the type of the whole state, \<open>Deployment\<close> for an installation of all programs.
  \<^item> \<open>Scenarios\<close> is the tests that stand in the source files, run on the model. \<open>Sample\<close> is the concrete world on
    which the witnesses run. This theory holds what spans programs.

  \<^bold>\<open>How code becomes definitions.\<close> An operation is a function in the state monad over a record of the
  component's state; a record extends the one of the component below, so an operation of a lower layer
  runs unchanged on the state of a higher one. A fallible operation returns a sum, and every early return
  is a branch. Counters and sizes are words of their width and wrap. Where tasks share state the
  interleavings are the runs of an \<open>inductive\<close> step relation; the locale \<open>machine\<close> turns an inductive
  invariant into one of all reachable states. A step is one critical section in \<open>sink_step\<close> (the TCP sinks),
  \<open>pair_step\<close> (the waiting streams of hbbr), \<open>task_step\<close> (the peers of hbbs) and \<open>desktop_step\<close>; it is a whole handler in
  \<open>secure_step\<close>, \<open>loop_step\<close> and the steps of \<open>Tables\<close> and \<open>Deployment\<close>. The handlers there call \<open>register_pk_result\<close>, \<open>pm_get\<close> and
  the other operations of \<open>PeerDb\<close> and \<open>Registration\<close> from beginning to end, which is what their sections do when
  nothing comes in between (\<open>sections_make_registration\<close>); what other tasks can do in between is in \<open>PeerTasks\<close>. What a \<open>select!\<close> sees is a list of events, in the order in which it takes them.

  \<^bold>\<open>What is shown.\<close>

  \<^item> Accounts: a ticket is accepted exactly when its conditions hold, never more often than issued; a
    disabled, deleted or re-keyed account loses sessions and tickets at once; no route but login and the
    internal endpoint works without a session; the rate limits bound what passes.
  \<^item> Rendezvous: once an id has a uuid and no registration of it is half done, no interleaving of tasks
    changes the uuid, and only registrations with it are accepted; a registration that runs alone is
    refused when it does not fit what is known, also from the table, and never touches another id; a punch
    or relay request without a live session has no effect; a relay request carries a ticket just issued
    for its uuid and not the session; a connection's sink never sits in two places, and on a secured
    connection everything after the offer is encrypted; the servers offered are ones that resolved.
  \<^item> Relay: in every interleaving two joined connections have presented two different accepted tickets for
    one uuid; the copying loop refines copying each side's non-empty chunks in order; each is charged
    once to each limiter; a silent session ends; an ended session leaves no trace in the tables. The two
    streams may be of different kinds, and each is written to in its own framing.
  \<^item> Starting and running: both programs complete their schema after any interrupted starts; hbbs listens
    only with its database open, and at every time exactly at its places, however often sockets fail; hbbr
    refuses the addresses of its block list file until a command takes them off.
  \<^item> Across programs: an installation refines injective agreement on tickets, and both ends of a relay
    were entitled to it (\<open>Deployment\<close>); a relay that hbbs agrees to comes about at hbbr; programs given the
    same port do not collide (below); both programs end up with the same key.
  \<^item> Where the code does something else than it means to, the theorem says what it does (for instance
    \<open>overlapping_registrations\<close>, \<open>mapped_address_escapes_lists\<close>, \<open>stale_sink_put_back\<close>, \<open>stale_probe_result_sticks\<close>, \<open>desktop_can_freeze\<close>).

  \<^bold>\<open>Interfaces.\<close> \<open>ticket_desk\<close> is what a relay needs of a ticket store, interpreted on the store in the process and on the
  HTTP client with the account service at its other end; \<open>relay_desk\<close> adds other users of the store. \<open>machine\<close> is
  interpreted on every step relation, \<open>simulation\<close> relates two of them. \<open>account_invariant\<close>, \<open>service_invariant\<close>,
  \<open>registration_frame\<close> and \<open>hub_invariant\<close> ask that the few primitive operations keep a predicate and give that all
  handlers do. \<open>part\<close> is a component's state inside a program's. Rate limiter and peer cache have locales of their own.

  \<^bold>\<open>Bounds.\<close> Loops over data are structural recursions, and loops over time recursions over a list of events, so
  no fuel is needed. \<open>regenerate\<close> has the 300 tries of the source. \<open>valid_utf8\<close> has a termination proof.

  \<^bold>\<open>Parameters.\<close> SHA-256, bcrypt, base64, ed25519, boxes, protobuf, JSON, HTTP, URL and address parsing, DNS,
  \<open>try_into_v4\<close> and the address mangling of hbb_common are fields of the environment records. What a theorem needs of
  them is among its hypotheses (\<open>wire_ok\<close>, \<open>crypto_ok\<close>) and holds in the sample world.

  \<^bold>\<open>Not modelled.\<close> Waiting (at limiters, locks and timers other than those named), the contents of log lines, the printing of
  floating-point numbers, opening sockets and files beyond whether it succeeds, the parsers of command
  lines and ini files and of HTTP requests (clap, rust-ini, axum), the building of menus and window, the web page of the
  desktop program, the build scripts, and the tests that need sockets of their own.
\<close>

section \<open>From a request to a connected pair\<close>





section \<open>Properties\<close>






lemma wrap32_id: "- (2 ^ 31) \<le> v \<Longrightarrow> v < 2 ^ 31 \<Longrightarrow> wrap32 v = v"
  by (simp add: wrap32_def signed_take_bit_int_eq_self)

lemma start_server_ports:
  "run_state (start_server e c en port ser server_key) h = ((ml, natp, wsp), h') \<Longrightarrow>
     natp = wrap32 (port - 1) \<and> wsp = wrap32 (port + 2)"
  by (auto simp: start_server_def read_always_use_relay_def exec_simps Let_def split: if_splits)

text \<open>
  C33: hbbs and hbbr given the same port on one host never want the same port: with the port \<open>v\<close> as
  hbbs's argument and as \<open>PORT\<close> in hbbr's environment, hbbs listens on \<open>v - 1\<close>, \<open>v\<close> and \<open>v + 2\<close>, and
  hbbr on \<open>v + 1\<close> and \<open>v + 3\<close>, as long as these fit in 16 bits.
\<close>

theorem ports_do_not_collide:
  assumes "hbbs_main e c en = Inr cf"
    and "run_state (start_server e c en' (cf_port cf) ser server_key) h = ((ml, natp, wsp), h')"
    and "get_arg_opt c' ''PORT'' en2 = Some (get_arg_or c ''port'' (rendezvous_port e) en)" and "opt ''port'' = None"
    and "hbbr_main e' c' opt en2 = Inr (port_text, ip, relay_key)"
    and "run_state (start_lists black block port_text) r = (res, r')" and "cf_port cf + 3 < 2 ^ 16"
  shows "natp = cf_port cf - 1 \<and> wsp = cf_port cf + 2 \<and>
    (\<exists>p p2. res = Inr (p, p2) \<and> uint p = cf_port cf + 1 \<and> uint p2 = cf_port cf + 3) \<and> 3 \<le> cf_port cf"
proof -
  let ?v = "cf_port cf" and ?t = "get_arg_or c ''port'' (rendezvous_port e) en"
  have v: "parse_signed 32 ?t = Some ?v" "3 \<le> ?v"
    using assms(1) by (auto simp: hbbs_main_def split: option.splits if_splits sum.splits)
  have "port_text = show_int (?v + 1)"
    using assms(3,4,5,7) v
    by (auto simp: hbbr_main_def i32_or_def Let_def wrap32_id split: sum.splits)
  then have shown: "port_text = show_nat (nat (?v + 1))" using v(2) by (simp add: show_int_def)
  have "parse_unsigned 16 port_text = Some (nat (?v + 1))"
    unfolding shown using v(2) assms(7) by (intro parse_show) simp
  then have "res = Inr (of_nat (nat (?v + 1)), of_nat (nat (?v + 1)) + 2)"
    using assms(6) by (auto simp: start_lists_def exec_simps split: option.splits)
  then have "res = Inr (of_int (?v + 1), of_int (?v + 3))"
    using v(2) by (simp add: add.commute)
  moreover have "uint (of_int (?v + 1) :: 16 word) = ?v + 1" "uint (of_int (?v + 3) :: 16 word) = ?v + 3"
    using v(2) assms(7) by (simp_all add: unsigned_of_int take_bit_int_eq_self del: of_int_add)
  moreover have "natp = ?v - 1 \<and> wsp = ?v + 2"
    using start_server_ports [OF assms(2)] v(2) assms(7) by (simp add: wrap32_id)
  ultimately show ?thesis using v(2) by blast
qed

lemma ports_do_not_collide_witness:
  "\<exists>cf res. hbbs_main sample_loop_env sample_case [(''PORT'', ''30000'')] = Inr cf \<and>
     fst (run_state (start_lists None None (fst (projr (hbbr_main sample_loop_env sample_case (\<lambda>_. None) [(''PORT'', ''30000'')]))))
       sample_relay) = Inr res \<and> uint (fst res) = 30001 \<and> uint (snd res) = 30003"
proof -
  let ?en = "[(''PORT'', ''30000'')]"
  have arg: "get_arg_opt sample_case ''PORT'' ?en = Some ''30000''" "get_arg_opt sample_case ''port'' ?en = Some ''30000''"
    "get_arg sample_case ''bind'' ?en = ''''" "get_arg sample_case ''BIND'' ?en = ''''" by code_simp+
  have t: "trim '''' = ''''" "parse_signed 32 ''30000'' = Some 30000"
    by (simp add: trim_def, simp add: parse_signed_def digit_of_def)
  have bind: "parse_bind_address e '''' = Inr None" for e :: loop_env by (simp add: parse_bind_address_def t)
  have given: "get_arg_or sample_case ''port'' d ?en = ''30000''" for d by (simp add: get_arg_or_def arg)
  obtain cf where cf: "hbbs_main sample_loop_env sample_case ?en = Inr cf" "cf_port cf = 30000"
    by (simp add: hbbs_main_def given arg t bind)
  obtain pt ip k where m: "hbbr_main sample_loop_env sample_case (\<lambda>_. None) ?en = Inr (pt, ip, k)"
    using arg by (simp add: hbbr_main_def bind Let_def)
  obtain ml np wp h' where st: "run_state (start_server sample_loop_env sample_case [] (cf_port cf) 0 None) sample_hub = ((ml, np, wp), h')"
    by (metis prod.collapse)
  obtain res r' where l: "run_state (start_lists None None pt) sample_relay = (res, r')" by (metis prod.collapse)
  have "get_arg_opt sample_case ''PORT'' ?en = Some (get_arg_or sample_case ''port'' (rendezvous_port sample_loop_env) ?en)"
    using arg by (simp add: get_arg_or_def)
  from ports_do_not_collide [OF cf(1) st this _ m l] cf m l show ?thesis by auto
qed

end
